(* ===== verification/Prelude.thy ===== *)
theory Prelude
  imports Main "HOL-Library.AList" "HOL-Library.Sublist" "HOL-Library.List_Lexorder"
begin

text \<open>
  What the component theories share: Python strings as lists of code points, the string
  operations the proxy uses (\<open>find\<close>, \<open>rfind\<close>, \<open>partition\<close>, \<open>split\<close>, \<open>strip\<close>,
  \<open>splitlines\<close>, \<open>join\<close>), insertion-ordered dictionaries as association lists, and the
  lemma collections \<open>dict_simps\<close>, \<open>pystr_simps\<close> and \<open>event_simps\<close> the component proofs
  pass to the simplifier.
\<close>

named_theorems dict_simps "lookup, update and delete of insertion-ordered dictionaries"
named_theorems pystr_simps "Python string operations"
named_theorems event_simps "server-sent events and their classification"

section \<open>Python strings\<close>

text \<open>
  A Python \<open>str\<close> is a sequence of code points; \<open>len\<close>, slicing and \<open>find\<close> count code points.
  The model keeps that: a string is a list of integers, and an ASCII literal of the source is
  written \<open>u ''...''\<close>.
\<close>

type_synonym pystr = "int list"

definition u :: "string \<Rightarrow> pystr" where
  "u s = map of_char s"

lemma u_eq_iff [simp]: "u s = u t \<longleftrightarrow> s = t"
  unfolding u_def by (metis inj_map_eq_map inj_of_char)

lemma u_Nil [simp]: "u [] = []"
  by (simp add: u_def)

lemma u_eq_Nil_iff [simp]: "u s = [] \<longleftrightarrow> s = []" "[] = u s \<longleftrightarrow> s = []"
  by (auto simp: u_def)

lemma length_u [simp]: "length (u s) = length s"
  by (simp add: u_def)

lemma u_append: "u (s @ t) = u s @ u t"
  by (simp add: u_def)

lemma u_Cons: "u (c # s) = of_char c # u s"
  by (simp add: u_def)

section \<open>String operations\<close>

definition startswith :: "'a list \<Rightarrow> 'a list \<Rightarrow> bool" where
  "startswith s p = prefix p s"

definition endswith :: "'a list \<Rightarrow> 'a list \<Rightarrow> bool" where
  "endswith s p = suffix p s"

text \<open>\<open>s.find(p)\<close>: the least index where \<open>p\<close> occurs, \<open>None\<close> for Python's \<open>-1\<close>.\<close>

fun find_sub :: "'a list \<Rightarrow> 'a list \<Rightarrow> nat option" where
  "find_sub p [] = (if p = [] then Some 0 else None)"
| "find_sub p (x # xs) =
     (if prefix p (x # xs) then Some 0 else map_option Suc (find_sub p xs))"

text \<open>\<open>s.rfind(p)\<close>: the greatest index where \<open>p\<close> occurs.\<close>

fun rfind_sub :: "'a list \<Rightarrow> 'a list \<Rightarrow> nat option" where
  "rfind_sub p [] = (if p = [] then Some 0 else None)"
| "rfind_sub p (x # xs) =
     (case rfind_sub p xs of
        Some n \<Rightarrow> Some (Suc n)
      | None \<Rightarrow> (if prefix p (x # xs) then Some 0 else None))"

definition contains :: "'a list \<Rightarrow> 'a list \<Rightarrow> bool" where
  "contains s p = (find_sub p s \<noteq> None)"

text \<open>\<open>s.partition(sep)\<close>: head, separator (empty when not found) and tail.\<close>

definition partition_at :: "'a list \<Rightarrow> 'a list \<Rightarrow> 'a list \<times> 'a list \<times> 'a list" where
  "partition_at s sep =
     (case find_sub sep s of
        None \<Rightarrow> (s, [], [])
      | Some n \<Rightarrow> (take n s, sep, drop (n + length sep) s))"

text \<open>\<open>sep.join(parts)\<close>.\<close>

fun join :: "'a list \<Rightarrow> 'a list list \<Rightarrow> 'a list" where
  "join sep [] = []"
| "join sep [x] = x"
| "join sep (x # y # ys) = x @ sep @ join sep (y # ys)"

text \<open>The code points that \<open>str.strip()\<close>, \<open>str.split()\<close> and the regular expression \<open>\s\<close> treat
  as white space.\<close>

definition is_space :: "int \<Rightarrow> bool" where
  "is_space c = (c \<in> {9, 10, 11, 12, 13, 28, 29, 30, 31, 32, 133, 160, 5760,
     8192, 8193, 8194, 8195, 8196, 8197, 8198, 8199, 8200, 8201, 8202,
     8232, 8233, 8239, 8287, 12288})"

definition lstrip :: "pystr \<Rightarrow> pystr" where
  "lstrip s = dropWhile is_space s"

definition rstrip :: "pystr \<Rightarrow> pystr" where
  "rstrip s = rev (dropWhile is_space (rev s))"

definition strip :: "pystr \<Rightarrow> pystr" where
  "strip s = rstrip (lstrip s)"

text \<open>\<open>s.split()\<close>.\<close>

fun split_acc :: "pystr \<Rightarrow> pystr \<Rightarrow> pystr list" where
  "split_acc acc [] = (if acc = [] then [] else [acc])"
| "split_acc acc (c # cs) =
     (if is_space c then (if acc = [] then split_acc [] cs else acc # split_acc [] cs)
      else split_acc (acc @ [c]) cs)"

definition py_split :: "pystr \<Rightarrow> pystr list" where
  "py_split s = split_acc [] s"

text \<open>\<open>s.splitlines()\<close> cuts at every line boundary of Python's table (a carriage return and
  line feed pair counts once) and yields no empty last line.\<close>

definition is_linebreak :: "int \<Rightarrow> bool" where
  "is_linebreak c = (c \<in> {10, 11, 12, 13, 28, 29, 30, 133, 8232, 8233})"

fun splitlines_acc :: "pystr \<Rightarrow> pystr \<Rightarrow> pystr list" where
  "splitlines_acc acc [] = (if acc = [] then [] else [rev acc])"
| "splitlines_acc acc (c # cs) =
     (if is_linebreak c then
        (case cs of
           [] \<Rightarrow> [rev acc]
         | d # ds \<Rightarrow> rev acc # splitlines_acc [] (if c = 13 \<and> d = 10 then ds else d # ds))
      else splitlines_acc (c # acc) cs)"

definition splitlines :: "pystr \<Rightarrow> pystr list" where
  "splitlines s = splitlines_acc [] s"

text \<open>\<open>str(n)\<close> of an integer.\<close>

fun nat_text :: "nat \<Rightarrow> pystr" where
  "nat_text n = (if n < 10 then [48 + int n] else nat_text (n div 10) @ [48 + int (n mod 10)])"

declare nat_text.simps [simp del]

definition int_text :: "int \<Rightarrow> pystr" where
  "int_text i = (if i < 0 then u ''-'' @ nat_text (nat (- i)) else nat_text (nat i))"

section \<open>Occurrences\<close>

lemma find_sub_Some_prefix: "find_sub p s = Some n \<Longrightarrow> prefix p (drop n s) \<and> n \<le> length s"
  by (induction s arbitrary: n) (auto split: if_splits)

lemma find_sub_Some_least: "find_sub p s = Some n \<Longrightarrow> i < n \<Longrightarrow> \<not> prefix p (drop i s)"
proof (induction s arbitrary: n i)
  case Nil
  then show ?case by (auto split: if_splits)
next
  case (Cons x xs)
  then show ?case by (cases i) (auto split: if_splits)
qed

lemma find_sub_None: "find_sub p s = None \<Longrightarrow> \<not> prefix p (drop i s)"
proof (induction s arbitrary: i)
  case Nil
  then show ?case by (auto split: if_splits)
next
  case (Cons x xs)
  then show ?case by (cases i) (auto split: if_splits)
qed

lemma find_sub_Some_split:
  assumes "find_sub p s = Some n"
  shows "s = take n s @ p @ drop (n + length p) s" and "n + length p \<le> length s"
proof -
  from find_sub_Some_prefix [OF assms]
  obtain r where r: "drop n s = p @ r" and n: "n \<le> length s" by (auto simp: prefix_def)
  from r have "r = drop (n + length p) s"
    by (metis add.commute append_eq_conv_conj drop_drop)
  with r show "s = take n s @ p @ drop (n + length p) s"
    by (metis append_take_drop_id)
  from r have "length (drop n s) = length p + length r" by simp
  with n show "n + length p \<le> length s" by simp
qed

lemma rfind_sub_Some_prefix: "rfind_sub p s = Some n \<Longrightarrow> prefix p (drop n s) \<and> n \<le> length s"
  by (induction s arbitrary: n) (auto split: if_splits option.splits)

lemma rfind_sub_None: "rfind_sub p s = None \<longleftrightarrow> find_sub p s = None"
  by (induction s) (auto split: option.splits)

lemma rfind_sub_singleton_None: "rfind_sub [c] s = None \<longleftrightarrow> c \<notin> set s"
  by (induction s) (auto split: option.splits)

lemma rfind_sub_singleton_Some:
  "rfind_sub [c] s = Some n \<Longrightarrow> n < length s \<and> s ! n = c \<and> c \<notin> set (drop (Suc n) s)"
proof (induction s arbitrary: n)
  case Nil
  then show ?case by simp
next
  case (Cons x xs)
  then show ?case
    by (auto split: option.splits if_splits simp: rfind_sub_singleton_None)
qed

lemma rfind_sub_singleton_eq:
  "n < length s \<Longrightarrow> s ! n = c \<Longrightarrow> c \<notin> set (drop (Suc n) s) \<Longrightarrow> rfind_sub [c] s = Some n"
proof (induction s arbitrary: n)
  case Nil
  then show ?case by simp
next
  case (Cons x xs)
  show ?case
  proof (cases n)
    case 0
    with Cons.prems have "rfind_sub [c] xs = None" by (simp add: rfind_sub_singleton_None)
    with 0 Cons.prems show ?thesis by simp
  next
    case (Suc m)
    with Cons.prems Cons.IH [of m] show ?thesis by simp
  qed
qed

lemma find_sub_append_notin:
  "c \<notin> set xs \<Longrightarrow> find_sub (c # p) (xs @ c # p @ ys) = Some (length xs)"
  by (induction xs) auto

lemma partition_at_char:
  "c \<notin> set xs \<Longrightarrow> partition_at (xs @ c # ys) [c] = (xs, [c], ys)"
  using find_sub_append_notin [of c xs "[]" ys] by (simp add: partition_at_def)

lemma find_sub_char_None: "find_sub [c] s = None \<longleftrightarrow> c \<notin> set s"
  by (induction s) auto

lemma partition_at_char_notin:
  "c \<notin> set xs \<Longrightarrow> partition_at xs [c] = (xs, [], [])"
  by (simp add: partition_at_def find_sub_char_None [THEN iffD2])

lemma takeWhile_neq_split:
  "length (takeWhile (\<lambda>c. c \<noteq> x) s) < length s
   \<Longrightarrow> s = takeWhile (\<lambda>c. c \<noteq> x) s @ x # drop (Suc (length (takeWhile (\<lambda>c. c \<noteq> x) s))) s"
  by (induction s) auto

lemma takeWhile_neq_notin: "x \<notin> set (takeWhile (\<lambda>c. c \<noteq> x) s)"
  by (auto dest: set_takeWhileD)

lemma takeWhile_neq_append: "x \<notin> set xs \<Longrightarrow> takeWhile (\<lambda>c. c \<noteq> x) (xs @ x # ys) = xs"
  by (induction xs) auto

section \<open>Insertion-ordered dictionaries\<close>

text \<open>
  A Python \<open>dict\<close> keeps insertion order and an assignment to a present key keeps its place.
  An association list with \<open>AList.update\<close> (in place, else appended) and \<open>AList.delete\<close> does the
  same; \<open>d[k]\<close> is \<open>map_of d k\<close>.
\<close>

type_synonym ('k, 'v) dict = "('k \<times> 'v) list"

definition has_key :: "('k, 'v) dict \<Rightarrow> 'k \<Rightarrow> bool" where
  "has_key d k = (map_of d k \<noteq> None)"

definition get_or :: "('k, 'v) dict \<Rightarrow> 'k \<Rightarrow> 'v \<Rightarrow> 'v" where
  "get_or d k v = (case map_of d k of None \<Rightarrow> v | Some w \<Rightarrow> w)"

lemma map_of_update [simp, dict_simps]: "map_of (AList.update k v d) = (map_of d)(k \<mapsto> v)"
  by (rule update_conv')

lemma map_of_delete [simp, dict_simps]: "map_of (AList.delete k d) = (map_of d)(k := None)"
  by (rule delete_conv')

lemma has_key_update [simp, dict_simps]: "has_key (AList.update k v d) k' \<longleftrightarrow> k' = k \<or> has_key d k'"
  by (simp add: has_key_def)

lemma has_key_delete [simp, dict_simps]: "has_key (AList.delete k d) k' \<longleftrightarrow> k' \<noteq> k \<and> has_key d k'"
  by (simp add: has_key_def)

lemma has_key_iff: "has_key d k \<longleftrightarrow> k \<in> fst ` set d"
  by (simp add: has_key_def map_of_eq_None_iff)

lemma distinct_keys_update [simp, dict_simps]:
  "distinct (map fst d) \<Longrightarrow> distinct (map fst (AList.update k v d))"
  by (rule distinct_update)

lemma distinct_keys_delete [simp, dict_simps]:
  "distinct (map fst d) \<Longrightarrow> distinct (map fst (AList.delete k d))"
  by (simp add: distinct_delete)

lemma set_update_subset: "set (AList.update k v d) \<subseteq> insert (k, v) (set d)"
  by (induction d) auto

lemma update_all:
  assumes "\<forall>(k, v) \<in> set d. P k v" and "P k v"
  shows "\<forall>(k', v') \<in> set (AList.update k v d). P k' v'"
  using assms set_update_subset [of k v d] by fastforce

lemma map_of_all_None: "(\<And>i. map_of l i = None) \<Longrightarrow> l = []"
  by (metis list.exhaust map_of_Cons_code(2) option.distinct(1) surj_pair)

section \<open>Options\<close>

lemma map_option_SomeD: "map_option f x = Some y \<Longrightarrow> \<exists>s. x = Some s \<and> f s = y"
  by auto

end
