(* ===== verification/Errors.thy ===== *)
theory Errors
  imports Prelude
begin

text \<open>
  Exceptions and what the user sees of them (\<open>providers/exceptions.py\<close>,
  \<open>providers/error_mapping.py\<close>, \<open>core/anthropic/errors.py\<close>). An exception is the class an
  \<open>isinstance\<close> test of the source can find it in, its own class name, its \<open>status_code\<close>
  attribute if it has one, the status of the response it carries, and its text. Arguments of
  the model: \<open>lower\<close>, Python's \<open>str.lower\<close> (Unicode data), and the text \<open>f"{s:g}"\<close> gives for the
  read timeout.
\<close>

section \<open>Exceptions\<close>

datatype exn_class =
    HttpxReadTimeout
  | HttpxConnectTimeout
  | BuiltinTimeout
  | OpenaiAuthenticationError
  | OpenaiRateLimitError
  | OpenaiBadRequestError
  | OpenaiInternalServerError
  | OpenaiOtherAPIError
  | HttpxStatusError
  | ProviderErrorClass
  | OtherException

record exn =
  ex_class :: exn_class
  ex_name :: pystr
  ex_status_code :: "int option"
  ex_response_status :: int
  ex_str :: pystr
  ex_error_type :: pystr

definition provider_error :: "string \<Rightarrow> pystr \<Rightarrow> int \<Rightarrow> string \<Rightarrow> exn" where
  "provider_error name message status_code error_type =
     \<lparr>ex_class = ProviderErrorClass, ex_name = u name, ex_status_code = Some status_code,
      ex_response_status = 0, ex_str = message, ex_error_type = u error_type\<rparr>"

definition authentication_error :: "pystr \<Rightarrow> exn" where
  "authentication_error message =
     provider_error ''AuthenticationError'' message 401 ''authentication_error''"

definition invalid_request_error :: "pystr \<Rightarrow> exn" where
  "invalid_request_error message =
     provider_error ''InvalidRequestError'' message 400 ''invalid_request_error''"

definition rate_limit_error :: "pystr \<Rightarrow> exn" where
  "rate_limit_error message = provider_error ''RateLimitError'' message 429 ''rate_limit_error''"

definition overloaded_error :: "pystr \<Rightarrow> exn" where
  "overloaded_error message = provider_error ''OverloadedError'' message 529 ''overloaded_error''"

definition api_error :: "pystr \<Rightarrow> int \<Rightarrow> exn" where
  "api_error message status_code = provider_error ''APIError'' message status_code ''api_error''"

section \<open>The message for the user\<close>

definition get_user_facing_error_message :: "exn \<Rightarrow> pystr option \<Rightarrow> pystr" where
  "get_user_facing_error_message e read_timeout_s =
     (let timed_out = (\<lambda>plain. case read_timeout_s of
            Some t \<Rightarrow> u ''Provider request timed out after '' @ t @ u ''s.'' | None \<Rightarrow> u plain);
          name = ex_name e
      in if ex_class e = HttpxReadTimeout then timed_out ''Provider request timed out.''
         else if ex_class e = HttpxConnectTimeout then u ''Could not connect to provider.''
         else if ex_class e = BuiltinTimeout then timed_out ''Request timed out.''
         else if ex_class e = OpenaiRateLimitError
         then u ''Provider rate limit reached. Please retry shortly.''
         else if ex_class e = OpenaiAuthenticationError
         then u ''Provider authentication failed. Check API key.''
         else if ex_class e = OpenaiBadRequestError then u ''Invalid request sent to provider.''
         else if name = u ''RateLimitError''
         then u ''Provider rate limit reached. Please retry shortly.''
         else if name = u ''AuthenticationError''
         then u ''Provider authentication failed. Check API key.''
         else if name = u ''InvalidRequestError'' then u ''Invalid request sent to provider.''
         else if name = u ''OverloadedError''
         then u ''Provider is currently overloaded. Please retry.''
         else if name = u ''APIError''
         then (if ex_status_code e \<in> {Some 502, Some 503, Some 504}
               then u ''Provider is temporarily unavailable. Please retry.''
               else u ''Provider API request failed.'')
         else if endswith name (u ''ProviderError'') then u ''Provider request failed.''
         else if strip (ex_str e) \<noteq> [] then strip (ex_str e)
         else u ''Provider request failed unexpectedly.'')"

definition append_request_id :: "pystr \<Rightarrow> pystr option \<Rightarrow> pystr" where
  "append_request_id message request_id =
     (let base = (if strip message \<noteq> [] then strip message
                  else u ''Provider request failed unexpectedly.'')
      in case request_id of
           None \<Rightarrow> base
         | Some r \<Rightarrow> if r = [] then base else base @ u '' (request_id='' @ r @ u '')'')"

section \<open>Mapping upstream exceptions\<close>

text \<open>The second component is whether the limiter is told to block for 60 seconds.\<close>

definition map_error :: "(pystr \<Rightarrow> pystr) \<Rightarrow> exn \<Rightarrow> exn \<times> bool" where
  "map_error lower e =
     (let message = get_user_facing_error_message e None
      in if ex_class e = OpenaiAuthenticationError then (authentication_error message, False)
         else if ex_class e = OpenaiRateLimitError then (rate_limit_error message, True)
         else if ex_class e = OpenaiBadRequestError then (invalid_request_error message, False)
         else if ex_class e = OpenaiInternalServerError
         then (if contains (lower (ex_str e)) (u ''overloaded'')
                  \<or> contains (lower (ex_str e)) (u ''capacity'')
               then (overloaded_error message, False)
               else (api_error message 500, False))
         else if ex_class e = OpenaiOtherAPIError
         then (api_error message (case ex_status_code e of Some s \<Rightarrow> s | None \<Rightarrow> 500), False)
         else if ex_class e = HttpxStatusError
         then (let status = ex_response_status e
               in if status \<in> {401, 403} then (authentication_error message, False)
                  else if status = 429 then (rate_limit_error message, True)
                  else if status = 400 then (invalid_request_error message, False)
                  else if status \<ge> 500
                  then (if status \<in> {502, 503, 504} then (overloaded_error message, False)
                        else (api_error message status, False))
                  else (api_error message status, False))
         else (e, False))"

definition user_visible_message_for_mapped_provider_error ::
  "exn \<Rightarrow> pystr \<Rightarrow> pystr option \<Rightarrow> pystr" where
  "user_visible_message_for_mapped_provider_error mapped provider_name read_timeout_s =
     (if ex_status_code mapped = Some 405
      then u ''Upstream provider '' @ provider_name
             @ u '' rejected the request method or endpoint (HTTP 405).''
      else get_user_facing_error_message mapped read_timeout_s)"

section \<open>What the user can see\<close>

lemmas provider_error_defs =
  provider_error_def authentication_error_def invalid_request_error_def rate_limit_error_def
  overloaded_error_def api_error_def

text \<open>The exceptions \<open>map_error\<close> turns into a provider error: those of the two client libraries
  that report a status or an API failure.\<close>

definition mapped_class :: "exn_class \<Rightarrow> bool" where
  "mapped_class c \<longleftrightarrow>
     c \<in> {OpenaiAuthenticationError, OpenaiRateLimitError, OpenaiBadRequestError,
          OpenaiInternalServerError, OpenaiOtherAPIError, HttpxStatusError}"

definition fixed_messages :: "pystr set" where
  "fixed_messages =
     {u ''Provider rate limit reached. Please retry shortly.'',
      u ''Provider authentication failed. Check API key.'',
      u ''Invalid request sent to provider.'',
      u ''Provider is currently overloaded. Please retry.'',
      u ''Provider is temporarily unavailable. Please retry.'',
      u ''Provider API request failed.''}"

lemma mapped_error_cases:
  assumes "mapped_class (ex_class e)"
  shows "\<exists>m. map_error lower e \<in> {(authentication_error m, False), (rate_limit_error m, True),
           (invalid_request_error m, False), (overloaded_error m, False)}
           \<union> range (\<lambda>st. (api_error m st, False))"
  using assms
  by (intro exI [of _ "get_user_facing_error_message e None"])
    (auto simp: mapped_class_def map_error_def Let_def)

lemma provider_error_names:
  "ex_name (authentication_error m) = u ''AuthenticationError''"
  "ex_name (rate_limit_error m) = u ''RateLimitError''"
  "ex_name (invalid_request_error m) = u ''InvalidRequestError''"
  "ex_name (overloaded_error m) = u ''OverloadedError''"
  "ex_name (api_error m st) = u ''APIError''"
  by (simp_all add: provider_error_defs)

text \<open>The sentence for each provider error: its own text is never used.\<close>

lemma provider_error_message:
  "user_visible_message_for_mapped_provider_error (authentication_error m) p t
     = u ''Provider authentication failed. Check API key.''"
  "user_visible_message_for_mapped_provider_error (rate_limit_error m) p t
     = u ''Provider rate limit reached. Please retry shortly.''"
  "user_visible_message_for_mapped_provider_error (invalid_request_error m) p t
     = u ''Invalid request sent to provider.''"
  "user_visible_message_for_mapped_provider_error (overloaded_error m) p t
     = u ''Provider is currently overloaded. Please retry.''"
  "user_visible_message_for_mapped_provider_error (api_error m st) p t =
     (if st = 405 then u ''Upstream provider '' @ p
        @ u '' rejected the request method or endpoint (HTTP 405).''
      else if st \<in> {502, 503, 504} then u ''Provider is temporarily unavailable. Please retry.''
      else u ''Provider API request failed.'')"
  by (simp_all add: user_visible_message_for_mapped_provider_error_def
      get_user_facing_error_message_def provider_error_defs)

text \<open>Claim C40: whatever text an upstream API or status error carries, the user sees one of six
  fixed sentences, or the fixed refusal naming the provider for status 405: no upstream text
  reaches the client. The limiter is told to block exactly for the rate limit errors.\<close>

theorem mapped_errors_hide_upstream_text:
  assumes "mapped_class (ex_class e)"
  shows "(user_visible_message_for_mapped_provider_error (fst (map_error lower e)) provider t
           \<in> insert (u ''Upstream provider '' @ provider
                      @ u '' rejected the request method or endpoint (HTTP 405).'') fixed_messages)
         \<and> (snd (map_error lower e) \<longleftrightarrow> ex_name (fst (map_error lower e)) = u ''RateLimitError'')"
  using mapped_error_cases [OF assms, of lower]
  by (auto simp: provider_error_message provider_error_names fixed_messages_def split: if_splits)

definition status_error_example :: exn where
  "status_error_example =
     \<lparr>ex_class = HttpxStatusError, ex_name = u ''HTTPStatusError'', ex_status_code = None,
      ex_response_status = 429, ex_str = u ''secret'', ex_error_type = []\<rparr>"

theorem mapped_errors_hide_upstream_text_witness:
  "user_visible_message_for_mapped_provider_error
     (fst (map_error (\<lambda>s. s) status_error_example)) (u ''nim'') None
     \<in> insert (u ''Upstream provider '' @ u ''nim''
                @ u '' rejected the request method or endpoint (HTTP 405).'') fixed_messages"
  by (rule mapped_errors_hide_upstream_text [THEN conjunct1])
    (simp add: mapped_class_def status_error_example_def)

lemma append_request_id_nonempty: "append_request_id m r \<noteq> []"
proof -
  have "u ''Provider request failed unexpectedly.'' \<noteq> []" by (simp add: u_def)
  then show ?thesis by (auto simp: append_request_id_def Let_def split: option.splits)
qed

end
