(* ===== verification/Think_Tags.thy ===== *)
theory Think_Tags
  imports Prelude
begin

text \<open>
  The streaming parser for provider-emitted thinking tags (\<open>core/anthropic/thinking.py\<close>):
  its buffer and mode, the two parsing steps, the \<open>feed\<close> loop and \<open>flush\<close>. The abstract
  specification \<open>scan\<close> reads a whole reply at once; the refinement lemmas show that every
  way of cutting the reply into chunks gives the same labelled characters.
\<close>

section \<open>State and operations\<close>

datatype content_type = TEXT | THINKING

datatype content_chunk = ContentChunk (chunk_type: content_type) (chunk_content: pystr)

record think_parser =
  tp_buffer :: pystr
  tp_in_think_tag :: bool

definition open_tag :: pystr where
  "open_tag = u ''<think>''"

definition close_tag :: pystr where
  "close_tag = u ''</think>''"

definition lt_char :: int where
  "lt_char = 60"

definition think_parser_init :: think_parser where
  "think_parser_init = \<lparr>tp_buffer = [], tp_in_think_tag = False\<rparr>"

text \<open>\<open>if s: return ContentChunk(t, s)\<close>, else \<open>return None\<close>.\<close>

definition chunk_if :: "content_type \<Rightarrow> pystr \<Rightarrow> content_chunk option" where
  "chunk_if t s = (if s = [] then None else Some (ContentChunk t s))"

definition parse_outside_think :: "think_parser \<Rightarrow> content_chunk option \<times> think_parser" where
  "parse_outside_think p =
     (let buf = tp_buffer p;
          think_start = find_sub open_tag buf;
          orphan_close = find_sub close_tag buf
      in case orphan_close of
           Some oc \<Rightarrow>
             if think_start = None \<or> oc < the think_start
             then (chunk_if TEXT (take oc buf),
                   p\<lparr>tp_buffer := drop (oc + length close_tag) buf\<rparr>)
             else (case think_start of
                     Some ts \<Rightarrow> (chunk_if TEXT (take ts buf),
                       p\<lparr>tp_buffer := drop (ts + length open_tag) buf, tp_in_think_tag := True\<rparr>)
                   | None \<Rightarrow> (None, p))
         | None \<Rightarrow>
             (case think_start of
                Some ts \<Rightarrow> (chunk_if TEXT (take ts buf),
                  p\<lparr>tp_buffer := drop (ts + length open_tag) buf, tp_in_think_tag := True\<rparr>)
              | None \<Rightarrow>
                  (case rfind_sub [lt_char] buf of
                     Some lb \<Rightarrow>
                       (let potential_tag = drop lb buf; tag_len = length potential_tag
                        in if (tag_len < length open_tag \<and> startswith open_tag potential_tag)
                            \<or> (tag_len < length close_tag \<and> startswith close_tag potential_tag)
                           then (chunk_if TEXT (take lb buf), p\<lparr>tp_buffer := drop lb buf\<rparr>)
                           else (chunk_if TEXT buf, p\<lparr>tp_buffer := []\<rparr>))
                   | None \<Rightarrow> (chunk_if TEXT buf, p\<lparr>tp_buffer := []\<rparr>))))"

definition parse_inside_think :: "think_parser \<Rightarrow> content_chunk option \<times> think_parser" where
  "parse_inside_think p =
     (let buf = tp_buffer p
      in case find_sub close_tag buf of
           None \<Rightarrow>
             (case rfind_sub [lt_char] buf of
                Some lb \<Rightarrow>
                  if length buf - lb < length close_tag \<and> startswith close_tag (drop lb buf)
                  then (chunk_if THINKING (take lb buf), p\<lparr>tp_buffer := drop lb buf\<rparr>)
                  else (chunk_if THINKING buf, p\<lparr>tp_buffer := []\<rparr>)
              | None \<Rightarrow> (chunk_if THINKING buf, p\<lparr>tp_buffer := []\<rparr>))
         | Some te \<Rightarrow>
             (chunk_if THINKING (take te buf),
              p\<lparr>tp_buffer := drop (te + length close_tag) buf, tp_in_think_tag := False\<rparr>))"

definition parse_step :: "think_parser \<Rightarrow> content_chunk option \<times> think_parser" where
  "parse_step p = (if \<not> tp_in_think_tag p then parse_outside_think p else parse_inside_think p)"

subsection \<open>A parsing step never grows the buffer\<close>

lemma chunk_if_Some_iff [simp]: "chunk_if t s = Some c \<longleftrightarrow> s \<noteq> [] \<and> c = ContentChunk t s"
  by (auto simp: chunk_if_def)

lemma chunk_if_None_iff [simp]: "chunk_if t s = None \<longleftrightarrow> s = []" "None = chunk_if t s \<longleftrightarrow> s = []"
  by (auto simp: chunk_if_def)

lemma tags_nonempty [simp]: "open_tag \<noteq> []" "close_tag \<noteq> []"
  by (simp_all add: open_tag_def close_tag_def)

lemma length_tags: "length open_tag = 7" "length close_tag = 8"
  by (simp_all add: open_tag_def close_tag_def)

text \<open>What one step does, in one statement: it cuts \<open>buf\<close> into emitted text \<open>pre\<close>, a consumed
  tag \<open>tag\<close> (possibly none) and the new buffer.\<close>

lemma parse_step_cut:
  assumes "parse_step p = (c, p')"
  obtains pre tag where "tp_buffer p = pre @ tag @ tp_buffer p'"
    and "c = chunk_if (if tp_in_think_tag p then THINKING else TEXT) pre"
    and "tag = [] \<or> tag = open_tag \<or> tag = close_tag"
proof (cases "tp_in_think_tag p")
  case True
  show ?thesis
  proof (cases "find_sub close_tag (tp_buffer p)")
    case None
    with True assms that [of "take (length (tp_buffer p) - length (tp_buffer p')) (tp_buffer p)" "[]"]
    show ?thesis
      by (auto simp: parse_step_def parse_inside_think_def Let_def split: option.splits if_splits
          dest!: rfind_sub_singleton_Some)
  next
    case (Some n)
    from find_sub_Some_split(1) [OF Some]
    show ?thesis using True assms Some that [of "take n (tp_buffer p)" close_tag]
      by (auto simp: parse_step_def parse_inside_think_def Let_def)
  qed
next
  case False
  let ?b = "tp_buffer p"
  show ?thesis
  proof (cases "\<exists>oc. find_sub close_tag ?b = Some oc
      \<and> (find_sub open_tag ?b = None \<or> oc < the (find_sub open_tag ?b))")
    case True
    then obtain oc where oc: "find_sub close_tag ?b = Some oc"
      "find_sub open_tag ?b = None \<or> oc < the (find_sub open_tag ?b)" by blast
    from find_sub_Some_split(1) [OF oc(1)] show ?thesis
      using False assms oc that [of "take oc ?b" close_tag]
      by (auto simp: parse_step_def parse_outside_think_def Let_def)
  next
    case no_orphan: False
    show ?thesis
    proof (cases "find_sub open_tag ?b")
      case (Some ts)
      from find_sub_Some_split(1) [OF Some] show ?thesis
        using False assms Some no_orphan that [of "take ts ?b" open_tag]
        by (auto simp: parse_step_def parse_outside_think_def Let_def split: option.splits)
    next
      case None
      with no_orphan have "find_sub close_tag ?b = None" by auto
      with None False assms that [of "take (length ?b - length (tp_buffer p')) ?b" "[]"]
      show ?thesis
        by (auto simp: parse_step_def parse_outside_think_def Let_def split: option.splits if_splits
            dest!: rfind_sub_singleton_Some)
    qed
  qed
qed

lemma parse_step_length:
  assumes "parse_step p = (c, p')"
  shows "length (tp_buffer p') \<le> length (tp_buffer p)"
    and "c \<noteq> None \<Longrightarrow> length (tp_buffer p') < length (tp_buffer p)"
proof -
  obtain pre tag where cut: "tp_buffer p = pre @ tag @ tp_buffer p'"
    and c: "c = chunk_if (if tp_in_think_tag p then THINKING else TEXT) pre"
    using parse_step_cut [OF assms] by metis
  from cut have len: "length (tp_buffer p) = length pre + length tag + length (tp_buffer p')"
    by simp
  then show "length (tp_buffer p') \<le> length (tp_buffer p)" by simp
  assume "c \<noteq> None"
  with c have "pre \<noteq> []" by auto
  with len show "length (tp_buffer p') < length (tp_buffer p)" by simp
qed

section \<open>The feed loop and flush\<close>

text \<open>
  \<open>feed\<close> is a generator; the model returns the chunks it yields, in order, together with the
  parser after the last one. The loop ends when the buffer is empty or a step neither yields
  nor shortens the buffer.
\<close>

function feed_loop :: "think_parser \<Rightarrow> content_chunk list \<times> think_parser" where
  "feed_loop p =
     (if tp_buffer p = [] then ([], p)
      else (case parse_step p of
              (Some c, p') \<Rightarrow> (case feed_loop p' of (cs, p'') \<Rightarrow> (c # cs, p''))
            | (None, p') \<Rightarrow>
                if length (tp_buffer p') = length (tp_buffer p) then ([], p')
                else feed_loop p'))"
  by pat_completeness auto
termination
proof (relation "measure (\<lambda>p. length (tp_buffer p))")
  show "wf (measure (\<lambda>p. length (tp_buffer p)))" by simp
next
  fix p x y c
  assume "(x, y) = parse_step p" and "x = Some c"
  then have "parse_step p = (Some c, y)" by simp
  from parse_step_length(2) [OF this] show "(y, p) \<in> measure (\<lambda>p. length (tp_buffer p))" by simp
next
  fix p x y
  assume "(x, y) = parse_step p" and ne: "length (tp_buffer y) \<noteq> length (tp_buffer p)"
  then have "parse_step p = (x, y)" by simp
  from parse_step_length(1) [OF this] ne
  show "(y, p) \<in> measure (\<lambda>p. length (tp_buffer p))" by simp
qed

declare feed_loop.simps [simp del]

definition think_feed :: "think_parser \<Rightarrow> pystr \<Rightarrow> content_chunk list \<times> think_parser" where
  "think_feed p content = feed_loop (p\<lparr>tp_buffer := tp_buffer p @ content\<rparr>)"

definition think_flush :: "think_parser \<Rightarrow> content_chunk option \<times> think_parser" where
  "think_flush p =
     (if tp_buffer p \<noteq> []
      then (Some (ContentChunk (if tp_in_think_tag p then THINKING else TEXT) (tp_buffer p)),
            p\<lparr>tp_buffer := []\<rparr>)
      else (None, p))"

text \<open>A whole stream: feed the pieces one after the other, then flush.\<close>

fun think_feed_all :: "think_parser \<Rightarrow> pystr list \<Rightarrow> content_chunk list \<times> think_parser" where
  "think_feed_all p [] = ([], p)"
| "think_feed_all p (s # ss) =
     (case think_feed p s of (cs, p') \<Rightarrow>
        (case think_feed_all p' ss of (ds, p'') \<Rightarrow> (cs @ ds, p'')))"

definition parse_stream :: "pystr list \<Rightarrow> content_chunk list" where
  "parse_stream ss =
     (case think_feed_all think_parser_init ss of (cs, p) \<Rightarrow>
        (case fst (think_flush p) of None \<Rightarrow> cs | Some c \<Rightarrow> cs @ [c]))"

section \<open>Specification: scanning a whole reply\<close>

text \<open>
  The specification has no buffer: it reads the whole reply from the left, removes every
  opening tag outside a thinking block and every closing tag, and labels each other character
  with the block it stands in.
\<close>

function scan :: "bool \<Rightarrow> pystr \<Rightarrow> (content_type \<times> int) list" where
  "scan inside s =
     (if s = [] then []
      else if \<not> inside \<and> prefix open_tag s then scan True (drop (length open_tag) s)
      else if prefix close_tag s then scan False (drop (length close_tag) s)
      else ((if inside then THINKING else TEXT), hd s) # scan inside (tl s))"
  by pat_completeness auto
termination
  by (relation "measure (\<lambda>(b, s). length s)") (auto simp: length_tags)

declare scan.simps [simp del]

definition label :: "content_chunk \<Rightarrow> (content_type \<times> int) list" where
  "label c = map (Pair (chunk_type c)) (chunk_content c)"

definition labels :: "content_chunk list \<Rightarrow> (content_type \<times> int) list" where
  "labels cs = concat (map label cs)"

lemma labels_simps [simp]:
  "labels [] = []" "labels (c # cs) = label c @ labels cs"
  "labels (cs @ ds) = labels cs @ labels ds"
  by (simp_all add: labels_def)

definition mode_of :: "bool \<Rightarrow> content_type" where
  "mode_of inside = (if inside then THINKING else TEXT)"

subsection \<open>Tags and brackets\<close>

text \<open>Every tag starts with the only left angle bracket it contains.\<close>

lemma open_tag_shape: "\<exists>t. open_tag = lt_char # t \<and> lt_char \<notin> set t"
  by (simp add: open_tag_def lt_char_def u_def)

lemma close_tag_shape: "\<exists>t. close_tag = lt_char # t \<and> lt_char \<notin> set t"
  by (simp add: close_tag_def lt_char_def u_def)

text \<open>
  A tag that starts in the buffer, is not complete there and is completed by what follows,
  starts at the last bracket of the buffer, and the buffer from there is a proper prefix of it.
\<close>

lemma straddling_tag:
  assumes shape: "tag = lt_char # t" "lt_char \<notin> set t"
    and pre: "prefix tag (drop i buf @ rest)" and i: "i < length buf"
    and incomplete: "\<not> prefix tag (drop i buf)"
  shows "rfind_sub [lt_char] buf = Some i"
    and "prefix (drop i buf) tag" and "length (drop i buf) < length tag"
proof -
  from pre have cmp: "prefix (drop i buf) tag \<or> prefix tag (drop i buf)"
    by (metis prefixI prefix_same_cases)
  with incomplete show p: "prefix (drop i buf) tag" by blast
  with incomplete show "length (drop i buf) < length tag"
    by (metis linorder_not_less prefix_length_prefix prefix_order.refl)
  from i have split: "drop i buf = buf ! i # drop (Suc i) buf" by (simp add: Cons_nth_drop_Suc)
  with p shape have hd: "buf ! i = lt_char" and tl: "prefix (drop (Suc i) buf) t" by simp_all
  from tl shape(2) have "lt_char \<notin> set (drop (Suc i) buf)" by (meson in_mono set_mono_prefix)
  with hd i show "rfind_sub [lt_char] buf = Some i" by (simp add: rfind_sub_singleton_eq)
qed

text \<open>Scanning over a stretch where no tag starts labels it unchanged.\<close>

definition tag_at :: "bool \<Rightarrow> pystr \<Rightarrow> bool" where
  "tag_at inside s \<longleftrightarrow> (\<not> inside \<and> prefix open_tag s) \<or> prefix close_tag s"

lemma scan_plain:
  assumes "\<And>i. i < length xs \<Longrightarrow> \<not> tag_at inside (drop i (xs @ rest))"
  shows "scan inside (xs @ rest) = map (Pair (mode_of inside)) xs @ scan inside rest"
  using assms
proof (induction xs)
  case Nil
  then show ?case by simp
next
  case (Cons x xs)
  from Cons.prems [of 0] have here: "\<not> tag_at inside (x # xs @ rest)" by simp
  have "scan inside (xs @ rest) = map (Pair (mode_of inside)) xs @ scan inside rest"
  proof (rule Cons.IH)
    fix i assume "i < length xs"
    with Cons.prems [of "Suc i"] show "\<not> tag_at inside (drop i (xs @ rest))" by simp
  qed
  with here show ?case
    by (subst scan.simps) (auto simp: tag_at_def mode_of_def)
qed

lemma scan_open: "scan False (open_tag @ rest) = scan True rest"
  by (subst scan.simps) simp

lemma scan_close: "scan inside (close_tag @ rest) = scan False rest"
proof -
  have "\<not> prefix open_tag (close_tag @ rest)"
    by (simp add: open_tag_def close_tag_def u_def)
  then show ?thesis by (subst scan.simps) simp
qed

subsection \<open>Each parsing step agrees with the specification\<close>

definition partial_tag :: "bool \<Rightarrow> pystr \<Rightarrow> bool" where
  "partial_tag inside s \<longleftrightarrow>
     (\<not> inside \<and> prefix s open_tag \<and> length s < length open_tag)
     \<or> (prefix s close_tag \<and> length s < length close_tag)"

lemma no_tag_before:
  assumes least: "\<forall>i<n. \<not> tag_at inside (drop i buf)" and n: "n \<le> length buf"
    and bracket: "\<forall>i<n. rfind_sub [lt_char] buf = Some i \<longrightarrow> \<not> partial_tag inside (drop i buf)"
    and i: "i < n"
  shows "\<not> tag_at inside (drop i (buf @ rest))"
proof
  assume at: "tag_at inside (drop i (buf @ rest))"
  from i n have d: "drop i (buf @ rest) = drop i buf @ rest" and ib: "i < length buf" by simp_all
  from least i have not_here: "\<not> tag_at inside (drop i buf)" by blast
  from at d consider (opn) "\<not> inside" "prefix open_tag (drop i buf @ rest)"
    | (cls) "prefix close_tag (drop i buf @ rest)"
    by (auto simp: tag_at_def)
  then show False
  proof cases
    case opn
    from open_tag_shape obtain t where t: "open_tag = lt_char # t" "lt_char \<notin> set t" by blast
    from opn not_here have "\<not> prefix open_tag (drop i buf)" by (simp add: tag_at_def)
    from straddling_tag [OF t opn(2) ib this] opn(1) bracket i show False
      by (simp add: partial_tag_def)
  next
    case cls
    from close_tag_shape obtain t where t: "close_tag = lt_char # t" "lt_char \<notin> set t" by blast
    from not_here have "\<not> prefix close_tag (drop i buf)" by (simp add: tag_at_def)
    from straddling_tag [OF t cls ib this] bracket i show False
      by (simp add: partial_tag_def)
  qed
qed

lemma scan_take:
  assumes "\<forall>i<n. \<not> tag_at inside (drop i buf)" and "n \<le> length buf"
    and "\<forall>i<n. rfind_sub [lt_char] buf = Some i \<longrightarrow> \<not> partial_tag inside (drop i buf)"
  shows "scan inside (buf @ rest)
    = map (Pair (mode_of inside)) (take n buf) @ scan inside (drop n buf @ rest)"
proof -
  have eq: "take n buf @ (drop n buf @ rest) = buf @ rest"
    by (metis append_assoc append_take_drop_id)
  have "scan inside (take n buf @ (drop n buf @ rest))
    = map (Pair (mode_of inside)) (take n buf) @ scan inside (drop n buf @ rest)"
  proof (rule scan_plain)
    fix i assume "i < length (take n buf)"
    then have "i < n" by simp
    then show "\<not> tag_at inside (drop i (take n buf @ (drop n buf @ rest)))"
      unfolding eq by (intro no_tag_before) (use assms in auto)
  qed
  then show ?thesis unfolding eq .
qed

text \<open>A tag found at \<open>n\<close>, with no earlier one: the stretch before it is plain.\<close>

lemma scan_found:
  assumes tag: "tag = lt_char # t" and found: "find_sub tag buf = Some n"
    and least: "\<forall>i<n. \<not> tag_at inside (drop i buf)"
  shows "scan inside (buf @ rest)
    = map (Pair (mode_of inside)) (take n buf)
      @ scan inside (tag @ drop (n + length tag) buf @ rest)"
proof -
  obtain r where r: "drop n buf = tag @ r" and n: "n \<le> length buf"
    using find_sub_Some_prefix [OF found] by (auto simp: prefix_def)
  then have rr: "r = drop (n + length tag) buf"
    by (metis add.commute append_eq_conv_conj drop_drop)
  from r tag have n': "n < length buf" by (cases "n < length buf") auto
  with r tag have lt: "buf ! n = lt_char" by (simp add: Cons_nth_drop_Suc [symmetric])
  have br: "rfind_sub [lt_char] buf \<noteq> Some i" if i: "i < n" for i
  proof
    assume "rfind_sub [lt_char] buf = Some i"
    then have notin: "lt_char \<notin> set (drop (Suc i) buf)"
      by (blast dest: rfind_sub_singleton_Some)
    from i n' have "drop (Suc i) buf ! (n - Suc i) = buf ! n" and "n - Suc i < length (drop (Suc i) buf)"
      by simp_all
    with notin lt show False by (metis nth_mem)
  qed
  have "scan inside (buf @ rest)
    = map (Pair (mode_of inside)) (take n buf) @ scan inside (drop n buf @ rest)"
    by (rule scan_take) (use least n br in auto)
  with r rr show ?thesis by simp
qed

lemma find_none_no_tag:
  assumes "find_sub close_tag buf = None" and "\<not> inside \<Longrightarrow> find_sub open_tag buf = None"
  shows "\<forall>i<n. \<not> tag_at inside (drop i buf)"
  using assms find_sub_None by (auto simp: tag_at_def)

definition step_output :: "content_chunk option \<Rightarrow> (content_type \<times> int) list" where
  "step_output c = (case c of None \<Rightarrow> [] | Some ch \<Rightarrow> label ch)"

lemma step_output_chunk_if [simp]: "step_output (chunk_if t s) = map (Pair t) s"
  by (auto simp: step_output_def chunk_if_def label_def)

lemma scan_inside_step:
  assumes "parse_inside_think p = (c, p')" and inside: "tp_in_think_tag p"
  shows "scan True (tp_buffer p @ rest)
    = step_output c @ scan (tp_in_think_tag p') (tp_buffer p' @ rest)"
proof (cases "find_sub close_tag (tp_buffer p)")
  case (Some n)
  from close_tag_shape obtain t where t: "close_tag = lt_char # t" by blast
  from find_sub_Some_least [OF Some]
  have "\<forall>i<n. \<not> tag_at True (drop i (tp_buffer p))"
    by (simp add: tag_at_def)
  from scan_found [OF t Some this, of rest] assms Some show ?thesis
    by (auto simp: parse_inside_think_def Let_def scan_close mode_of_def)
next
  case None
  then have none: "\<forall>i<n. \<not> tag_at True (drop i (tp_buffer p))" for n by (rule find_none_no_tag) simp
  let ?b = "tp_buffer p"
  consider (hold) lb where "rfind_sub [lt_char] ?b = Some lb" "partial_tag True (drop lb ?b)"
    | (all) "\<And>lb. rfind_sub [lt_char] ?b = Some lb \<Longrightarrow> \<not> partial_tag True (drop lb ?b)" by blast
  then show ?thesis
  proof cases
    case hold
    then have "lb \<le> length ?b" using rfind_sub_singleton_Some by fastforce
    from scan_take [OF none this, of rest] hold assms None show ?thesis
      by (auto simp: parse_inside_think_def Let_def partial_tag_def startswith_def mode_of_def)
  next
    case all
    from scan_take [OF none order_refl, of rest] all assms None show ?thesis
      by (auto simp: parse_inside_think_def Let_def partial_tag_def startswith_def mode_of_def
          split: option.splits)
  qed
qed

lemma scan_outside_step:
  assumes step: "parse_outside_think p = (c, p')" and outside: "\<not> tp_in_think_tag p"
  shows "scan False (tp_buffer p @ rest)
    = step_output c @ scan (tp_in_think_tag p') (tp_buffer p' @ rest)"
proof -
  let ?b = "tp_buffer p"
  consider (orphan) oc where "find_sub close_tag ?b = Some oc"
      "find_sub open_tag ?b = None \<or> oc < the (find_sub open_tag ?b)"
    | (starts) ts where "find_sub open_tag ?b = Some ts"
      "\<And>oc. find_sub close_tag ?b = Some oc \<Longrightarrow> ts \<le> oc"
    | (none) "find_sub open_tag ?b = None" "find_sub close_tag ?b = None"
    by (metis linorder_not_less option.exhaust_sel option.sel)
  then show ?thesis
  proof cases
    case orphan
    from close_tag_shape obtain t where t: "close_tag = lt_char # t" by blast
    have "\<forall>i<oc. \<not> tag_at False (drop i ?b)"
      using find_sub_Some_least [OF orphan(1)] orphan(2) find_sub_None [of open_tag ?b]
        find_sub_Some_least [of open_tag ?b]
      by (cases "find_sub open_tag ?b") (auto simp: tag_at_def)
    from scan_found [OF t orphan(1) this, of rest] orphan step outside show ?thesis
      by (auto simp: parse_outside_think_def Let_def scan_close mode_of_def)
  next
    case starts
    from open_tag_shape obtain t where t: "open_tag = lt_char # t" by blast
    have "\<forall>i<ts. \<not> tag_at False (drop i ?b)"
      using find_sub_Some_least [OF starts(1)] starts(2) find_sub_None [of close_tag ?b]
        find_sub_Some_least [of close_tag ?b]
      by (cases "find_sub close_tag ?b") (auto simp: tag_at_def)
    from scan_found [OF t starts(1) this, of rest] starts step outside show ?thesis
      by (fastforce simp: parse_outside_think_def Let_def scan_open mode_of_def
          split: option.splits)
  next
    case none
    then have plain: "\<forall>i<n. \<not> tag_at False (drop i ?b)" for n by (intro find_none_no_tag) simp_all
    consider (hold) lb where "rfind_sub [lt_char] ?b = Some lb" "partial_tag False (drop lb ?b)"
      | (all) "\<And>lb. rfind_sub [lt_char] ?b = Some lb \<Longrightarrow> \<not> partial_tag False (drop lb ?b)" by blast
    then show ?thesis
    proof cases
      case hold
      then have "lb \<le> length ?b" using rfind_sub_singleton_Some by fastforce
      from scan_take [OF plain this, of rest] hold step none outside
        rfind_sub_singleton_Some [OF hold(1)]
      show ?thesis
        by (auto simp: parse_outside_think_def Let_def partial_tag_def startswith_def mode_of_def)
    next
      case all
      from scan_take [OF plain order_refl, of rest] all step none outside show ?thesis
        by (auto simp: parse_outside_think_def Let_def partial_tag_def startswith_def mode_of_def
            split: option.splits if_splits)
    qed
  qed
qed

lemma scan_step:
  assumes "parse_step p = (c, p')"
  shows "scan (tp_in_think_tag p) (tp_buffer p @ rest)
    = step_output c @ scan (tp_in_think_tag p') (tp_buffer p' @ rest)"
  using assms scan_inside_step [of p c p' rest] scan_outside_step [of p c p' rest]
  by (cases "tp_in_think_tag p") (simp_all add: parse_step_def)

section \<open>The loop and the stream\<close>

text \<open>The loop as an induction rule: what holds at each way of ending and is kept backwards by
  each step holds between its input and its result.\<close>

lemma feed_loop_rule [consumes 1, case_names empty stall skip yield]:
  assumes "feed_loop p = (cs, r)"
    and "\<And>p. tp_buffer p = [] \<Longrightarrow> P p [] p"
    and "\<And>p q. tp_buffer p \<noteq> [] \<Longrightarrow> parse_step p = (None, q)
      \<Longrightarrow> length (tp_buffer q) = length (tp_buffer p) \<Longrightarrow> P p [] q"
    and "\<And>p q cs r. parse_step p = (None, q) \<Longrightarrow> P q cs r \<Longrightarrow> P p cs r"
    and "\<And>p q c cs r. parse_step p = (Some c, q) \<Longrightarrow> P q cs r \<Longrightarrow> P p (c # cs) r"
  shows "P p cs r"
  using assms(1)
proof (induction "length (tp_buffer p)" arbitrary: p cs rule: less_induct)
  case less
  show ?case
  proof (cases "tp_buffer p = []")
    case True
    with less.prems assms(2) show ?thesis by (simp add: feed_loop.simps [of p])
  next
    case False
    obtain c q where step: "parse_step p = (c, q)" by fastforce
    note smaller = parse_step_length [OF step]
    show ?thesis
    proof (cases c)
      case None
      show ?thesis
      proof (cases "length (tp_buffer q) = length (tp_buffer p)")
        case True
        with less.prems False step None assms(3) show ?thesis
          by (simp add: feed_loop.simps [of p])
      next
        case longer: False
        with less.prems False step None have "feed_loop q = (cs, r)"
          by (simp add: feed_loop.simps [of p])
        with less.hyps [of q cs] smaller longer have "P q cs r" by simp
        with step None assms(4) show ?thesis by simp
      qed
    next
      case (Some ch)
      with less.prems False step obtain ds where "feed_loop q = (ds, r)" and cs: "cs = ch # ds"
        by (auto simp: feed_loop.simps [of p] split: prod.splits)
      with less.hyps [of q ds] smaller Some have "P q ds r" by simp
      with step Some cs assms(5) show ?thesis by simp
    qed
  qed
qed

lemma feed_loop_scan:
  "feed_loop p = (cs, p') \<Longrightarrow> scan (tp_in_think_tag p) (tp_buffer p @ rest)
     = labels cs @ scan (tp_in_think_tag p') (tp_buffer p' @ rest)"
  by (induction rule: feed_loop_rule)
    (auto dest!: scan_step [where rest = rest] simp: step_output_def)

text \<open>A step that neither yields nor consumes leaves a proper prefix of a tag in the buffer.\<close>

lemma stalled_step:
  assumes step: "parse_step p = (None, p')" and ne: "tp_buffer p \<noteq> []"
    and len: "length (tp_buffer p') = length (tp_buffer p)"
  shows "partial_tag (tp_in_think_tag p') (tp_buffer p')"
proof -
  from ne have shrink: "length (drop (n + 7) (tp_buffer p)) < length (tp_buffer p)"
    "length (drop (n + 8) (tp_buffer p)) < length (tp_buffer p)" for n
    by simp_all
  show ?thesis
  proof (cases "tp_in_think_tag p")
    case True
    with step ne len shrink show ?thesis
      by (cases "find_sub close_tag (tp_buffer p)"; cases "rfind_sub [lt_char] (tp_buffer p)")
        (auto simp: parse_step_def parse_inside_think_def Let_def partial_tag_def startswith_def
          length_tags split: if_splits)
  next
    case False
    with step ne len shrink show ?thesis
      by (cases "find_sub close_tag (tp_buffer p)"; cases "find_sub open_tag (tp_buffer p)";
          cases "rfind_sub [lt_char] (tp_buffer p)")
        (auto simp: parse_step_def parse_outside_think_def Let_def partial_tag_def startswith_def
          length_tags split: if_splits)
  qed
qed

lemma feed_loop_held:
  "feed_loop p = (cs, p') \<Longrightarrow> tp_buffer p' = [] \<or> partial_tag (tp_in_think_tag p') (tp_buffer p')"
  by (induction rule: feed_loop_rule) (auto intro: stalled_step)

lemma feed_loop_nonempty_chunks:
  "feed_loop p = (cs, p') \<Longrightarrow> \<forall>ch \<in> set cs. chunk_content ch \<noteq> []"
proof (induction rule: feed_loop_rule)
  case (yield p q c cs r)
  from parse_step_cut [OF yield.hyps] obtain pre
    where "Some c = chunk_if (if tp_in_think_tag p then THINKING else TEXT) pre" by metis
  then have "chunk_content c \<noteq> []" by (metis chunk_if_Some_iff content_chunk.sel(2))
  with yield.IH show ?case by simp
qed simp_all

lemma partial_tag_length: "partial_tag inside s \<Longrightarrow> length s < 8"
  by (auto simp: partial_tag_def length_tags)

lemma partial_tag_no_tag:
  assumes "partial_tag inside s"
  shows "\<not> tag_at inside (drop i s)"
proof
  assume at: "tag_at inside (drop i s)"
  from partial_tag_length [OF assms] have "\<not> prefix close_tag (drop i s)"
    by (auto dest!: prefix_length_le simp: length_tags)
  with at have opn: "\<not> inside" "prefix open_tag (drop i s)" by (auto simp: tag_at_def)
  then have "length s \<ge> 7" and "i = 0 \<or> length s > 7"
    by (auto dest!: prefix_length_le simp: length_tags)
  with assms opn have "prefix open_tag s" "prefix s close_tag"
    using partial_tag_length [OF assms] by (auto simp: partial_tag_def length_tags)
  then have "prefix open_tag close_tag" by (rule prefix_order.trans)
  then show False by (simp add: open_tag_def close_tag_def u_def)
qed

lemma scan_partial:
  assumes "s = [] \<or> partial_tag inside s"
  shows "scan inside s = map (Pair (mode_of inside)) s"
proof -
  have "scan inside (s @ []) = map (Pair (mode_of inside)) s @ scan inside []"
    by (rule scan_plain) (use assms partial_tag_no_tag in auto)
  then show ?thesis by (simp add: scan.simps [of inside "[]"])
qed

lemma think_feed_scan:
  assumes "think_feed p s = (cs, p')"
  shows "scan (tp_in_think_tag p) (tp_buffer p @ s @ rest)
    = labels cs @ scan (tp_in_think_tag p') (tp_buffer p' @ rest)"
  using feed_loop_scan [of "p\<lparr>tp_buffer := tp_buffer p @ s\<rparr>" cs p' rest] assms
  by (simp add: think_feed_def)

lemma think_feed_held:
  "think_feed p s = (cs, p') \<Longrightarrow> tp_buffer p' = [] \<or> partial_tag (tp_in_think_tag p') (tp_buffer p')"
  unfolding think_feed_def by (rule feed_loop_held)

lemma think_feed_all_scan:
  "think_feed_all p ss = (cs, p') \<Longrightarrow> scan (tp_in_think_tag p) (tp_buffer p @ concat ss @ rest)
     = labels cs @ scan (tp_in_think_tag p') (tp_buffer p' @ rest)"
proof (induction ss arbitrary: p cs)
  case Nil
  then show ?case by simp
next
  case (Cons s ss)
  obtain ds q where feed: "think_feed p s = (ds, q)" by fastforce
  obtain es where all: "think_feed_all q ss = (es, p')" and cs: "cs = ds @ es"
    using Cons.prems feed by (auto split: prod.splits)
  from think_feed_scan [OF feed, of "concat ss @ rest"] Cons.IH [OF all] cs show ?case by simp
qed

lemma think_feed_all_held:
  "think_feed_all p ss = (cs, p') \<Longrightarrow> tp_buffer p = [] \<or> partial_tag (tp_in_think_tag p) (tp_buffer p)
    \<Longrightarrow> tp_buffer p' = [] \<or> partial_tag (tp_in_think_tag p') (tp_buffer p')"
  by (induction ss arbitrary: p cs) (auto split: prod.splits dest: think_feed_held)

lemma think_flush_labels:
  "tp_buffer p = [] \<or> partial_tag (tp_in_think_tag p) (tp_buffer p) \<Longrightarrow>
     step_output (fst (think_flush p)) = scan (tp_in_think_tag p) (tp_buffer p)"
  by (auto simp: think_flush_def step_output_def label_def scan_partial mode_of_def)

section \<open>Properties\<close>

text \<open>Claim C2: however the reply is cut into pieces, feeding the pieces and flushing yields
  exactly the characters of the whole reply outside its tags, in order, each labelled as
  thinking or text as the whole reply dictates. In particular the result does not depend on
  where the pieces are cut.\<close>

theorem think_stream_refines_scan: "labels (parse_stream ss) = scan False (concat ss)"
proof -
  obtain cs p where all: "think_feed_all think_parser_init ss = (cs, p)" by fastforce
  have held: "tp_buffer p = [] \<or> partial_tag (tp_in_think_tag p) (tp_buffer p)"
    by (rule think_feed_all_held [OF all]) (simp add: think_parser_init_def)
  have "scan False (concat ss) = labels cs @ scan (tp_in_think_tag p) (tp_buffer p)"
    using think_feed_all_scan [OF all, of "[]"] by (simp add: think_parser_init_def)
  with all think_flush_labels [OF held] show ?thesis
    by (auto simp: parse_stream_def step_output_def split: option.splits)
qed

text \<open>Between two pieces the parser holds back at most seven characters, and only
  characters that may still become a tag: a proper prefix of a tag that can end the current
  mode. No chunk it yields is empty.\<close>

theorem think_feed_holds_partial_tag:
  assumes "think_feed p s = (cs, p')"
  shows "length (tp_buffer p') < 8
    \<and> (tp_buffer p' = [] \<or> partial_tag (tp_in_think_tag p') (tp_buffer p'))
    \<and> (\<forall>ch \<in> set cs. chunk_content ch \<noteq> [])"
  using think_feed_held [OF assms] partial_tag_length assms feed_loop_nonempty_chunks
  by (fastforce simp: think_feed_def)

theorem think_feed_holds_partial_tag_witness:
  "think_feed think_parser_init (u ''a<th'')
     = ([ContentChunk TEXT (u ''a'')], \<lparr>tp_buffer = u ''<th'', tp_in_think_tag = False\<rparr>)
   \<and> length (u ''<th'') < 8"
proof -
  have run: "think_feed think_parser_init (u ''a<th'')
     = ([ContentChunk TEXT (u ''a'')], \<lparr>tp_buffer = u ''<th'', tp_in_think_tag = False\<rparr>)"
    by code_simp
  from think_feed_holds_partial_tag [OF run] run show ?thesis by simp
qed

end
