(* ===== verification/Json.thy ===== *)
theory Json
  imports Prelude
begin

text \<open>
  The values the proxy passes around: JSON values as Python holds them (objects keep insertion
  order), Python's truth value of them, and the two helpers of \<open>core/anthropic/content.py\<close> and
  \<open>core/anthropic/utils.py\<close> every converter uses. A float is kept as its text, since no modelled
  code computes with one. \<open>json.loads\<close>, \<open>json.dumps\<close> and \<open>str(...)\<close> of a structured value are
  arguments of the definitions that use them.
\<close>

datatype json =
    JNull
  | JBool bool
  | JInt int
  | JFloat (float_zero: bool) pystr
  | JStr pystr
  | JList "json list"
  | JObj "(pystr \<times> json) list"

text \<open>\<open>bool(v)\<close>; \<open>JFloat z t\<close> carries whether the number is zero beside its text.\<close>

fun truthy :: "json \<Rightarrow> bool" where
  "truthy JNull = False"
| "truthy (JBool b) = b"
| "truthy (JInt i) = (i \<noteq> 0)"
| "truthy (JFloat z _) = (\<not> z)"
| "truthy (JStr s) = (s \<noteq> [])"
| "truthy (JList xs) = (xs \<noteq> [])"
| "truthy (JObj d) = (d \<noteq> [])"

fun is_obj :: "json \<Rightarrow> bool" where
  "is_obj (JObj _) = True"
| "is_obj _ = False"

fun is_str :: "json \<Rightarrow> bool" where
  "is_str (JStr _) = True"
| "is_str _ = False"

fun is_list :: "json \<Rightarrow> bool" where
  "is_list (JList _) = True"
| "is_list _ = False"

fun obj_of :: "json \<Rightarrow> (pystr \<times> json) list" where
  "obj_of (JObj d) = d"
| "obj_of _ = []"

text \<open>\<open>isinstance(v, int)\<close>: a Python \<open>bool\<close> is an \<open>int\<close> (\<open>True\<close> is 1).\<close>

fun int_of :: "json \<Rightarrow> int option" where
  "int_of (JInt i) = Some i"
| "int_of (JBool b) = Some (if b then 1 else 0)"
| "int_of _ = None"

fun str_of :: "json \<Rightarrow> pystr option" where
  "str_of (JStr s) = Some s"
| "str_of _ = None"

text \<open>\<open>d.get(k)\<close> and \<open>d.get(k, default)\<close> on a \<open>dict\<close>.\<close>

definition dget :: "(pystr \<times> json) list \<Rightarrow> string \<Rightarrow> json" where
  "dget d k = (case map_of d (u k) of None \<Rightarrow> JNull | Some v \<Rightarrow> v)"

definition dget_or :: "(pystr \<times> json) list \<Rightarrow> string \<Rightarrow> json \<Rightarrow> json" where
  "dget_or d k v0 = (case map_of d (u k) of None \<Rightarrow> v0 | Some v \<Rightarrow> v)"

definition has_field :: "(pystr \<times> json) list \<Rightarrow> string \<Rightarrow> bool" where
  "has_field d k = (map_of d (u k) \<noteq> None)"

definition dset :: "(pystr \<times> json) list \<Rightarrow> string \<Rightarrow> json \<Rightarrow> (pystr \<times> json) list" where
  "dset d k v = AList.update (u k) v d"

definition ddel :: "(pystr \<times> json) list \<Rightarrow> string \<Rightarrow> (pystr \<times> json) list" where
  "ddel d k = AList.delete (u k) d"

text \<open>\<open>v == "literal"\<close>.\<close>

definition is_text :: "json \<Rightarrow> string \<Rightarrow> bool" where
  "is_text v s = (v = JStr (u s))"

lemma dget_Nil [simp, dict_simps]: "dget [] k = JNull"
  by (simp add: dget_def)

lemma dget_Cons [simp, dict_simps]:
  "dget ((u k', v) # d) k = (if k' = k then v else dget d k)"
  by (simp add: dget_def)

lemma dget_or_Nil [simp, dict_simps]: "dget_or [] k v0 = v0"
  by (simp add: dget_or_def)

lemma dget_or_Cons [simp, dict_simps]:
  "dget_or ((u k', v) # d) k v0 = (if k' = k then v else dget_or d k v0)"
  by (simp add: dget_or_def)

lemma has_field_Nil [simp, dict_simps]: "\<not> has_field [] k"
  by (simp add: has_field_def)

lemma has_field_Cons [simp, dict_simps]:
  "has_field ((u k', v) # d) k \<longleftrightarrow> k' = k \<or> has_field d k"
  by (simp add: has_field_def)

lemma dget_dset [simp, dict_simps]: "dget (dset d k v) k' = (if k' = k then v else dget d k')"
  by (simp add: dget_def dset_def)

lemma dget_ddel [simp, dict_simps]: "dget (ddel d k) k' = (if k' = k then JNull else dget d k')"
  by (simp add: dget_def ddel_def)

lemma has_field_dset [simp, dict_simps]: "has_field (dset d k v) k' \<longleftrightarrow> k' = k \<or> has_field d k'"
  by (simp add: has_field_def dset_def)

lemma has_field_ddel [simp, dict_simps]:
  "has_field (ddel d k) k' \<longleftrightarrow> k' \<noteq> k \<and> has_field d k'"
  by (simp add: has_field_def ddel_def)

lemma is_text_JStr [simp]: "is_text (JStr s) t \<longleftrightarrow> s = u t"
  by (simp add: is_text_def)

lemma is_text_others [simp]:
  "\<not> is_text JNull t" "\<not> is_text (JBool b) t" "\<not> is_text (JInt i) t"
  "\<not> is_text (JFloat z x) t" "\<not> is_text (JList xs) t" "\<not> is_text (JObj d) t"
  by (simp_all add: is_text_def)

text \<open>Content blocks arrive as dictionaries or as parsed models; both give their fields by name.
  An unknown value of another type has no fields.\<close>

definition get_block_attr :: "json \<Rightarrow> string \<Rightarrow> json \<Rightarrow> json" where
  "get_block_attr block attr dflt =
     (case block of JObj d \<Rightarrow> dget_or d attr dflt | _ \<Rightarrow> dflt)"

definition get_block_type :: "json \<Rightarrow> json" where
  "get_block_type block = get_block_attr block ''type'' JNull"

text \<open>The text of a message content: itself when it is a string, the concatenation of the
  non-empty \<open>text\<close> fields of its blocks when it is a list, else empty.\<close>

fun block_text :: "json \<Rightarrow> pystr" where
  "block_text block = (case get_block_attr block ''text'' (JStr []) of JStr t \<Rightarrow> t | _ \<Rightarrow> [])"

definition extract_text_from_content :: "json \<Rightarrow> pystr" where
  "extract_text_from_content content =
     (case content of
        JStr s \<Rightarrow> s
      | JList blocks \<Rightarrow> concat (map block_text blocks)
      | _ \<Rightarrow> [])"

definition set_if_not_none :: "(pystr \<times> json) list \<Rightarrow> string \<Rightarrow> json \<Rightarrow> (pystr \<times> json) list" where
  "set_if_not_none body key value = (if value \<noteq> JNull then dset body key value else body)"

end
