(* ===== verification/Tool_Heuristics.thy ===== *)
theory Tool_Heuristics
  imports Json
begin

text \<open>
  The heuristic parser for tool calls that a model writes as text
  (\<open>core/anthropic/tools.py\<close>): control token stripping, the JSON-style web tool detection, and
  the three-state machine over the \<open>\<bullet> <function=...>\<close> form. Each regular expression of the
  source is the function that finds its leftmost match. Arguments of the model: \<open>word\<close>, the
  word characters of the regular expression engine (Unicode data), \<open>loads\<close>, Python's
  \<open>json.loads\<close> (\<open>None\<close> when it raises), and \<open>uuid8\<close>, the n-th random id drawn.
\<close>

datatype parser_state = ST_TEXT | ST_MATCHING_FUNCTION | ST_PARSING_PARAMETERS

record heuristic_tool =
  ht_id :: pystr
  ht_name :: pystr
  ht_input :: "(pystr \<times> json) list"

record tool_parser =
  hp_state :: parser_state
  hp_buffer :: pystr
  hp_tool_id :: "pystr option"
  hp_function_name :: "pystr option"
  hp_parameters :: "(pystr \<times> json) list"
  hp_draws :: nat

definition tool_parser_init :: tool_parser where
  "tool_parser_init =
     \<lparr>hp_state = ST_TEXT, hp_buffer = [], hp_tool_id = None, hp_function_name = None,
      hp_parameters = [], hp_draws = 0\<rparr>"

text \<open>The bullet, U+25CF.\<close>

definition bullet :: int where
  "bullet = 9679"

section \<open>Control tokens\<close>

text \<open>\<open><\|[^|>]{1,80}\|>\<close> at the head of the text: the length of the match.\<close>

definition control_token_at :: "pystr \<Rightarrow> nat option" where
  "control_token_at s =
     (if prefix (u ''<|'') s
      then (let body = drop 2 s; run = takeWhile (\<lambda>c. c \<noteq> 124 \<and> c \<noteq> 62) body
            in if 1 \<le> length run \<and> length run \<le> 80 \<and> prefix (u ''|>'') (drop (length run) body)
               then Some (length run + 4) else None)
      else None)"

function strip_control_tokens :: "pystr \<Rightarrow> pystr" where
  "strip_control_tokens s =
     (case s of
        [] \<Rightarrow> []
      | c # cs \<Rightarrow>
          (case control_token_at s of
             Some n \<Rightarrow> strip_control_tokens (drop n s)
           | None \<Rightarrow> c # strip_control_tokens cs))"
  by pat_completeness auto
termination
  by (relation "measure length") (auto simp: control_token_at_def Let_def split: if_splits)

declare strip_control_tokens.simps [simp del]

text \<open>\<open>_split_incomplete_control_token_tail\<close>: the prefix it returns and the buffer it leaves.\<close>

definition split_incomplete_control_token_tail :: "pystr \<Rightarrow> pystr \<times> pystr" where
  "split_incomplete_control_token_tail buf =
     (case rfind_sub (u ''<|'') buf of
        None \<Rightarrow> ([], buf)
      | Some start \<Rightarrow>
          if find_sub (u ''|>'') (drop start buf) \<noteq> None then ([], buf)
          else (take start buf, drop start buf))"

section \<open>JSON-style web tool calls\<close>

text \<open>Case-insensitive comparison with an ASCII letter; the long s also folds to s.\<close>

definition lower_ascii :: "int \<Rightarrow> int" where
  "lower_ascii c = (if 65 \<le> c \<and> c \<le> 90 then c + 32 else c)"

definition ci_eq :: "int \<Rightarrow> int \<Rightarrow> bool" where
  "ci_eq p c = (lower_ascii p = lower_ascii c \<or> (lower_ascii p = 115 \<and> c = 383))"

fun ci_prefix :: "pystr \<Rightarrow> pystr \<Rightarrow> bool" where
  "ci_prefix [] s = True"
| "ci_prefix (p # ps) [] = False"
| "ci_prefix (p # ps) (c # cs) = (ci_eq p c \<and> ci_prefix ps cs)"

text \<open>\<open>(?P<tool>WebFetch|WebSearch)\b.*?(?P<json>\{.*?\})\<close>: tool, JSON text and what follows.\<close>

definition web_json_after :: "(int \<Rightarrow> bool) \<Rightarrow> nat \<Rightarrow> pystr \<Rightarrow> (pystr \<times> pystr \<times> pystr) option" where
  "web_json_after word n s =
     (let rest = drop n s
      in if rest \<noteq> [] \<and> word (hd rest) then None
         else (case find_sub (u ''{'') rest of
                 None \<Rightarrow> None
               | Some i \<Rightarrow>
                   (case find_sub (u ''}'') (drop (Suc i) rest) of
                      None \<Rightarrow> None
                    | Some j \<Rightarrow> Some (take n s, take (j + 2) (drop i rest), drop (i + j + 2) rest))))"

definition web_tool_name_at :: "(int \<Rightarrow> bool) \<Rightarrow> pystr \<Rightarrow> (pystr \<times> pystr \<times> pystr) option" where
  "web_tool_name_at word s =
     (if ci_prefix (u ''WebFetch'') s then web_json_after word 8 s
      else if ci_prefix (u ''WebSearch'') s then web_json_after word 9 s
      else None)"

text \<open>The whole pattern \<open>\b(?:use\s+)?...\<close> at the head of the text, after the character \<open>prev\<close>.\<close>

definition web_tool_at :: "(int \<Rightarrow> bool) \<Rightarrow> int option \<Rightarrow> pystr \<Rightarrow> (pystr \<times> pystr \<times> pystr) option" where
  "web_tool_at word prev s =
     (if (case prev of None \<Rightarrow> False | Some c \<Rightarrow> word c) then None
      else
        (let after_use = drop 3 s
         in if ci_prefix (u ''use'') s \<and> after_use \<noteq> [] \<and> is_space (hd after_use)
            then web_tool_name_at word (dropWhile is_space after_use)
            else web_tool_name_at word s))"

lemma web_json_after_shorter:
  "web_json_after word n s = Some (t, j, rest) \<Longrightarrow> length rest < length s"
  by (auto simp: web_json_after_def Let_def split: if_splits option.splits
      dest!: find_sub_Some_split(2))

lemma web_tool_at_shorter:
  assumes "web_tool_at word prev s = Some (t, j, rest)"
  shows "length rest < length s"
proof -
  have "length (dropWhile is_space (drop 3 s)) \<le> length s"
    using length_dropWhile_le [of is_space "drop 3 s"] by simp
  with assms show ?thesis
    by (auto simp: web_tool_at_def web_tool_name_at_def Let_def split: if_splits option.splits
        dest!: web_json_after_shorter)
qed

text \<open>\<open>finditer\<close>: the tool and JSON groups of the successive matches.\<close>

function web_tool_matches :: "(int \<Rightarrow> bool) \<Rightarrow> int option \<Rightarrow> pystr \<Rightarrow> (pystr \<times> pystr) list" where
  "web_tool_matches word prev s =
     (case s of
        [] \<Rightarrow> []
      | c # cs \<Rightarrow>
          (case web_tool_at word prev s of
             Some (tool, jtext, rest) \<Rightarrow> (tool, jtext) # web_tool_matches word (Some 125) rest
           | None \<Rightarrow> web_tool_matches word (Some c) cs))"
  by pat_completeness auto
termination
  by (relation "measure (\<lambda>(word, prev, s). length s)") (auto dest: web_tool_at_shorter)

declare web_tool_matches.simps [simp del]

definition heuristic_id :: "(nat \<Rightarrow> pystr) \<Rightarrow> nat \<Rightarrow> pystr" where
  "heuristic_id uuid8 n = u ''toolu_heuristic_'' @ uuid8 n"

fun web_tool_calls ::
  "(pystr \<Rightarrow> json option) \<Rightarrow> (nat \<Rightarrow> pystr) \<Rightarrow> nat \<Rightarrow> (pystr \<times> pystr) list
   \<Rightarrow> heuristic_tool list \<times> nat" where
  "web_tool_calls loads uuid8 n [] = ([], n)"
| "web_tool_calls loads uuid8 n ((tool, jtext) # ms) =
     (case loads jtext of
        Some (JObj tool_input) \<Rightarrow>
          if (tool = u ''WebFetch'' \<and> \<not> has_field tool_input ''url'')
             \<or> (tool = u ''WebSearch'' \<and> \<not> has_field tool_input ''query'')
          then web_tool_calls loads uuid8 n ms
          else (case web_tool_calls loads uuid8 (Suc n) ms of (ts, n') \<Rightarrow>
                  (\<lparr>ht_id = heuristic_id uuid8 n, ht_name = tool, ht_input = tool_input\<rparr> # ts, n'))
      | _ \<Rightarrow> web_tool_calls loads uuid8 n ms)"

text \<open>\<open>_extract_web_tool_json_calls\<close>: the buffer it returns, the calls, the parser's next draw.\<close>

definition extract_web_tool_json_calls ::
  "(int \<Rightarrow> bool) \<Rightarrow> (pystr \<Rightarrow> json option) \<Rightarrow> (nat \<Rightarrow> pystr) \<Rightarrow> tool_parser
   \<Rightarrow> heuristic_tool list \<times> tool_parser" where
  "extract_web_tool_json_calls word loads uuid8 p =
     (case web_tool_calls loads uuid8 (hp_draws p) (web_tool_matches word None (hp_buffer p)) of
        (tools, n) \<Rightarrow>
          (tools, p\<lparr>hp_draws := n, hp_buffer := (if tools = [] then hp_buffer p else [])\<rparr>))"

section \<open>The function form\<close>

text \<open>The function start pattern (bullet, white space, \<open><function=([^>]+)>\<close>) at the head of the
  text: the name and what follows the match.\<close>

definition func_start_at :: "pystr \<Rightarrow> (pystr \<times> pystr) option" where
  "func_start_at s =
     (case s of
        [] \<Rightarrow> None
      | c # cs \<Rightarrow>
          if c \<noteq> bullet then None
          else
            (let rest = dropWhile is_space cs
             in if prefix (u ''<function='') rest
                then (let body = drop 10 rest; name = takeWhile (\<lambda>c. c \<noteq> 62) body
                      in if name \<noteq> [] \<and> length name < length body
                         then Some (name, drop (Suc (length name)) body) else None)
                else None))"

fun func_start_search :: "pystr \<Rightarrow> (pystr \<times> pystr) option" where
  "func_start_search [] = None"
| "func_start_search (c # cs) =
     (case func_start_at (c # cs) of Some r \<Rightarrow> Some r | None \<Rightarrow> func_start_search cs)"

text \<open>\<open><parameter=([^>]+)>\<close> at the head of the text: the key and what follows.\<close>

definition param_open_at :: "pystr \<Rightarrow> (pystr \<times> pystr) option" where
  "param_open_at s =
     (if prefix (u ''<parameter='') s
      then (let body = drop 11 s; key = takeWhile (\<lambda>c. c \<noteq> 62) body
            in if key \<noteq> [] \<and> length key < length body
               then Some (key, drop (Suc (length key)) body) else None)
      else None)"

text \<open>The leftmost opening: the text before it, its key, and what follows.\<close>

fun param_open_search :: "pystr \<Rightarrow> (pystr \<times> pystr \<times> pystr) option" where
  "param_open_search [] = None"
| "param_open_search (c # cs) =
     (case param_open_at (c # cs) of
        Some (key, rest) \<Rightarrow> Some ([], key, rest)
      | None \<Rightarrow> map_option (\<lambda>(pre, r). (c # pre, r)) (param_open_search cs))"

text \<open>
  \<open>_PARAM_PATTERN.search\<close> restricted to what the loop accepts: a match that contains
  \<open></parameter>\<close>. The leftmost opening always matches (its second alternative is the end of the
  text, or the newline that ends it), and the match contains the closing tag exactly when one follows
  the opening or the key itself ends in \<open></parameter\<close>.
\<close>

definition closed_param_search :: "pystr \<Rightarrow> (pystr \<times> pystr \<times> pystr \<times> pystr) option" where
  "closed_param_search s =
     (case param_open_search s of
        None \<Rightarrow> None
      | Some (pre, key, rest) \<Rightarrow>
          (case find_sub (u ''</parameter>'') rest of
             Some n \<Rightarrow> Some (pre, key, take n rest, drop (n + 12) rest)
           | None \<Rightarrow>
               if \<not> endswith key (u ''</parameter'') then None
               else if rest \<noteq> [] \<and> last rest = 10 then Some (pre, key, butlast rest, [10])
               else Some (pre, key, rest, [])))"

section \<open>The feed loop\<close>

record feed_state =
  fs_parser :: tool_parser
  fs_parts :: "pystr list"
  fs_tools :: "heuristic_tool list"

text \<open>Each stage returns whether the source breaks out of the loop.\<close>

definition stage_text :: "feed_state \<Rightarrow> bool \<times> feed_state" where
  "stage_text s =
     (let p = fs_parser s; buf = hp_buffer p
      in if hp_state p \<noteq> ST_TEXT then (False, s)
         else
           (case find_sub [bullet] buf of
              Some idx \<Rightarrow>
                (False, s\<lparr>fs_parser := p\<lparr>hp_buffer := drop idx buf, hp_state := ST_MATCHING_FUNCTION\<rparr>,
                          fs_parts := fs_parts s @ [take idx buf]\<rparr>)
            | None \<Rightarrow>
                (case split_incomplete_control_token_tail buf of
                   (safe_prefix, buf') \<Rightarrow>
                     if safe_prefix \<noteq> []
                     then (True, s\<lparr>fs_parser := p\<lparr>hp_buffer := buf'\<rparr>,
                                   fs_parts := fs_parts s @ [safe_prefix]\<rparr>)
                     else (True, s\<lparr>fs_parser := p\<lparr>hp_buffer := []\<rparr>,
                                   fs_parts := fs_parts s @ [buf']\<rparr>))))"

definition stage_matching :: "(nat \<Rightarrow> pystr) \<Rightarrow> feed_state \<Rightarrow> bool \<times> feed_state" where
  "stage_matching uuid8 s =
     (let p = fs_parser s; buf = hp_buffer p
      in if hp_state p \<noteq> ST_MATCHING_FUNCTION then (False, s)
         else
           (case func_start_search buf of
              Some (name, rest) \<Rightarrow>
                (False, s\<lparr>fs_parser := p\<lparr>hp_function_name := Some (strip name),
                            hp_tool_id := Some (heuristic_id uuid8 (hp_draws p)),
                            hp_draws := Suc (hp_draws p), hp_parameters := [],
                            hp_buffer := rest, hp_state := ST_PARSING_PARAMETERS\<rparr>\<rparr>)
            | None \<Rightarrow>
                if length buf > 100
                then (False, s\<lparr>fs_parser := p\<lparr>hp_buffer := tl buf, hp_state := ST_TEXT\<rparr>,
                               fs_parts := fs_parts s @ [[hd buf]]\<rparr>)
                else (True, s)))"

lemma param_open_at_Some:
  assumes "param_open_at s = Some (key, rest)"
  shows "s = u ''<parameter='' @ key @ 62 # rest \<and> key \<noteq> [] \<and> 62 \<notin> set key"
proof -
  from assms obtain body where s: "s = u ''<parameter='' @ body"
    by (auto simp: param_open_at_def prefix_def split: if_splits)
  let ?key = "takeWhile (\<lambda>c. c \<noteq> 62) body"
  from assms s have len: "length ?key < length body" and key: "?key = key" "key \<noteq> []"
    and rest: "rest = drop (Suc (length ?key)) body"
    by (auto simp: param_open_at_def Let_def split: if_splits)
  from takeWhile_neq_split [OF len] key rest have "body = key @ 62 # rest" by simp
  with s key takeWhile_neq_notin [of 62 body] show ?thesis by simp
qed

lemma param_open_search_split:
  "param_open_search s = Some (pre, key, rest)
   \<Longrightarrow> s = pre @ u ''<parameter='' @ key @ 62 # rest \<and> key \<noteq> [] \<and> 62 \<notin> set key"
proof (induction s arbitrary: pre)
  case Nil
  then show ?case by simp
next
  case (Cons c cs)
  then show ?case
    by (auto split: option.splits dest!: param_open_at_Some)
qed

lemma closed_param_search_shorter:
  assumes "closed_param_search s = Some (pre, key, val, rest)"
  shows "length rest < length s"
proof -
  from assms obtain r where r: "param_open_search s = Some (pre, key, r)" "length rest \<le> Suc (length r)"
    by (auto simp: closed_param_search_def split: option.splits if_splits)
  from param_open_search_split [OF r(1)] have "length s = length pre + 11 + length key + 1 + length r"
    by simp
  with r(2) show ?thesis by simp
qed

function param_loop :: "tool_parser \<Rightarrow> pystr list \<Rightarrow> tool_parser \<times> pystr list" where
  "param_loop p parts =
     (case closed_param_search (hp_buffer p) of
        None \<Rightarrow> (p, parts)
      | Some (pre, key, val, rest) \<Rightarrow>
          param_loop
            (p\<lparr>hp_parameters := AList.update (strip key) (JStr (strip val)) (hp_parameters p),
               hp_buffer := rest\<rparr>)
            (if pre \<noteq> [] then parts @ [pre] else parts))"
  by pat_completeness auto
termination
  by (relation "measure (\<lambda>(p, parts). length (hp_buffer p))")
    (auto dest: closed_param_search_shorter)

declare param_loop.simps [simp del]

text \<open>The id and the name are set when the state is entered; the unreachable case of unset
  fields is the empty string here.\<close>

definition current_tool :: "tool_parser \<Rightarrow> heuristic_tool" where
  "current_tool p =
     \<lparr>ht_id = (case hp_tool_id p of None \<Rightarrow> [] | Some i \<Rightarrow> i),
      ht_name = (case hp_function_name p of None \<Rightarrow> [] | Some n \<Rightarrow> n),
      ht_input = hp_parameters p\<rparr>"

definition stage_parsing :: "feed_state \<Rightarrow> bool \<times> feed_state" where
  "stage_parsing s =
     (if hp_state (fs_parser s) \<noteq> ST_PARSING_PARAMETERS then (False, s)
      else
        (case param_loop (fs_parser s) (fs_parts s) of
           (p, parts) \<Rightarrow>
             (let buf = hp_buffer p;
                  finish = (\<lambda>p' parts'.
                    (False, s\<lparr>fs_parser := p'\<lparr>hp_state := ST_TEXT\<rparr>, fs_parts := parts',
                              fs_tools := fs_tools s @ [current_tool p']\<rparr>))
              in case find_sub [bullet] buf of
                   Some idx \<Rightarrow>
                     if idx > 0 then finish (p\<lparr>hp_buffer := drop idx buf\<rparr>) (parts @ [take idx buf])
                     else finish p parts
                 | None \<Rightarrow>
                     if length buf > 0 \<and> \<not> startswith (strip buf) (u ''<'')
                        \<and> \<not> contains buf (u ''<parameter='')
                     then finish (p\<lparr>hp_buffer := []\<rparr>) (parts @ [buf])
                     else (True, s\<lparr>fs_parser := p, fs_parts := parts\<rparr>))))"

definition feed_iter :: "(nat \<Rightarrow> pystr) \<Rightarrow> feed_state \<Rightarrow> bool \<times> feed_state" where
  "feed_iter uuid8 s =
     (case stage_text s of
        (True, s1) \<Rightarrow> (True, s1)
      | (False, s1) \<Rightarrow>
          (case stage_matching uuid8 s1 of
             (True, s2) \<Rightarrow> (True, s2)
           | (False, s2) \<Rightarrow> stage_parsing s2))"

subsection \<open>Termination: every iteration that loops shortens the buffer or leaves the parameter state\<close>

definition fs_measure :: "feed_state \<Rightarrow> nat" where
  "fs_measure s = 2 * length (hp_buffer (fs_parser s))
     + (if hp_state (fs_parser s) = ST_PARSING_PARAMETERS then 1 else 0)"

lemma func_start_at_shorter: "func_start_at s = Some (name, rest) \<Longrightarrow> length rest < length s"
proof -
  assume "func_start_at s = Some (name, rest)"
  then obtain c cs where s: "s = c # cs"
    and rest: "rest = drop (Suc (length name)) (drop 10 (dropWhile is_space cs))"
    by (auto simp: func_start_at_def Let_def split: list.splits if_splits)
  then show ?thesis using length_dropWhile_le [of is_space cs] by simp
qed

lemma func_start_search_shorter: "func_start_search s = Some (name, rest) \<Longrightarrow> length rest < length s"
  by (induction s) (fastforce split: option.splits dest: func_start_at_shorter)+

lemma param_loop_frame:
  "param_loop p parts = (p', parts') \<Longrightarrow>
     length (hp_buffer p') \<le> length (hp_buffer p) \<and> hp_state p' = hp_state p
     \<and> hp_tool_id p' = hp_tool_id p \<and> hp_function_name p' = hp_function_name p
     \<and> hp_draws p' = hp_draws p"
proof (induction p parts rule: param_loop.induct)
  case (1 p parts)
  show ?case
  proof (cases "closed_param_search (hp_buffer p)")
    case None
    with "1.prems" show ?thesis by (simp add: param_loop.simps [of p])
  next
    case (Some r)
    obtain pre key val rest where r: "r = (pre, key, val, rest)" by (cases r) auto
    from closed_param_search_shorter Some r have "length rest < length (hp_buffer p)" by blast
    with "1.IH" [OF Some, of pre "(key, val, rest)" key "(val, rest)" val rest] "1.prems" Some r
    show ?thesis by (auto simp: param_loop.simps [of p])
  qed
qed

lemma stage_text_measure:
  assumes "stage_text s = (False, s')"
  shows "length (hp_buffer (fs_parser s')) \<le> length (hp_buffer (fs_parser s))"
    and "hp_state (fs_parser s) \<noteq> ST_TEXT \<Longrightarrow> s' = s"
    and "hp_state (fs_parser s) = ST_TEXT \<Longrightarrow> hp_state (fs_parser s') = ST_MATCHING_FUNCTION"
  using assms by (auto simp: stage_text_def Let_def split: option.splits prod.splits if_splits)

lemma stage_matching_measure:
  assumes "stage_matching uuid8 s = (False, s')"
  shows "hp_state (fs_parser s) \<noteq> ST_MATCHING_FUNCTION \<Longrightarrow> s' = s"
    and "hp_state (fs_parser s) = ST_MATCHING_FUNCTION
      \<Longrightarrow> length (hp_buffer (fs_parser s')) < length (hp_buffer (fs_parser s))"
  using assms
  by (auto simp: stage_matching_def Let_def split: option.splits prod.splits if_splits
      dest!: func_start_search_shorter)

lemma stage_parsing_measure:
  assumes "stage_parsing s = (False, s')"
  shows "hp_state (fs_parser s) \<noteq> ST_PARSING_PARAMETERS \<Longrightarrow> s' = s"
    and "hp_state (fs_parser s) = ST_PARSING_PARAMETERS
      \<Longrightarrow> length (hp_buffer (fs_parser s')) \<le> length (hp_buffer (fs_parser s))
          \<and> hp_state (fs_parser s') = ST_TEXT"
proof -
  show "hp_state (fs_parser s) \<noteq> ST_PARSING_PARAMETERS \<Longrightarrow> s' = s"
    using assms by (simp add: stage_parsing_def)
  assume st: "hp_state (fs_parser s) = ST_PARSING_PARAMETERS"
  obtain p parts where loop: "param_loop (fs_parser s) (fs_parts s) = (p, parts)" by fastforce
  from param_loop_frame [OF loop] assms st loop
  show "length (hp_buffer (fs_parser s')) \<le> length (hp_buffer (fs_parser s))
          \<and> hp_state (fs_parser s') = ST_TEXT"
    by (auto simp: stage_parsing_def Let_def split: option.splits if_splits)
qed

lemma feed_iter_measure:
  assumes "feed_iter uuid8 s = (False, s')"
  shows "fs_measure s' < fs_measure s"
proof -
  from assms obtain s1 where t: "stage_text s = (False, s1)"
    by (auto simp: feed_iter_def split: prod.splits bool.splits)
  with assms obtain s2 where m: "stage_matching uuid8 s1 = (False, s2)"
    by (auto simp: feed_iter_def split: prod.splits bool.splits)
  from assms t m have p: "stage_parsing s2 = (False, s')"
    by (simp add: feed_iter_def)
  note tm = stage_text_measure [OF t] and mm = stage_matching_measure [OF m]
    and pm = stage_parsing_measure [OF p]
  show ?thesis
  proof (cases "hp_state (fs_parser s)")
    case ST_TEXT
    with tm mm have "length (hp_buffer (fs_parser s2)) < length (hp_buffer (fs_parser s))" by simp
    with pm ST_TEXT show ?thesis
      by (cases "hp_state (fs_parser s2) = ST_PARSING_PARAMETERS") (simp_all add: fs_measure_def)
  next
    case ST_MATCHING_FUNCTION
    with tm mm have "length (hp_buffer (fs_parser s2)) < length (hp_buffer (fs_parser s))" by simp
    with pm ST_MATCHING_FUNCTION show ?thesis
      by (cases "hp_state (fs_parser s2) = ST_PARSING_PARAMETERS") (simp_all add: fs_measure_def)
  next
    case ST_PARSING_PARAMETERS
    with tm mm pm show ?thesis by (simp add: fs_measure_def)
  qed
qed

function feed_until :: "(nat \<Rightarrow> pystr) \<Rightarrow> feed_state \<Rightarrow> feed_state" where
  "feed_until uuid8 s =
     (case feed_iter uuid8 s of (True, s') \<Rightarrow> s' | (False, s') \<Rightarrow> feed_until uuid8 s')"
  by pat_completeness auto
termination
  by (relation "measure (\<lambda>(uuid8, s). fs_measure s)") (auto dest!: feed_iter_measure [OF sym])

declare feed_until.simps [simp del]

definition tool_feed ::
  "(int \<Rightarrow> bool) \<Rightarrow> (pystr \<Rightarrow> json option) \<Rightarrow> (nat \<Rightarrow> pystr) \<Rightarrow> tool_parser \<Rightarrow> pystr
   \<Rightarrow> pystr \<times> heuristic_tool list \<times> tool_parser" where
  "tool_feed word loads uuid8 p text =
     (case extract_web_tool_json_calls word loads uuid8
             (p\<lparr>hp_buffer := strip_control_tokens (hp_buffer p @ text)\<rparr>) of
        (tools, p1) \<Rightarrow>
          (let s = feed_until uuid8 \<lparr>fs_parser = p1, fs_parts = [], fs_tools = tools\<rparr>
           in (concat (fs_parts s), fs_tools s, fs_parser s)))"

text \<open>In the flush pattern \<open>(.*)$\<close> is greedy: the leftmost opening takes all that follows.\<close>

definition tool_flush :: "tool_parser \<Rightarrow> heuristic_tool list \<times> tool_parser" where
  "tool_flush p =
     (let p0 = p\<lparr>hp_buffer := strip_control_tokens (hp_buffer p)\<rparr>
      in if hp_state p0 = ST_PARSING_PARAMETERS
         then (let p1 = (case param_open_search (hp_buffer p0) of
                           None \<Rightarrow> p0
                         | Some (pre, key, rest) \<Rightarrow>
                             p0\<lparr>hp_parameters := AList.update (strip key) (JStr (strip rest))
                                  (hp_parameters p0)\<rparr>)
               in ([current_tool p1], p1\<lparr>hp_state := ST_TEXT, hp_buffer := []\<rparr>))
         else ([], p0))"

section \<open>What the loop leaves\<close>

text \<open>The loop as an induction rule over its iterations.\<close>

lemma feed_until_invariant:
  assumes start: "I s" and iter: "\<And>s b s'. I s \<Longrightarrow> feed_iter uuid8 s = (b, s') \<Longrightarrow> I s'"
  shows "I (feed_until uuid8 s)"
  using start iter
proof (induction uuid8 s rule: feed_until.induct [case_names step])
  case (step uuid8 s)
  obtain b s' where eq: "feed_iter uuid8 s = (b, s')" by fastforce
  with step.prems have "I s'" by blast
  with eq step.IH [of b s'] step.prems(2) show ?case
    by (cases b) (simp_all add: feed_until.simps [of _ s])
qed

lemma feed_until_exit:
  assumes "I s" and "\<And>s b s'. I s \<Longrightarrow> feed_iter uuid8 s = (b, s') \<Longrightarrow> I s'"
  shows "\<exists>s0. I s0 \<and> feed_iter uuid8 s0 = (True, feed_until uuid8 s)"
  using assms
proof (induction uuid8 s rule: feed_until.induct [case_names step])
  case (step uuid8 s)
  obtain b s' where eq: "feed_iter uuid8 s = (b, s')" by fastforce
  with step.prems have "I s'" by blast
  with eq step.IH [of b s'] step.prems show ?case
    by (cases b) (auto simp: feed_until.simps [of _ s])
qed

text \<open>What is in the buffer when \<open>feed\<close> returns.\<close>

definition rest_ok :: "tool_parser \<Rightarrow> bool" where
  "rest_ok p \<longleftrightarrow>
     (case hp_state p of
        ST_TEXT \<Rightarrow> hp_buffer p = []
          \<or> (prefix (u ''<|'') (hp_buffer p) \<and> find_sub (u ''|>'') (hp_buffer p) = None)
      | ST_MATCHING_FUNCTION \<Rightarrow>
          length (hp_buffer p) \<le> 100 \<and> func_start_search (hp_buffer p) = None
      | ST_PARSING_PARAMETERS \<Rightarrow>
          bullet \<notin> set (hp_buffer p) \<and> closed_param_search (hp_buffer p) = None)"

text \<open>While parameters are read, the id and the name of the call are set.\<close>

definition ids_ok :: "tool_parser \<Rightarrow> bool" where
  "ids_ok p \<longleftrightarrow> (hp_state p = ST_PARSING_PARAMETERS \<longrightarrow>
     hp_tool_id p \<noteq> None \<and> hp_function_name p \<noteq> None)"

lemma param_loop_done: "param_loop p parts = (p', parts') \<Longrightarrow> closed_param_search (hp_buffer p') = None"
proof (induction p parts rule: param_loop.induct)
  case (1 p parts)
  show ?case
  proof (cases "closed_param_search (hp_buffer p)")
    case None
    with "1.prems" show ?thesis by (simp add: param_loop.simps [of p])
  next
    case (Some r)
    obtain pre key val rest where r: "r = (pre, key, val, rest)" by (cases r) auto
    with "1.IH" [OF Some, of pre "(key, val, rest)" key "(val, rest)" val rest] "1.prems" Some
    show ?thesis by (simp add: param_loop.simps [of p])
  qed
qed

lemma stage_text_exit: "stage_text s = (True, s') \<Longrightarrow> rest_ok (fs_parser s')"
  by (auto simp: stage_text_def rest_ok_def split_incomplete_control_token_tail_def Let_def
      split: if_splits option.splits prod.splits dest: rfind_sub_Some_prefix)

lemma stage_matching_exit: "stage_matching uuid8 s = (True, s') \<Longrightarrow> rest_ok (fs_parser s')"
  by (auto simp: stage_matching_def rest_ok_def Let_def split: if_splits option.splits)

lemma stage_parsing_exit: "stage_parsing s = (True, s') \<Longrightarrow> rest_ok (fs_parser s')"
proof -
  assume exit: "stage_parsing s = (True, s')"
  then have st: "hp_state (fs_parser s) = ST_PARSING_PARAMETERS"
    by (simp add: stage_parsing_def split: if_splits)
  obtain p parts where loop: "param_loop (fs_parser s) (fs_parts s) = (p, parts)" by fastforce
  from exit st loop param_loop_done [OF loop] param_loop_frame [OF loop] show ?thesis
    by (auto simp: stage_parsing_def rest_ok_def Let_def find_sub_char_None
        split: if_splits option.splits)
qed

lemma feed_iter_exit: "feed_iter uuid8 s = (True, s') \<Longrightarrow> rest_ok (fs_parser s')"
  by (auto simp: feed_iter_def stage_text_exit stage_matching_exit stage_parsing_exit
      split: prod.splits bool.splits)

lemma stage_text_ids: "stage_text s = (b, s') \<Longrightarrow> ids_ok (fs_parser s) \<Longrightarrow> ids_ok (fs_parser s')"
  by (auto simp: stage_text_def ids_ok_def Let_def split: if_splits option.splits prod.splits)

lemma stage_matching_ids:
  "stage_matching uuid8 s = (b, s') \<Longrightarrow> ids_ok (fs_parser s) \<Longrightarrow> ids_ok (fs_parser s')"
  by (auto simp: stage_matching_def ids_ok_def Let_def split: if_splits option.splits)

lemma stage_parsing_ids:
  assumes "stage_parsing s = (b, s')" and "ids_ok (fs_parser s)"
  shows "ids_ok (fs_parser s')"
proof -
  obtain p parts where loop: "param_loop (fs_parser s) (fs_parts s) = (p, parts)" by fastforce
  from assms loop param_loop_frame [OF loop] show ?thesis
    by (auto simp: stage_parsing_def ids_ok_def Let_def split: if_splits option.splits)
qed

lemma feed_iter_ids: "feed_iter uuid8 s = (b, s') \<Longrightarrow> ids_ok (fs_parser s) \<Longrightarrow> ids_ok (fs_parser s')"
  by (auto simp: feed_iter_def split: prod.splits bool.splits
      dest: stage_text_ids stage_matching_ids stage_parsing_ids)

lemma tool_feed_rest:
  assumes "tool_feed word loads uuid8 p text = (out, tools, p')"
  shows "rest_ok p'"
proof -
  obtain s where s: "p' = fs_parser (feed_until uuid8 s)"
    using assms by (auto simp: tool_feed_def Let_def split: prod.splits)
  from feed_until_exit [of "\<lambda>_. True" s uuid8] feed_iter_exit s show ?thesis by blast
qed

lemma tool_feed_ids:
  assumes "tool_feed word loads uuid8 p text = (out, tools, p')" and "ids_ok p"
  shows "ids_ok p'"
proof -
  let ?s = "\<lambda>p1 t. \<lparr>fs_parser = p1, fs_parts = [], fs_tools = t\<rparr> :: feed_state"
  obtain p1 t where p': "p' = fs_parser (feed_until uuid8 (?s p1 t))" and "ids_ok p1"
    using assms
    by (auto simp: tool_feed_def extract_web_tool_json_calls_def ids_ok_def Let_def
        split: prod.splits)
  with feed_until_invariant [of "\<lambda>s. ids_ok (fs_parser s)" "?s p1 t" uuid8] feed_iter_ids
  show ?thesis by fastforce
qed

section \<open>Plain text passes through\<close>

lemma control_token_at_None: "\<not> prefix (u ''<|'') s \<Longrightarrow> control_token_at s = None"
  by (simp add: control_token_at_def)

lemma strip_control_tokens_plain: "find_sub (u ''<|'') s = None \<Longrightarrow> strip_control_tokens s = s"
proof (induction s)
  case Nil
  then show ?case by (simp add: strip_control_tokens.simps)
next
  case (Cons c cs)
  from Cons.prems have "find_sub (u ''<|'') cs = None" and "\<not> prefix (u ''<|'') (c # cs)"
    by (auto split: if_splits)
  with Cons.IH show ?case
    by (subst strip_control_tokens.simps) (simp add: control_token_at_None)
qed

text \<open>No \<open><|\<close> and no web tool call: the two preprocessing steps leave the text alone.\<close>

definition plain_for_tools :: "(int \<Rightarrow> bool) \<Rightarrow> pystr \<Rightarrow> bool" where
  "plain_for_tools word s \<longleftrightarrow>
     find_sub (u ''<|'') s = None \<and> web_tool_matches word None s = []"

lemma tool_feed_plain:
  assumes "plain_for_tools word (hp_buffer p @ text)"
  shows "tool_feed word loads uuid8 p text =
    (let s = feed_until uuid8
       \<lparr>fs_parser = p\<lparr>hp_buffer := hp_buffer p @ text\<rparr>, fs_parts = [], fs_tools = []\<rparr>
     in (concat (fs_parts s), fs_tools s, fs_parser s))"
  using assms
  by (simp add: tool_feed_def extract_web_tool_json_calls_def plain_for_tools_def
      strip_control_tokens_plain)

lemma tool_feed_text:
  assumes st: "hp_state p = ST_TEXT" and buf: "hp_buffer p = []"
    and plain: "plain_for_tools word text" and nb: "bullet \<notin> set text"
  shows "tool_feed word loads uuid8 p text = (text, [], p)"
proof -
  from nb have fb: "find_sub [bullet] text = None" by (simp add: find_sub_char_None)
  from plain have "rfind_sub (u ''<|'') text = None"
    by (simp add: plain_for_tools_def rfind_sub_None)
  then have split: "split_incomplete_control_token_tail text = ([], text)"
    by (simp add: split_incomplete_control_token_tail_def)
  have p: "p\<lparr>hp_buffer := []\<rparr> = p" using buf by (cases p) simp
  have "feed_until uuid8 \<lparr>fs_parser = p\<lparr>hp_buffer := text\<rparr>, fs_parts = [], fs_tools = []\<rparr>
    = \<lparr>fs_parser = p, fs_parts = [text], fs_tools = []\<rparr>"
    using st fb split p by (subst feed_until.simps) (simp add: feed_iter_def stage_text_def)
  with plain buf show ?thesis by (simp add: tool_feed_plain)
qed

section \<open>A rendered call is read back\<close>

definition render_param :: "pystr \<times> pystr \<Rightarrow> pystr" where
  "render_param kv = u ''<parameter='' @ fst kv @ 62 # snd kv @ u ''</parameter>''"

definition render_call :: "pystr \<Rightarrow> (pystr \<times> pystr) list \<Rightarrow> pystr" where
  "render_call name params =
     bullet # 32 # u ''<function='' @ name @ 62 # concat (map render_param params)"

definition read_params ::
  "(pystr \<times> json) list \<Rightarrow> (pystr \<times> pystr) list \<Rightarrow> (pystr \<times> json) list" where
  "read_params d params =
     fold (\<lambda>(k, v). AList.update (strip k) (JStr (strip v))) params d"

definition param_ok :: "pystr \<times> pystr \<Rightarrow> bool" where
  "param_ok kv \<longleftrightarrow> fst kv \<noteq> [] \<and> 62 \<notin> set (fst kv) \<and> 60 \<notin> set (snd kv)"

lemma closed_param_search_render:
  assumes "param_ok (k, v)"
  shows "closed_param_search (render_param (k, v) @ rest) = Some ([], k, v, rest)"
proof -
  let ?tail = "v @ u ''</parameter>'' @ rest"
  have s: "render_param (k, v) @ rest = u ''<parameter='' @ k @ 62 # ?tail"
    by (simp add: render_param_def)
  from assms have k: "k \<noteq> []" "62 \<notin> set k" and v: "60 \<notin> set v" by (auto simp: param_ok_def)
  have "param_open_at (u ''<parameter='' @ k @ 62 # ?tail) = Some (k, ?tail)"
    using k by (simp add: param_open_at_def Let_def takeWhile_neq_append)
  then have op: "param_open_search (u ''<parameter='' @ k @ 62 # ?tail) = Some ([], k, ?tail)"
    by (simp add: u_Cons del: of_char_eq_iff)
  have "u ''</parameter>'' = 60 # u ''/parameter>''" by (simp add: u_def)
  with find_sub_append_notin [OF v, of "u ''/parameter>''" rest]
  have "find_sub (u ''</parameter>'') ?tail = Some (length v)" by simp
  with op s show ?thesis by (simp add: closed_param_search_def)
qed

lemma param_loop_render:
  assumes "\<forall>kv \<in> set params. param_ok kv"
    and "hp_buffer p = concat (map render_param params)"
  shows "param_loop p parts
    = (p\<lparr>hp_parameters := read_params (hp_parameters p) params, hp_buffer := []\<rparr>, parts)"
  using assms
proof (induction params arbitrary: p)
  case Nil
  then have "closed_param_search (hp_buffer p) = None"
    by (simp add: closed_param_search_def)
  with Nil show ?case by (cases p) (simp add: param_loop.simps read_params_def)
next
  case (Cons kv params)
  obtain k v where kv: "kv = (k, v)" by fastforce
  with Cons.prems have ok: "param_ok (k, v)" by simp
  from closed_param_search_render [OF ok] Cons.prems(2) kv
  have "closed_param_search (hp_buffer p) = Some ([], k, v, concat (map render_param params))"
    by simp
  with Cons.IH [of "p\<lparr>hp_parameters := AList.update (strip k) (JStr (strip v)) (hp_parameters p),
      hp_buffer := concat (map render_param params)\<rparr>"] Cons.prems(1) kv
  show ?case by (subst param_loop.simps) (simp add: read_params_def)
qed

lemma func_start_search_render:
  assumes "name \<noteq> []" and "62 \<notin> set name"
  shows "func_start_search (bullet # 32 # u ''<function='' @ name @ 62 # rest) = Some (name, rest)"
proof -
  have sp: "dropWhile is_space (u ''<function='' @ name @ 62 # rest)
    = u ''<function='' @ name @ 62 # rest"
    by (simp add: u_def is_space_def)
  have "func_start_at (bullet # 32 # u ''<function='' @ name @ 62 # rest) = Some (name, rest)"
    using assms sp by (simp add: func_start_at_def Let_def takeWhile_neq_append is_space_def)
  then show ?thesis by simp
qed

lemma feed_iter_render:
  assumes name: "name \<noteq> []" "62 \<notin> set name" and params: "\<forall>kv \<in> set params. param_ok kv"
    and st: "hp_state p = ST_TEXT" and buf: "hp_buffer p = render_call name params"
  shows "feed_iter uuid8 \<lparr>fs_parser = p, fs_parts = [], fs_tools = []\<rparr> =
    (True, \<lparr>fs_parser = p\<lparr>hp_state := ST_PARSING_PARAMETERS, hp_buffer := [],
        hp_function_name := Some (strip name),
        hp_tool_id := Some (heuristic_id uuid8 (hp_draws p)), hp_draws := Suc (hp_draws p),
        hp_parameters := read_params [] params\<rparr>, fs_parts = [[]], fs_tools = []\<rparr>)"
proof -
  let ?rest = "concat (map render_param params)"
  let ?s1 = "\<lparr>fs_parser = p\<lparr>hp_state := ST_MATCHING_FUNCTION\<rparr>, fs_parts = [[]], fs_tools = []\<rparr>"
  let ?q = "p\<lparr>hp_state := ST_PARSING_PARAMETERS, hp_buffer := ?rest,
        hp_function_name := Some (strip name),
        hp_tool_id := Some (heuristic_id uuid8 (hp_draws p)), hp_draws := Suc (hp_draws p),
        hp_parameters := []\<rparr>"
  have t: "stage_text \<lparr>fs_parser = p, fs_parts = [], fs_tools = []\<rparr> = (False, ?s1)"
    using st buf by (cases p) (simp add: stage_text_def render_call_def)
  have m: "stage_matching uuid8 ?s1 = (False, \<lparr>fs_parser = ?q, fs_parts = [[]], fs_tools = []\<rparr>)"
    using buf func_start_search_render [OF name, of ?rest]
    by (simp add: stage_matching_def render_call_def)
  have "stage_parsing \<lparr>fs_parser = ?q, fs_parts = [[]], fs_tools = []\<rparr>
    = (True, \<lparr>fs_parser = ?q\<lparr>hp_parameters := read_params [] params, hp_buffer := []\<rparr>,
              fs_parts = [[]], fs_tools = []\<rparr>)"
    using param_loop_render [OF params, of ?q] by (simp add: stage_parsing_def)
  with t m show ?thesis by (simp add: feed_iter_def)
qed

section \<open>Properties\<close>

text \<open>The feed loop ends on every input, and what the parser then holds back is bounded
  or about to become a token: nothing or an unfinished control token in the text state, at most
  100 characters without a function start while it waits for one, no bullet and no complete
  parameter while it reads parameters, with the id and name of the call known.\<close>

theorem tool_feed_holds_bounded:
  assumes "tool_feed word loads uuid8 p text = (out, tools, p')" and "ids_ok p"
  shows "rest_ok p' \<and> ids_ok p'"
  using tool_feed_rest [OF assms(1)] tool_feed_ids [OF assms] by simp

theorem tool_feed_holds_bounded_witness:
  "rest_ok (snd (snd (tool_feed (\<lambda>c. False) (\<lambda>_. None) (\<lambda>_. []) tool_parser_init
      (u ''ab'' @ [bullet] @ u '' <function=f>''))))"
proof -
  let ?r = "tool_feed (\<lambda>c. False) (\<lambda>_. None) (\<lambda>_. []) tool_parser_init
      (u ''ab'' @ [bullet] @ u '' <function=f>'')"
  have "?r = (fst ?r, fst (snd ?r), snd (snd ?r))" by simp
  moreover have "ids_ok tool_parser_init" by (simp add: ids_ok_def tool_parser_init_def)
  ultimately show ?thesis by (rule tool_feed_holds_bounded [THEN conjunct1])
qed

text \<open>Text without a bullet, a control token opening and a web tool call passes through
  unchanged, yields no tool call and leaves the parser as it was.\<close>

theorem tool_feed_passthrough:
  assumes "hp_state p = ST_TEXT" and "hp_buffer p = []"
    and "plain_for_tools word text" and "bullet \<notin> set text"
  shows "tool_feed word loads uuid8 p text = (text, [], p)"
  using assms by (rule tool_feed_text)

theorem tool_feed_passthrough_witness:
  "tool_feed (\<lambda>c. False) (\<lambda>_. None) (\<lambda>_. []) tool_parser_init (u ''hi'')
     = (u ''hi'', [], tool_parser_init)"
  by (rule tool_feed_passthrough)
    (simp_all add: tool_parser_init_def plain_for_tools_def u_def bullet_def web_tool_matches.simps
      web_tool_at_def web_tool_name_at_def ci_eq_def lower_ascii_def)

text \<open>Claim C39: a tool call written in the function form, with a non-empty name without \<open>>\<close>, non-empty
  parameter names without \<open>>\<close> and values without \<open><\<close>, whose text holds no opening of a control token
  and no web tool call, fed in one piece to a fresh parser and flushed, is read back: no text comes
  out, and the one call has the drawn id, the stripped name and the stripped parameters, a later one
  of the same key overriding.\<close>

theorem tool_call_roundtrip:
  assumes name: "name \<noteq> []" "62 \<notin> set name" and params: "\<forall>kv \<in> set params. param_ok kv"
    and plain: "plain_for_tools word (render_call name params)"
    and feed: "tool_feed word loads uuid8 tool_parser_init (render_call name params) = (out, tools, p)"
  shows "out = [] \<and> tools = [] \<and> fst (tool_flush p) =
    [\<lparr>ht_id = heuristic_id uuid8 0, ht_name = strip name, ht_input = read_params [] params\<rparr>]"
proof -
  let ?p = "tool_parser_init\<lparr>hp_buffer := render_call name params\<rparr>"
  have p0: "hp_state ?p = ST_TEXT" "hp_buffer ?p = render_call name params"
    "hp_draws ?p = 0" "hp_buffer tool_parser_init = []"
    by (simp_all add: tool_parser_init_def)
  note iter = feed_iter_render [OF name params p0(1,2), of uuid8]
  have "feed_until uuid8 \<lparr>fs_parser = ?p, fs_parts = [], fs_tools = []\<rparr>
    = snd (feed_iter uuid8 \<lparr>fs_parser = ?p, fs_parts = [], fs_tools = []\<rparr>)"
    using iter by (simp add: feed_until.simps)
  with feed plain p0 iter show ?thesis
    by (auto simp: tool_feed_plain tool_flush_def strip_control_tokens.simps [of "[]"]
        current_tool_def Let_def)
qed

theorem tool_call_roundtrip_witness:
  "fst (tool_flush (snd (snd (tool_feed (\<lambda>c. False) (\<lambda>_. None) (\<lambda>_. []) tool_parser_init
      (render_call (u ''f'') [(u ''k'', u ''v'')])))))
     = [\<lparr>ht_id = heuristic_id (\<lambda>_. []) 0, ht_name = strip (u ''f''),
         ht_input = read_params [] [(u ''k'', u ''v'')]\<rparr>]"
proof -
  let ?r = "tool_feed (\<lambda>c. False) (\<lambda>_. None) (\<lambda>_. []) tool_parser_init
      (render_call (u ''f'') [(u ''k'', u ''v'')])"
  have eq: "?r = (fst ?r, fst (snd ?r), snd (snd ?r))" by simp
  have "plain_for_tools (\<lambda>c. False) (render_call (u ''f'') [(u ''k'', u ''v'')])" by code_simp
  from tool_call_roundtrip [OF _ _ _ this eq] show ?thesis
    by (simp add: param_ok_def u_def)
qed

text \<open>Text after a bullet is lost at the end of a reply. A reply that ends with a bullet
  and at most 99 further characters that start no function call is held by \<open>feed\<close>, and \<open>flush\<close>
  returns nothing for it: the characters reach neither the text nor a tool call.\<close>

theorem trailing_bullet_text_is_lost:
  assumes nb: "bullet \<notin> set before" and short: "length after \<le> 99"
    and nofunc: "func_start_search (bullet # after) = None"
    and plain: "plain_for_tools word (before @ bullet # after)"
  shows "\<exists>p. tool_feed word loads uuid8 tool_parser_init (before @ bullet # after) = (before, [], p)
    \<and> fst (tool_flush p) = []"
proof -
  let ?t = "before @ bullet # after"
  let ?p = "tool_parser_init\<lparr>hp_buffer := ?t\<rparr>"
  let ?q = "tool_parser_init\<lparr>hp_buffer := bullet # after, hp_state := ST_MATCHING_FUNCTION\<rparr>"
  have fb: "find_sub [bullet] ?t = Some (length before)"
    using find_sub_append_notin [OF nb, of "[]" after] by simp
  have "stage_text \<lparr>fs_parser = ?p, fs_parts = [], fs_tools = []\<rparr>
    = (False, \<lparr>fs_parser = ?q, fs_parts = [before], fs_tools = []\<rparr>)"
    using fb by (simp add: stage_text_def tool_parser_init_def)
  moreover have "stage_matching uuid8 \<lparr>fs_parser = ?q, fs_parts = [before], fs_tools = []\<rparr>
    = (True, \<lparr>fs_parser = ?q, fs_parts = [before], fs_tools = []\<rparr>)"
    using nofunc short by (simp add: stage_matching_def)
  ultimately have "feed_until uuid8 \<lparr>fs_parser = ?p, fs_parts = [], fs_tools = []\<rparr>
    = \<lparr>fs_parser = ?q, fs_parts = [before], fs_tools = []\<rparr>"
    by (subst feed_until.simps) (simp add: feed_iter_def)
  with plain have "tool_feed word loads uuid8 tool_parser_init ?t = (before, [], ?q)"
    using tool_feed_plain [of word tool_parser_init ?t loads uuid8]
    by (simp add: tool_parser_init_def)
  moreover have "fst (tool_flush ?q) = []" by (simp add: tool_flush_def)
  ultimately show ?thesis by blast
qed

theorem trailing_bullet_text_is_lost_witness:
  "\<exists>p. tool_feed (\<lambda>c. False) (\<lambda>_. None) (\<lambda>_. []) tool_parser_init
      (u ''todo: '' @ bullet # u '' done'') = (u ''todo: '', [], p) \<and> fst (tool_flush p) = []"
proof (rule trailing_bullet_text_is_lost)
  show "func_start_search (bullet # u '' done'') = None" by code_simp
  show "plain_for_tools (\<lambda>c. False) (u ''todo: '' @ bullet # u '' done'')" by code_simp
qed (simp_all add: u_def bullet_def)

end
