(* ===== verification/Generators.thy ===== *)
theory Generators
  imports Json Errors
begin

text \<open>
  Python generators over a mutable object. A generator procedure takes the object's state and
  gives the values it yields in order, how it ends (an exception or a result) and the state it
  leaves, whatever the ending. \<open>gbind\<close> is statement sequence: an exception of the first part
  skips the second, and what was yielded before it stays yielded. \<open>hoare\<close> is the triple the
  component proofs use: it relates the state to an observer that consumes the yielded values.
\<close>

datatype py_error =
    AttributeError
  | KeyError
  | AssertionError
  | TypeError
  | ValueError
  | Upstream exn

text \<open>The exception object; \<open>text_of\<close> gives the interpreter's own wording of the built-in ones.\<close>

fun exn_of :: "(py_error \<Rightarrow> pystr) \<Rightarrow> py_error \<Rightarrow> exn" where
  "exn_of text_of (Upstream e) = e"
| "exn_of text_of AttributeError =
     \<lparr>ex_class = OtherException, ex_name = u ''AttributeError'', ex_status_code = None,
      ex_response_status = 0, ex_str = text_of AttributeError, ex_error_type = []\<rparr>"
| "exn_of text_of KeyError =
     \<lparr>ex_class = OtherException, ex_name = u ''KeyError'', ex_status_code = None,
      ex_response_status = 0, ex_str = text_of KeyError, ex_error_type = []\<rparr>"
| "exn_of text_of AssertionError =
     \<lparr>ex_class = OtherException, ex_name = u ''AssertionError'', ex_status_code = None,
      ex_response_status = 0, ex_str = text_of AssertionError, ex_error_type = []\<rparr>"
| "exn_of text_of TypeError =
     \<lparr>ex_class = OtherException, ex_name = u ''TypeError'', ex_status_code = None,
      ex_response_status = 0, ex_str = text_of TypeError, ex_error_type = []\<rparr>"
| "exn_of text_of ValueError =
     \<lparr>ex_class = OtherException, ex_name = u ''ValueError'', ex_status_code = None,
      ex_response_status = 0, ex_str = text_of ValueError, ex_error_type = []\<rparr>"

type_synonym ('e, 's, 'a) gen = "'s \<Rightarrow> 'e list \<times> (py_error + 'a) \<times> 's"

definition gret :: "'a \<Rightarrow> ('e, 's, 'a) gen" where
  "gret a s = ([], Inr a, s)"

definition gbind :: "('e, 's, 'a) gen \<Rightarrow> ('a \<Rightarrow> ('e, 's, 'b) gen) \<Rightarrow> ('e, 's, 'b) gen" where
  "gbind m f s =
     (case m s of
        (es, Inl x, s') \<Rightarrow> (es, Inl x, s')
      | (es, Inr a, s') \<Rightarrow> (case f a s' of (es', r, s'') \<Rightarrow> (es @ es', r, s'')))"

definition gseq :: "('e, 's, 'a) gen \<Rightarrow> ('e, 's, 'b) gen \<Rightarrow> ('e, 's, 'b) gen" where
  "gseq m n = gbind m (\<lambda>_. n)"

definition graise :: "py_error \<Rightarrow> ('e, 's, 'a) gen" where
  "graise x s = ([], Inl x, s)"

text \<open>The value of an expression that may raise.\<close>

definition glift :: "py_error + 'a \<Rightarrow> ('e, 's, 'a) gen" where
  "glift r = (case r of Inl x \<Rightarrow> graise x | Inr a \<Rightarrow> gret a)"

definition gget :: "('s \<Rightarrow> 'a) \<Rightarrow> ('e, 's, 'a) gen" where
  "gget f s = ([], Inr (f s), s)"

definition gmod :: "('s \<Rightarrow> 's) \<Rightarrow> ('e, 's, unit) gen" where
  "gmod f s = ([], Inr (), f s)"

definition gwhen :: "bool \<Rightarrow> ('e, 's, unit) gen \<Rightarrow> ('e, 's, unit) gen" where
  "gwhen b m = (if b then m else gret ())"

text \<open>Yield the event an operation on the state returns.\<close>

definition gyield :: "('s \<Rightarrow> 'e \<times> 's) \<Rightarrow> ('e, 's, unit) gen" where
  "gyield f s = (case f s of (e, s') \<Rightarrow> ([e], Inr (), s'))"

fun gfor :: "'x list \<Rightarrow> ('x \<Rightarrow> ('e, 's, unit) gen) \<Rightarrow> ('e, 's, unit) gen" where
  "gfor [] f = gret ()"
| "gfor (x # xs) f = gseq (f x) (gfor xs f)"

text \<open>\<open>try: m except Exception as e: h(e)\<close>, where the body and the handler end the same way.\<close>

definition gtry :: "('e, 's, 'a) gen \<Rightarrow> (py_error \<Rightarrow> ('e, 's, 'a) gen) \<Rightarrow> ('e, 's, 'a) gen" where
  "gtry m h s =
     (case m s of
        (es, Inl x, s') \<Rightarrow> (case h x s' of (es', r, s'') \<Rightarrow> (es @ es', r, s''))
      | (es, Inr a, s') \<Rightarrow> (es, Inr a, s'))"

text \<open>Run a generator on one field of a larger object.\<close>

definition gzoom :: "('t \<Rightarrow> 's) \<Rightarrow> ('s \<Rightarrow> 't \<Rightarrow> 't) \<Rightarrow> ('e, 's, 'a) gen \<Rightarrow> ('e, 't, 'a) gen" where
  "gzoom get put m t = (case m (get t) of (es, r, s) \<Rightarrow> (es, r, put s t))"

named_theorems gen_defs "the generator combinators, unfolded"

lemmas gen_unfold [gen_defs] =
  gret_def gbind_def gseq_def graise_def glift_def gget_def gmod_def gwhen_def gyield_def gtry_def gzoom_def

section \<open>Observers and triples\<close>

text \<open>An observer consumes a list of events and may reject it (\<open>None\<close>).\<close>

fun observe :: "('c \<Rightarrow> 'e \<Rightarrow> 'c option) \<Rightarrow> 'c \<Rightarrow> 'e list \<Rightarrow> 'c option" where
  "observe f c [] = Some c"
| "observe f c (e # es) = (case f c e of None \<Rightarrow> None | Some c' \<Rightarrow> observe f c' es)"

lemma observe_append:
  "observe f c (xs @ ys) = (case observe f c xs of None \<Rightarrow> None | Some c' \<Rightarrow> observe f c' ys)"
  by (induction xs arbitrary: c) (auto split: option.splits)

text \<open>
  \<open>hoare f P m Q E\<close>: from a state and observer related by \<open>P\<close>, the observer accepts all that
  \<open>m\<close> yields; if \<open>m\<close> returns \<open>a\<close>, the end states are related by \<open>Q a\<close>, if it raises, by \<open>E\<close>.
\<close>

definition hoare ::
  "('c \<Rightarrow> 'e \<Rightarrow> 'c option) \<Rightarrow> ('s \<Rightarrow> 'c \<Rightarrow> bool) \<Rightarrow> ('e, 's, 'a) gen
   \<Rightarrow> ('a \<Rightarrow> 's \<Rightarrow> 'c \<Rightarrow> bool) \<Rightarrow> ('s \<Rightarrow> 'c \<Rightarrow> bool) \<Rightarrow> bool" where
  "hoare f P m Q E \<longleftrightarrow>
     (\<forall>s c. P s c \<longrightarrow>
        (case m s of (es, r, s') \<Rightarrow>
           (\<exists>c'. observe f c es = Some c'
              \<and> (case r of Inl _ \<Rightarrow> E s' c' | Inr a \<Rightarrow> Q a s' c'))))"

lemma hoare_ret [intro]: "(\<And>s c. P s c \<Longrightarrow> Q a s c) \<Longrightarrow> hoare f P (gret a) Q E"
  by (simp add: hoare_def gret_def)

lemma hoare_get [intro]: "(\<And>s c. P s c \<Longrightarrow> Q (g s) s c) \<Longrightarrow> hoare f P (gget g) Q E"
  by (simp add: hoare_def gget_def)

lemma hoare_mod [intro]: "(\<And>s c. P s c \<Longrightarrow> Q () (g s) c) \<Longrightarrow> hoare f P (gmod g) Q E"
  by (simp add: hoare_def gmod_def)

lemma hoare_raise [intro]: "(\<And>s c. P s c \<Longrightarrow> E s c) \<Longrightarrow> hoare f P (graise x) Q E"
  by (simp add: hoare_def graise_def)

lemma hoare_lift [intro]:
  "(\<And>a s c. r = Inr a \<Longrightarrow> P s c \<Longrightarrow> Q a s c) \<Longrightarrow> (\<And>x s c. r = Inl x \<Longrightarrow> P s c \<Longrightarrow> E s c) \<Longrightarrow> hoare f P (glift r) Q E"
  by (simp add: hoare_def glift_def gret_def graise_def split: sum.split)

lemma hoare_yield [intro]:
  "(\<And>s c e s'. P s c \<Longrightarrow> g s = (e, s') \<Longrightarrow> \<exists>c'. f c e = Some c' \<and> Q () s' c')
   \<Longrightarrow> hoare f P (gyield g) Q E"
  by (fastforce simp: hoare_def gyield_def split: prod.splits)

lemma hoare_bind [intro]:
  assumes m: "hoare f P m R E" and k: "\<And>a. hoare f (R a) (k a) Q E"
  shows "hoare f P (gbind m k) Q E"
  unfolding hoare_def
proof (intro allI impI)
  fix s c assume p: "P s c"
  obtain es r s' where ms: "m s = (es, r, s')" by (cases "m s")
  with m p obtain c' where obs: "observe f c es = Some c'"
    and post: "case r of Inl _ \<Rightarrow> E s' c' | Inr a \<Rightarrow> R a s' c'"
    unfolding hoare_def by fastforce
  show "case gbind m k s of (es, r, s') \<Rightarrow> \<exists>c'. observe f c es = Some c'
    \<and> (case r of Inl _ \<Rightarrow> E s' c' | Inr a \<Rightarrow> Q a s' c')"
  proof (cases r)
    case (Inl x)
    with ms obs post show ?thesis by (simp add: gbind_def)
  next
    case (Inr a)
    obtain es' r' s'' where ks: "k a s' = (es', r', s'')" by (cases "k a s'")
    from k [of a] post Inr ks obtain c'' where "observe f c' es' = Some c''"
      and "case r' of Inl _ \<Rightarrow> E s'' c'' | Inr b \<Rightarrow> Q b s'' c''"
      unfolding hoare_def by fastforce
    with ms obs Inr ks show ?thesis by (simp add: gbind_def observe_append)
  qed
qed

lemma hoare_seq [intro]:
  "hoare f P m (\<lambda>_. R) E \<Longrightarrow> hoare f R n Q E \<Longrightarrow> hoare f P (gseq m n) Q E"
  unfolding gseq_def by (rule hoare_bind)

lemma hoare_weaken:
  assumes "hoare f P' m Q' E'" and "\<And>s c. P s c \<Longrightarrow> P' s c"
    and "\<And>a s c. Q' a s c \<Longrightarrow> Q a s c" and "\<And>s c. E' s c \<Longrightarrow> E s c"
  shows "hoare f P m Q E"
  unfolding hoare_def
proof (intro allI impI)
  fix s c assume "P s c"
  then have p: "P' s c" by (rule assms(2))
  obtain es r s' where ms: "m s = (es, r, s')" by (cases "m s")
  with assms(1) p obtain c' where "observe f c es = Some c'"
    and "case r of Inl _ \<Rightarrow> E' s' c' | Inr a \<Rightarrow> Q' a s' c'"
    unfolding hoare_def by fastforce
  with ms assms(3,4) show "case m s of (es, r, s') \<Rightarrow> \<exists>c'. observe f c es = Some c'
    \<and> (case r of Inl _ \<Rightarrow> E s' c' | Inr a \<Rightarrow> Q a s' c')"
    by (auto split: sum.splits)
qed

lemma hoare_when [intro]:
  "(b \<Longrightarrow> hoare f P m Q E) \<Longrightarrow> (\<And>s c. \<not> b \<Longrightarrow> P s c \<Longrightarrow> Q () s c) \<Longrightarrow> hoare f P (gwhen b m) Q E"
  by (auto simp: gwhen_def)

lemma hoare_for [intro]:
  "(\<And>x. x \<in> set xs \<Longrightarrow> hoare f P (g x) (\<lambda>_. P) E) \<Longrightarrow> hoare f P (gfor xs g) (\<lambda>_. P) E"
  by (induction xs) auto

lemma hoare_try [intro]:
  assumes m: "hoare f P m Q R" and h: "\<And>x. hoare f R (h x) Q E"
  shows "hoare f P (gtry m h) Q E"
  unfolding hoare_def
proof (intro allI impI)
  fix s c assume p: "P s c"
  obtain es r s' where ms: "m s = (es, r, s')" by (cases "m s")
  with m p obtain c' where obs: "observe f c es = Some c'"
    and post: "case r of Inl _ \<Rightarrow> R s' c' | Inr a \<Rightarrow> Q a s' c'"
    unfolding hoare_def by fastforce
  show "case gtry m h s of (es, r, s') \<Rightarrow> \<exists>c'. observe f c es = Some c'
    \<and> (case r of Inl _ \<Rightarrow> E s' c' | Inr a \<Rightarrow> Q a s' c')"
  proof (cases r)
    case (Inr a)
    with ms obs post show ?thesis by (simp add: gtry_def)
  next
    case (Inl x)
    obtain es' r' s'' where hs: "h x s' = (es', r', s'')" by (cases "h x s'")
    from h [of x] post Inl hs obtain c'' where "observe f c' es' = Some c''"
      and "case r' of Inl _ \<Rightarrow> E s'' c'' | Inr b \<Rightarrow> Q b s'' c''"
      unfolding hoare_def by fastforce
    with ms obs Inl hs show ?thesis by (simp add: gtry_def observe_append)
  qed
qed

lemma hoare_zoom:
  assumes "\<And>t. hoare f (\<lambda>s c. P' s c \<and> F t) m Q' E'"
    and "\<And>t c. P t c \<Longrightarrow> P' (get t) c \<and> F t"
    and "\<And>t a s c. F t \<Longrightarrow> Q' a s c \<Longrightarrow> Q a (put s t) c"
    and "\<And>t s c. F t \<Longrightarrow> E' s c \<Longrightarrow> E (put s t) c"
  shows "hoare f P (gzoom get put m) Q E"
  unfolding hoare_def
proof (intro allI impI)
  fix t c assume p: "P t c"
  obtain es r s where ms: "m (get t) = (es, r, s)" by (cases "m (get t)")
  from assms(2) [OF p] have "P' (get t) c" and ft: "F t" by simp_all
  with assms(1) [of t] ms obtain c' where "observe f c es = Some c'"
    and "case r of Inl _ \<Rightarrow> E' s c' | Inr a \<Rightarrow> Q' a s c'"
    unfolding hoare_def by fastforce
  with ms ft assms(3,4) show "case gzoom get put m t of (es, r, s') \<Rightarrow> \<exists>c'. observe f c es = Some c'
    \<and> (case r of Inl _ \<Rightarrow> E s' c' | Inr a \<Rightarrow> Q a s' c')"
    by (auto simp: gzoom_def split: sum.splits)
qed

text \<open>Reading the state, and a guard on it.\<close>

lemma hoare_get_bind:
  assumes "\<And>a. hoare f (\<lambda>s c. P s c \<and> g s = a) (k a) Q E"
  shows "hoare f P (gbind (gget g) k) Q E"
  using assms by (intro hoare_bind [where R = "\<lambda>a s c. P s c \<and> g s = a"] hoare_get) auto

lemma hoare_guard:
  assumes "hoare f (\<lambda>s c. P s c \<and> g s) m Q E" and "\<And>s c. P s c \<Longrightarrow> \<not> g s \<Longrightarrow> Q () s c"
  shows "hoare f P (gbind (gget g) (\<lambda>b. gwhen b m)) Q E"
proof (rule hoare_get_bind)
  fix a show "hoare f (\<lambda>s c. P s c \<and> g s = a) (gwhen a m) Q E"
    using assms by (intro hoare_when) (auto elim!: hoare_weaken)
qed

lemma hoare_guard_not:
  assumes "hoare f (\<lambda>s c. P s c \<and> \<not> g s) m Q E" and "\<And>s c. P s c \<Longrightarrow> g s \<Longrightarrow> Q () s c"
  shows "hoare f P (gbind (gget g) (\<lambda>b. gwhen (\<not> b) m)) Q E"
proof (rule hoare_get_bind)
  fix a show "hoare f (\<lambda>s c. P s c \<and> g s = a) (gwhen (\<not> a) m) Q E"
    using assms by (intro hoare_when) (auto elim!: hoare_weaken)
qed

lemma hoare_false: "(\<And>s c. \<not> P s c) \<Longrightarrow> hoare f P m Q E"
  by (simp add: hoare_def)

text \<open>A condition on the state alone, or on the observer alone, that the steps preserve.\<close>

lemma hoare_frame:
  assumes m: "hoare f P m Q E" and keep: "\<And>s es r s'. F s \<Longrightarrow> m s = (es, r, s') \<Longrightarrow> F s'"
  shows "hoare f (\<lambda>s c. P s c \<and> F s) m (\<lambda>a s c. Q a s c \<and> F s) (\<lambda>s c. E s c \<and> F s)"
  unfolding hoare_def
proof (intro allI impI)
  fix s c assume p: "P s c \<and> F s"
  obtain es r s' where ms: "m s = (es, r, s')" by (cases "m s")
  from m p ms obtain c' where "observe f c es = Some c'"
    and "case r of Inl _ \<Rightarrow> E s' c' | Inr a \<Rightarrow> Q a s' c'"
    unfolding hoare_def by fastforce
  with ms keep [OF conjunct2 [OF p] ms] show "case m s of (es, r, s') \<Rightarrow> \<exists>c'. observe f c es = Some c'
    \<and> (case r of Inl _ \<Rightarrow> E s' c' \<and> F s' | Inr a \<Rightarrow> Q a s' c' \<and> F s')"
    by (auto split: sum.splits)
qed

lemma observe_keeps:
  assumes "\<And>c e c'. f c e = Some c' \<Longrightarrow> K c \<Longrightarrow> K c'"
  shows "observe f c es = Some c' \<Longrightarrow> K c \<Longrightarrow> K c'"
  by (induction es arbitrary: c) (auto split: option.splits intro: assms)

lemma hoare_frame_observer:
  assumes m: "hoare f P m Q E" and keep: "\<And>c e c'. f c e = Some c' \<Longrightarrow> K c \<Longrightarrow> K c'"
  shows "hoare f (\<lambda>s c. P s c \<and> K c) m (\<lambda>a s c. Q a s c \<and> K c) (\<lambda>s c. E s c \<and> K c)"
  unfolding hoare_def
proof (intro allI impI)
  fix s c assume p: "P s c \<and> K c"
  obtain es r s' where ms: "m s = (es, r, s')" by (cases "m s")
  from m p ms obtain c' where obs: "observe f c es = Some c'"
    and "case r of Inl _ \<Rightarrow> E s' c' | Inr a \<Rightarrow> Q a s' c'"
    unfolding hoare_def by fastforce
  with ms observe_keeps [of f K, OF keep obs conjunct2 [OF p]]
  show "case m s of (es, r, s') \<Rightarrow> \<exists>c'. observe f c es = Some c'
    \<and> (case r of Inl _ \<Rightarrow> E s' c' \<and> K c' | Inr a \<Rightarrow> Q a s' c' \<and> K c')"
    by (auto split: sum.splits)
qed

end
