(* ===== verification/Sse.thy ===== *)
theory Sse
  imports Generators
begin

text \<open>
  The builder of Anthropic-format server-sent events (\<open>core/anthropic/sse.py\<close>): the content
  block manager with its per-tool stream states, the builder's operations, each returning the
  event it emits together with the builder it leaves, and the stop reason and token helpers.
  An event is its type and its data object; \<open>format_sse_event\<close> is its text.
\<close>

section \<open>Events\<close>

datatype sse_event = SseEvent (ev_name: pystr) (ev_data: "(pystr \<times> json) list")

definition format_sse_event :: "(json \<Rightarrow> pystr) \<Rightarrow> sse_event \<Rightarrow> pystr" where
  "format_sse_event dumps ev =
     u ''event: '' @ ev_name ev @ [10] @ u ''data: '' @ dumps (JObj (ev_data ev)) @ [10, 10]"

definition stop_reason_map :: "(pystr \<times> pystr) list" where
  "stop_reason_map =
     [(u ''stop'', u ''end_turn''), (u ''length'', u ''max_tokens''),
      (u ''tool_calls'', u ''tool_use''), (u ''content_filter'', u ''end_turn'')]"

definition map_stop_reason :: "pystr option \<Rightarrow> pystr" where
  "map_stop_reason openai_reason =
     (case openai_reason of
        None \<Rightarrow> u ''end_turn''
      | Some r \<Rightarrow> if r \<noteq> [] then get_or stop_reason_map r (u ''end_turn'') else u ''end_turn'')"

definition safe_usage_int :: "json \<Rightarrow> json" where
  "safe_usage_int v = (if int_of v \<noteq> None then v else JInt 0)"

section \<open>Tool states and the block manager\<close>

record tool_call_state =
  ts_block_index :: int
  ts_tool_id :: pystr
  ts_name :: pystr
  ts_contents :: "pystr list"
  ts_started :: bool
  ts_task_arg_buffer :: pystr
  ts_task_args_emitted :: bool
  ts_pre_start_args :: pystr

text \<open>\<open>ToolCallState(block_index=bi, tool_id=tid, name=nm, started=st)\<close> with the other fields at
  their defaults.\<close>

definition new_tool_call_state :: "int \<Rightarrow> pystr \<Rightarrow> pystr \<Rightarrow> bool \<Rightarrow> tool_call_state" where
  "new_tool_call_state bi tid nm st =
     \<lparr>ts_block_index = bi, ts_tool_id = tid, ts_name = nm, ts_contents = [], ts_started = st,
      ts_task_arg_buffer = [], ts_task_args_emitted = False, ts_pre_start_args = []\<rparr>"

record block_manager =
  bm_next_index :: int
  bm_thinking_index :: int
  bm_text_index :: int
  bm_thinking_started :: bool
  bm_text_started :: bool
  bm_tool_states :: "(int, tool_call_state) dict"

definition block_manager_init :: block_manager where
  "block_manager_init =
     \<lparr>bm_next_index = 0, bm_thinking_index = -1, bm_text_index = -1, bm_thinking_started = False,
      bm_text_started = False, bm_tool_states = []\<rparr>"

definition allocate_index :: "block_manager \<Rightarrow> int \<times> block_manager" where
  "allocate_index b = (bm_next_index b, b\<lparr>bm_next_index := bm_next_index b + 1\<rparr>)"

definition ensure_tool_state :: "block_manager \<Rightarrow> int \<Rightarrow> tool_call_state \<times> block_manager" where
  "ensure_tool_state b index =
     (case map_of (bm_tool_states b) index of
        Some st \<Rightarrow> (st, b)
      | None \<Rightarrow>
          (let st = new_tool_call_state (-1) [] [] False
           in (st, b\<lparr>bm_tool_states := AList.update index st (bm_tool_states b)\<rparr>)))"

text \<open>Assigning a field of the state object stored under \<open>index\<close>.\<close>

definition put_tool_state :: "int \<Rightarrow> tool_call_state \<Rightarrow> block_manager \<Rightarrow> block_manager" where
  "put_tool_state index st b = b\<lparr>bm_tool_states := AList.update index st (bm_tool_states b)\<rparr>"

definition set_stream_tool_id :: "block_manager \<Rightarrow> int \<Rightarrow> pystr option \<Rightarrow> block_manager" where
  "set_stream_tool_id b index tool_id =
     (case tool_id of
        None \<Rightarrow> b
      | Some tid \<Rightarrow>
          if tid = [] then b
          else (case ensure_tool_state b index of
                  (st, b') \<Rightarrow> put_tool_state index (st\<lparr>ts_tool_id := tid\<rparr>) b'))"

definition register_tool_name :: "block_manager \<Rightarrow> int \<Rightarrow> pystr \<Rightarrow> block_manager" where
  "register_tool_name b index name =
     (case map_of (bm_tool_states b) index of
        None \<Rightarrow> put_tool_state index (new_tool_call_state (-1) [] name False) b
      | Some st \<Rightarrow>
          (let prev = ts_name st
           in if prev = [] \<or> startswith name prev
              then put_tool_state index (st\<lparr>ts_name := name\<rparr>) b
              else if \<not> startswith prev name
              then put_tool_state index (st\<lparr>ts_name := prev @ name\<rparr>) b
              else b))"

text \<open>\<open>args_json.get\<close> on a value that is not a \<open>dict\<close> raises \<open>AttributeError\<close>.\<close>

definition normalize_task_run_in_background :: "json \<Rightarrow> py_error + json" where
  "normalize_task_run_in_background args_json =
     (case args_json of
        JObj d \<Rightarrow> Inr (JObj (if dget d ''run_in_background'' \<noteq> JBool False
                            then dset d ''run_in_background'' (JBool False) else d))
      | _ \<Rightarrow> Inl AttributeError)"

definition buffer_task_args ::
  "(pystr \<Rightarrow> json option) \<Rightarrow> block_manager \<Rightarrow> int \<Rightarrow> pystr
   \<Rightarrow> (py_error + json option) \<times> block_manager" where
  "buffer_task_args loads b index args =
     (case map_of (bm_tool_states b) index of
        None \<Rightarrow> (Inr None, b)
      | Some st \<Rightarrow>
          if ts_task_args_emitted st then (Inr None, b)
          else
            (let st1 = st\<lparr>ts_task_arg_buffer := ts_task_arg_buffer st @ args\<rparr>;
                 b1 = put_tool_state index st1 b
             in case loads (ts_task_arg_buffer st1) of
                  None \<Rightarrow> (Inr None, b1)
                | Some args_json \<Rightarrow>
                    (case normalize_task_run_in_background args_json of
                       Inl e \<Rightarrow> (Inl e, b1)
                     | Inr args' \<Rightarrow>
                         (Inr (Some args'),
                          put_tool_state index
                            (st1\<lparr>ts_task_args_emitted := True, ts_task_arg_buffer := []\<rparr>) b1))))"

definition has_emitted_tool_block :: "block_manager \<Rightarrow> bool" where
  "has_emitted_tool_block b = list_ex (\<lambda>(i, st). ts_started st) (bm_tool_states b)"

text \<open>The flush walks over a copy of the items. Invalid JSON gives \<open>{}\<close>; valid JSON that is no
  object raises from the normalisation, which the handler does not catch.\<close>

fun flush_task_arg_buffers_loop ::
  "(pystr \<Rightarrow> json option) \<Rightarrow> (json \<Rightarrow> pystr) \<Rightarrow> (int, tool_call_state) dict \<Rightarrow> block_manager
   \<Rightarrow> (int \<times> pystr) list \<Rightarrow> (py_error + (int \<times> pystr) list) \<times> block_manager" where
  "flush_task_arg_buffers_loop loads dumps [] b results = (Inr results, b)"
| "flush_task_arg_buffers_loop loads dumps ((tool_index, st) # items) b results =
     (if ts_task_arg_buffer st = [] \<or> ts_task_args_emitted st
      then flush_task_arg_buffers_loop loads dumps items b results
      else
        (let done = put_tool_state tool_index
               (st\<lparr>ts_task_args_emitted := True, ts_task_arg_buffer := []\<rparr>) b
         in case loads (ts_task_arg_buffer st) of
              None \<Rightarrow> flush_task_arg_buffers_loop loads dumps items done
                        (results @ [(tool_index, u ''{}'')])
            | Some args_json \<Rightarrow>
                (case normalize_task_run_in_background args_json of
                   Inl e \<Rightarrow> (Inl e, b)
                 | Inr args' \<Rightarrow> flush_task_arg_buffers_loop loads dumps items done
                                 (results @ [(tool_index, dumps args')]))))"

definition flush_task_arg_buffers ::
  "(pystr \<Rightarrow> json option) \<Rightarrow> (json \<Rightarrow> pystr) \<Rightarrow> block_manager
   \<Rightarrow> (py_error + (int \<times> pystr) list) \<times> block_manager" where
  "flush_task_arg_buffers loads dumps b =
     flush_task_arg_buffers_loop loads dumps (bm_tool_states b) b []"

section \<open>The builder\<close>

record sse_builder =
  sb_message_id :: pystr
  sb_model :: pystr
  sb_input_tokens :: json
  sb_blocks :: block_manager
  sb_accumulated_text_parts :: "pystr list"
  sb_accumulated_reasoning_parts :: "json list"

definition sse_builder_init :: "pystr \<Rightarrow> pystr \<Rightarrow> json \<Rightarrow> sse_builder" where
  "sse_builder_init message_id model input_tokens =
     \<lparr>sb_message_id = message_id, sb_model = model, sb_input_tokens = input_tokens,
      sb_blocks = block_manager_init, sb_accumulated_text_parts = [],
      sb_accumulated_reasoning_parts = []\<rparr>"

definition message_start :: "sse_builder \<Rightarrow> sse_event" where
  "message_start sb =
     SseEvent (u ''message_start'')
       [(u ''type'', JStr (u ''message_start'')),
        (u ''message'', JObj
          [(u ''id'', JStr (sb_message_id sb)), (u ''type'', JStr (u ''message'')),
           (u ''role'', JStr (u ''assistant'')), (u ''content'', JList []),
           (u ''model'', JStr (sb_model sb)), (u ''stop_reason'', JNull),
           (u ''stop_sequence'', JNull),
           (u ''usage'', JObj [(u ''input_tokens'', safe_usage_int (sb_input_tokens sb)),
                               (u ''output_tokens'', JInt 1)])])]"

definition message_delta :: "sse_builder \<Rightarrow> pystr \<Rightarrow> json \<Rightarrow> sse_event" where
  "message_delta sb stop_reason output_tokens =
     SseEvent (u ''message_delta'')
       [(u ''type'', JStr (u ''message_delta'')),
        (u ''delta'', JObj [(u ''stop_reason'', JStr stop_reason), (u ''stop_sequence'', JNull)]),
        (u ''usage'', JObj [(u ''input_tokens'', safe_usage_int (sb_input_tokens sb)),
                            (u ''output_tokens'', safe_usage_int output_tokens)])]"

definition message_stop :: sse_event where
  "message_stop = SseEvent (u ''message_stop'') [(u ''type'', JStr (u ''message_stop''))]"

text \<open>The keyword arguments of the source are the object \<open>kwargs\<close>.\<close>

definition content_block_start :: "int \<Rightarrow> pystr \<Rightarrow> (pystr \<times> json) list \<Rightarrow> sse_event" where
  "content_block_start index block_type kwargs =
     (let content_block =
        (u ''type'', JStr block_type) #
        (if block_type = u ''thinking''
         then [(u ''thinking'', dget_or kwargs ''thinking'' (JStr []))]
         else if block_type = u ''text''
         then [(u ''text'', dget_or kwargs ''text'' (JStr []))]
         else if block_type = u ''tool_use''
         then [(u ''id'', dget_or kwargs ''id'' (JStr [])),
               (u ''name'', dget_or kwargs ''name'' (JStr [])),
               (u ''input'', dget_or kwargs ''input'' (JObj []))]
         else [])
      in SseEvent (u ''content_block_start'')
           [(u ''type'', JStr (u ''content_block_start'')), (u ''index'', JInt index),
            (u ''content_block'', JObj content_block)])"

text \<open>The content is a text except for a reasoning delta, which shows what the upstream sent.\<close>

definition content_delta_event :: "int \<Rightarrow> pystr \<Rightarrow> json \<Rightarrow> sse_event" where
  "content_delta_event index delta_type content =
     (let delta =
        (u ''type'', JStr delta_type) #
        (if delta_type = u ''thinking_delta'' then [(u ''thinking'', content)]
         else if delta_type = u ''text_delta'' then [(u ''text'', content)]
         else if delta_type = u ''input_json_delta'' then [(u ''partial_json'', content)]
         else [])
      in SseEvent (u ''content_block_delta'')
           [(u ''type'', JStr (u ''content_block_delta'')), (u ''index'', JInt index),
            (u ''delta'', JObj delta)])"

definition content_block_delta :: "int \<Rightarrow> pystr \<Rightarrow> pystr \<Rightarrow> sse_event" where
  "content_block_delta index delta_type content = content_delta_event index delta_type (JStr content)"

definition content_block_stop :: "int \<Rightarrow> sse_event" where
  "content_block_stop index =
     SseEvent (u ''content_block_stop'')
       [(u ''type'', JStr (u ''content_block_stop'')), (u ''index'', JInt index)]"

definition upd_blocks :: "(block_manager \<Rightarrow> block_manager) \<Rightarrow> sse_builder \<Rightarrow> sse_builder" where
  "upd_blocks f sb = sb\<lparr>sb_blocks := f (sb_blocks sb)\<rparr>"

definition start_thinking_block :: "sse_builder \<Rightarrow> sse_event \<times> sse_builder" where
  "start_thinking_block sb =
     (case allocate_index (sb_blocks sb) of (idx, b) \<Rightarrow>
        (content_block_start idx (u ''thinking'') [],
         sb\<lparr>sb_blocks := b\<lparr>bm_thinking_index := idx, bm_thinking_started := True\<rparr>\<rparr>))"

definition emit_thinking_delta :: "json \<Rightarrow> sse_builder \<Rightarrow> sse_event \<times> sse_builder" where
  "emit_thinking_delta content sb =
     (content_delta_event (bm_thinking_index (sb_blocks sb)) (u ''thinking_delta'') content,
      sb\<lparr>sb_accumulated_reasoning_parts := sb_accumulated_reasoning_parts sb @ [content]\<rparr>)"

definition stop_thinking_block :: "sse_builder \<Rightarrow> sse_event \<times> sse_builder" where
  "stop_thinking_block sb =
     (content_block_stop (bm_thinking_index (sb_blocks sb)),
      upd_blocks (\<lambda>b. b\<lparr>bm_thinking_started := False\<rparr>) sb)"

definition start_text_block :: "sse_builder \<Rightarrow> sse_event \<times> sse_builder" where
  "start_text_block sb =
     (case allocate_index (sb_blocks sb) of (idx, b) \<Rightarrow>
        (content_block_start idx (u ''text'') [],
         sb\<lparr>sb_blocks := b\<lparr>bm_text_index := idx, bm_text_started := True\<rparr>\<rparr>))"

definition emit_text_delta :: "pystr \<Rightarrow> sse_builder \<Rightarrow> sse_event \<times> sse_builder" where
  "emit_text_delta content sb =
     (content_block_delta (bm_text_index (sb_blocks sb)) (u ''text_delta'') content,
      sb\<lparr>sb_accumulated_text_parts := sb_accumulated_text_parts sb @ [content]\<rparr>)"

definition stop_text_block :: "sse_builder \<Rightarrow> sse_event \<times> sse_builder" where
  "stop_text_block sb =
     (content_block_stop (bm_text_index (sb_blocks sb)),
      upd_blocks (\<lambda>b. b\<lparr>bm_text_started := False\<rparr>) sb)"

definition start_tool_block :: "int \<Rightarrow> pystr \<Rightarrow> pystr \<Rightarrow> sse_builder \<Rightarrow> sse_event \<times> sse_builder" where
  "start_tool_block tool_index tool_id name sb =
     (case allocate_index (sb_blocks sb) of (block_idx, b) \<Rightarrow>
        (let st = (case map_of (bm_tool_states b) tool_index of
                     Some st \<Rightarrow> st\<lparr>ts_block_index := block_idx, ts_tool_id := tool_id,
                                  ts_started := True\<rparr>
                   | None \<Rightarrow> new_tool_call_state block_idx tool_id name True)
         in (content_block_start block_idx (u ''tool_use'')
               [(u ''id'', JStr tool_id), (u ''name'', JStr name)],
             sb\<lparr>sb_blocks := put_tool_state tool_index st b\<rparr>)))"

text \<open>\<open>tool_states[tool_index]\<close> raises \<open>KeyError\<close> when the index is unknown.\<close>

definition emit_tool_delta :: "int \<Rightarrow> pystr \<Rightarrow> (sse_event, sse_builder, unit) gen" where
  "emit_tool_delta tool_index partial_json sb =
     (case map_of (bm_tool_states (sb_blocks sb)) tool_index of
        None \<Rightarrow> ([], Inl KeyError, sb)
      | Some st \<Rightarrow>
          ([content_block_delta (ts_block_index st) (u ''input_json_delta'') partial_json], Inr (),
           upd_blocks (put_tool_state tool_index
             (st\<lparr>ts_contents := ts_contents st @ [partial_json]\<rparr>)) sb))"

definition stop_tool_block :: "int \<Rightarrow> (sse_event, sse_builder, unit) gen" where
  "stop_tool_block tool_index sb =
     (case map_of (bm_tool_states (sb_blocks sb)) tool_index of
        None \<Rightarrow> ([], Inl KeyError, sb)
      | Some st \<Rightarrow> ([content_block_stop (ts_block_index st)], Inr (), sb))"

definition ensure_thinking_block :: "(sse_event, sse_builder, unit) gen" where
  "ensure_thinking_block =
     gseq (gbind (gget (\<lambda>sb. bm_text_started (sb_blocks sb))) (\<lambda>b. gwhen b (gyield stop_text_block)))
          (gbind (gget (\<lambda>sb. bm_thinking_started (sb_blocks sb)))
             (\<lambda>b. gwhen (\<not> b) (gyield start_thinking_block)))"

definition ensure_text_block :: "(sse_event, sse_builder, unit) gen" where
  "ensure_text_block =
     gseq (gbind (gget (\<lambda>sb. bm_thinking_started (sb_blocks sb)))
             (\<lambda>b. gwhen b (gyield stop_thinking_block)))
          (gbind (gget (\<lambda>sb. bm_text_started (sb_blocks sb)))
             (\<lambda>b. gwhen (\<not> b) (gyield start_text_block)))"

definition close_content_blocks :: "(sse_event, sse_builder, unit) gen" where
  "close_content_blocks =
     gseq (gbind (gget (\<lambda>sb. bm_thinking_started (sb_blocks sb)))
             (\<lambda>b. gwhen b (gyield stop_thinking_block)))
          (gbind (gget (\<lambda>sb. bm_text_started (sb_blocks sb)))
             (\<lambda>b. gwhen b (gyield stop_text_block)))"

definition close_all_blocks :: "(sse_event, sse_builder, unit) gen" where
  "close_all_blocks =
     gseq close_content_blocks
       (gbind (gget (\<lambda>sb. bm_tool_states (sb_blocks sb)))
          (\<lambda>items. gfor items (\<lambda>(tool_index, st). gwhen (ts_started st) (stop_tool_block tool_index))))"

definition emit_error :: "pystr \<Rightarrow> (sse_event, sse_builder, unit) gen" where
  "emit_error error_message sb =
     (case allocate_index (sb_blocks sb) of (error_index, b) \<Rightarrow>
        ([content_block_start error_index (u ''text'') [],
          content_block_delta error_index (u ''text_delta'') error_message,
          content_block_stop error_index], Inr (), sb\<lparr>sb_blocks := b\<rparr>))"

definition emit_top_level_error :: "pystr \<Rightarrow> sse_event" where
  "emit_top_level_error error_message =
     SseEvent (u ''error'')
       [(u ''type'', JStr (u ''error'')),
        (u ''error'', JObj [(u ''type'', JStr (u ''api_error'')),
                            (u ''message'', JStr error_message)])]"

definition accumulated_text :: "sse_builder \<Rightarrow> pystr" where
  "accumulated_text sb = concat (sb_accumulated_text_parts sb)"

text \<open>Joining pieces that are not all texts raises.\<close>

fun join_texts :: "json list \<Rightarrow> py_error + pystr" where
  "join_texts [] = Inr []"
| "join_texts (JStr s # vs) = map_sum id (\<lambda>t. s @ t) (join_texts vs)"
| "join_texts (v # vs) = Inl TypeError"

fun is_pystr :: "json \<Rightarrow> bool" where
  "is_pystr (JStr s) = True"
| "is_pystr v = False"

lemma join_texts_raises: "join_texts vs = Inl e \<Longrightarrow> \<exists>v \<in> set vs. \<not> is_pystr v"
proof (induction vs arbitrary: e)
  case (Cons v vs)
  then show ?case by (cases v) (auto split: sum.splits simp: map_sum_def)
qed simp

definition accumulated_reasoning :: "sse_builder \<Rightarrow> py_error + pystr" where
  "accumulated_reasoning sb = join_texts (sb_accumulated_reasoning_parts sb)"

text \<open>\<open>encoder\<close> is \<open>None\<close> when no tokenizer could be loaded. It gives the number of tokens of a text,
  \<open>None\<close> for a text it refuses: \<open>encode\<close> raises \<open>ValueError\<close> on the text of a special token such as
  \<open><|endoftext|>\<close>.\<close>

fun token_total :: "(pystr \<Rightarrow> nat option) \<Rightarrow> pystr list \<Rightarrow> py_error + int" where
  "token_total enc [] = Inr 0"
| "token_total enc (s # ss) =
     (case enc s of
        None \<Rightarrow> Inl ValueError
      | Some n \<Rightarrow> map_sum id (\<lambda>k. int n + k) (token_total enc ss))"

definition estimate_output_tokens :: "(pystr \<Rightarrow> nat option) option \<Rightarrow> sse_builder \<Rightarrow> py_error + int" where
  "estimate_output_tokens encoder sb =
     (let txt = accumulated_text sb; states = map snd (bm_tool_states (sb_blocks sb));
          started = int (length (filter ts_started states))
      in case accumulated_reasoning sb of
           Inl e \<Rightarrow> Inl e
         | Inr rsn \<Rightarrow>
             (case encoder of
                Some enc \<Rightarrow>
                  (let block_count = (if rsn \<noteq> [] then 1 else 0) + (if txt \<noteq> [] then 1 else 0) + started
                   in map_sum id (\<lambda>tokens. tokens + 15 * int (length states) + block_count * 4)
                        (token_total enc
                          (txt # rsn # concat (map (\<lambda>st. [ts_name st, concat (ts_contents st)]) states))))
              | None \<Rightarrow> Inr (int (length txt) div 4 + int (length rsn) div 4 + started * 50)))"

lemma token_total_raises: "token_total enc ss = Inl e \<Longrightarrow> \<exists>s. enc s = None"
  by (induction ss arbitrary: e) (auto split: option.splits sum.splits simp: map_sum_def)

lemma estimate_raises:
  assumes "estimate_output_tokens encoder sb = Inl e"
  shows "(\<exists>v \<in> set (sb_accumulated_reasoning_parts sb). \<not> is_pystr v) \<or> (\<exists>enc s. encoder = Some enc \<and> enc s = None)"
  using assms
  by (auto simp: estimate_output_tokens_def Let_def accumulated_reasoning_def map_sum_def
      split: sum.splits option.splits dest!: join_texts_raises token_total_raises)

lemmas builder_defs [gen_defs] =
  start_thinking_block_def emit_thinking_delta_def stop_thinking_block_def start_text_block_def
  emit_text_delta_def stop_text_block_def start_tool_block_def allocate_index_def upd_blocks_def

end
