(* ===== verification/Stream_Contract.thy ===== *)
theory Stream_Contract
  imports Sse
begin

text \<open>
  Neutral parsing of server-sent events and the shape contract of an Anthropic stream
  (\<open>core/anthropic/stream_contracts.py\<close>): the line parser, the contract automaton that tracks
  open and seen content blocks, and the text and thinking extractors. Every assertion of the
  source is a constructor of \<open>contract_violation\<close>.
\<close>

section \<open>Parsing\<close>

text \<open>\<open>s.rstrip("\r\n")\<close>.\<close>

definition rstrip_crlf :: "pystr \<Rightarrow> pystr" where
  "rstrip_crlf s = rev (dropWhile (\<lambda>c. c = 13 \<or> c = 10) (rev s))"

text \<open>\<open>s.split(":", 1)[1].strip()\<close> of a line that contains a colon.\<close>

definition after_colon :: "pystr \<Rightarrow> pystr" where
  "after_colon s = strip (snd (snd (partition_at s (u '':''))))"

definition append_event ::
  "(pystr \<Rightarrow> json option) \<Rightarrow> (sse_event \<times> pystr) list \<Rightarrow> pystr \<Rightarrow> pystr list \<Rightarrow> pystr list
   \<Rightarrow> (sse_event \<times> pystr) list" where
  "append_event loads events current_event data_parts raw_parts =
     (if current_event = [] \<and> data_parts = [] then events
      else
        (let data_text = join [10] data_parts;
             data = (if data_text \<noteq> []
                     then (case loads data_text of
                             None \<Rightarrow> [(u ''raw'', JStr data_text)]
                           | Some (JObj d) \<Rightarrow> d
                           | Some v \<Rightarrow> [(u ''value'', v)])
                     else [])
         in events @ [(SseEvent current_event data, join [10] raw_parts)]))"

fun parse_sse_lines_loop ::
  "(pystr \<Rightarrow> json option) \<Rightarrow> pystr list \<Rightarrow> (sse_event \<times> pystr) list \<Rightarrow> pystr \<Rightarrow> pystr list
   \<Rightarrow> pystr list \<Rightarrow> (sse_event \<times> pystr) list" where
  "parse_sse_lines_loop loads [] events current_event data_parts raw_parts =
     append_event loads events current_event data_parts raw_parts"
| "parse_sse_lines_loop loads (line # lines) events current_event data_parts raw_parts =
     (let stripped = rstrip_crlf line
      in if stripped = []
         then parse_sse_lines_loop loads lines
                (append_event loads events current_event data_parts raw_parts) [] [] []
         else
           (let raw_parts' = raw_parts @ [stripped]
            in if startswith stripped (u ''event:'')
               then parse_sse_lines_loop loads lines events (after_colon stripped) data_parts raw_parts'
               else if startswith stripped (u ''data:'')
               then parse_sse_lines_loop loads lines events current_event
                      (data_parts @ [after_colon stripped]) raw_parts'
               else parse_sse_lines_loop loads lines events current_event data_parts raw_parts'))"

text \<open>Each parsed event comes with its raw text, the third field of \<open>SSEEvent\<close>.\<close>

definition parse_sse_lines :: "(pystr \<Rightarrow> json option) \<Rightarrow> pystr list \<Rightarrow> (sse_event \<times> pystr) list" where
  "parse_sse_lines loads lines = parse_sse_lines_loop loads lines [] [] [] []"

definition parse_sse_text :: "(pystr \<Rightarrow> json option) \<Rightarrow> pystr \<Rightarrow> (sse_event \<times> pystr) list" where
  "parse_sse_text loads text = parse_sse_lines loads (splitlines text)"

section \<open>The contract\<close>

definition server_tool_use :: pystr where
  "server_tool_use = u ''server_tool_use''"

definition web_search_tool_result :: pystr where
  "web_search_tool_result = u ''web_search_tool_result''"

definition web_fetch_tool_result :: pystr where
  "web_fetch_tool_result = u ''web_fetch_tool_result''"

definition no_delta_block_kinds :: "pystr list" where
  "no_delta_block_kinds =
     [server_tool_use, web_search_tool_result, web_fetch_tool_result, u ''text_eager'',
      u ''redacted_thinking'']"

definition allowed_block_start_types :: "pystr list" where
  "allowed_block_start_types =
     [u ''text'', u ''thinking'', u ''tool_use'', u ''redacted_thinking'',
      server_tool_use, web_search_tool_result, web_fetch_tool_result]"

datatype contract_violation =
    NoEvents
  | NoMessageStart
  | LastNotMessageStop
  | UnexpectedError
  | IndexNotInt
  | BlockNotDict
  | BlockTypeNotAllowed
  | StartedTwice int
  | ReusedAfterStop int
  | DeltaForUnopened int
  | DeltaForStartStopOnly int
  | DeltaNotDict
  | WrongDeltaType int
  | StopForUnopened int
  | UnclosedBlocks
  | NoContentBlocks

record contract_state =
  cs_open_blocks :: "(int, pystr) dict"
  cs_seen_blocks :: "int set"

definition contract_init :: contract_state where
  "contract_init = \<lparr>cs_open_blocks = [], cs_seen_blocks = {}\<rparr>"

definition event_index :: "sse_event \<Rightarrow> contract_violation + int" where
  "event_index ev =
     (case int_of (dget (ev_data ev) ''index'') of None \<Rightarrow> Inl IndexNotInt | Some i \<Rightarrow> Inr i)"

text \<open>\<open>str(v).strip()\<close> is empty only for a blank string: every other value prints as something.\<close>

definition text_not_blank :: "json \<Rightarrow> bool" where
  "text_not_blank v = (case v of JStr s \<Rightarrow> strip s \<noteq> [] | _ \<Rightarrow> True)"

text \<open>A \<open>str(v)\<close> that is one of the type names below is that name as a string value.\<close>

definition type_name :: "(pystr \<times> json) list \<Rightarrow> pystr option" where
  "type_name d = str_of (dget_or d ''type'' (JStr []))"

definition contract_step :: "bool \<Rightarrow> contract_state \<Rightarrow> sse_event \<Rightarrow> contract_violation + contract_state" where
  "contract_step allow_error c ev =
     (if ev_name ev = u ''error'' \<and> \<not> allow_error then Inl UnexpectedError
      else if ev_name ev = u ''content_block_start'' then
        (case event_index ev of
           Inl v \<Rightarrow> Inl v
         | Inr index \<Rightarrow>
             (case dget_or (ev_data ev) ''content_block'' (JObj []) of
                JObj block \<Rightarrow>
                  (case type_name block of
                     None \<Rightarrow> Inl BlockTypeNotAllowed
                   | Some block_type \<Rightarrow>
                       if block_type \<notin> set allowed_block_start_types then Inl BlockTypeNotAllowed
                       else if has_key (cs_open_blocks c) index then Inl (StartedTwice index)
                       else if index \<in> cs_seen_blocks c then Inl (ReusedAfterStop index)
                       else
                         (let storage = (if block_type = u ''text''
                                \<and> text_not_blank (dget_or block ''text'' (JStr []))
                              then u ''text_eager'' else block_type)
                          in Inr \<lparr>cs_open_blocks = AList.update index storage (cs_open_blocks c),
                                  cs_seen_blocks = insert index (cs_seen_blocks c)\<rparr>))
              | _ \<Rightarrow> Inl BlockNotDict))
      else if ev_name ev = u ''content_block_delta'' then
        (case event_index ev of
           Inl v \<Rightarrow> Inl v
         | Inr index \<Rightarrow>
             (case map_of (cs_open_blocks c) index of
                None \<Rightarrow> Inl (DeltaForUnopened index)
              | Some kind \<Rightarrow>
                  if kind \<in> set no_delta_block_kinds then Inl (DeltaForStartStopOnly index)
                  else
                    (case dget_or (ev_data ev) ''delta'' (JObj []) of
                       JObj delta \<Rightarrow>
                         (let delta_type = type_name delta
                          in if kind = u ''thinking''
                             then (if delta_type \<in> {Some (u ''thinking_delta''), Some (u ''signature_delta'')}
                                   then Inr c else Inl (WrongDeltaType index))
                             else (if delta_type = Some (if kind = u ''text'' then u ''text_delta''
                                                         else u ''input_json_delta'')
                                   then Inr c else Inl (WrongDeltaType index)))
                     | _ \<Rightarrow> Inl DeltaNotDict)))
      else if ev_name ev = u ''content_block_stop'' then
        (case event_index ev of
           Inl v \<Rightarrow> Inl v
         | Inr index \<Rightarrow>
             if has_key (cs_open_blocks c) index
             then Inr (c\<lparr>cs_open_blocks := AList.delete index (cs_open_blocks c)\<rparr>)
             else Inl (StopForUnopened index))
      else Inr c)"

fun contract_run ::
  "bool \<Rightarrow> contract_state \<Rightarrow> sse_event list \<Rightarrow> contract_violation + contract_state" where
  "contract_run allow_error c [] = Inr c"
| "contract_run allow_error c (ev # evs) =
     (case contract_step allow_error c ev of
        Inl v \<Rightarrow> Inl v
      | Inr c' \<Rightarrow> contract_run allow_error c' evs)"

definition assert_anthropic_stream_contract ::
  "sse_event list \<Rightarrow> bool \<Rightarrow> contract_violation + unit" where
  "assert_anthropic_stream_contract events allow_error =
     (if events = [] then Inl NoEvents
      else if u ''message_start'' \<notin> set (map ev_name events) then Inl NoMessageStart
      else if last (map ev_name events) \<noteq> u ''message_stop'' then Inl LastNotMessageStop
      else
        (case contract_run allow_error contract_init events of
           Inl v \<Rightarrow> Inl v
         | Inr c \<Rightarrow>
             if cs_open_blocks c \<noteq> [] then Inl UnclosedBlocks
             else if cs_seen_blocks c = {} then Inl NoContentBlocks
             else Inr ()))"

section \<open>Extractors\<close>

text \<open>\<open>str(v)\<close>; the text of a value that is no string is the argument \<open>py_str\<close>.\<close>

definition to_str :: "(json \<Rightarrow> pystr) \<Rightarrow> json \<Rightarrow> pystr" where
  "to_str py_str v = (case v of JStr s \<Rightarrow> s | _ \<Rightarrow> py_str v)"

definition event_text :: "(json \<Rightarrow> pystr) \<Rightarrow> sse_event \<Rightarrow> pystr" where
  "event_text py_str ev =
     (if ev_name ev = u ''content_block_start''
      then (case dget_or (ev_data ev) ''content_block'' (JObj []) of
              JObj block \<Rightarrow>
                if is_text (dget block ''type'') ''text''
                then to_str py_str (dget_or block ''text'' (JStr [])) else []
            | _ \<Rightarrow> [])
      else [])
     @ (case dget_or (ev_data ev) ''delta'' (JObj []) of
          JObj delta \<Rightarrow>
            if is_text (dget delta ''type'') ''text_delta''
            then to_str py_str (dget_or delta ''text'' (JStr [])) else []
        | _ \<Rightarrow> [])"

definition text_content :: "(json \<Rightarrow> pystr) \<Rightarrow> sse_event list \<Rightarrow> pystr" where
  "text_content py_str events = concat (map (event_text py_str) events)"

definition event_thinking :: "(json \<Rightarrow> pystr) \<Rightarrow> sse_event \<Rightarrow> pystr" where
  "event_thinking py_str ev =
     (case dget_or (ev_data ev) ''delta'' (JObj []) of
        JObj delta \<Rightarrow>
          if is_text (dget delta ''type'') ''thinking_delta''
          then to_str py_str (dget_or delta ''thinking'' (JStr [])) else []
      | _ \<Rightarrow> [])"

definition thinking_content :: "(json \<Rightarrow> pystr) \<Rightarrow> sse_event list \<Rightarrow> pystr" where
  "thinking_content py_str events = concat (map (event_thinking py_str) events)"

definition has_tool_use :: "sse_event list \<Rightarrow> bool" where
  "has_tool_use events =
     list_ex (\<lambda>ev. case dget_or (ev_data ev) ''content_block'' (JObj []) of
                JObj block \<Rightarrow> is_text (dget block ''type'') ''tool_use'' | _ \<Rightarrow> False) events"

section \<open>The contract on the builder's events\<close>

lemma strip_Nil [simp]: "strip [] = []"
  by (simp add: strip_def lstrip_def rstrip_def)

lemma contract_start_text [event_simps]:
  "contract_step ae c (content_block_start i (u ''text'') []) =
     (if has_key (cs_open_blocks c) i then Inl (StartedTwice i)
      else if i \<in> cs_seen_blocks c then Inl (ReusedAfterStop i)
      else Inr \<lparr>cs_open_blocks = AList.update i (u ''text'') (cs_open_blocks c),
                cs_seen_blocks = insert i (cs_seen_blocks c)\<rparr>)"
  by (simp add: contract_step_def content_block_start_def event_index_def type_name_def
      allowed_block_start_types_def text_not_blank_def Let_def)

lemma contract_start_thinking [event_simps]:
  "contract_step ae c (content_block_start i (u ''thinking'') []) =
     (if has_key (cs_open_blocks c) i then Inl (StartedTwice i)
      else if i \<in> cs_seen_blocks c then Inl (ReusedAfterStop i)
      else Inr \<lparr>cs_open_blocks = AList.update i (u ''thinking'') (cs_open_blocks c),
                cs_seen_blocks = insert i (cs_seen_blocks c)\<rparr>)"
  by (simp add: contract_step_def content_block_start_def event_index_def type_name_def
      allowed_block_start_types_def Let_def)

lemma contract_start_tool [event_simps]:
  "contract_step ae c (content_block_start i (u ''tool_use'') kw) =
     (if has_key (cs_open_blocks c) i then Inl (StartedTwice i)
      else if i \<in> cs_seen_blocks c then Inl (ReusedAfterStop i)
      else Inr \<lparr>cs_open_blocks = AList.update i (u ''tool_use'') (cs_open_blocks c),
                cs_seen_blocks = insert i (cs_seen_blocks c)\<rparr>)"
  by (simp add: contract_step_def content_block_start_def event_index_def type_name_def
      allowed_block_start_types_def Let_def)

lemma contract_delta_text [event_simps]:
  "contract_step ae c (content_block_delta i (u ''text_delta'') t) =
     (case map_of (cs_open_blocks c) i of
        None \<Rightarrow> Inl (DeltaForUnopened i)
      | Some kind \<Rightarrow> if kind \<in> set no_delta_block_kinds then Inl (DeltaForStartStopOnly i)
                     else if kind = u ''text'' then Inr c else Inl (WrongDeltaType i))"
  by (simp add: contract_step_def content_block_delta_def content_delta_event_def event_index_def type_name_def Let_def
      split: option.splits)

lemma contract_delta_thinking [event_simps]:
  "contract_step ae c (content_delta_event i (u ''thinking_delta'') t) =
     (case map_of (cs_open_blocks c) i of
        None \<Rightarrow> Inl (DeltaForUnopened i)
      | Some kind \<Rightarrow> if kind \<in> set no_delta_block_kinds then Inl (DeltaForStartStopOnly i)
                     else if kind = u ''thinking'' then Inr c else Inl (WrongDeltaType i))"
  by (simp add: contract_step_def content_block_delta_def content_delta_event_def event_index_def type_name_def Let_def
      split: option.splits)

lemma contract_delta_tool [event_simps]:
  "contract_step ae c (content_block_delta i (u ''input_json_delta'') t) =
     (case map_of (cs_open_blocks c) i of
        None \<Rightarrow> Inl (DeltaForUnopened i)
      | Some kind \<Rightarrow> if kind \<in> set no_delta_block_kinds then Inl (DeltaForStartStopOnly i)
                     else if kind = u ''thinking'' \<or> kind = u ''text'' then Inl (WrongDeltaType i)
                     else Inr c)"
  by (simp add: contract_step_def content_block_delta_def content_delta_event_def event_index_def type_name_def Let_def
      split: option.splits)

lemma contract_stop [event_simps]:
  "contract_step ae c (content_block_stop i) =
     (if has_key (cs_open_blocks c) i
      then Inr (c\<lparr>cs_open_blocks := AList.delete i (cs_open_blocks c)\<rparr>)
      else Inl (StopForUnopened i))"
  by (simp add: contract_step_def content_block_stop_def event_index_def)

lemma contract_envelope [event_simps]:
  "contract_step ae c (message_start sb) = Inr c"
  "contract_step ae c (message_delta sb r ot) = Inr c"
  "contract_step ae c message_stop = Inr c"
  "contract_step True c (emit_top_level_error msg) = Inr c"
  "contract_step False c (emit_top_level_error msg) = Inl UnexpectedError"
  by (simp_all add: contract_step_def message_start_def message_delta_def message_stop_def
      emit_top_level_error_def)

lemma event_names [event_simps]:
  "ev_name (message_start sb) = u ''message_start''"
  "ev_name (message_delta sb r ot) = u ''message_delta''"
  "ev_name message_stop = u ''message_stop''"
  by (simp_all add: message_start_def message_delta_def message_stop_def)

text \<open>The automaton as an observer of generators.\<close>

definition contract_observer :: "bool \<Rightarrow> contract_state \<Rightarrow> sse_event \<Rightarrow> contract_state option" where
  "contract_observer ae c ev = (case contract_step ae c ev of Inl _ \<Rightarrow> None | Inr c' \<Rightarrow> Some c')"

lemma contract_run_observe:
  "contract_run ae c evs = Inr c' \<longleftrightarrow> observe (contract_observer ae) c evs = Some c'"
  by (induction evs arbitrary: c) (auto simp: contract_observer_def split: sum.splits)

end
