(* ===== verification/Openai_Stream.thy ===== *)
theory Openai_Stream
  imports Think_Tags Tool_Heuristics Stream_Contract
begin

text \<open>
  The OpenAI-compatible streaming transport (\<open>providers/openai_compat.py\<close>): how a stream of
  upstream chat chunks becomes one stream of Anthropic events, on every path: reasoning, tagged
  thinking, text, tool calls written as text, native tool calls, upstream failures. The upstream
  is an argument, the chunks it gives and the exception it may end with; so are \<open>json.loads\<close>,
  \<open>json.dumps\<close>, the random ids and the tokenizer.
\<close>

section \<open>Upstream chunks\<close>

record tool_delta =
  td_index :: int
  td_id :: "pystr option"
  td_function :: "(pystr option \<times> pystr option) option"

record choice_delta =
  cd_reasoning_content :: "json option"
  cd_content :: "pystr option"
  cd_tool_calls :: "tool_delta list"

record chunk_choice =
  cc_delta :: "choice_delta option"
  cc_finish_reason :: "pystr option"

text \<open>\<open>ck_usage\<close> is the \<open>completion_tokens\<close> attribute of the chunk's usage object, if it has one.\<close>

record stream_chunk =
  ck_usage :: "json option"
  ck_choices :: "chunk_choice list"

section \<open>Tool calls written as text\<close>

definition task_input_foreground :: "heuristic_tool \<Rightarrow> heuristic_tool" where
  "task_input_foreground tool_use =
     (if ht_name tool_use = u ''Task''
         \<and> dget (ht_input tool_use) ''run_in_background'' \<noteq> JBool False
      then tool_use\<lparr>ht_input := dset (ht_input tool_use) ''run_in_background'' (JBool False)\<rparr>
      else tool_use)"

definition emit_heuristic_block ::
  "(json \<Rightarrow> pystr) \<Rightarrow> heuristic_tool \<Rightarrow> (sse_event, sse_builder, unit) gen" where
  "emit_heuristic_block dumps tool_use sb =
     (case allocate_index (sb_blocks sb) of (block_idx, b) \<Rightarrow>
        ([content_block_start block_idx (u ''tool_use'')
            [(u ''id'', JStr (ht_id tool_use)), (u ''name'', JStr (ht_name tool_use))],
          content_block_delta block_idx (u ''input_json_delta'') (dumps (JObj (ht_input tool_use))),
          content_block_stop block_idx], Inr (), sb\<lparr>sb_blocks := b\<rparr>))"

definition iter_heuristic_tool_use_sse ::
  "(json \<Rightarrow> pystr) \<Rightarrow> heuristic_tool \<Rightarrow> (sse_event, sse_builder, unit) gen" where
  "iter_heuristic_tool_use_sse dumps tool_use =
     gseq close_content_blocks (emit_heuristic_block dumps (task_input_foreground tool_use))"

section \<open>Native tool calls\<close>

text \<open>A method of the block manager called on the builder's manager.\<close>

definition call_blocks ::
  "(block_manager \<Rightarrow> (py_error + 'a) \<times> block_manager) \<Rightarrow> ('e, sse_builder, 'a) gen" where
  "call_blocks f sb = (case f (sb_blocks sb) of (r, b) \<Rightarrow> ([], r, sb\<lparr>sb_blocks := b\<rparr>))"

definition tool_state :: "int \<Rightarrow> sse_builder \<Rightarrow> tool_call_state option" where
  "tool_state tc_index sb = map_of (bm_tool_states (sb_blocks sb)) tc_index"

definition emit_tool_arg_delta ::
  "(pystr \<Rightarrow> json option) \<Rightarrow> (json \<Rightarrow> pystr) \<Rightarrow> int \<Rightarrow> pystr \<Rightarrow> (sse_event, sse_builder, unit) gen" where
  "emit_tool_arg_delta loads dumps tc_index args =
     (if args = [] then gret ()
      else gbind (gget (tool_state tc_index)) (\<lambda>state.
        case state of
          None \<Rightarrow> gret ()
        | Some st \<Rightarrow>
            if ts_name st = u ''Task''
            then gbind (call_blocks (\<lambda>b. buffer_task_args loads b tc_index args)) (\<lambda>parsed.
                   case parsed of None \<Rightarrow> gret ()
                   | Some args_json \<Rightarrow> emit_tool_delta tc_index (dumps args_json))
            else emit_tool_delta tc_index args))"

text \<open>\<open>tool_uuid i\<close> is the id drawn for a call that has none when it opens block \<open>i\<close>.\<close>

definition resolve_tool_id :: "(int \<Rightarrow> pystr) \<Rightarrow> tool_call_state option \<Rightarrow> pystr option \<Rightarrow> int \<Rightarrow> pystr" where
  "resolve_tool_id tool_uuid state tc_id block =
     (case state of
        Some st \<Rightarrow> if ts_tool_id st \<noteq> [] then ts_tool_id st
                   else (case tc_id of Some i \<Rightarrow> if i \<noteq> [] then i else u ''tool_'' @ tool_uuid block
                         | None \<Rightarrow> u ''tool_'' @ tool_uuid block)
      | None \<Rightarrow> (case tc_id of Some i \<Rightarrow> if i \<noteq> [] then i else u ''tool_'' @ tool_uuid block
                 | None \<Rightarrow> u ''tool_'' @ tool_uuid block))"

definition start_named_tool ::
  "(pystr \<Rightarrow> json option) \<Rightarrow> (json \<Rightarrow> pystr) \<Rightarrow> (int \<Rightarrow> pystr) \<Rightarrow> int \<Rightarrow> pystr option \<Rightarrow> pystr
   \<Rightarrow> (sse_event, sse_builder, unit) gen" where
  "start_named_tool loads dumps tool_uuid tc_index tc_id resolved_name =
     gbind (gget (\<lambda>sb. resolve_tool_id tool_uuid (tool_state tc_index sb) tc_id
                          (bm_next_index (sb_blocks sb)))) (\<lambda>tool_id.
     gseq (gyield (start_tool_block tc_index tool_id (strip resolved_name)))
       (gbind (gget (tool_state tc_index)) (\<lambda>state.
          case state of
            None \<Rightarrow> graise KeyError
          | Some st \<Rightarrow>
              gwhen (ts_pre_start_args st \<noteq> [])
                (gseq (gmod (upd_blocks (put_tool_state tc_index (st\<lparr>ts_pre_start_args := []\<rparr>))))
                   (emit_tool_arg_delta loads dumps tc_index (ts_pre_start_args st))))))"

definition register_tool_delta :: "int \<Rightarrow> pystr option \<Rightarrow> pystr option \<Rightarrow> sse_builder \<Rightarrow> sse_builder" where
  "register_tool_delta tc_index tc_id incoming_name =
     upd_blocks (\<lambda>b.
       (let b1 = (if tc_id \<noteq> None then set_stream_tool_id b tc_index tc_id else b)
        in case incoming_name of None \<Rightarrow> b1 | Some name \<Rightarrow> register_tool_name b1 tc_index name))"

definition buffer_pre_start_args :: "int \<Rightarrow> pystr \<Rightarrow> sse_builder \<Rightarrow> sse_builder" where
  "buffer_pre_start_args tc_index arguments =
     upd_blocks (\<lambda>b. case ensure_tool_state b tc_index of (st, b') \<Rightarrow>
       put_tool_state tc_index (st\<lparr>ts_pre_start_args := ts_pre_start_args st @ arguments\<rparr>) b')"

text \<open>The call's index, name and arguments; an access to a missing function object raises.\<close>

definition process_tool_call ::
  "(pystr \<Rightarrow> json option) \<Rightarrow> (json \<Rightarrow> pystr) \<Rightarrow> (int \<Rightarrow> pystr) \<Rightarrow> int \<Rightarrow> pystr option
   \<Rightarrow> pystr option \<Rightarrow> pystr option \<Rightarrow> (sse_event, sse_builder, unit) gen" where
  "process_tool_call loads dumps tool_uuid index tc_id incoming_name arguments0 =
     gbind (gget (\<lambda>sb. if index < 0 then int (length (bm_tool_states (sb_blocks sb))) else index))
     (\<lambda>tc_index.
     gseq (gmod (register_tool_delta tc_index tc_id incoming_name))
     (gbind (gget (tool_state tc_index)) (\<lambda>state.
        (let arguments = (case arguments0 of Some a \<Rightarrow> a | None \<Rightarrow> []);
             resolved_name = (case state of Some st \<Rightarrow> ts_name st | None \<Rightarrow> []);
             started = (case state of Some st \<Rightarrow> ts_started st | None \<Rightarrow> False)
         in gseq (gwhen (\<not> started \<and> strip resolved_name \<noteq> [])
                    (start_named_tool loads dumps tool_uuid tc_index tc_id resolved_name))
              (if arguments = [] then gret ()
               else gbind (gget (tool_state tc_index)) (\<lambda>state'.
                 if (case state' of Some st \<Rightarrow> ts_started st | None \<Rightarrow> False)
                 then emit_tool_arg_delta loads dumps tc_index arguments
                 else
                   (if strip resolved_name = []
                    then gmod (buffer_pre_start_args tc_index arguments)
                    else gseq (gmod (upd_blocks (\<lambda>b. snd (ensure_tool_state b tc_index))))
                           (emit_tool_arg_delta loads dumps tc_index arguments))))))))"

definition process_tool_delta ::
  "(pystr \<Rightarrow> json option) \<Rightarrow> (json \<Rightarrow> pystr) \<Rightarrow> (int \<Rightarrow> pystr) \<Rightarrow> tool_delta
   \<Rightarrow> (sse_event, sse_builder, unit) gen" where
  "process_tool_delta loads dumps tool_uuid tc =
     (case td_function tc of
        None \<Rightarrow> graise AttributeError
      | Some (name, arguments) \<Rightarrow>
          process_tool_call loads dumps tool_uuid (td_index tc) (td_id tc) name arguments)"

definition flush_task_args ::
  "(pystr \<Rightarrow> json option) \<Rightarrow> (json \<Rightarrow> pystr) \<Rightarrow> (sse_event, sse_builder, unit) gen" where
  "flush_task_args loads dumps =
     gbind (call_blocks (flush_task_arg_buffers loads dumps)) (\<lambda>results.
       gfor results (\<lambda>(tool_index, out). emit_tool_delta tool_index out))"

section \<open>The stream\<close>

record stream_state =
  st_sse :: sse_builder
  st_think :: think_parser
  st_heur :: tool_parser
  st_finish_reason :: "pystr option"
  st_usage :: "json option"

text \<open>What the model takes as given, in one record: the libraries and the request's options.\<close>

record stream_env =
  en_word :: "int \<Rightarrow> bool"
  en_lower :: "pystr \<Rightarrow> pystr"
  en_loads :: "pystr \<Rightarrow> json option"
  en_dumps :: "json \<Rightarrow> pystr"
  en_uuid8 :: "nat \<Rightarrow> pystr"
  en_tool_uuid :: "int \<Rightarrow> pystr"
  en_text_of :: "py_error \<Rightarrow> pystr"
  en_encoder :: "(pystr \<Rightarrow> nat option) option"
  en_read_timeout :: "pystr option"
  en_provider_name :: pystr
  en_request_id :: "pystr option"
  en_thinking_enabled :: bool

definition on_sse :: "(sse_event, sse_builder, 'a) gen \<Rightarrow> (sse_event, stream_state, 'a) gen" where
  "on_sse m = gzoom st_sse (\<lambda>sb t. t\<lparr>st_sse := sb\<rparr>) m"

definition reasoning_out :: "json \<Rightarrow> (sse_event, sse_builder, unit) gen" where
  "reasoning_out content = gseq ensure_thinking_block (gyield (emit_thinking_delta content))"

definition think_out :: "pystr \<Rightarrow> (sse_event, sse_builder, unit) gen" where
  "think_out content = reasoning_out (JStr content)"

definition text_out :: "pystr \<Rightarrow> (sse_event, sse_builder, unit) gen" where
  "text_out content = gseq ensure_text_block (gyield (emit_text_delta content))"

text \<open>Running a parser of the state and giving what it returns.\<close>

definition run_think :: "(think_parser \<Rightarrow> 'a \<times> think_parser) \<Rightarrow> (sse_event, stream_state, 'a) gen" where
  "run_think f t = (case f (st_think t) of (a, p) \<Rightarrow> ([], Inr a, t\<lparr>st_think := p\<rparr>))"

definition run_heur :: "(tool_parser \<Rightarrow> 'a \<times> tool_parser) \<Rightarrow> (sse_event, stream_state, 'a) gen" where
  "run_heur f t = (case f (st_heur t) of (a, p) \<Rightarrow> ([], Inr a, t\<lparr>st_heur := p\<rparr>))"

definition feed_heuristic ::
  "stream_env \<Rightarrow> pystr \<Rightarrow> (sse_event, stream_state, pystr \<times> heuristic_tool list) gen" where
  "feed_heuristic en text =
     run_heur (\<lambda>p. case tool_feed (en_word en) (en_loads en) (en_uuid8 en) p text of
                     (filtered, tools, p') \<Rightarrow> ((filtered, tools), p'))"

definition emit_heuristic_tools ::
  "stream_env \<Rightarrow> heuristic_tool list \<Rightarrow> (sse_event, stream_state, unit) gen" where
  "emit_heuristic_tools en tools =
     gfor tools (\<lambda>tool_use. on_sse (iter_heuristic_tool_use_sse (en_dumps en) tool_use))"

definition handle_part :: "stream_env \<Rightarrow> content_chunk \<Rightarrow> (sse_event, stream_state, unit) gen" where
  "handle_part en part =
     (case chunk_type part of
        THINKING \<Rightarrow> gwhen (en_thinking_enabled en) (on_sse (think_out (chunk_content part)))
      | TEXT \<Rightarrow>
          gbind (feed_heuristic en (chunk_content part)) (\<lambda>(filtered_text, detected_tools).
            gseq (gwhen (filtered_text \<noteq> []) (on_sse (text_out filtered_text)))
              (emit_heuristic_tools en detected_tools)))"

definition handle_delta :: "stream_env \<Rightarrow> choice_delta \<Rightarrow> (sse_event, stream_state, unit) gen" where
  "handle_delta en delta =
     gseq (case cd_reasoning_content delta of
             None \<Rightarrow> gret ()
           | Some reasoning \<Rightarrow> gwhen (en_thinking_enabled en \<and> truthy reasoning)
                                 (on_sse (reasoning_out reasoning)))
     (gseq (case cd_content delta of
              None \<Rightarrow> gret ()
            | Some content \<Rightarrow> gwhen (content \<noteq> [])
                (gbind (run_think (\<lambda>p. think_feed p content)) (\<lambda>parts. gfor parts (handle_part en))))
       (gwhen (cd_tool_calls delta \<noteq> [])
          (gseq (on_sse close_content_blocks)
             (gfor (cd_tool_calls delta) (\<lambda>tc. on_sse
                (process_tool_delta (en_loads en) (en_dumps en) (en_tool_uuid en) tc))))))"

definition handle_chunk :: "stream_env \<Rightarrow> stream_chunk \<Rightarrow> (sse_event, stream_state, unit) gen" where
  "handle_chunk en chunk =
     gseq (gmod (\<lambda>t. if ck_usage chunk \<noteq> None then t\<lparr>st_usage := ck_usage chunk\<rparr> else t))
       (case ck_choices chunk of
          [] \<Rightarrow> gret ()
        | choice # _ \<Rightarrow>
            (case cc_delta choice of
               None \<Rightarrow> gret ()
             | Some delta \<Rightarrow>
                 gseq (gmod (\<lambda>t. if cc_finish_reason choice \<notin> {None, Some []}
                                 then t\<lparr>st_finish_reason := cc_finish_reason choice\<rparr> else t))
                   (handle_delta en delta)))"

text \<open>The upstream: its chunks, then possibly the exception the stream ends with. A stream that
  cannot be created is the exception alone.\<close>

type_synonym upstream = "stream_chunk list \<times> exn option"

definition create_stream ::
  "('body \<Rightarrow> exn + upstream) \<Rightarrow> (exn \<Rightarrow> 'body \<Rightarrow> 'body option) \<Rightarrow> 'body \<Rightarrow> upstream" where
  "create_stream create get_retry_request_body body =
     (case create body of
        Inr stream \<Rightarrow> stream
      | Inl e \<Rightarrow>
          (case get_retry_request_body e body of
             None \<Rightarrow> ([], Some e)
           | Some retry_body \<Rightarrow>
               (case create retry_body of Inr stream \<Rightarrow> stream | Inl e' \<Rightarrow> ([], Some e'))))"

definition consume_upstream :: "stream_env \<Rightarrow> upstream \<Rightarrow> (sse_event, stream_state, unit) gen" where
  "consume_upstream en up =
     gseq (gfor (fst up) (handle_chunk en))
       (case snd up of None \<Rightarrow> gret () | Some e \<Rightarrow> graise (Upstream e))"

definition stream_error_message :: "stream_env \<Rightarrow> py_error \<Rightarrow> pystr" where
  "stream_error_message en e =
     append_request_id
       (user_visible_message_for_mapped_provider_error
          (fst (map_error (en_lower en) (exn_of (en_text_of en) e)))
          (en_provider_name en) (en_read_timeout en))
       (en_request_id en)"

definition error_close :: "pystr \<Rightarrow> (sse_event, sse_builder, unit) gen" where
  "error_close error_message =
     gseq close_all_blocks
     (gseq (gbind (gget (\<lambda>sb. has_emitted_tool_block (sb_blocks sb))) (\<lambda>emitted.
              if emitted then gyield (\<lambda>sb. (emit_top_level_error error_message, sb))
              else emit_error error_message))
     (gseq (gyield (\<lambda>sb. (message_delta sb (u ''end_turn'') (JInt 1), sb)))
       (gyield (\<lambda>sb. (message_stop, sb)))))"

definition flush_parsers :: "stream_env \<Rightarrow> (sse_event, stream_state, unit) gen" where
  "flush_parsers en =
     gseq (gbind (run_think think_flush) (\<lambda>remaining.
             case remaining of
               None \<Rightarrow> gret ()
             | Some part \<Rightarrow>
                 (case chunk_type part of
                    THINKING \<Rightarrow> gwhen (en_thinking_enabled en) (on_sse (think_out (chunk_content part)))
                  | TEXT \<Rightarrow> on_sse (text_out (chunk_content part)))))
       (gbind (run_heur tool_flush) (emit_heuristic_tools en))"

text \<open>The reasoning is joined only when the conditions before it do not decide.\<close>

definition needs_text_block :: "sse_builder \<Rightarrow> py_error + bool" where
  "needs_text_block sb =
     (let b = sb_blocks sb; has_started_tool = has_emitted_tool_block b;
          has_content_blocks = bm_text_index b \<noteq> -1 \<or> bm_thinking_index b \<noteq> -1 \<or> has_started_tool
      in if \<not> has_content_blocks then Inr True
         else if has_started_tool \<or> strip (accumulated_text sb) \<noteq> [] then Inr False
         else map_sum id (\<lambda>reasoning. strip reasoning \<noteq> []) (accumulated_reasoning sb))"

definition add_text_block :: "(sse_event, sse_builder, unit) gen" where
  "add_text_block =
     gbind (gget needs_text_block) (\<lambda>r. gbind (glift r) (\<lambda>needed. gwhen needed (text_out (u '' ''))))"

definition output_tokens :: "stream_env \<Rightarrow> json option \<Rightarrow> sse_builder \<Rightarrow> py_error + json" where
  "output_tokens en usage sb =
     (let estimate = map_sum id JInt (estimate_output_tokens (en_encoder en) sb)
      in case usage of
           None \<Rightarrow> estimate
         | Some completion \<Rightarrow> if int_of completion \<noteq> None then Inr completion else estimate)"

definition finish_stream :: "stream_env \<Rightarrow> (sse_event, stream_state, unit) gen" where
  "finish_stream en =
     gseq (flush_parsers en)
     (gseq (on_sse add_text_block)
     (gseq (on_sse (flush_task_args (en_loads en) (en_dumps en)))
     (gseq (on_sse close_all_blocks)
     (gbind (gget (\<lambda>t. output_tokens en (st_usage t) (st_sse t))) (\<lambda>r.
      gbind (glift r) (\<lambda>tokens.
      gseq (gyield (\<lambda>t. (message_delta (st_sse t) (map_stop_reason (st_finish_reason t)) tokens, t)))
        (gyield (\<lambda>t. (message_stop, t)))))))))"

text \<open>The error path of the source ends in a \<open>return\<close>, so the rest runs only after a complete
  stream: the body of the \<open>try\<close> gives whether the stream ended there.\<close>

definition stream_body :: "stream_env \<Rightarrow> upstream \<Rightarrow> (sse_event, stream_state, unit) gen" where
  "stream_body en up =
     gseq (gyield (\<lambda>t. (message_start (st_sse t), t)))
       (gbind (gtry (gseq (consume_upstream en up) (gret True))
                 (\<lambda>e. gseq (on_sse (error_close (stream_error_message en e))) (gret False)))
          (\<lambda>completed. gwhen completed (finish_stream en)))"

definition stream_state_init :: "pystr \<Rightarrow> pystr \<Rightarrow> json \<Rightarrow> stream_state" where
  "stream_state_init message_id model input_tokens =
     \<lparr>st_sse = sse_builder_init message_id model input_tokens, st_think = think_parser_init,
      st_heur = tool_parser_init, st_finish_reason = None, st_usage = None\<rparr>"

definition stream_response ::
  "stream_env \<Rightarrow> upstream \<Rightarrow> pystr \<Rightarrow> pystr \<Rightarrow> json \<Rightarrow> sse_event list \<times> (py_error + unit) \<times> stream_state"
where
  "stream_response en up message_id model input_tokens =
     stream_body en up (stream_state_init message_id model input_tokens)"

section \<open>The builder against the contract\<close>

text \<open>The blocks the manager holds open, with the kind the contract automaton records.\<close>

definition holds_open :: "block_manager \<Rightarrow> int \<Rightarrow> pystr \<Rightarrow> bool" where
  "holds_open b i k \<longleftrightarrow>
     bm_thinking_started b \<and> i = bm_thinking_index b \<and> k = u ''thinking''
     \<or> bm_text_started b \<and> i = bm_text_index b \<and> k = u ''text''
     \<or> (\<exists>t st. map_of (bm_tool_states b) t = Some st \<and> ts_started st \<and> ts_block_index st = i
          \<and> k = u ''tool_use'')"

definition tools_apart :: "block_manager \<Rightarrow> bool" where
  "tools_apart b \<longleftrightarrow>
     distinct (map fst (bm_tool_states b))
     \<and> (\<forall>t t' st st'. map_of (bm_tool_states b) t = Some st \<longrightarrow> map_of (bm_tool_states b) t' = Some st'
          \<longrightarrow> ts_started st \<longrightarrow> ts_started st' \<longrightarrow> ts_block_index st = ts_block_index st' \<longrightarrow> t = t')"

definition indices_ok :: "block_manager \<Rightarrow> contract_state \<Rightarrow> bool" where
  "indices_ok b c \<longleftrightarrow>
     0 \<le> bm_next_index b \<and> cs_seen_blocks c = {0 ..< bm_next_index b}
     \<and> (\<forall>i k. map_of (cs_open_blocks c) i = Some k \<longrightarrow> 0 \<le> i \<and> i < bm_next_index b)
     \<and> (bm_text_index b \<noteq> -1 \<or> bm_thinking_index b \<noteq> -1 \<longrightarrow> 0 < bm_next_index b)"

definition blocks_match :: "block_manager \<Rightarrow> contract_state \<Rightarrow> bool" where
  "blocks_match b c \<longleftrightarrow>
     (\<forall>i k. map_of (cs_open_blocks c) i = Some k \<longleftrightarrow> holds_open b i k)
     \<and> tools_apart b \<and> indices_ok b c"

lemma blocks_match_open: "blocks_match b c \<Longrightarrow> map_of (cs_open_blocks c) i = Some k \<longleftrightarrow> holds_open b i k"
  by (simp add: blocks_match_def)

lemma blocks_match_range: "blocks_match b c \<Longrightarrow> holds_open b i k \<Longrightarrow> 0 \<le> i \<and> i < bm_next_index b"
  unfolding blocks_match_def indices_ok_def by blast

lemma blocks_match_functional: "blocks_match b c \<Longrightarrow> holds_open b i k \<Longrightarrow> holds_open b i k' \<Longrightarrow> k = k'"
  using blocks_match_open by (metis option.inject)

lemma blocks_match_fresh:
  assumes "blocks_match b c"
  shows "\<not> has_key (cs_open_blocks c) (bm_next_index b)" "bm_next_index b \<notin> cs_seen_blocks c"
    "\<not> holds_open b (bm_next_index b) k"
proof -
  show no: "\<not> holds_open b (bm_next_index b) k" for k
    using blocks_match_range [OF assms] by blast
  show "\<not> has_key (cs_open_blocks c) (bm_next_index b)"
    using no blocks_match_open [OF assms] by (auto simp: has_key_def)
  show "bm_next_index b \<notin> cs_seen_blocks c"
    using assms by (simp add: blocks_match_def indices_ok_def)
qed

text \<open>Opening the next block, and closing one, keep the match when the manager records it.\<close>

lemma blocks_match_start:
  assumes match: "blocks_match b c"
    and opens: "\<And>i k. holds_open b' i k \<longleftrightarrow> holds_open b i k \<or> (i = bm_next_index b \<and> k = kind)"
    and apart: "tools_apart b'" and nxt: "bm_next_index b' = bm_next_index b + 1"
  shows "blocks_match b' \<lparr>cs_open_blocks = AList.update (bm_next_index b) kind (cs_open_blocks c),
                         cs_seen_blocks = insert (bm_next_index b) (cs_seen_blocks c)\<rparr>"
proof -
  have open_iff: "map_of (cs_open_blocks c) i = Some k \<longleftrightarrow> holds_open b i k" for i k
    by (rule blocks_match_open [OF match])
  have ok: "0 \<le> bm_next_index b" "cs_seen_blocks c = {0 ..< bm_next_index b}"
    using match by (simp_all add: blocks_match_def indices_ok_def)
  have opened: "(if i = bm_next_index b then Some kind else map_of (cs_open_blocks c) i) = Some k
      \<longleftrightarrow> holds_open b' i k" for i k
    using blocks_match_fresh(3) [OF match] by (auto simp: opens open_iff)
  have range: "0 \<le> i \<and> i < bm_next_index b'" if "holds_open b' i k" for i k
    using that ok(1) nxt blocks_match_range [OF match, of i k] by (auto simp: opens)
  have "insert (bm_next_index b) (cs_seen_blocks c) = {0 ..< bm_next_index b'}"
    using ok nxt by auto
  with opened range apart ok nxt show ?thesis
    unfolding blocks_match_def indices_ok_def by simp
qed

lemma blocks_match_stop:
  assumes match: "blocks_match b c"
    and opens: "\<And>i k. holds_open b' i k \<longleftrightarrow> holds_open b i k \<and> i \<noteq> j"
    and apart: "tools_apart b'" and nxt: "bm_next_index b' = bm_next_index b"
    and idx: "bm_text_index b' = bm_text_index b" "bm_thinking_index b' = bm_thinking_index b"
  shows "blocks_match b' (c\<lparr>cs_open_blocks := AList.delete j (cs_open_blocks c)\<rparr>)"
proof -
  have "map_of (cs_open_blocks c) i = Some k \<longleftrightarrow> holds_open b i k" for i k
    by (rule blocks_match_open [OF match])
  then have "((map_of (cs_open_blocks c))(j := None)) i = Some k \<longleftrightarrow> holds_open b' i k" for i k
    by (simp add: opens)
  moreover have "0 \<le> i \<and> i < bm_next_index b'" if "holds_open b' i k" for i k
    using that blocks_match_range [OF match, of i k] by (simp add: opens nxt)
  moreover have "indices_ok b c" using match by (simp add: blocks_match_def)
  ultimately show ?thesis
    using apart idx nxt unfolding blocks_match_def indices_ok_def by simp
qed

lemma blocks_match_same:
  assumes "blocks_match b c" and "\<And>i k. holds_open b' i k \<longleftrightarrow> holds_open b i k"
    and "tools_apart b'" and "bm_next_index b' = bm_next_index b"
    and "bm_text_index b' = bm_text_index b" "bm_thinking_index b' = bm_thinking_index b"
  shows "blocks_match b' c"
  using assms by (simp add: blocks_match_def indices_ok_def)

lemma no_delta_kinds [simp]:
  "u ''text'' \<notin> set no_delta_block_kinds" "u ''thinking'' \<notin> set no_delta_block_kinds"
  "u ''tool_use'' \<notin> set no_delta_block_kinds"
  by (simp_all add: no_delta_block_kinds_def server_tool_use_def web_search_tool_result_def
      web_fetch_tool_result_def)

text \<open>A buffered argument text belongs to a started Task block and is no JSON yet.\<close>

definition buffers_ok :: "(pystr \<Rightarrow> json option) \<Rightarrow> block_manager \<Rightarrow> bool" where
  "buffers_ok loads b \<longleftrightarrow>
     (\<forall>t st. map_of (bm_tool_states b) t = Some st \<longrightarrow> ts_task_arg_buffer st \<noteq> [] \<longrightarrow>
        ts_started st \<and> loads (ts_task_arg_buffer st) = None)"

definition sse_ok :: "(pystr \<Rightarrow> json option) \<Rightarrow> sse_builder \<Rightarrow> contract_state \<Rightarrow> bool" where
  "sse_ok loads sb c \<longleftrightarrow> blocks_match (sb_blocks sb) c \<and> buffers_ok loads (sb_blocks sb)"

definition sse_weak :: "sse_builder \<Rightarrow> contract_state \<Rightarrow> bool" where
  "sse_weak sb c \<longleftrightarrow> blocks_match (sb_blocks sb) c"

definition tool_started :: "int \<Rightarrow> sse_builder \<Rightarrow> bool" where
  "tool_started t sb \<longleftrightarrow> (\<exists>st. map_of (bm_tool_states (sb_blocks sb)) t = Some st \<and> ts_started st)"

lemma sse_ok_weak: "sse_ok loads sb c \<Longrightarrow> sse_weak sb c"
  by (simp add: sse_ok_def sse_weak_def)

lemma sse_ok_apart: "sse_ok loads sb c \<Longrightarrow> tools_apart (sb_blocks sb)"
  by (simp add: sse_ok_def blocks_match_def)

lemma start_accepted:
  assumes "blocks_match b c"
  shows "contract_observer ae c (content_block_start (bm_next_index b) (u ''text'') []) =
      Some \<lparr>cs_open_blocks = AList.update (bm_next_index b) (u ''text'') (cs_open_blocks c),
            cs_seen_blocks = insert (bm_next_index b) (cs_seen_blocks c)\<rparr>"
    and "contract_observer ae c (content_block_start (bm_next_index b) (u ''thinking'') []) =
      Some \<lparr>cs_open_blocks = AList.update (bm_next_index b) (u ''thinking'') (cs_open_blocks c),
            cs_seen_blocks = insert (bm_next_index b) (cs_seen_blocks c)\<rparr>"
    and "contract_observer ae c (content_block_start (bm_next_index b) (u ''tool_use'') kw) =
      Some \<lparr>cs_open_blocks = AList.update (bm_next_index b) (u ''tool_use'') (cs_open_blocks c),
            cs_seen_blocks = insert (bm_next_index b) (cs_seen_blocks c)\<rparr>"
  using blocks_match_fresh(1,2) [OF assms] by (simp_all add: contract_observer_def event_simps)

lemma stop_accepted:
  assumes "map_of (cs_open_blocks c) i = Some k"
  shows "contract_observer ae c (content_block_stop i) =
      Some (c\<lparr>cs_open_blocks := AList.delete i (cs_open_blocks c)\<rparr>)"
  using assms by (simp add: contract_observer_def event_simps has_key_def domIff)

lemma delta_accepted:
  "map_of (cs_open_blocks c) i = Some (u ''text'')
   \<Longrightarrow> contract_observer ae c (content_block_delta i (u ''text_delta'') s) = Some c"
  "map_of (cs_open_blocks c) i = Some (u ''thinking'')
   \<Longrightarrow> contract_observer ae c (content_delta_event i (u ''thinking_delta'') v) = Some c"
  "map_of (cs_open_blocks c) i = Some (u ''tool_use'')
   \<Longrightarrow> contract_observer ae c (content_block_delta i (u ''input_json_delta'') s) = Some c"
  by (simp_all add: contract_observer_def event_simps)

lemma start_thinking_ok:
  assumes ok: "sse_ok loads sb c" and "\<not> bm_thinking_started (sb_blocks sb)"
    and "start_thinking_block sb = (e, sb')"
  shows "\<exists>c'. contract_observer ae c e = Some c' \<and> sse_ok loads sb' c'
           \<and> bm_thinking_started (sb_blocks sb')"
proof -
  let ?b = "sb_blocks sb"
  have e: "e = content_block_start (bm_next_index ?b) (u ''thinking'') []"
    and b': "sb_blocks sb' = ?b\<lparr>bm_next_index := bm_next_index ?b + 1,
               bm_thinking_index := bm_next_index ?b, bm_thinking_started := True\<rparr>"
    using assms(3) by (auto simp: start_thinking_block_def allocate_index_def)
  have match: "blocks_match ?b c" using ok by (simp add: sse_ok_def)
  have "blocks_match (sb_blocks sb')
      \<lparr>cs_open_blocks = AList.update (bm_next_index ?b) (u ''thinking'') (cs_open_blocks c),
       cs_seen_blocks = insert (bm_next_index ?b) (cs_seen_blocks c)\<rparr>"
    by (rule blocks_match_start [OF match])
      (use assms(2) sse_ok_apart [OF ok] in \<open>auto simp: b' holds_open_def tools_apart_def\<close>)
  then show ?thesis
    using ok start_accepted(2) [OF match] by (simp add: e b' sse_ok_def buffers_ok_def)
qed

lemma start_text_ok:
  assumes ok: "sse_ok loads sb c" and "\<not> bm_text_started (sb_blocks sb)"
    and "start_text_block sb = (e, sb')"
  shows "\<exists>c'. contract_observer ae c e = Some c' \<and> sse_ok loads sb' c'
           \<and> bm_text_started (sb_blocks sb')"
proof -
  let ?b = "sb_blocks sb"
  have e: "e = content_block_start (bm_next_index ?b) (u ''text'') []"
    and b': "sb_blocks sb' = ?b\<lparr>bm_next_index := bm_next_index ?b + 1,
               bm_text_index := bm_next_index ?b, bm_text_started := True\<rparr>"
    using assms(3) by (auto simp: start_text_block_def allocate_index_def)
  have match: "blocks_match ?b c" using ok by (simp add: sse_ok_def)
  have "blocks_match (sb_blocks sb')
      \<lparr>cs_open_blocks = AList.update (bm_next_index ?b) (u ''text'') (cs_open_blocks c),
       cs_seen_blocks = insert (bm_next_index ?b) (cs_seen_blocks c)\<rparr>"
    by (rule blocks_match_start [OF match])
      (use assms(2) sse_ok_apart [OF ok] in \<open>auto simp: b' holds_open_def tools_apart_def\<close>)
  then show ?thesis
    using ok start_accepted(1) [OF match] by (simp add: e b' sse_ok_def buffers_ok_def)
qed

lemma stop_thinking_weak:
  assumes "blocks_match (sb_blocks sb) c" and "bm_thinking_started (sb_blocks sb)"
    and "stop_thinking_block sb = (e, sb')"
  shows "\<exists>c'. contract_observer ae c e = Some c' \<and> blocks_match (sb_blocks sb') c'
           \<and> sb_blocks sb' = (sb_blocks sb)\<lparr>bm_thinking_started := False\<rparr>"
proof -
  let ?b = "sb_blocks sb"
  have e: "e = content_block_stop (bm_thinking_index ?b)"
    and b': "sb_blocks sb' = ?b\<lparr>bm_thinking_started := False\<rparr>"
    using assms(3) by (auto simp: stop_thinking_block_def upd_blocks_def)
  have h: "holds_open ?b (bm_thinking_index ?b) (u ''thinking'')"
    using assms(2) by (simp add: holds_open_def)
  have apart: "tools_apart ?b" using assms(1) by (simp add: blocks_match_def)
  have "i = bm_thinking_index ?b" if "holds_open ?b i k" "k = u ''thinking''" for i k
    using that by (auto simp: holds_open_def)
  moreover have "k = u ''thinking''" if "holds_open ?b i k" "i = bm_thinking_index ?b" for i k
    using that blocks_match_functional [OF assms(1) h] by metis
  moreover have "holds_open (sb_blocks sb') i k \<longleftrightarrow> holds_open ?b i k \<and> k \<noteq> u ''thinking''" for i k
    by (auto simp: b' holds_open_def)
  ultimately have opens: "holds_open (sb_blocks sb') i k
      \<longleftrightarrow> holds_open ?b i k \<and> i \<noteq> bm_thinking_index ?b" for i k
    by blast
  have "blocks_match (sb_blocks sb')
      (c\<lparr>cs_open_blocks := AList.delete (bm_thinking_index ?b) (cs_open_blocks c)\<rparr>)"
    by (rule blocks_match_stop [OF assms(1) opens])
      (use apart in \<open>auto simp: b' tools_apart_def\<close>)
  with stop_accepted h b' show ?thesis
    by (simp add: e blocks_match_open [OF assms(1)])
qed

lemma stop_text_weak:
  assumes "blocks_match (sb_blocks sb) c" and "bm_text_started (sb_blocks sb)"
    and "stop_text_block sb = (e, sb')"
  shows "\<exists>c'. contract_observer ae c e = Some c' \<and> blocks_match (sb_blocks sb') c'
           \<and> sb_blocks sb' = (sb_blocks sb)\<lparr>bm_text_started := False\<rparr>"
proof -
  let ?b = "sb_blocks sb"
  have e: "e = content_block_stop (bm_text_index ?b)"
    and b': "sb_blocks sb' = ?b\<lparr>bm_text_started := False\<rparr>"
    using assms(3) by (auto simp: stop_text_block_def upd_blocks_def)
  have h: "holds_open ?b (bm_text_index ?b) (u ''text'')"
    using assms(2) by (simp add: holds_open_def)
  have apart: "tools_apart ?b" using assms(1) by (simp add: blocks_match_def)
  have "i = bm_text_index ?b" if "holds_open ?b i k" "k = u ''text''" for i k
    using that by (auto simp: holds_open_def)
  moreover have "k = u ''text''" if "holds_open ?b i k" "i = bm_text_index ?b" for i k
    using that blocks_match_functional [OF assms(1) h] by metis
  moreover have "holds_open (sb_blocks sb') i k \<longleftrightarrow> holds_open ?b i k \<and> k \<noteq> u ''text''" for i k
    by (auto simp: b' holds_open_def)
  ultimately have opens: "holds_open (sb_blocks sb') i k
      \<longleftrightarrow> holds_open ?b i k \<and> i \<noteq> bm_text_index ?b" for i k
    by blast
  have "blocks_match (sb_blocks sb')
      (c\<lparr>cs_open_blocks := AList.delete (bm_text_index ?b) (cs_open_blocks c)\<rparr>)"
    by (rule blocks_match_stop [OF assms(1) opens])
      (use apart in \<open>auto simp: b' tools_apart_def\<close>)
  with stop_accepted h b' show ?thesis
    by (simp add: e blocks_match_open [OF assms(1)])
qed

text \<open>Writing a tool state that keeps its block keeps the match.\<close>

definition same_block :: "block_manager \<Rightarrow> int \<Rightarrow> tool_call_state \<Rightarrow> bool" where
  "same_block b t st' \<longleftrightarrow>
     (case map_of (bm_tool_states b) t of
        None \<Rightarrow> \<not> ts_started st'
      | Some st \<Rightarrow> ts_started st' = ts_started st \<and> ts_block_index st' = ts_block_index st)"

lemma tools_put: "map_of (bm_tool_states (put_tool_state t st b)) = (map_of (bm_tool_states b))(t \<mapsto> st)"
  by (simp add: put_tool_state_def)

lemma tools_apart_put:
  assumes "tools_apart b" and "same_block b t st'"
  shows "tools_apart (put_tool_state t st' b)"
  using assms unfolding tools_apart_def put_tool_state_def same_block_def
  by (simp split: option.splits) (smt (verit))+

lemma tool_holds_put:
  assumes "same_block b t st'"
  shows "(\<exists>t' s. ((map_of (bm_tool_states b))(t \<mapsto> st')) t' = Some s \<and> ts_started s \<and> ts_block_index s = i)
    \<longleftrightarrow> (\<exists>t' s. map_of (bm_tool_states b) t' = Some s \<and> ts_started s \<and> ts_block_index s = i)"
    (is "?new \<longleftrightarrow> ?old")
proof
  assume ?new
  then obtain t' s where s: "((map_of (bm_tool_states b))(t \<mapsto> st')) t' = Some s" "ts_started s"
    "ts_block_index s = i" by blast
  show ?old
  proof (cases "t' = t")
    case True
    with s assms show ?thesis
      by (cases "map_of (bm_tool_states b) t") (auto simp: same_block_def)
  next
    case False
    with s show ?thesis by auto
  qed
next
  assume ?old
  then obtain t' s where s: "map_of (bm_tool_states b) t' = Some s" "ts_started s"
    "ts_block_index s = i" by blast
  show ?new
  proof (cases "t' = t")
    case True
    with s assms show ?thesis
      by (intro exI [of _ t] exI [of _ st']) (simp add: same_block_def)
  next
    case False
    with s show ?thesis by (intro exI [of _ t'] exI [of _ s]) simp
  qed
qed

lemma holds_open_put:
  assumes "same_block b t st'"
  shows "holds_open (put_tool_state t st' b) i k \<longleftrightarrow> holds_open b i k"
proof -
  let ?b' = "put_tool_state t st' b"
  have "bm_thinking_started ?b' = bm_thinking_started b" "bm_thinking_index ?b' = bm_thinking_index b"
    "bm_text_started ?b' = bm_text_started b" "bm_text_index ?b' = bm_text_index b"
    "map_of (bm_tool_states ?b') = (map_of (bm_tool_states b))(t \<mapsto> st')"
    by (simp_all add: put_tool_state_def)
  then show ?thesis
    using tool_holds_put [OF assms, of i] unfolding holds_open_def by metis
qed

lemma blocks_match_put:
  assumes "blocks_match b c" and "same_block b t st'"
  shows "blocks_match (put_tool_state t st' b) c"
proof (rule blocks_match_same [OF assms(1)])
  show "tools_apart (put_tool_state t st' b)"
    using assms by (simp add: tools_apart_put blocks_match_def)
  show "holds_open (put_tool_state t st' b) i k \<longleftrightarrow> holds_open b i k" for i k
    by (rule holds_open_put [OF assms(2)])
qed (simp_all add: put_tool_state_def)

lemma buffers_ok_put:
  assumes "buffers_ok loads b"
    and "ts_task_arg_buffer st' \<noteq> [] \<Longrightarrow> ts_started st' \<and> loads (ts_task_arg_buffer st') = None"
  shows "buffers_ok loads (put_tool_state t st' b)"
  using assms by (simp add: buffers_ok_def put_tool_state_def)

lemma tool_started_open:
  assumes "blocks_match b c" "map_of (bm_tool_states b) t = Some st" "ts_started st"
  shows "map_of (cs_open_blocks c) (ts_block_index st) = Some (u ''tool_use'')"
  unfolding blocks_match_open [OF assms(1)] holds_open_def using assms(2,3) by blast

lemma emit_tool_delta_ok:
  "hoare (contract_observer ae) (\<lambda>sb c. sse_ok loads sb c \<and> tool_started t sb)
     (emit_tool_delta t s) (\<lambda>_ sb c. sse_ok loads sb c \<and> tool_started t sb) E"
  unfolding hoare_def
proof (intro allI impI)
  fix sb c assume a: "sse_ok loads sb c \<and> tool_started t sb"
  then obtain st where st: "map_of (bm_tool_states (sb_blocks sb)) t = Some st" "ts_started st"
    by (auto simp: tool_started_def)
  have match: "blocks_match (sb_blocks sb) c" and buf: "buffers_ok loads (sb_blocks sb)"
    using a by (simp_all add: sse_ok_def)
  have "blocks_match (put_tool_state t (st\<lparr>ts_contents := ts_contents st @ [s]\<rparr>) (sb_blocks sb)) c"
    by (rule blocks_match_put [OF match]) (simp add: same_block_def st)
  moreover have "buffers_ok loads (put_tool_state t (st\<lparr>ts_contents := ts_contents st @ [s]\<rparr>) (sb_blocks sb))"
    by (rule buffers_ok_put [OF buf]) (use buf st in \<open>simp add: buffers_ok_def\<close>)
  ultimately show "case emit_tool_delta t s sb of (es, r, s') \<Rightarrow>
      \<exists>c'. observe (contract_observer ae) c es = Some c'
         \<and> (case r of Inl _ \<Rightarrow> E s' c' | Inr _ \<Rightarrow> sse_ok loads s' c' \<and> tool_started t s')"
    by (simp add: emit_tool_delta_def st tool_started_def tools_put delta_accepted(3) [OF tool_started_open [OF match st]]
        sse_ok_def upd_blocks_def)
qed

lemma start_tool_ok:
  assumes ok: "sse_ok loads sb c"
    and st: "map_of (bm_tool_states (sb_blocks sb)) t = Some st" "\<not> ts_started st"
    and start: "start_tool_block t tool_id name sb = (e, sb')"
  shows "\<exists>c'. contract_observer ae c e = Some c' \<and> sse_ok loads sb' c' \<and> tool_started t sb'"
proof -
  let ?b = "sb_blocks sb"
  let ?n = "bm_next_index ?b"
  let ?st = "st\<lparr>ts_block_index := ?n, ts_tool_id := tool_id, ts_started := True\<rparr>"
  have e: "e = content_block_start ?n (u ''tool_use'')
             [(u ''id'', JStr tool_id), (u ''name'', JStr name)]"
    and b': "sb_blocks sb' = put_tool_state t ?st (?b\<lparr>bm_next_index := ?n + 1\<rparr>)"
    using start st(1) by (auto simp: start_tool_block_def allocate_index_def Let_def)
  have match: "blocks_match ?b c" and buf: "buffers_ok loads ?b"
    using ok by (simp_all add: sse_ok_def)
  have apart: "tools_apart ?b" using match by (simp add: blocks_match_def)
  have fresh: "ts_block_index st'' \<noteq> ?n"
    if "map_of (bm_tool_states ?b) t'' = Some st''" "ts_started st''" for t'' st''
    using that blocks_match_fresh(3) [OF match, of "u ''tool_use''"] unfolding holds_open_def by blast
  have "tools_apart (sb_blocks sb')"
    using apart fresh unfolding tools_apart_def b' put_tool_state_def
    by simp (metis)
  moreover have "holds_open (sb_blocks sb') i k
      \<longleftrightarrow> holds_open ?b i k \<or> (i = ?n \<and> k = u ''tool_use'')" for i k
    using st unfolding holds_open_def b' put_tool_state_def by simp (metis option.inject)
  ultimately have "blocks_match (sb_blocks sb')
      \<lparr>cs_open_blocks = AList.update ?n (u ''tool_use'') (cs_open_blocks c),
       cs_seen_blocks = insert ?n (cs_seen_blocks c)\<rparr>"
    by (intro blocks_match_start [OF match]) (simp_all add: b' put_tool_state_def)
  moreover have "buffers_ok loads (sb_blocks sb')"
    unfolding b' by (rule buffers_ok_put) (use buf st in \<open>auto simp: buffers_ok_def\<close>)
  moreover have "tool_started t sb'"
    by (simp add: tool_started_def b' put_tool_state_def)
  ultimately show ?thesis
    using start_accepted(3) [OF match] by (simp add: e sse_ok_def)
qed

section \<open>Triples for the builder\<close>

lemma stop_thinking_ok:
  "hoare (contract_observer ae) (\<lambda>sb c. sse_ok loads sb c \<and> bm_thinking_started (sb_blocks sb))
     (gyield stop_thinking_block)
     (\<lambda>_ sb c. sse_ok loads sb c \<and> \<not> bm_thinking_started (sb_blocks sb)) E"
proof (rule hoare_yield)
  fix sb c e sb'
  assume a: "sse_ok loads sb c \<and> bm_thinking_started (sb_blocks sb)" and y: "stop_thinking_block sb = (e, sb')"
  then obtain c' where "contract_observer ae c e = Some c'" "blocks_match (sb_blocks sb') c'"
    "sb_blocks sb' = (sb_blocks sb)\<lparr>bm_thinking_started := False\<rparr>"
    using stop_thinking_weak [of sb c e sb' ae] by (auto simp: sse_ok_def)
  with a show "\<exists>c'. contract_observer ae c e = Some c'
      \<and> (sse_ok loads sb' c' \<and> \<not> bm_thinking_started (sb_blocks sb'))"
    by (simp add: sse_ok_def buffers_ok_def)
qed

lemma stop_text_ok:
  "hoare (contract_observer ae) (\<lambda>sb c. sse_ok loads sb c \<and> bm_text_started (sb_blocks sb))
     (gyield stop_text_block)
     (\<lambda>_ sb c. sse_ok loads sb c \<and> \<not> bm_text_started (sb_blocks sb)) E"
proof (rule hoare_yield)
  fix sb c e sb'
  assume a: "sse_ok loads sb c \<and> bm_text_started (sb_blocks sb)" and y: "stop_text_block sb = (e, sb')"
  then obtain c' where "contract_observer ae c e = Some c'" "blocks_match (sb_blocks sb') c'"
    "sb_blocks sb' = (sb_blocks sb)\<lparr>bm_text_started := False\<rparr>"
    using stop_text_weak [of sb c e sb' ae] by (auto simp: sse_ok_def)
  with a show "\<exists>c'. contract_observer ae c e = Some c'
      \<and> (sse_ok loads sb' c' \<and> \<not> bm_text_started (sb_blocks sb'))"
    by (simp add: sse_ok_def buffers_ok_def)
qed

lemma ensure_thinking_ok:
  "hoare (contract_observer ae) (sse_ok loads) ensure_thinking_block
     (\<lambda>_ sb c. sse_ok loads sb c \<and> bm_thinking_started (sb_blocks sb)) E"
  unfolding ensure_thinking_block_def
proof (rule hoare_seq [where R = "sse_ok loads"])
  show "hoare (contract_observer ae) (sse_ok loads)
     (gbind (gget (\<lambda>sb. bm_text_started (sb_blocks sb))) (\<lambda>b. gwhen b (gyield stop_text_block)))
     (\<lambda>_. sse_ok loads) E"
    by (rule hoare_guard, rule hoare_weaken [OF stop_text_ok]) auto
  show "hoare (contract_observer ae) (sse_ok loads)
     (gbind (gget (\<lambda>sb. bm_thinking_started (sb_blocks sb)))
       (\<lambda>b. gwhen (\<not> b) (gyield start_thinking_block)))
     (\<lambda>_ sb c. sse_ok loads sb c \<and> bm_thinking_started (sb_blocks sb)) E"
    by (rule hoare_guard_not, rule hoare_yield) (auto dest: start_thinking_ok)
qed

lemma ensure_text_ok:
  "hoare (contract_observer ae) (sse_ok loads) ensure_text_block
     (\<lambda>_ sb c. sse_ok loads sb c \<and> bm_text_started (sb_blocks sb)) E"
  unfolding ensure_text_block_def
proof (rule hoare_seq [where R = "sse_ok loads"])
  show "hoare (contract_observer ae) (sse_ok loads)
     (gbind (gget (\<lambda>sb. bm_thinking_started (sb_blocks sb))) (\<lambda>b. gwhen b (gyield stop_thinking_block)))
     (\<lambda>_. sse_ok loads) E"
    by (rule hoare_guard, rule hoare_weaken [OF stop_thinking_ok]) auto
  show "hoare (contract_observer ae) (sse_ok loads)
     (gbind (gget (\<lambda>sb. bm_text_started (sb_blocks sb)))
       (\<lambda>b. gwhen (\<not> b) (gyield start_text_block)))
     (\<lambda>_ sb c. sse_ok loads sb c \<and> bm_text_started (sb_blocks sb)) E"
    by (rule hoare_guard_not, rule hoare_yield) (auto dest: start_text_ok)
qed

lemma close_content_ok:
  "hoare (contract_observer ae) (sse_ok loads) close_content_blocks (\<lambda>_. sse_ok loads) E"
  unfolding close_content_blocks_def
  by (rule hoare_seq [where R = "sse_ok loads"];
      rule hoare_guard; (rule hoare_weaken [OF stop_thinking_ok] hoare_weaken [OF stop_text_ok])?)
    auto

lemma reasoning_out_ok: "hoare (contract_observer ae) (sse_ok loads) (reasoning_out v) (\<lambda>_. sse_ok loads) E"
  unfolding reasoning_out_def
proof (rule hoare_seq [OF ensure_thinking_ok], rule hoare_yield)
  fix sb c e sb'
  assume a: "sse_ok loads sb c \<and> bm_thinking_started (sb_blocks sb)" and "emit_thinking_delta v sb = (e, sb')"
  then have e: "e = content_delta_event (bm_thinking_index (sb_blocks sb)) (u ''thinking_delta'') v"
    and sb': "sb_blocks sb' = sb_blocks sb"
    by (auto simp: emit_thinking_delta_def)
  have "map_of (cs_open_blocks c) (bm_thinking_index (sb_blocks sb)) = Some (u ''thinking'')"
    using a blocks_match_open [of "sb_blocks sb" c] by (simp add: sse_ok_def holds_open_def)
  with a show "\<exists>c'. contract_observer ae c e = Some c' \<and> sse_ok loads sb' c'"
    by (simp add: e delta_accepted(2) sse_ok_def sb')
qed

lemma think_out_ok: "hoare (contract_observer ae) (sse_ok loads) (think_out s) (\<lambda>_. sse_ok loads) E"
  unfolding think_out_def by (rule reasoning_out_ok)

lemma text_out_ok: "hoare (contract_observer ae) (sse_ok loads) (text_out s) (\<lambda>_. sse_ok loads) E"
  unfolding text_out_def
proof (rule hoare_seq [OF ensure_text_ok], rule hoare_yield)
  fix sb c e sb'
  assume a: "sse_ok loads sb c \<and> bm_text_started (sb_blocks sb)" and "emit_text_delta s sb = (e, sb')"
  then have e: "e = content_block_delta (bm_text_index (sb_blocks sb)) (u ''text_delta'') s"
    and sb': "sb_blocks sb' = sb_blocks sb"
    by (auto simp: emit_text_delta_def)
  have "map_of (cs_open_blocks c) (bm_text_index (sb_blocks sb)) = Some (u ''text'')"
    using a blocks_match_open [of "sb_blocks sb" c] by (simp add: sse_ok_def holds_open_def)
  with a show "\<exists>c'. contract_observer ae c e = Some c' \<and> sse_ok loads sb' c'"
    by (simp add: e delta_accepted(1) sse_ok_def sb')
qed

text \<open>A block opened, filled and closed at once leaves the open blocks as they were.\<close>

lemma blocks_match_pass:
  assumes "blocks_match b c"
  shows "blocks_match (b\<lparr>bm_next_index := bm_next_index b + 1\<rparr>)
    \<lparr>cs_open_blocks = AList.delete (bm_next_index b) (AList.update (bm_next_index b) k (cs_open_blocks c)),
     cs_seen_blocks = insert (bm_next_index b) (cs_seen_blocks c)\<rparr>"
proof -
  have "map_of (cs_open_blocks c) (bm_next_index b) = None"
    using blocks_match_fresh(1) [OF assms] by (auto simp: has_key_def domIff)
  then have same: "(map_of (cs_open_blocks c))(bm_next_index b := None) = map_of (cs_open_blocks c)"
    by (rule fun_upd_idem)
  have "holds_open (b\<lparr>bm_next_index := n\<rparr>) = holds_open b" for n
    by (intro ext) (simp add: holds_open_def)
  then show ?thesis
    using assms same unfolding blocks_match_def indices_ok_def tools_apart_def by fastforce
qed

lemma pass_accepted:
  assumes "blocks_match b c"
  shows "observe (contract_observer ae) c
      [content_block_start (bm_next_index b) (u ''text'') [],
       content_block_delta (bm_next_index b) (u ''text_delta'') s, content_block_stop (bm_next_index b)]
    = Some \<lparr>cs_open_blocks = AList.delete (bm_next_index b)
               (AList.update (bm_next_index b) (u ''text'') (cs_open_blocks c)),
            cs_seen_blocks = insert (bm_next_index b) (cs_seen_blocks c)\<rparr>"
    and "observe (contract_observer ae) c
      [content_block_start (bm_next_index b) (u ''tool_use'') kw,
       content_block_delta (bm_next_index b) (u ''input_json_delta'') s,
       content_block_stop (bm_next_index b)]
    = Some \<lparr>cs_open_blocks = AList.delete (bm_next_index b)
               (AList.update (bm_next_index b) (u ''tool_use'') (cs_open_blocks c)),
            cs_seen_blocks = insert (bm_next_index b) (cs_seen_blocks c)\<rparr>"
  by (simp_all add: start_accepted [OF assms] delta_accepted stop_accepted)

lemma heuristic_tool_ok:
  "hoare (contract_observer ae) (sse_ok loads) (iter_heuristic_tool_use_sse dumps tool)
     (\<lambda>_. sse_ok loads) E"
  unfolding iter_heuristic_tool_use_sse_def
proof (rule hoare_seq [OF close_content_ok])
  show "hoare (contract_observer ae) (sse_ok loads)
     (emit_heuristic_block dumps (task_input_foreground tool)) (\<lambda>_. sse_ok loads) E"
    unfolding hoare_def
    by (auto simp: emit_heuristic_block_def allocate_index_def sse_ok_def buffers_ok_def
        pass_accepted(2) simp del: observe.simps intro: blocks_match_pass)
qed

lemma buffer_task_args_ok:
  "hoare (contract_observer ae) (\<lambda>sb c. sse_ok loads sb c \<and> tool_started t sb)
     (call_blocks (\<lambda>b. buffer_task_args loads b t args))
     (\<lambda>_ sb c. sse_ok loads sb c \<and> tool_started t sb) sse_weak"
  unfolding hoare_def
proof (intro allI impI)
  fix sb c assume a: "sse_ok loads sb c \<and> tool_started t sb"
  let ?b = "sb_blocks sb"
  obtain st where st: "map_of (bm_tool_states ?b) t = Some st" "ts_started st"
    using a by (auto simp: tool_started_def)
  have match: "blocks_match ?b c" and buf: "buffers_ok loads ?b"
    using a by (simp_all add: sse_ok_def)
  have put_match: "blocks_match (put_tool_state t st' ?b) c"
    if "ts_started st'" "ts_block_index st' = ts_block_index st" for st'
    by (rule blocks_match_put [OF match]) (simp add: same_block_def st that)
  have put_buf: "buffers_ok loads (put_tool_state t st' ?b)"
    if "ts_task_arg_buffer st' = [] \<or> ts_started st' \<and> loads (ts_task_arg_buffer st') = None" for st'
    by (rule buffers_ok_put [OF buf]) (use that in auto)
  have twice: "put_tool_state t s2 (put_tool_state t s1 ?b) = put_tool_state t s2 ?b" for s1 s2
    by (simp add: put_tool_state_def)
  show "case call_blocks (\<lambda>b. buffer_task_args loads b t args) sb of (es, r, s') \<Rightarrow>
      \<exists>c'. observe (contract_observer ae) c es = Some c'
         \<and> (case r of Inl _ \<Rightarrow> sse_weak s' c' | Inr _ \<Rightarrow> sse_ok loads s' c' \<and> tool_started t s')"
    using a st
    by (auto simp: call_blocks_def buffer_task_args_def Let_def twice sse_ok_def sse_weak_def
        put_match put_buf tool_started_def tools_put
        split: option.splits sum.splits)
qed

lemma emit_tool_arg_delta_ok:
  "hoare (contract_observer ae) (\<lambda>sb c. sse_ok loads sb c \<and> tool_started t sb)
     (emit_tool_arg_delta loads dumps t args) (\<lambda>_ sb c. sse_ok loads sb c \<and> tool_started t sb) sse_weak"
proof (cases "args = []")
  case False
  have "hoare (contract_observer ae)
      (\<lambda>sb c. (sse_ok loads sb c \<and> tool_started t sb) \<and> tool_state t sb = state)
      (case state of None \<Rightarrow> gret ()
       | Some st \<Rightarrow>
          if ts_name st = u ''Task''
          then gbind (call_blocks (\<lambda>b. buffer_task_args loads b t args)) (\<lambda>parsed.
                 case parsed of None \<Rightarrow> gret ()
                 | Some args_json \<Rightarrow> emit_tool_delta t (dumps args_json))
          else emit_tool_delta t args) (\<lambda>_ sb c. sse_ok loads sb c \<and> tool_started t sb) sse_weak" for state
  proof (cases state)
    case (Some st)
    have task: "hoare (contract_observer ae) (\<lambda>sb c. sse_ok loads sb c \<and> tool_started t sb)
      (gbind (call_blocks (\<lambda>b. buffer_task_args loads b t args)) (\<lambda>parsed.
         case parsed of None \<Rightarrow> gret () | Some args_json \<Rightarrow> emit_tool_delta t (dumps args_json)))
      (\<lambda>_ sb c. sse_ok loads sb c \<and> tool_started t sb) sse_weak"
      by (rule hoare_bind [OF buffer_task_args_ok])
        (auto simp: emit_tool_delta_ok hoare_ret split: option.splits)
    show ?thesis
      using task emit_tool_delta_ok [of ae loads t args sse_weak] Some
      by (auto elim: hoare_weaken)
  qed (auto simp: hoare_ret)
  with False show ?thesis
    unfolding emit_tool_arg_delta_def by (auto intro: hoare_get_bind)
qed (auto simp: emit_tool_arg_delta_def)

lemma start_named_tool_ok:
  "hoare (contract_observer ae)
     (\<lambda>sb c. sse_ok loads sb c \<and> (\<exists>st. tool_state t sb = Some st \<and> \<not> ts_started st))
     (start_named_tool loads dumps tool_uuid t tc_id name)
     (\<lambda>_ sb c. sse_ok loads sb c \<and> tool_started t sb) sse_weak"
  unfolding start_named_tool_def
proof (rule hoare_get_bind, rule hoare_seq)
  fix tool_id
  show "hoare (contract_observer ae)
     (\<lambda>sb c. (sse_ok loads sb c \<and> (\<exists>st. tool_state t sb = Some st \<and> \<not> ts_started st))
        \<and> resolve_tool_id tool_uuid (tool_state t sb) tc_id (bm_next_index (sb_blocks sb)) = tool_id)
     (gyield (start_tool_block t tool_id (strip name)))
     (\<lambda>_ sb c. sse_ok loads sb c \<and> tool_started t sb) sse_weak"
    by (rule hoare_yield) (auto simp: tool_state_def dest: start_tool_ok)
next
  have pre: "hoare (contract_observer ae)
      (\<lambda>sb c. (sse_ok loads sb c \<and> tool_started t sb) \<and> tool_state t sb = Some st)
      (gwhen (ts_pre_start_args st \<noteq> [])
         (gseq (gmod (upd_blocks (put_tool_state t (st\<lparr>ts_pre_start_args := []\<rparr>))))
            (emit_tool_arg_delta loads dumps t (ts_pre_start_args st))))
      (\<lambda>_ sb c. sse_ok loads sb c \<and> tool_started t sb) sse_weak" for st
  proof (intro hoare_when hoare_seq [OF hoare_mod emit_tool_arg_delta_ok])
    fix sb c assume a: "(sse_ok loads sb c \<and> tool_started t sb) \<and> tool_state t sb = Some st"
    then have st: "map_of (bm_tool_states (sb_blocks sb)) t = Some st" by (simp add: tool_state_def)
    have "blocks_match (put_tool_state t (st\<lparr>ts_pre_start_args := []\<rparr>) (sb_blocks sb)) c"
      by (rule blocks_match_put) (use a st in \<open>auto simp: sse_ok_def same_block_def\<close>)
    moreover have "buffers_ok loads (put_tool_state t (st\<lparr>ts_pre_start_args := []\<rparr>) (sb_blocks sb))"
      by (rule buffers_ok_put) (use a st in \<open>auto simp: sse_ok_def buffers_ok_def\<close>)
    ultimately show "sse_ok loads (upd_blocks (put_tool_state t (st\<lparr>ts_pre_start_args := []\<rparr>)) sb) c
        \<and> tool_started t (upd_blocks (put_tool_state t (st\<lparr>ts_pre_start_args := []\<rparr>)) sb)"
      using a st by (auto simp: sse_ok_def upd_blocks_def tool_started_def tools_put)
  qed auto
  show "hoare (contract_observer ae) (\<lambda>sb c. sse_ok loads sb c \<and> tool_started t sb)
     (gbind (gget (tool_state t)) (\<lambda>state.
        case state of None \<Rightarrow> graise KeyError
        | Some st \<Rightarrow> gwhen (ts_pre_start_args st \<noteq> [])
            (gseq (gmod (upd_blocks (put_tool_state t (st\<lparr>ts_pre_start_args := []\<rparr>))))
               (emit_tool_arg_delta loads dumps t (ts_pre_start_args st)))))
     (\<lambda>_ sb c. sse_ok loads sb c \<and> tool_started t sb) sse_weak"
    by (rule hoare_get_bind) (auto simp: pre [unfolded conj_assoc] sse_ok_weak split: option.split)
qed

definition mgr_ok :: "(pystr \<Rightarrow> json option) \<Rightarrow> block_manager \<Rightarrow> contract_state \<Rightarrow> bool" where
  "mgr_ok loads b c \<longleftrightarrow> blocks_match b c \<and> buffers_ok loads b"

lemma sse_ok_mgr: "sse_ok loads sb c \<longleftrightarrow> mgr_ok loads (sb_blocks sb) c"
  by (simp add: sse_ok_def mgr_ok_def)

lemma mgr_ok_put:
  assumes "mgr_ok loads b c" and "same_block b t st'"
    and "ts_task_arg_buffer st' \<noteq> [] \<Longrightarrow> ts_started st' \<and> loads (ts_task_arg_buffer st') = None"
  shows "mgr_ok loads (put_tool_state t st' b) c"
  using assms blocks_match_put buffers_ok_put by (simp add: mgr_ok_def)

text \<open>A write that keeps the block and the argument buffer of the state it finds.\<close>

lemma mgr_ok_write:
  assumes "mgr_ok loads b c" and "map_of (bm_tool_states b) t = Some st"
    and "ts_started st' = ts_started st" "ts_block_index st' = ts_block_index st"
    and "ts_task_arg_buffer st' = ts_task_arg_buffer st"
  shows "mgr_ok loads (put_tool_state t st' b) c"
  by (rule mgr_ok_put [OF assms(1)])
    (use assms in \<open>auto simp: mgr_ok_def buffers_ok_def same_block_def\<close>)

lemma mgr_ok_new:
  assumes "mgr_ok loads b c" and "map_of (bm_tool_states b) t = None"
  shows "mgr_ok loads (put_tool_state t (new_tool_call_state i tid nm False) b) c"
  by (rule mgr_ok_put [OF assms(1)]) (simp_all add: same_block_def new_tool_call_state_def assms(2))

lemma ensure_tool_state_ok:
  assumes "mgr_ok loads b c" and "ensure_tool_state b t = (st, b')"
  shows "mgr_ok loads b' c" and "map_of (bm_tool_states b') t = Some st"
  using assms mgr_ok_new [OF assms(1), of t "-1" "[]" "[]"]
  by (auto simp: ensure_tool_state_def Let_def put_tool_state_def split: option.splits)

lemma set_stream_tool_id_ok: "mgr_ok loads b c \<Longrightarrow> mgr_ok loads (set_stream_tool_id b t tid) c"
  by (auto simp: set_stream_tool_id_def split: option.split prod.split
      intro: mgr_ok_write ensure_tool_state_ok)

lemma register_tool_name_ok: "mgr_ok loads b c \<Longrightarrow> mgr_ok loads (register_tool_name b t name) c"
  by (auto simp: register_tool_name_def Let_def split: option.split
      intro: mgr_ok_write mgr_ok_new)

lemma register_tool_delta_ok:
  "sse_ok loads sb c \<Longrightarrow> sse_ok loads (register_tool_delta t tc_id name sb) c"
  by (auto simp: sse_ok_mgr register_tool_delta_def upd_blocks_def Let_def split: option.split
      intro: set_stream_tool_id_ok register_tool_name_ok)

lemma buffer_pre_start_args_ok:
  "sse_ok loads sb c \<Longrightarrow> sse_ok loads (buffer_pre_start_args t args sb) c"
  by (auto simp: sse_ok_mgr buffer_pre_start_args_def upd_blocks_def split: prod.split
      intro: mgr_ok_write ensure_tool_state_ok)

text \<open>What follows the start of a call: its argument fragment, streamed or kept.\<close>

lemma process_arguments_ok:
  "hoare (contract_observer ae)
     (\<lambda>sb c. sse_ok loads sb c \<and> (strip name \<noteq> [] \<longrightarrow> tool_started t sb))
     (if args = [] then gret ()
      else gbind (gget (tool_state t)) (\<lambda>state'.
        if (case state' of Some st \<Rightarrow> ts_started st | None \<Rightarrow> False)
        then emit_tool_arg_delta loads dumps t args
        else
          (if strip name = []
           then gmod (buffer_pre_start_args t args)
           else gseq (gmod (upd_blocks (\<lambda>b. snd (ensure_tool_state b t))))
                  (emit_tool_arg_delta loads dumps t args))))
     (\<lambda>_. sse_ok loads) sse_weak" (is "hoare _ ?P _ _ _")
proof (cases "args = []")
  case True
  then show ?thesis by (auto simp: hoare_ret)
next
  case False
  have body: "hoare (contract_observer ae) (\<lambda>sb c. ?P sb c \<and> tool_state t sb = state')
      (if (case state' of Some st \<Rightarrow> ts_started st | None \<Rightarrow> False)
        then emit_tool_arg_delta loads dumps t args
        else
          (if strip name = []
           then gmod (buffer_pre_start_args t args)
           else gseq (gmod (upd_blocks (\<lambda>b. snd (ensure_tool_state b t))))
                  (emit_tool_arg_delta loads dumps t args)))
      (\<lambda>_. sse_ok loads) sse_weak" for state'
  proof (cases "case state' of Some st \<Rightarrow> ts_started st | None \<Rightarrow> False")
    case True
    then show ?thesis
      unfolding if_P [OF True]
      by (intro hoare_weaken [OF emit_tool_arg_delta_ok])
        (auto simp: tool_started_def tool_state_def split: option.splits)
  next
    case no: False
    show ?thesis
    proof (cases "strip name = []")
      case True
      with no show ?thesis by (auto intro!: hoare_mod simp: buffer_pre_start_args_ok)
    next
      case False
      have "\<not> (?P sb c \<and> tool_state t sb = state')" for sb c
        using no False by (auto simp: tool_started_def tool_state_def split: option.splits)
      then show ?thesis by (rule hoare_false)
    qed
  qed
  show ?thesis
    unfolding if_not_P [OF False] by (rule hoare_get_bind [OF body])
qed

lemma process_tool_call_ok:
  "hoare (contract_observer ae) (sse_ok loads)
     (process_tool_call loads dumps tool_uuid index tc_id incoming_name arguments)
     (\<lambda>_. sse_ok loads) sse_weak"
  unfolding process_tool_call_def Let_def
proof (rule hoare_get_bind, rule hoare_seq, rule hoare_mod)
  fix t sb c
  assume "sse_ok loads sb c
    \<and> (if index < 0 then int (length (bm_tool_states (sb_blocks sb))) else index) = t"
  then show "sse_ok loads (register_tool_delta t tc_id incoming_name sb) c"
    by (simp add: register_tool_delta_ok)
next
  fix t
  let ?args = "case arguments of Some a \<Rightarrow> a | None \<Rightarrow> []"
  show "hoare (contract_observer ae) (sse_ok loads)
    (gbind (gget (tool_state t)) (\<lambda>state.
       gseq (gwhen (\<not> (case state of Some st \<Rightarrow> ts_started st | None \<Rightarrow> False)
                    \<and> strip (case state of Some st \<Rightarrow> ts_name st | None \<Rightarrow> []) \<noteq> [])
               (start_named_tool loads dumps tool_uuid t tc_id
                  (case state of Some st \<Rightarrow> ts_name st | None \<Rightarrow> [])))
         (if ?args = [] then gret ()
          else gbind (gget (tool_state t)) (\<lambda>state'.
            if (case state' of Some st \<Rightarrow> ts_started st | None \<Rightarrow> False)
            then emit_tool_arg_delta loads dumps t ?args
            else
              (if strip (case state of Some st \<Rightarrow> ts_name st | None \<Rightarrow> []) = []
               then gmod (buffer_pre_start_args t ?args)
               else gseq (gmod (upd_blocks (\<lambda>b. snd (ensure_tool_state b t))))
                      (emit_tool_arg_delta loads dumps t ?args))))))
    (\<lambda>_. sse_ok loads) sse_weak"
  proof (rule hoare_get_bind, rule hoare_seq [OF hoare_when process_arguments_ok])
    fix state :: "tool_call_state option"
    let ?name = "case state of Some st \<Rightarrow> ts_name st | None \<Rightarrow> []"
    assume start: "\<not> (case state of Some st \<Rightarrow> ts_started st | None \<Rightarrow> False) \<and> strip ?name \<noteq> []"
    then obtain st where st: "state = Some st" "\<not> ts_started st" by (auto split: option.splits)
    show "hoare (contract_observer ae) (\<lambda>s c. sse_ok loads s c \<and> tool_state t s = state)
        (start_named_tool loads dumps tool_uuid t tc_id ?name)
        (\<lambda>_ sb c. sse_ok loads sb c \<and> (strip ?name \<noteq> [] \<longrightarrow> tool_started t sb)) sse_weak"
      by (rule hoare_weaken [OF start_named_tool_ok]) (use st in auto)
  next
    fix state :: "tool_call_state option" and sb :: sse_builder and c
    assume "\<not> (\<not> (case state of Some st \<Rightarrow> ts_started st | None \<Rightarrow> False)
      \<and> strip (case state of Some st \<Rightarrow> ts_name st | None \<Rightarrow> []) \<noteq> [])"
      and "sse_ok loads sb c \<and> tool_state t sb = state"
    then show "sse_ok loads sb c
      \<and> (strip (case state of Some st \<Rightarrow> ts_name st | None \<Rightarrow> []) \<noteq> [] \<longrightarrow> tool_started t sb)"
      by (auto simp: tool_state_def tool_started_def split: option.splits)
  qed
qed

lemma process_tool_delta_ok:
  "hoare (contract_observer ae) (sse_ok loads) (process_tool_delta loads dumps tool_uuid tc)
     (\<lambda>_. sse_ok loads) sse_weak"
  by (auto simp: process_tool_delta_def process_tool_call_ok sse_ok_weak split: option.splits)

text \<open>Several tools at once, for the loop of the flush.\<close>

definition tools_started :: "int set \<Rightarrow> sse_builder \<Rightarrow> bool" where
  "tools_started T sb \<longleftrightarrow> (\<forall>t \<in> T. tool_started t sb)"

lemma emit_tool_delta_all:
  assumes "t \<in> T"
  shows "hoare (contract_observer ae) (\<lambda>sb c. sse_ok loads sb c \<and> tools_started T sb)
     (emit_tool_delta t s) (\<lambda>_ sb c. sse_ok loads sb c \<and> tools_started T sb) E"
proof -
  have "hoare (contract_observer ae)
      (\<lambda>sb c. (sse_ok loads sb c \<and> tool_started t sb) \<and> tools_started T sb) (emit_tool_delta t s)
      (\<lambda>_ sb c. (sse_ok loads sb c \<and> tool_started t sb) \<and> tools_started T sb)
      (\<lambda>sb c. False \<and> tools_started T sb)"
    by (rule hoare_frame [OF emit_tool_delta_ok])
      (auto simp: tools_started_def tool_started_def emit_tool_delta_def upd_blocks_def tools_put
        split: option.splits)
  then show ?thesis
    by (rule hoare_weaken) (use assms in \<open>auto simp: tools_started_def\<close>)
qed

lemma flush_loop_ok:
  assumes "mgr_ok loads b c" and "distinct (map fst items)"
    and "\<forall>(i, st) \<in> set items. map_of (bm_tool_states b) i = Some st"
    and "\<forall>(i, out) \<in> set results. out = u ''{}'' \<and> (\<exists>st. map_of (bm_tool_states b) i = Some st \<and> ts_started st)"
  shows "\<exists>rs b'. flush_task_arg_buffers_loop loads dumps items b results = (Inr rs, b') \<and> mgr_ok loads b' c
     \<and> (\<forall>(i, out) \<in> set rs. out = u ''{}'' \<and> (\<exists>st. map_of (bm_tool_states b') i = Some st \<and> ts_started st))"
  using assms
proof (induction items arbitrary: b results)
  case (Cons item items)
  obtain i st where item: "item = (i, st)" by (cases item)
  have lookup: "map_of (bm_tool_states b) i = Some st" using Cons.prems(3) item by simp
  show ?case
  proof (cases "ts_task_arg_buffer st = [] \<or> ts_task_args_emitted st")
    case True
    with Cons.IH [OF Cons.prems(1) _ _ Cons.prems(4)] Cons.prems item show ?thesis by simp
  next
    case False
    let ?st = "st\<lparr>ts_task_args_emitted := True, ts_task_arg_buffer := []\<rparr>"
    have started: "ts_started st" and no_json: "loads (ts_task_arg_buffer st) = None"
      using Cons.prems(1) lookup False by (auto simp: mgr_ok_def buffers_ok_def)
    have "mgr_ok loads (put_tool_state i ?st b) c"
      by (rule mgr_ok_put [OF Cons.prems(1)]) (simp_all add: same_block_def lookup)
    moreover have "\<forall>(j, st') \<in> set items. map_of (bm_tool_states (put_tool_state i ?st b)) j = Some st'"
      using Cons.prems(2,3) item by (force simp: tools_put)
    moreover have "\<forall>(j, out) \<in> set (results @ [(i, u ''{}'')]). out = u ''{}''
        \<and> (\<exists>st'. map_of (bm_tool_states (put_tool_state i ?st b)) j = Some st' \<and> ts_started st')"
      using Cons.prems(4) started by (auto simp: tools_put)
    ultimately show ?thesis
      using Cons.IH [of "put_tool_state i ?st b" "results @ [(i, u ''{}'')]"] Cons.prems(2) item False no_json
      by simp
  qed
qed simp

lemma flush_task_args_ok:
  "hoare (contract_observer ae) (sse_ok loads) (flush_task_args loads dumps) (\<lambda>_. sse_ok loads) E"
  unfolding flush_task_args_def
proof (rule hoare_bind)
  show "hoare (contract_observer ae) (sse_ok loads) (call_blocks (flush_task_arg_buffers loads dumps))
     (\<lambda>rs sb c. sse_ok loads sb c \<and> tools_started (fst ` set rs) sb) E"
    unfolding hoare_def
  proof (intro allI impI)
    fix sb c assume ok: "sse_ok loads sb c"
    let ?b = "sb_blocks sb"
    have d: "distinct (map fst (bm_tool_states ?b))"
      using sse_ok_apart [OF ok] by (simp add: tools_apart_def)
    then have "\<forall>(i, st) \<in> set (bm_tool_states ?b). map_of (bm_tool_states ?b) i = Some st" by auto
    moreover have "mgr_ok loads ?b c" using ok by (simp add: sse_ok_mgr)
    ultimately have "\<exists>rs b'. flush_task_arg_buffers loads dumps ?b = (Inr rs, b') \<and> mgr_ok loads b' c
      \<and> (\<forall>(i, out) \<in> set rs. out = u ''{}''
           \<and> (\<exists>st. map_of (bm_tool_states b') i = Some st \<and> ts_started st))"
      unfolding flush_task_arg_buffers_def using d by (intro flush_loop_ok) simp_all
    then obtain rs b' where run: "flush_task_arg_buffers loads dumps ?b = (Inr rs, b')"
      "mgr_ok loads b' c" and "\<forall>(i, out) \<in> set rs. out = u ''{}''
           \<and> (\<exists>st. map_of (bm_tool_states b') i = Some st \<and> ts_started st)"
      by blast
    then have "\<forall>i \<in> fst ` set rs. \<exists>st. map_of (bm_tool_states b') i = Some st \<and> ts_started st"
      by force
    with run show "case call_blocks (flush_task_arg_buffers loads dumps) sb of (es, r, s') \<Rightarrow>
        \<exists>c'. observe (contract_observer ae) c es = Some c'
           \<and> (case r of Inl _ \<Rightarrow> E s' c' | Inr rs \<Rightarrow> sse_ok loads s' c' \<and> tools_started (fst ` set rs) s')"
      by (simp add: call_blocks_def sse_ok_mgr tools_started_def tool_started_def)
  qed
next
  fix rs :: "(int \<times> pystr) list"
  have "hoare (contract_observer ae) (\<lambda>sb c. sse_ok loads sb c \<and> tools_started (fst ` set rs) sb)
    (gfor rs (\<lambda>(tool_index, out). emit_tool_delta tool_index out))
    (\<lambda>_ sb c. sse_ok loads sb c \<and> tools_started (fst ` set rs) sb) E"
    by (rule hoare_for) (auto intro!: emit_tool_delta_all intro: rev_image_eqI split: prod.split)
  then show "hoare (contract_observer ae) (\<lambda>sb c. sse_ok loads sb c \<and> tools_started (fst ` set rs) sb)
    (gfor rs (\<lambda>(tool_index, out). emit_tool_delta tool_index out)) (\<lambda>_. sse_ok loads) E"
    by (rule hoare_weaken) auto
qed

section \<open>Closing everything\<close>

definition stop_events :: "(int, tool_call_state) dict \<Rightarrow> sse_event list" where
  "stop_events items = map (\<lambda>(t, st). content_block_stop (ts_block_index st)) (filter (\<lambda>(t, st). ts_started st) items)"

lemma close_tools_run:
  assumes "\<forall>(t, st) \<in> set items. map_of (bm_tool_states (sb_blocks sb)) t = Some st"
  shows "gfor items (\<lambda>(t, st). gwhen (ts_started st) (stop_tool_block t)) sb
           = (stop_events items, Inr (), sb)"
  using assms
  by (induction items)
    (auto simp: gseq_def gbind_def gwhen_def gret_def stop_tool_block_def stop_events_def)

definition blocks_apart :: "(int, tool_call_state) dict \<Rightarrow> bool" where
  "blocks_apart items \<longleftrightarrow> distinct (map (\<lambda>(t, st). ts_block_index st) (filter (\<lambda>(t, st). ts_started st) items))"

lemma stop_events_observe:
  assumes "blocks_apart items"
    and "\<And>i. map_of (cs_open_blocks c) i \<noteq> None
          \<longleftrightarrow> (\<exists>(t, st) \<in> set items. ts_started st \<and> ts_block_index st = i)"
  shows "\<exists>c'. observe (contract_observer ae) c (stop_events items) = Some c'
           \<and> cs_open_blocks c' = [] \<and> cs_seen_blocks c' = cs_seen_blocks c"
  using assms
proof (induction items arbitrary: c)
  case Nil
  have "cs_open_blocks c = []"
  proof (cases "cs_open_blocks c")
    case (Cons x xs)
    with Nil(2) [of "fst x"] show ?thesis by (cases x) simp
  qed
  then show ?case by (simp add: stop_events_def)
next
  case (Cons item items)
  obtain t st where item: "item = (t, st)" by (cases item)
  show ?case
  proof (cases "ts_started st")
    case False
    with Cons.prems Cons.IH [of c] item show ?thesis by (simp add: stop_events_def blocks_apart_def)
  next
    case True
    let ?c = "c\<lparr>cs_open_blocks := AList.delete (ts_block_index st) (cs_open_blocks c)\<rparr>"
    have "map_of (cs_open_blocks c) (ts_block_index st) \<noteq> None"
      using Cons.prems(2) [of "ts_block_index st"] item True by auto
    then have step: "contract_observer ae c (content_block_stop (ts_block_index st)) = Some ?c"
      using stop_accepted by blast
    have fresh: "\<not> (\<exists>(t', st') \<in> set items. ts_started st' \<and> ts_block_index st' = ts_block_index st)"
      using Cons.prems(1) item True by (force simp: blocks_apart_def)
    have "map_of (cs_open_blocks ?c) i \<noteq> None
        \<longleftrightarrow> (\<exists>(t, st) \<in> set items. ts_started st \<and> ts_block_index st = i)" for i
      using Cons.prems(2) [of i] fresh item True by (cases "i = ts_block_index st") auto
    with Cons.IH [of ?c] Cons.prems(1) item True obtain c' where
      "observe (contract_observer ae) ?c (stop_events items) = Some c'"
      "cs_open_blocks c' = []" "cs_seen_blocks c' = cs_seen_blocks c"
      by (auto simp: blocks_apart_def)
    with step item True show ?thesis by (simp add: stop_events_def)
  qed
qed

lemma tools_apart_blocks:
  assumes "tools_apart b"
  shows "blocks_apart (bm_tool_states b)"
proof -
  let ?f = "\<lambda>(t :: int, st). ts_block_index st"
  have keys: "distinct (map fst (bm_tool_states b))" using assms by (simp add: tools_apart_def)
  have "inj_on ?f (set (filter (\<lambda>(t, st). ts_started st) (bm_tool_states b)))"
  proof (rule inj_onI)
    fix x y
    assume xy: "x \<in> set (filter (\<lambda>(t, st). ts_started st) (bm_tool_states b))"
      "y \<in> set (filter (\<lambda>(t, st). ts_started st) (bm_tool_states b))" and eq: "?f x = ?f y"
    obtain t st t' st' where p: "x = (t, st)" "y = (t', st')" by (cases x, cases y)
    have m: "map_of (bm_tool_states b) t = Some st" "map_of (bm_tool_states b) t' = Some st'"
      and s: "ts_started st" "ts_started st'"
      using xy p keys by auto
    have "t = t'"
      using assms m s eq p unfolding tools_apart_def by (metis case_prod_conv)
    with m p show "x = y" by simp
  qed
  moreover have "distinct (filter (\<lambda>(t, st). ts_started st) (bm_tool_states b))"
    using keys by (simp add: distinct_map)
  ultimately show ?thesis unfolding blocks_apart_def distinct_map by simp
qed

definition all_closed :: "sse_builder \<Rightarrow> contract_state \<Rightarrow> bool" where
  "all_closed sb c \<longleftrightarrow> cs_open_blocks c = []
     \<and> cs_seen_blocks c = {0 ..< bm_next_index (sb_blocks sb)} \<and> 0 \<le> bm_next_index (sb_blocks sb)"

lemma close_content_weak:
  "hoare (contract_observer ae) sse_weak close_content_blocks
     (\<lambda>_ sb c. sse_weak sb c \<and> \<not> bm_thinking_started (sb_blocks sb) \<and> \<not> bm_text_started (sb_blocks sb)) E"
  unfolding close_content_blocks_def
proof (rule hoare_seq [where R = "\<lambda>sb c. sse_weak sb c \<and> \<not> bm_thinking_started (sb_blocks sb)"])
  show "hoare (contract_observer ae) sse_weak
     (gbind (gget (\<lambda>sb. bm_thinking_started (sb_blocks sb))) (\<lambda>b. gwhen b (gyield stop_thinking_block)))
     (\<lambda>_ sb c. sse_weak sb c \<and> \<not> bm_thinking_started (sb_blocks sb)) E"
  proof (rule hoare_guard, rule hoare_yield)
    fix sb c e sb'
    assume "sse_weak sb c \<and> bm_thinking_started (sb_blocks sb)" "stop_thinking_block sb = (e, sb')"
    then show "\<exists>c'. contract_observer ae c e = Some c'
        \<and> (sse_weak sb' c' \<and> \<not> bm_thinking_started (sb_blocks sb'))"
      using stop_thinking_weak [of sb c e sb' ae] by (auto simp: sse_weak_def)
  qed auto
  show "hoare (contract_observer ae) (\<lambda>sb c. sse_weak sb c \<and> \<not> bm_thinking_started (sb_blocks sb))
     (gbind (gget (\<lambda>sb. bm_text_started (sb_blocks sb))) (\<lambda>b. gwhen b (gyield stop_text_block)))
     (\<lambda>_ sb c. sse_weak sb c \<and> \<not> bm_thinking_started (sb_blocks sb) \<and> \<not> bm_text_started (sb_blocks sb)) E"
  proof (rule hoare_guard, rule hoare_yield)
    fix sb c e sb'
    assume "(sse_weak sb c \<and> \<not> bm_thinking_started (sb_blocks sb)) \<and> bm_text_started (sb_blocks sb)"
      "stop_text_block sb = (e, sb')"
    then show "\<exists>c'. contract_observer ae c e = Some c'
        \<and> (sse_weak sb' c' \<and> \<not> bm_thinking_started (sb_blocks sb') \<and> \<not> bm_text_started (sb_blocks sb'))"
      using stop_text_weak [of sb c e sb' ae] by (auto simp: sse_weak_def)
  qed auto
qed

lemma close_all_ok:
  "hoare (contract_observer ae) sse_weak close_all_blocks (\<lambda>_. all_closed) E"
  unfolding close_all_blocks_def
proof (rule hoare_seq [OF close_content_weak])
  show "hoare (contract_observer ae)
     (\<lambda>sb c. sse_weak sb c \<and> \<not> bm_thinking_started (sb_blocks sb) \<and> \<not> bm_text_started (sb_blocks sb))
     (gbind (gget (\<lambda>sb. bm_tool_states (sb_blocks sb)))
        (\<lambda>items. gfor items (\<lambda>(t, st). gwhen (ts_started st) (stop_tool_block t))))
     (\<lambda>_. all_closed) E"
    unfolding hoare_def
  proof (intro allI impI)
    fix sb c
    assume a: "sse_weak sb c \<and> \<not> bm_thinking_started (sb_blocks sb) \<and> \<not> bm_text_started (sb_blocks sb)"
    let ?items = "bm_tool_states (sb_blocks sb)"
    have match: "blocks_match (sb_blocks sb) c" and apart: "tools_apart (sb_blocks sb)"
      using a by (simp_all add: sse_weak_def blocks_match_def)
    have lookup: "\<forall>(t, st) \<in> set ?items. map_of ?items t = Some st"
      using apart by (auto simp: tools_apart_def)
    have "map_of (cs_open_blocks c) i \<noteq> None
        \<longleftrightarrow> (\<exists>(t, st) \<in> set ?items. ts_started st \<and> ts_block_index st = i)" for i
    proof -
      have "map_of (cs_open_blocks c) i \<noteq> None \<longleftrightarrow> (\<exists>k. holds_open (sb_blocks sb) i k)"
        by (simp add: blocks_match_open [OF match])
      also have "\<dots> \<longleftrightarrow> (\<exists>t st. map_of ?items t = Some st \<and> ts_started st \<and> ts_block_index st = i)"
        using a by (auto simp: holds_open_def)
      also have "\<dots> \<longleftrightarrow> (\<exists>(t, st) \<in> set ?items. ts_started st \<and> ts_block_index st = i)"
        using lookup map_of_SomeD by (fastforce)
      finally show ?thesis .
    qed
    from stop_events_observe [OF tools_apart_blocks [OF apart] this, of ae] obtain c' where
      "observe (contract_observer ae) c (stop_events ?items) = Some c'"
      "cs_open_blocks c' = []" "cs_seen_blocks c' = cs_seen_blocks c" by blast
    moreover have "cs_seen_blocks c = {0 ..< bm_next_index (sb_blocks sb)}" "0 \<le> bm_next_index (sb_blocks sb)"
      using match by (simp_all add: blocks_match_def indices_ok_def)
    ultimately show "case gbind (gget (\<lambda>sb. bm_tool_states (sb_blocks sb)))
          (\<lambda>items. gfor items (\<lambda>(t, st). gwhen (ts_started st) (stop_tool_block t))) sb of
        (es, r, s') \<Rightarrow> \<exists>c'. observe (contract_observer ae) c es = Some c'
           \<and> (case r of Inl _ \<Rightarrow> E s' c' | Inr _ \<Rightarrow> all_closed s' c')"
      using close_tools_run [OF lookup] by (simp add: gbind_def gget_def all_closed_def)
  qed
qed

section \<open>The whole stream\<close>

definition stream_ok :: "stream_env \<Rightarrow> stream_state \<Rightarrow> contract_state \<Rightarrow> bool" where
  "stream_ok en t c \<longleftrightarrow> sse_ok (en_loads en) (st_sse t) c"

definition stream_weak :: "stream_state \<Rightarrow> contract_state \<Rightarrow> bool" where
  "stream_weak t c \<longleftrightarrow> sse_weak (st_sse t) c"

lemma stream_ok_weak: "stream_ok en t c \<Longrightarrow> stream_weak t c"
  by (simp add: stream_ok_def stream_weak_def sse_ok_weak)

lemma stream_ok_fields [simp]:
  "stream_ok en (t\<lparr>st_think := p\<rparr>) = stream_ok en t"
  "stream_ok en (t\<lparr>st_heur := h\<rparr>) = stream_ok en t"
  "stream_ok en (t\<lparr>st_finish_reason := r\<rparr>) = stream_ok en t"
  "stream_ok en (t\<lparr>st_usage := us\<rparr>) = stream_ok en t"
  by (auto simp: stream_ok_def fun_eq_iff)

lemma hoare_on_sse:
  assumes "hoare f P m Q E"
  shows "hoare f (\<lambda>t c. P (st_sse t) c) (on_sse m) (\<lambda>a t c. Q a (st_sse t) c) (\<lambda>t c. E (st_sse t) c)"
  unfolding on_sse_def
  by (rule hoare_zoom [where P' = P and F = "\<lambda>_. True" and Q' = Q and E' = E]) (use assms in auto)

lemma on_sse_ok:
  assumes "hoare f (sse_ok (en_loads en)) m (\<lambda>_. sse_ok (en_loads en)) sse_weak"
  shows "hoare f (stream_ok en) (on_sse m) (\<lambda>_. stream_ok en) stream_weak"
  using hoare_on_sse [OF assms] unfolding stream_ok_def stream_weak_def .

lemma on_sse_ok_total:
  assumes "hoare f (sse_ok (en_loads en)) m (\<lambda>_. sse_ok (en_loads en)) (\<lambda>_ _. False)"
  shows "hoare f (stream_ok en) (on_sse m) (\<lambda>_. stream_ok en) E"
  using hoare_on_sse [OF assms] unfolding stream_ok_def [abs_def]
  by (rule hoare_weaken) auto

lemma run_parsers_ok:
  "hoare f (stream_ok en) (run_think g) (\<lambda>_. stream_ok en) E"
  "hoare f (stream_ok en) (run_heur h) (\<lambda>_. stream_ok en) E"
  by (auto simp: hoare_def run_think_def run_heur_def split: prod.splits)

lemma emit_heuristic_tools_ok:
  "hoare (contract_observer ae) (stream_ok en) (emit_heuristic_tools en tools) (\<lambda>_. stream_ok en) E"
  unfolding emit_heuristic_tools_def
  by (rule hoare_for) (rule on_sse_ok_total [OF heuristic_tool_ok])

lemma handle_part_ok:
  "hoare (contract_observer ae) (stream_ok en) (handle_part en part) (\<lambda>_. stream_ok en) E"
proof (cases "chunk_type part")
  case THINKING
  then show ?thesis
    unfolding handle_part_def by (auto intro!: on_sse_ok_total [OF think_out_ok])
next
  case TEXT
  then show ?thesis
    unfolding handle_part_def feed_heuristic_def
    by (simp add: case_prod_unfold, intro hoare_bind [OF run_parsers_ok(2)]
        hoare_seq [where R = "stream_ok en"] hoare_when on_sse_ok_total [OF text_out_ok]
        emit_heuristic_tools_ok)
qed

lemma handle_delta_ok:
  "hoare (contract_observer ae) (stream_ok en) (handle_delta en delta) (\<lambda>_. stream_ok en) stream_weak"
  unfolding handle_delta_def
proof (intro hoare_seq [where R = "stream_ok en"] hoare_when)
  show "hoare (contract_observer ae) (stream_ok en)
      (case cd_reasoning_content delta of None \<Rightarrow> gret ()
       | Some reasoning \<Rightarrow> gwhen (en_thinking_enabled en \<and> truthy reasoning) (on_sse (reasoning_out reasoning)))
      (\<lambda>_. stream_ok en) stream_weak"
    by (auto split: option.split intro!: on_sse_ok_total [OF reasoning_out_ok])
  show "hoare (contract_observer ae) (stream_ok en)
      (case cd_content delta of None \<Rightarrow> gret ()
       | Some content \<Rightarrow> gwhen (content \<noteq> [])
           (gbind (run_think (\<lambda>p. think_feed p content)) (\<lambda>parts. gfor parts (handle_part en))))
      (\<lambda>_. stream_ok en) stream_weak"
    by (auto split: option.split intro!: hoare_bind [OF run_parsers_ok(1)] hoare_for handle_part_ok)
  show "hoare (contract_observer ae) (stream_ok en) (on_sse close_content_blocks)
      (\<lambda>_. stream_ok en) stream_weak"
    by (rule on_sse_ok_total [OF close_content_ok])
  show "hoare (contract_observer ae) (stream_ok en)
      (gfor (cd_tool_calls delta) (\<lambda>tc. on_sse
         (process_tool_delta (en_loads en) (en_dumps en) (en_tool_uuid en) tc)))
      (\<lambda>_. stream_ok en) stream_weak"
    by (rule hoare_for) (rule on_sse_ok [OF process_tool_delta_ok])
qed

lemma handle_chunk_ok:
  "hoare (contract_observer ae) (stream_ok en) (handle_chunk en chunk) (\<lambda>_. stream_ok en) stream_weak"
  unfolding handle_chunk_def
proof (rule hoare_seq [where R = "stream_ok en"], rule hoare_mod)
  show "hoare (contract_observer ae) (stream_ok en)
      (case ck_choices chunk of [] \<Rightarrow> gret ()
       | choice # _ \<Rightarrow>
          (case cc_delta choice of None \<Rightarrow> gret ()
           | Some delta \<Rightarrow>
              gseq (gmod (\<lambda>t. if cc_finish_reason choice \<notin> {None, Some []}
                              then t\<lparr>st_finish_reason := cc_finish_reason choice\<rparr> else t))
                (handle_delta en delta)))
      (\<lambda>_. stream_ok en) stream_weak"
  proof (cases "ck_choices chunk")
    case (Cons choice _)
    show ?thesis
    proof (cases "cc_delta choice")
      case (Some delta)
      show ?thesis
        unfolding Cons Some list.case option.case
        by (rule hoare_seq [where R = "stream_ok en"], rule hoare_mod, simp, rule handle_delta_ok)
    qed (simp add: Cons hoare_ret)
  qed (simp add: hoare_ret)
qed simp

lemma consume_upstream_ok:
  "hoare (contract_observer ae) (stream_ok en) (consume_upstream en up)
     (\<lambda>_ t c. stream_ok en t c \<and> snd up = None) stream_weak"
  unfolding consume_upstream_def
proof (rule hoare_seq [where R = "stream_ok en"])
  show "hoare (contract_observer ae) (stream_ok en) (gfor (fst up) (handle_chunk en))
      (\<lambda>_. stream_ok en) stream_weak"
    by (rule hoare_for) (rule handle_chunk_ok)
  show "hoare (contract_observer ae) (stream_ok en)
      (case snd up of None \<Rightarrow> gret () | Some e \<Rightarrow> graise (Upstream e))
      (\<lambda>_ t c. stream_ok en t c \<and> snd up = None) stream_weak"
    by (cases "snd up") (simp_all add: hoare_ret hoare_raise stream_ok_weak)
qed

lemma flush_parsers_ok:
  "hoare (contract_observer ae) (stream_ok en) (flush_parsers en) (\<lambda>_. stream_ok en) E"
  unfolding flush_parsers_def
proof (rule hoare_seq [where R = "stream_ok en"])
  have "hoare (contract_observer ae) (stream_ok en)
      (case remaining of None \<Rightarrow> gret ()
       | Some part \<Rightarrow>
          (case chunk_type part of
             THINKING \<Rightarrow> gwhen (en_thinking_enabled en) (on_sse (think_out (chunk_content part)))
           | TEXT \<Rightarrow> on_sse (text_out (chunk_content part))))
      (\<lambda>_. stream_ok en) E" for remaining
    by (cases remaining)
      (simp_all add: hoare_ret hoare_when on_sse_ok_total [OF think_out_ok]
        on_sse_ok_total [OF text_out_ok] split: content_type.split)
  then show "hoare (contract_observer ae) (stream_ok en)
      (gbind (run_think think_flush) (\<lambda>remaining.
         case remaining of None \<Rightarrow> gret ()
         | Some part \<Rightarrow>
            (case chunk_type part of
               THINKING \<Rightarrow> gwhen (en_thinking_enabled en) (on_sse (think_out (chunk_content part)))
             | TEXT \<Rightarrow> on_sse (text_out (chunk_content part)))))
      (\<lambda>_. stream_ok en) E"
    by (rule hoare_bind [OF run_parsers_ok(1)])
  show "hoare (contract_observer ae) (stream_ok en)
      (gbind (run_heur tool_flush) (emit_heuristic_tools en)) (\<lambda>_. stream_ok en) E"
    by (rule hoare_bind [OF run_parsers_ok(2)]) (rule emit_heuristic_tools_ok)
qed

definition finished :: "contract_state \<Rightarrow> bool" where
  "finished c \<longleftrightarrow> cs_open_blocks c = [] \<and> cs_seen_blocks c \<noteq> {}"

lemma contract_seen_grows:
  "contract_observer ae c e = Some c' \<Longrightarrow> cs_seen_blocks c \<noteq> {} \<Longrightarrow> cs_seen_blocks c' \<noteq> {}"
  by (auto simp: contract_observer_def contract_step_def Let_def
      split: if_splits sum.splits option.splits json.splits)

lemmas hoare_seen = hoare_frame_observer [where f = "contract_observer ae" and
    K = "\<lambda>c. cs_seen_blocks c \<noteq> {}" for ae, OF _ contract_seen_grows]

lemma gfor_same_state:
  assumes "\<And>x s es r s'. f x s = (es, r, s') \<Longrightarrow> s' = s"
  shows "gfor xs f s = (es, r, s') \<Longrightarrow> s' = s"
proof (induction xs arbitrary: es r s)
  case (Cons x xs)
  obtain es1 r1 s1 where x: "f x s = (es1, r1, s1)" by (cases "f x s")
  with assms have "s1 = s" by blast
  with Cons x show ?case
    by (auto simp: gseq_def gbind_def split: sum.splits prod.splits)
qed (simp add: gret_def)

text \<open>Closing leaves the tool states and the next index alone.\<close>

definition tools_indexed :: "sse_builder \<Rightarrow> bool" where
  "tools_indexed sb \<longleftrightarrow> (has_emitted_tool_block (sb_blocks sb) \<longrightarrow> 0 < bm_next_index (sb_blocks sb))"

lemma close_content_frame:
  "close_content_blocks sb = (es, r, sb') \<Longrightarrow>
     bm_tool_states (sb_blocks sb') = bm_tool_states (sb_blocks sb)
     \<and> bm_next_index (sb_blocks sb') = bm_next_index (sb_blocks sb)"
  by (auto simp: close_content_blocks_def gen_defs split: if_splits)

lemma close_all_frame:
  assumes "close_all_blocks sb = (es, r, sb')"
  shows "bm_tool_states (sb_blocks sb') = bm_tool_states (sb_blocks sb)
     \<and> bm_next_index (sb_blocks sb') = bm_next_index (sb_blocks sb)"
proof -
  obtain es1 r1 sb1 where one: "close_content_blocks sb = (es1, r1, sb1)"
    by (cases "close_content_blocks sb")
  have loop: "gfor items (\<lambda>(t, st). gwhen (ts_started st) (stop_tool_block t)) s = (es2, r2, s2) \<Longrightarrow> s2 = s"
    for items s es2 r2 s2
    by (erule gfor_same_state [rotated])
      (auto simp: gwhen_def gret_def stop_tool_block_def split: if_splits option.splits prod.splits)
  have "sb' = sb1"
    using assms one
    by (auto simp: close_all_blocks_def gseq_def gbind_def gget_def split: sum.splits prod.splits
        dest!: loop)
  then show ?thesis using close_content_frame [OF one] by simp
qed

lemma sse_weak_indexed:
  assumes "sse_weak sb c"
  shows "tools_indexed sb"
  unfolding tools_indexed_def has_emitted_tool_block_def list_ex_iff
proof
  have match: "blocks_match (sb_blocks sb) c" using assms by (simp add: sse_weak_def)
  assume "\<exists>x \<in> set (bm_tool_states (sb_blocks sb)). case x of (i, st) \<Rightarrow> ts_started st"
  then obtain t st where "(t, st) \<in> set (bm_tool_states (sb_blocks sb))" "ts_started st" by auto
  then have "holds_open (sb_blocks sb) (ts_block_index st) (u ''tool_use'')"
    using match unfolding holds_open_def blocks_match_def tools_apart_def
    by (metis map_of_is_SomeI)
  with blocks_match_range [OF match] show "0 < bm_next_index (sb_blocks sb)" by fastforce
qed

lemma envelope_ok:
  "hoare (contract_observer ae) (\<lambda>s c. K c) (gyield (\<lambda>s. (message_delta (g s) (h s) (k s), s))) (\<lambda>_ s c. K c) E"
  "hoare (contract_observer ae) (\<lambda>s c. K c) (gyield (\<lambda>s. (message_stop, s))) (\<lambda>_ s c. K c) E"
  by (auto simp: hoare_def gyield_def contract_observer_def event_simps)

lemma error_close_ok:
  "hoare (contract_observer True) sse_weak (error_close msg) (\<lambda>_ _. finished) E"
  unfolding error_close_def
proof (rule hoare_seq, rule_tac [2] hoare_seq, rule_tac [3] hoare_seq [OF envelope_ok(1) envelope_ok(2)])
  have "hoare (contract_observer True) (\<lambda>sb c. sse_weak sb c \<and> tools_indexed sb) close_all_blocks
     (\<lambda>_ sb c. all_closed sb c \<and> tools_indexed sb) (\<lambda>sb c. False \<and> tools_indexed sb)"
    by (rule hoare_frame [OF close_all_ok])
      (auto dest!: close_all_frame simp: tools_indexed_def has_emitted_tool_block_def)
  then show "hoare (contract_observer True) sse_weak close_all_blocks
     (\<lambda>_ sb c. all_closed sb c \<and> tools_indexed sb) E"
    by (rule hoare_weaken) (auto intro: sse_weak_indexed)
  show "hoare (contract_observer True) (\<lambda>sb c. all_closed sb c \<and> tools_indexed sb)
     (gbind (gget (\<lambda>sb. has_emitted_tool_block (sb_blocks sb))) (\<lambda>emitted.
        if emitted then gyield (\<lambda>sb. (emit_top_level_error msg, sb)) else emit_error msg))
     (\<lambda>_ _. finished) E"
    unfolding hoare_def
    by (auto simp: gbind_def gget_def gyield_def emit_error_def allocate_index_def all_closed_def
        tools_indexed_def finished_def contract_observer_def event_simps has_key_def
        split: option.splits)
qed

text \<open>The reasoning sent so far has a piece that is no text; the tokenizer refuses some text.\<close>

definition odd_pieces :: "sse_builder \<Rightarrow> bool" where
  "odd_pieces sb = list_ex (\<lambda>v. \<not> is_pystr v) (sb_accumulated_reasoning_parts sb)"

definition encoder_refuses :: "stream_env \<Rightarrow> bool" where
  "encoder_refuses en \<longleftrightarrow> (\<exists>enc s. en_encoder en = Some enc \<and> enc s = None)"

lemma needs_text_raises: "needs_text_block sb = Inl e \<Longrightarrow> odd_pieces sb"
  by (auto simp: needs_text_block_def Let_def accumulated_reasoning_def map_sum_def odd_pieces_def list_ex_iff
      split: if_splits sum.splits dest!: join_texts_raises)

lemma output_tokens_raises: "output_tokens en usage sb = Inl e \<Longrightarrow> odd_pieces sb \<or> encoder_refuses en"
  by (auto simp: output_tokens_def Let_def map_sum_def odd_pieces_def list_ex_iff encoder_refuses_def
      split: option.splits sum.splits if_splits dest!: estimate_raises)

lemma text_out_seen:
  "hoare (contract_observer ae) (sse_ok loads) (text_out s) (\<lambda>_ sb c. sse_ok loads sb c \<and> cs_seen_blocks c \<noteq> {}) E"
  unfolding text_out_def
proof (rule hoare_seq [OF ensure_text_ok], rule hoare_yield)
  fix sb c e sb'
  assume a: "sse_ok loads sb c \<and> bm_text_started (sb_blocks sb)" and "emit_text_delta s sb = (e, sb')"
  then have e: "e = content_block_delta (bm_text_index (sb_blocks sb)) (u ''text_delta'') s"
    and sb': "sb_blocks sb' = sb_blocks sb"
    by (auto simp: emit_text_delta_def)
  have match: "blocks_match (sb_blocks sb) c" using a by (simp add: sse_ok_def)
  have h: "holds_open (sb_blocks sb) (bm_text_index (sb_blocks sb)) (u ''text'')"
    using a by (simp add: holds_open_def)
  have "cs_seen_blocks c \<noteq> {}"
    using blocks_match_range [OF match h] match by (auto simp: blocks_match_def indices_ok_def)
  with a h show "\<exists>c'. contract_observer ae c e = Some c' \<and> (sse_ok loads sb' c' \<and> cs_seen_blocks c' \<noteq> {})"
    by (simp add: e delta_accepted(1) sse_ok_def sb' blocks_match_open [OF match])
qed

lemma add_text_ok:
  "hoare (contract_observer ae) (sse_ok loads) add_text_block
     (\<lambda>_ sb c. sse_ok loads sb c \<and> cs_seen_blocks c \<noteq> {}) (\<lambda>sb c. sse_ok loads sb c \<and> odd_pieces sb)"
  unfolding add_text_block_def
proof (rule hoare_get_bind, rule hoare_bind)
  show "hoare (contract_observer ae) (\<lambda>sb c. sse_ok loads sb c \<and> needs_text_block sb = r) (glift r)
      (\<lambda>needed sb c. sse_ok loads sb c \<and> needs_text_block sb = Inr needed) (\<lambda>sb c. sse_ok loads sb c \<and> odd_pieces sb)" for r
    by (rule hoare_lift) (auto dest: needs_text_raises)
  show "hoare (contract_observer ae) (\<lambda>sb c. sse_ok loads sb c \<and> needs_text_block sb = Inr needed)
      (gwhen needed (text_out (u '' ''))) (\<lambda>_ sb c. sse_ok loads sb c \<and> cs_seen_blocks c \<noteq> {})
      (\<lambda>sb c. sse_ok loads sb c \<and> odd_pieces sb)" for needed
  proof (rule hoare_when)
    show "hoare (contract_observer ae) (\<lambda>sb c. sse_ok loads sb c \<and> needs_text_block sb = Inr needed)
      (text_out (u '' '')) (\<lambda>_ sb c. sse_ok loads sb c \<and> cs_seen_blocks c \<noteq> {})
      (\<lambda>sb c. sse_ok loads sb c \<and> odd_pieces sb)"
      by (rule hoare_weaken [OF text_out_seen [where E = "\<lambda>_ _. False"]]) auto
  next
    fix sb c assume no: "\<not> needed" and a: "sse_ok loads sb c \<and> needs_text_block sb = Inr needed"
    then have "bm_text_index (sb_blocks sb) \<noteq> -1 \<or> bm_thinking_index (sb_blocks sb) \<noteq> -1
        \<or> has_emitted_tool_block (sb_blocks sb)"
      by (auto simp: needs_text_block_def Let_def split: if_splits)
    moreover have "indices_ok (sb_blocks sb) c" using a by (simp add: sse_ok_def blocks_match_def)
    ultimately show "sse_ok loads sb c \<and> cs_seen_blocks c \<noteq> {}"
      using a sse_weak_indexed [OF sse_ok_weak [OF conjunct1 [OF a]]] by (auto simp: indices_ok_def tools_indexed_def)
  qed
qed

text \<open>How a complete upstream may still end in an exception: every block is closed and only the
  envelope's end is missing, or the blocks are as the manager has them.\<close>

definition finish_fails :: "stream_env \<Rightarrow> stream_state \<Rightarrow> contract_state \<Rightarrow> bool" where
  "finish_fails en t c \<longleftrightarrow> (stream_ok en t c \<or> finished c) \<and> (odd_pieces (st_sse t) \<or> encoder_refuses en)"

lemma finish_stream_ok:
  "hoare (contract_observer ae) (stream_ok en) (finish_stream en) (\<lambda>_ _. finished) (finish_fails en)"
proof -
  let ?E = "finish_fails en"
  have needs: "hoare (contract_observer ae) (stream_ok en)
      (on_sse add_text_block)
      (\<lambda>_ t c. stream_ok en t c \<and> cs_seen_blocks c \<noteq> {}) ?E"
    using hoare_on_sse [OF add_text_ok]
    by (rule hoare_weaken) (auto simp: stream_ok_def finish_fails_def)
  have flush: "hoare (contract_observer ae) (\<lambda>t c. stream_ok en t c \<and> cs_seen_blocks c \<noteq> {})
      (on_sse (flush_task_args (en_loads en) (en_dumps en)))
      (\<lambda>_ t c. stream_ok en t c \<and> cs_seen_blocks c \<noteq> {}) ?E"
    using hoare_seen [OF on_sse_ok_total [OF flush_task_args_ok, where E = "\<lambda>_ _. False"]]
    by (rule hoare_weaken) auto
  have close0: "hoare (contract_observer ae) (\<lambda>t c. sse_weak (st_sse t) c) (on_sse close_all_blocks)
      (\<lambda>_ t c. all_closed (st_sse t) c) (\<lambda>_ _. False)"
    by (rule hoare_on_sse [OF close_all_ok])
  have close: "hoare (contract_observer ae) (\<lambda>t c. stream_ok en t c \<and> cs_seen_blocks c \<noteq> {})
      (on_sse close_all_blocks) (\<lambda>_ _. finished) ?E"
    using hoare_seen [OF close0]
    by (rule hoare_weaken) (auto simp: stream_ok_def sse_ok_weak all_closed_def finished_def)
  have lift: "hoare (contract_observer ae) (\<lambda>t c. finished c \<and> output_tokens en (st_usage t) (st_sse t) = r)
      (glift r) (\<lambda>_ _. finished) ?E" for r
    by (rule hoare_lift) (auto simp: finish_fails_def dest: output_tokens_raises)
  have tokens: "hoare (contract_observer ae) (\<lambda>_. finished)
      (gbind (gget (\<lambda>t. output_tokens en (st_usage t) (st_sse t))) (\<lambda>r. gbind (glift r) (\<lambda>tokens.
        gseq (gyield (\<lambda>t. (message_delta (st_sse t) (map_stop_reason (st_finish_reason t)) tokens, t)))
          (gyield (\<lambda>t. (message_stop, t)))))) (\<lambda>_ _. finished) ?E"
    by (rule hoare_get_bind, rule hoare_bind [OF lift], rule hoare_seq [OF envelope_ok(1) envelope_ok(2)])
  show ?thesis
    unfolding finish_stream_def
    by (rule hoare_seq [OF flush_parsers_ok], rule hoare_seq [OF needs], rule hoare_seq [OF flush],
        rule hoare_seq [OF close tokens])
qed

lemma stream_body_ok:
  "hoare (contract_observer True) (stream_ok en) (stream_body en up) (\<lambda>_ _. finished)
     (\<lambda>t c. finish_fails en t c \<and> snd up = None)"
  (is "hoare _ _ _ _ ?E")
  unfolding stream_body_def
proof (rule hoare_seq [where R = "stream_ok en"], rule hoare_yield)
  fix t c e t'
  assume "stream_ok en t c" "(message_start (st_sse t), t) = (e, t')"
  then show "\<exists>c'. contract_observer True c e = Some c' \<and> stream_ok en t' c'"
    by (auto simp: contract_observer_def event_simps)
next
  let ?mid = "\<lambda>completed t c. if completed then stream_ok en t c \<and> snd up = None else finished c"
  show "hoare (contract_observer True) (stream_ok en)
     (gbind (gtry (gseq (consume_upstream en up) (gret True))
               (\<lambda>e. gseq (on_sse (error_close (stream_error_message en e))) (gret False)))
        (\<lambda>completed. gwhen completed (finish_stream en)))
     (\<lambda>_ _. finished) ?E"
  proof (rule hoare_bind [where R = ?mid], rule hoare_try)
    show "hoare (contract_observer True) (stream_ok en) (gseq (consume_upstream en up) (gret True))
        ?mid stream_weak"
      by (rule hoare_seq [OF consume_upstream_ok]) (rule hoare_ret, simp)
    have close: "hoare (contract_observer True) stream_weak (on_sse (error_close msg))
        (\<lambda>_ _. finished) ?E" for msg
      by (rule hoare_weaken [OF hoare_on_sse [OF error_close_ok [where E = "\<lambda>_ _. False"]]])
        (auto simp: stream_weak_def)
    then show "hoare (contract_observer True) stream_weak
        (gseq (on_sse (error_close (stream_error_message en e))) (gret False)) ?mid ?E" for e
      by (rule hoare_seq) (rule hoare_ret, simp)
    show "hoare (contract_observer True) (?mid completed) (gwhen completed (finish_stream en))
        (\<lambda>_ _. finished) ?E" for completed
      by (cases "completed \<and> snd up = None")
        (auto simp: gwhen_def hoare_ret hoare_false intro: hoare_weaken [OF finish_stream_ok])
  qed
qed

lemma stream_init_ok:
  "stream_ok en (stream_state_init message_id model input_tokens) contract_init"
  by (simp add: stream_ok_def stream_state_init_def sse_builder_init_def sse_ok_def blocks_match_def
      block_manager_init_def contract_init_def holds_open_def tools_apart_def indices_ok_def buffers_ok_def)

text \<open>The envelope: what a run of the whole stream starts and ends with.\<close>

lemma error_close_last:
  "error_close msg sb = (es, Inr (), sb') \<Longrightarrow> es \<noteq> [] \<and> last es = message_stop"
  by (auto simp: error_close_def gseq_def gbind_def gyield_def split: prod.splits sum.splits)

lemma finish_stream_last:
  "finish_stream en t = (es, Inr (), t') \<Longrightarrow> es \<noteq> [] \<and> last es = message_stop"
  by (auto simp: finish_stream_def gseq_def gbind_def gyield_def split: prod.splits sum.splits)

lemma stream_body_envelope:
  assumes "stream_body en up t = (es, Inr (), t')"
  shows "u ''message_start'' \<in> set (map ev_name es) \<and> last es = message_stop \<and> es \<noteq> []"
proof -
  obtain es1 r1 t1 where body: "gbind (gtry (gseq (consume_upstream en up) (gret True))
               (\<lambda>e. gseq (on_sse (error_close (stream_error_message en e))) (gret False)))
        (\<lambda>completed. gwhen completed (finish_stream en)) t = (es1, r1, t1)"
    by (cases "gbind (gtry (gseq (consume_upstream en up) (gret True))
               (\<lambda>e. gseq (on_sse (error_close (stream_error_message en e))) (gret False)))
        (\<lambda>completed. gwhen completed (finish_stream en)) t")
  have es: "es = message_start (st_sse t) # es1" "r1 = Inr ()"
    using assms body by (auto simp: stream_body_def gseq_def [of "gyield _"] gbind_def [of "gyield _"] gyield_def)
  have "es1 \<noteq> [] \<and> last es1 = message_stop"
    using body es(2)
    by (auto simp: gbind_def gseq_def gtry_def gret_def gwhen_def on_sse_def gzoom_def
        split: prod.splits sum.splits if_splits dest!: error_close_last finish_stream_last)
  with es show ?thesis by (simp add: event_names)
qed

section \<open>Reasoning that is text\<close>

text \<open>A condition on the state that a generator keeps, however it ends.\<close>

definition preserves :: "('s \<Rightarrow> bool) \<Rightarrow> ('e, 's, 'a) gen \<Rightarrow> bool" where
  "preserves F m \<longleftrightarrow> (\<forall>s. F s \<longrightarrow> F (snd (snd (m s))))"

named_theorems keeping "what keeps a condition on the state"

lemma preserves_basic [keeping]:
  "preserves F (gret a)" "preserves F (graise x)" "preserves F (glift r')" "preserves F (gget g)"
  by (auto simp: preserves_def gret_def graise_def glift_def gget_def split: sum.splits)

lemma preserves_step [keeping]:
  "(\<And>s. F s \<Longrightarrow> F (g s)) \<Longrightarrow> preserves F (gmod g)"
  "(\<And>s. F s \<Longrightarrow> F (snd (h s))) \<Longrightarrow> preserves F (gyield h)"
  by (simp_all add: preserves_def gmod_def gyield_def case_prod_unfold)

lemma preserves_bind [keeping]:
  assumes "preserves F m" and "\<And>a. preserves F (k a)"
  shows "preserves F (gbind m k)"
  unfolding preserves_def
proof (intro allI impI)
  fix s assume f: "F s"
  obtain es r s' where m: "m s = (es, r, s')" by (cases "m s")
  then have "F s'" using assms(1) f unfolding preserves_def by (metis snd_conv)
  then have "F (snd (snd (k a s')))" for a using assms(2) unfolding preserves_def by blast
  with m \<open>F s'\<close> show "F (snd (snd (gbind m k s)))"
    by (cases r) (simp_all add: gbind_def case_prod_unfold)
qed

lemma preserves_seq [keeping]: "preserves F m \<Longrightarrow> preserves F n \<Longrightarrow> preserves F (gseq m n)"
  unfolding gseq_def by (rule preserves_bind)

lemma preserves_when [keeping]: "(b \<Longrightarrow> preserves F m) \<Longrightarrow> preserves F (gwhen b m)"
  by (auto simp: gwhen_def preserves_basic)

lemma preserves_for [keeping]: "(\<And>x. x \<in> set xs \<Longrightarrow> preserves F (f x)) \<Longrightarrow> preserves F (gfor xs f)"
  by (induction xs) (auto intro: preserves_basic preserves_seq)

lemma preserves_try [keeping]:
  assumes "preserves F m" and "\<And>x. preserves F (h x)"
  shows "preserves F (gtry m h)"
  unfolding preserves_def
proof (intro allI impI)
  fix s assume f: "F s"
  obtain es r s' where m: "m s = (es, r, s')" by (cases "m s")
  then have "F s'" using assms(1) f unfolding preserves_def by (metis snd_conv)
  then have "F (snd (snd (h x s')))" for x using assms(2) unfolding preserves_def by blast
  with m \<open>F s'\<close> show "F (snd (snd (gtry m h s)))"
    by (cases r) (simp_all add: gtry_def case_prod_unfold)
qed

text \<open>The reasoning collected is text.\<close>

abbreviation texts :: "sse_builder \<Rightarrow> bool" where
  "texts sb \<equiv> list_all is_pystr (sb_accumulated_reasoning_parts sb)"

lemma texts_blocks [keeping]:
  "preserves texts (call_blocks f)" "preserves texts (emit_tool_delta i s)" "preserves texts (stop_tool_block i)"
  "preserves texts (emit_heuristic_block dumps tool)" "preserves texts (emit_error msg)"
  by (auto simp: preserves_def call_blocks_def emit_tool_delta_def stop_tool_block_def emit_heuristic_block_def
      emit_error_def upd_blocks_def allocate_index_def split: prod.splits option.splits)

lemma texts_steps [simp]:
  "texts (upd_blocks f sb) = texts sb" "texts (snd (start_thinking_block sb)) = texts sb"
  "texts (snd (stop_thinking_block sb)) = texts sb" "texts (snd (start_text_block sb)) = texts sb"
  "texts (snd (stop_text_block sb)) = texts sb" "texts (snd (emit_text_delta s sb)) = texts sb"
  "texts (snd (start_tool_block i t n sb)) = texts sb"
  "texts (snd (emit_thinking_delta v sb)) \<longleftrightarrow> texts sb \<and> is_pystr v"
  by (auto simp: builder_defs Let_def)

lemma texts_parts [keeping]:
  "preserves texts ensure_thinking_block" "preserves texts ensure_text_block" "preserves texts close_content_blocks"
  unfolding ensure_thinking_block_def ensure_text_block_def close_content_blocks_def
  by (intro keeping; simp)+

lemma texts_builder [keeping]:
  "is_pystr v \<Longrightarrow> preserves texts (reasoning_out v)" "preserves texts (think_out s)" "preserves texts (text_out s)"
  "preserves texts close_all_blocks" "preserves texts (iter_heuristic_tool_use_sse dumps tool)"
  "preserves texts (error_close msg)" "preserves texts add_text_block" "preserves texts (flush_task_args loads dumps)"
  unfolding reasoning_out_def think_out_def text_out_def close_all_blocks_def iter_heuristic_tool_use_sse_def
    error_close_def add_text_block_def flush_task_args_def
  by (auto intro!: keeping split: prod.split if_split)

lemma texts_arg_delta [keeping]: "preserves texts (emit_tool_arg_delta loads dumps i args)"
  unfolding emit_tool_arg_delta_def by (auto intro!: keeping split: option.split)

lemma texts_named_tool [keeping]: "preserves texts (start_named_tool loads dumps uuid i tid name)"
  unfolding start_named_tool_def by (auto intro!: keeping split: option.split)

lemma texts_tool_delta [keeping]: "preserves texts (process_tool_delta loads dumps uuid tc)"
  unfolding process_tool_delta_def process_tool_call_def register_tool_delta_def buffer_pre_start_args_def Let_def
  by (auto intro!: keeping split: option.split prod.split)

lemma texts_on_sse [keeping]: "preserves texts m \<Longrightarrow> preserves (\<lambda>t. texts (st_sse t)) (on_sse m)"
  by (auto simp: preserves_def on_sse_def gzoom_def split: prod.splits)

lemma texts_parsers [keeping]:
  "preserves (\<lambda>t. texts (st_sse t)) (run_think f)" "preserves (\<lambda>t. texts (st_sse t)) (run_heur g)"
  by (auto simp: preserves_def run_think_def run_heur_def split: prod.splits)

lemma texts_part [keeping]: "preserves (\<lambda>t. texts (st_sse t)) (handle_part en part)"
  unfolding handle_part_def feed_heuristic_def emit_heuristic_tools_def
  by (cases "chunk_type part") (auto intro!: keeping split: prod.split)

text \<open>The upstream shows reasoning that is no text.\<close>

definition odd_reasoning :: "stream_chunk \<Rightarrow> bool" where
  "odd_reasoning chunk =
     (case ck_choices chunk of
        [] \<Rightarrow> False
      | choice # _ \<Rightarrow>
          (case cc_delta choice of
             None \<Rightarrow> False
           | Some delta \<Rightarrow>
               (case cd_reasoning_content delta of None \<Rightarrow> False | Some v \<Rightarrow> truthy v \<and> \<not> is_pystr v)))"

lemma texts_chunk:
  assumes "en_thinking_enabled en \<longrightarrow> \<not> odd_reasoning chunk"
  shows "preserves (\<lambda>t. texts (st_sse t)) (handle_chunk en chunk)"
proof -
  have d: "preserves (\<lambda>t. texts (st_sse t)) (handle_delta en delta)"
    if "\<forall>v. cd_reasoning_content delta = Some v \<longrightarrow> en_thinking_enabled en \<longrightarrow> truthy v \<longrightarrow> is_pystr v" for delta
    unfolding handle_delta_def using that by (auto intro!: keeping split: option.split)
  show ?thesis
    using assms unfolding handle_chunk_def odd_reasoning_def
    by (auto intro!: keeping d split: list.split option.splits)
qed

section \<open>Properties\<close>

lemma texts_stream:
  assumes "\<And>chunk. chunk \<in> set (fst up) \<Longrightarrow> en_thinking_enabled en \<longrightarrow> \<not> odd_reasoning chunk"
  shows "preserves (\<lambda>t. texts (st_sse t)) (stream_body en up)"
proof -
  have "preserves (\<lambda>t. texts (st_sse t)) (consume_upstream en up)"
    unfolding consume_upstream_def using assms by (auto intro!: keeping texts_chunk split: option.split)
  moreover have "preserves (\<lambda>t. texts (st_sse t)) (finish_stream en)"
    unfolding finish_stream_def flush_parsers_def emit_heuristic_tools_def
    by (auto intro!: keeping split: option.split content_type.split)
  ultimately show ?thesis
    unfolding stream_body_def by (auto intro!: keeping)
qed

lemma stream_body_starts:
  "stream_body en up t = (es, r, t') \<Longrightarrow> u ''message_start'' \<in> set (map ev_name es)"
  by (auto simp: stream_body_def gseq_def [of "gyield _"] gbind_def [of "gyield _"] gyield_def event_names
      split: prod.splits)

text \<open>What completes a stream that ended in an exception.\<close>

lemma finish_fails_completes:
  assumes "finish_fails en t c"
  shows "\<exists>rest c'. observe (contract_observer True) c rest = Some c' \<and> finished c' \<and> rest \<noteq> [] \<and> last rest = message_stop"
proof (cases "finished c")
  case True
  obtain es r s where run: "gseq (gyield (\<lambda>s. (message_delta (st_sse t) [] JNull, s))) (gyield (\<lambda>s. (message_stop, s))) t = (es, r, s)"
    by (cases "gseq (gyield (\<lambda>s. (message_delta (st_sse t) [] JNull, s))) (gyield (\<lambda>s. (message_stop, s))) t")
  then have "es = [message_delta (st_sse t) [] JNull, message_stop]" by (auto simp: gen_defs)
  with True show ?thesis
    by (intro exI [of _ es]) (simp add: contract_observer_def event_simps)
next
  case False
  with assms have ok: "stream_weak t c" by (auto simp: finish_fails_def stream_ok_def stream_weak_def sse_ok_weak)
  obtain es r s where run: "error_close [] (st_sse t) = (es, r, s)" by (cases "error_close [] (st_sse t)")
  from error_close_ok [of "[]" "\<lambda>_ _. False", unfolded hoare_def, rule_format, of "st_sse t" c] ok run
  obtain c' where "observe (contract_observer True) c es = Some c'" "r = Inr ()" "finished c'"
    by (cases r) (auto simp: stream_weak_def)
  with error_close_last run show ?thesis by blast
qed

text \<open>Claim C1: whatever the upstream sends and however it fails, when the transport returns the
  stream it has emitted is a valid Anthropic stream: it starts with message_start and ends with
  message_stop, it has a content block, every block is opened once under a fresh index, receives
  only deltas of its own kind while it is open, and is closed. It ends in an exception only after an
  upstream that did not fail, when the tokenizer refuses a text or, with thinking enabled, the
  upstream has sent reasoning that is no text; the events sent by then are the start of a valid
  stream.\<close>

theorem stream_satisfies_contract:
  "case stream_response en up message_id model input_tokens of
     (es, Inr _, t) \<Rightarrow> assert_anthropic_stream_contract es True = Inr ()
   | (es, Inl e, t) \<Rightarrow>
       snd up = None
       \<and> (encoder_refuses en \<or> en_thinking_enabled en \<and> list_ex odd_reasoning (fst up))
       \<and> (\<exists>rest. assert_anthropic_stream_contract (es @ rest) True = Inr ())"
proof -
  let ?t0 = "stream_state_init message_id model input_tokens"
  obtain es r t where run: "stream_body en up ?t0 = (es, r, t)" by (cases "stream_body en up ?t0")
  from stream_body_ok [of en up, unfolded hoare_def, rule_format, OF stream_init_ok, of message_id model input_tokens] run
  obtain c' where obs: "contract_run True contract_init es = Inr c'"
      and obs': "observe (contract_observer True) contract_init es = Some c'"
    and r: "case r of Inl _ \<Rightarrow> finish_fails en t c' \<and> snd up = None | Inr _ \<Rightarrow> finished c'"
    by (auto simp: contract_run_observe)
  show ?thesis
  proof (cases r)
    case (Inr a)
    with stream_body_envelope run r obs
    have "assert_anthropic_stream_contract es True = Inr ()"
      by (auto simp: assert_anthropic_stream_contract_def finished_def last_map event_names)
    with run Inr show ?thesis by (simp add: stream_response_def)
  next
    case (Inl e)
    with r obtain rest c2 where rest: "observe (contract_observer True) c' rest = Some c2" "finished c2"
      "rest \<noteq> []" "last rest = message_stop" using finish_fails_completes by fastforce
    have "observe (contract_observer True) contract_init (es @ rest) = Some c2"
      using obs' rest(1) by (simp add: observe_append)
    then have "contract_run True contract_init (es @ rest) = Inr c2" by (simp add: contract_run_observe)
    with rest stream_body_starts [OF run]
    have "assert_anthropic_stream_contract (es @ rest) True = Inr ()"
      by (auto simp: assert_anthropic_stream_contract_def finished_def last_map event_names)
    moreover have "encoder_refuses en \<or> en_thinking_enabled en \<and> list_ex odd_reasoning (fst up)"
    proof (rule ccontr)
      assume no: "\<not> ?thesis"
      then have "odd_pieces (st_sse t)" using r Inl by (simp add: finish_fails_def)
      moreover have "texts (st_sse t)"
      proof -
        have "preserves (\<lambda>t. texts (st_sse t)) (stream_body en up)"
          using no by (intro texts_stream) (auto simp: list_ex_iff)
        moreover have "texts (st_sse ?t0)" by (simp add: stream_state_init_def sse_builder_init_def)
        ultimately show ?thesis using run unfolding preserves_def by (metis snd_conv)
      qed
      ultimately show False by (auto simp: odd_pieces_def list_ex_iff list_all_iff)
    qed
    ultimately show ?thesis
      using run r Inl by (auto simp: stream_response_def)
  qed
qed

end
