(* ===== verification/Openai_Content.thy ===== *)
theory Openai_Content
  imports Openai_Stream
begin

text \<open>
  What the OpenAI-compatible stream carries: the thinking text a client reads out of the emitted
  events is exactly what the tags of the reply enclose, and none at all when thinking is
  disabled; and what the guard of the error path does with tool calls written as text.
\<close>

section \<open>Operations that emit no thinking\<close>

definition emits_only :: "('e \<Rightarrow> bool) \<Rightarrow> ('e, 's, 'a) gen \<Rightarrow> bool" where
  "emits_only P m \<longleftrightarrow> (\<forall>s. case m s of (es, _, _) \<Rightarrow> list_all P es)"

lemma emits_only_run: "emits_only P m \<Longrightarrow> m s = (es, r, s') \<Longrightarrow> list_all P es"
  unfolding emits_only_def by (metis case_prod_conv)

named_theorems emits "how the generator combinators compose what they emit"

lemma emits_ret [emits]: "emits_only P (gret a)" by (simp add: emits_only_def gret_def)
lemma emits_get [emits]: "emits_only P (gget f)" by (simp add: emits_only_def gget_def)
lemma emits_mod [emits]: "emits_only P (gmod f)" by (simp add: emits_only_def gmod_def)
lemma emits_raise [emits]: "emits_only P (graise x)" by (simp add: emits_only_def graise_def)

lemma emits_bind [emits]:
  assumes "emits_only P m" and "\<And>a. emits_only P (k a)"
  shows "emits_only P (gbind m k)"
  unfolding emits_only_def
proof
  fix s
  obtain es r s' where m: "m s = (es, r, s')" by (cases "m s")
  have l: "list_all P es" by (rule emits_only_run [OF assms(1) m])
  show "case gbind m k s of (es, _, _) \<Rightarrow> list_all P es"
  proof (cases r)
    case (Inr a)
    obtain es' r' s'' where k: "k a s' = (es', r', s'')" by (cases "k a s'")
    from emits_only_run [OF assms(2) k] l m k Inr show ?thesis by (simp add: gbind_def)
  qed (use l m in \<open>simp add: gbind_def\<close>)
qed

lemma emits_seq [emits]: "emits_only P m \<Longrightarrow> emits_only P n \<Longrightarrow> emits_only P (gseq m n)"
  unfolding gseq_def by (rule emits_bind)

lemma emits_when [emits]: "(b \<Longrightarrow> emits_only P m) \<Longrightarrow> emits_only P (gwhen b m)"
  by (simp add: gwhen_def emits_ret)

lemma emits_for [emits]: "(\<And>x. x \<in> set xs \<Longrightarrow> emits_only P (f x)) \<Longrightarrow> emits_only P (gfor xs f)"
  by (induction xs) (simp_all add: emits_ret emits_seq)

lemma emits_yield [emits]: "(\<And>s. P (fst (f s))) \<Longrightarrow> emits_only P (gyield f)"
  by (simp add: emits_only_def gyield_def case_prod_unfold)

lemma emits_try [emits]:
  assumes "emits_only P m" and "\<And>x. emits_only P (h x)"
  shows "emits_only P (gtry m h)"
  unfolding emits_only_def
proof
  fix s
  obtain es r s' where m: "m s = (es, r, s')" by (cases "m s")
  have l: "list_all P es" by (rule emits_only_run [OF assms(1) m])
  show "case gtry m h s of (es, _, _) \<Rightarrow> list_all P es"
  proof (cases r)
    case (Inl x)
    obtain es' r' s'' where k: "h x s' = (es', r', s'')" by (cases "h x s'")
    from emits_only_run [OF assms(2) k] l m k Inl show ?thesis by (simp add: gtry_def)
  qed (use l m in \<open>simp add: gtry_def\<close>)
qed

lemma emits_on_sse [emits]: "emits_only P m \<Longrightarrow> emits_only P (on_sse m)"
  unfolding emits_only_def on_sse_def gzoom_def by (simp add: case_prod_unfold)

lemma emits_case_option [emits]:
  "emits_only P m \<Longrightarrow> (\<And>x. emits_only P (f x)) \<Longrightarrow> emits_only P (case opt of None \<Rightarrow> m | Some x \<Rightarrow> f x)"
  by (cases opt) simp_all

lemma emits_if [emits]:
  "(b \<Longrightarrow> emits_only P m) \<Longrightarrow> (\<not> b \<Longrightarrow> emits_only P n) \<Longrightarrow> emits_only P (if b then m else n)"
  by simp

lemma emits_run [emits]: "emits_only P (run_think f)" "emits_only P (run_heur g)" "emits_only P (call_blocks h)"
  by (simp_all add: emits_only_def run_think_def run_heur_def call_blocks_def case_prod_unfold)

text \<open>An event that opens a thinking block or carries thinking text.\<close>

definition thinking_event :: "sse_event \<Rightarrow> bool" where
  "thinking_event ev \<longleftrightarrow>
     is_text (dget (obj_of (dget (ev_data ev) ''delta'')) ''type'') ''thinking_delta''
     \<or> is_text (dget (obj_of (dget (ev_data ev) ''content_block'')) ''type'') ''thinking''"

abbreviation quiet :: "(sse_event, 's, 'a) gen \<Rightarrow> bool" where
  "quiet \<equiv> emits_only (\<lambda>ev. \<not> thinking_event ev)"

lemma thinking_event_simps [simp]:
  "\<not> thinking_event (content_block_start i (u ''text'') kw)"
  "\<not> thinking_event (content_block_start i (u ''tool_use'') kw)"
  "thinking_event (content_block_start i (u ''thinking'') kw)"
  "\<not> thinking_event (content_block_delta i (u ''text_delta'') s)"
  "\<not> thinking_event (content_block_delta i (u ''input_json_delta'') s)"
  "thinking_event (content_block_delta i (u ''thinking_delta'') s)"
  "\<not> thinking_event (content_block_stop i)"
  "\<not> thinking_event (message_start sb)" "\<not> thinking_event (message_delta sb r ot)"
  "\<not> thinking_event message_stop" "\<not> thinking_event (emit_top_level_error msg)"
  by (simp_all add: thinking_event_def content_block_start_def content_block_delta_def content_delta_event_def
      content_block_stop_def message_start_def message_delta_def message_stop_def
      emit_top_level_error_def)

lemma quiet_steps [emits]:
  "quiet (gyield stop_thinking_block)" "quiet (gyield stop_text_block)" "quiet (gyield start_text_block)"
  "quiet (gyield (emit_text_delta s))" "quiet (gyield (start_tool_block t i n))"
  "quiet (emit_tool_delta t s)" "quiet (stop_tool_block t)" "quiet (emit_error msg)"
  "quiet (emit_heuristic_block dumps tool)"
  by (simp_all add: emits_only_def gyield_def stop_thinking_block_def stop_text_block_def
      start_text_block_def emit_text_delta_def start_tool_block_def emit_tool_delta_def
      stop_tool_block_def emit_error_def emit_heuristic_block_def allocate_index_def Let_def
      split: option.splits)

lemma quiet_builder [emits]:
  "quiet close_content_blocks" "quiet close_all_blocks" "quiet ensure_text_block" "quiet (text_out s)"
  "quiet (iter_heuristic_tool_use_sse dumps tool)" "quiet (emit_tool_arg_delta loads dumps t args)"
  "quiet (start_named_tool loads dumps tool_uuid t tc_id name)"
  "quiet (flush_task_args loads dumps)" "quiet (error_close msg)"
  by (simp_all add: close_content_blocks_def close_all_blocks_def ensure_text_block_def text_out_def
      iter_heuristic_tool_use_sse_def emit_tool_arg_delta_def start_named_tool_def flush_task_args_def
      error_close_def case_prod_unfold emits)

lemma emits_lift [emits]: "emits_only P (glift r)"
  by (simp add: emits_only_def glift_def gret_def graise_def split: sum.split)

lemma quiet_add_text [emits]: "quiet add_text_block"
  unfolding add_text_block_def by (intro emits)

lemma quiet_tool_call [emits]:
  "quiet (process_tool_call loads dumps tool_uuid i tc_id name args)"
  "quiet (process_tool_delta loads dumps tool_uuid tc)"
proof -
  show one: "quiet (process_tool_call loads dumps tool_uuid i tc_id name args)" for i tc_id name args
    unfolding process_tool_call_def Let_def by (intro emits)
  show "quiet (process_tool_delta loads dumps tool_uuid tc)"
    unfolding process_tool_delta_def by (simp add: one emits split: option.split prod.split)
qed

lemma quiet_handlers [emits]:
  assumes "\<not> en_thinking_enabled en"
  shows "quiet (handle_part en part)" "quiet (handle_chunk en chunk)" "quiet (flush_parsers en)"
proof -
  have tools: "quiet (emit_heuristic_tools en tools)" for tools
    by (simp add: emit_heuristic_tools_def emits)
  have part: "quiet (handle_part en part)" for part
    by (simp add: handle_part_def feed_heuristic_def assms tools emits case_prod_unfold
        split: content_type.split)
  have delta: "quiet (handle_delta en delta)" for delta
    by (simp add: handle_delta_def assms part emits)
  show "quiet (handle_part en part)" by (rule part)
  show "quiet (handle_chunk en chunk)"
    by (simp add: handle_chunk_def delta emits split: list.split option.split)
  show "quiet (flush_parsers en)"
    by (simp add: flush_parsers_def assms tools emits split: option.split content_type.split)
qed

lemma quiet_finish_stream:
  assumes "\<not> en_thinking_enabled en"
  shows "quiet (finish_stream en)"
  unfolding finish_stream_def
  by (intro emits quiet_handlers(3) [OF assms] assms) (simp_all add: emits)

lemma quiet_consume_upstream:
  assumes "\<not> en_thinking_enabled en"
  shows "quiet (consume_upstream en up)"
  unfolding consume_upstream_def
  by (intro emits quiet_handlers(2) [OF assms])

text \<open>Claim C4: with thinking disabled no event of the stream opens a thinking block or carries
  thinking text, on any path: not the reasoning channel, not the tags, not the flush at the
  end, not the error path.\<close>

theorem disabled_thinking_never_leaks:
  assumes "\<not> en_thinking_enabled en"
  shows "\<forall>ev \<in> set (fst (stream_response en up message_id model input_tokens)). \<not> thinking_event ev"
proof -
  have "quiet (stream_body en up)"
    unfolding stream_body_def
    by (intro emits quiet_consume_upstream [OF assms(1)] quiet_finish_stream [OF assms(1)])
      (simp_all add: emits)
  then show ?thesis
    unfolding stream_response_def emits_only_def list_all_iff by (simp add: case_prod_unfold)
qed

definition example_env :: "bool \<Rightarrow> stream_env" where
  "example_env thinking =
     \<lparr>en_word = (\<lambda>c. 97 \<le> c \<and> c \<le> 122), en_lower = (\<lambda>s. s), en_loads = (\<lambda>s. None),
      en_dumps = (\<lambda>j. u ''{}''), en_uuid8 = (\<lambda>n. u ''0000''), en_tool_uuid = (\<lambda>i. u ''0000''),
      en_text_of = (\<lambda>e. u ''error''), en_encoder = None, en_read_timeout = None,
      en_provider_name = u ''nim'', en_request_id = None, en_thinking_enabled = thinking\<rparr>"

definition text_chunk :: "string \<Rightarrow> stream_chunk" where
  "text_chunk s =
     \<lparr>ck_usage = None,
      ck_choices = [\<lparr>cc_delta = Some \<lparr>cd_reasoning_content = None, cd_content = Some (u s),
                                    cd_tool_calls = []\<rparr>, cc_finish_reason = None\<rparr>]\<rparr>"

theorem disabled_thinking_never_leaks_witness:
  "list_all (\<lambda>ev. \<not> thinking_event ev)
     (fst (stream_response (example_env False) ([text_chunk ''<think>why</think>so''], None)
        (u ''m'') (u ''model'') (JInt 1)))"
  unfolding list_all_iff
  by (rule disabled_thinking_never_leaks) (simp add: example_env_def)

section \<open>The thinking text\<close>

text \<open>The observer that reads the thinking text out of the events.\<close>

definition read_thinking :: "pystr \<Rightarrow> sse_event \<Rightarrow> pystr option" where
  "read_thinking acc ev = Some (acc @ event_thinking (\<lambda>_. []) ev)"

lemma read_thinking_observe:
  "observe read_thinking acc es = Some (acc @ thinking_content (\<lambda>_. []) es)"
  by (induction es arbitrary: acc) (simp_all add: read_thinking_def thinking_content_def)

lemma event_thinking_silent [simp]:
  "event_thinking f (content_block_start i ty kw) = []"
  "event_thinking f (content_block_delta i (u ''text_delta'') s) = []"
  "event_thinking f (content_block_delta i (u ''input_json_delta'') s) = []"
  "event_thinking f (content_block_delta i (u ''thinking_delta'') s) = s"
  "event_thinking f (content_block_stop i) = []"
  "event_thinking f (message_start sb) = []" "event_thinking f (message_delta sb r ot) = []"
  "event_thinking f message_stop = []"
  by (simp_all add: event_thinking_def content_block_start_def content_block_delta_def content_delta_event_def
      content_block_stop_def message_start_def message_delta_def message_stop_def to_str_def)

text \<open>A step that never raises and whose events carry no thinking text.\<close>

abbreviation mute :: "(sse_event, 's, 'a) gen \<Rightarrow> bool" where
  "mute m \<equiv> (\<forall>a. hoare read_thinking (\<lambda>_ acc. acc = a) m (\<lambda>_ _ acc. acc = a) (\<lambda>_ _. False))"

lemma mute_seq: "mute m \<Longrightarrow> mute n \<Longrightarrow> mute (gseq m n)"
  by (blast intro: hoare_seq)

lemma mute_guard: "mute m \<Longrightarrow> mute (gbind (gget g) (\<lambda>b. gwhen b m))"
  by (auto intro!: hoare_guard elim: hoare_weaken)

lemma mute_guard_not: "mute m \<Longrightarrow> mute (gbind (gget g) (\<lambda>b. gwhen (\<not> b) m))"
  by (auto intro!: hoare_guard_not elim: hoare_weaken)

lemma mute_yield: "(\<And>s. event_thinking (\<lambda>_. []) (fst (f s)) = []) \<Longrightarrow> mute (gyield f)"
  by (auto intro!: hoare_yield simp: read_thinking_def) (metis fst_conv)

lemma mute_for: "(\<And>x. x \<in> set xs \<Longrightarrow> mute (f x)) \<Longrightarrow> mute (gfor xs f)"
  by (blast intro: hoare_for)

lemma mute_on_sse: "mute m \<Longrightarrow> mute (on_sse m)"
  using hoare_on_sse by blast

lemma mute_builder:
  "mute ensure_thinking_block" "mute ensure_text_block" "mute close_content_blocks"
  "mute (text_out s)" "mute (iter_heuristic_tool_use_sse dumps tool)"
proof -
  show think: "mute ensure_thinking_block"
    unfolding ensure_thinking_block_def
    by (intro mute_seq mute_guard mute_guard_not mute_yield)
      (simp_all add: stop_text_block_def start_thinking_block_def allocate_index_def)
  show textb: "mute ensure_text_block"
    unfolding ensure_text_block_def
    by (intro mute_seq mute_guard mute_guard_not mute_yield)
      (simp_all add: stop_thinking_block_def start_text_block_def allocate_index_def)
  show close: "mute close_content_blocks"
    unfolding close_content_blocks_def
    by (intro mute_seq mute_guard mute_yield)
      (simp_all add: stop_thinking_block_def stop_text_block_def)
  show "mute (text_out s)"
    unfolding text_out_def by (intro mute_seq textb mute_yield) (simp add: emit_text_delta_def)
  have "mute (emit_heuristic_block dumps tool)" for tool
    by (simp add: hoare_def emit_heuristic_block_def allocate_index_def read_thinking_def)
  then show "mute (iter_heuristic_tool_use_sse dumps tool)"
    unfolding iter_heuristic_tool_use_sse_def by (intro mute_seq close)
qed

lemma think_out_reads:
  "hoare read_thinking (\<lambda>_ acc. acc = a) (think_out s) (\<lambda>_ _ acc. acc = a @ s) (\<lambda>_ _. False)"
  unfolding think_out_def reasoning_out_def
proof (rule hoare_seq [OF mute_builder(1) [rule_format]], rule hoare_yield)
  fix sb acc e sb'
  assume "acc = a" "emit_thinking_delta (JStr s) sb = (e, sb')"
  then show "\<exists>acc'. read_thinking acc e = Some acc' \<and> acc' = a @ s"
    by (auto simp: emit_thinking_delta_def read_thinking_def content_block_delta_def [symmetric])
qed

text \<open>On the stream: the text read so far, with the tag parser's state fixed.\<close>

definition thinking_of :: "stream_env \<Rightarrow> content_chunk list \<Rightarrow> pystr" where
  "thinking_of en parts =
     (if en_thinking_enabled en
      then concat (map chunk_content (filter (\<lambda>c. chunk_type c = THINKING) parts)) else [])"

lemma on_sse_reads:
  assumes "hoare read_thinking (\<lambda>_ acc. acc = a) m (\<lambda>_ _ acc. acc = a') (\<lambda>_ _. False)"
  shows "hoare read_thinking (\<lambda>t acc. acc = a \<and> st_think t = p) (on_sse m)
     (\<lambda>_ t acc. acc = a' \<and> st_think t = p) (\<lambda>_ _. False)"
proof -
  have "hoare read_thinking (\<lambda>t acc. acc = a \<and> st_think t = p) (on_sse m)
     (\<lambda>_ t acc. acc = a' \<and> st_think t = p) (\<lambda>t acc. False \<and> st_think t = p)"
    by (rule hoare_frame [OF hoare_on_sse [OF assms, simplified]])
      (auto simp: on_sse_def gzoom_def split: prod.splits)
  then show ?thesis by (rule hoare_weaken) auto
qed

lemma run_heur_reads:
  "hoare read_thinking (\<lambda>t acc. acc = a \<and> st_think t = p) (run_heur f)
     (\<lambda>_ t acc. acc = a \<and> st_think t = p) (\<lambda>_ _. False)"
  by (auto simp: hoare_def run_heur_def split: prod.split)

lemma emit_heuristic_tools_reads:
  "hoare read_thinking (\<lambda>t acc. acc = a \<and> st_think t = p) (emit_heuristic_tools en tools)
     (\<lambda>_ t acc. acc = a \<and> st_think t = p) (\<lambda>_ _. False)"
  unfolding emit_heuristic_tools_def
  by (rule hoare_for) (rule on_sse_reads [OF mute_builder(5) [rule_format]])

lemma handle_part_reads:
  "hoare read_thinking (\<lambda>t acc. acc = a \<and> st_think t = p) (handle_part en part)
     (\<lambda>_ t acc. acc = a @ thinking_of en [part] \<and> st_think t = p) (\<lambda>_ _. False)"
proof (cases "chunk_type part")
  case THINKING
  then show ?thesis
    by (auto simp: handle_part_def thinking_of_def gwhen_def hoare_ret
        on_sse_reads [OF think_out_reads])
next
  case TEXT
  have "hoare read_thinking (\<lambda>t acc. acc = a \<and> st_think t = p)
      (gseq (gwhen (filtered \<noteq> []) (on_sse (text_out filtered))) (emit_heuristic_tools en tools))
      (\<lambda>_ t acc. acc = a \<and> st_think t = p) (\<lambda>_ _. False)" for filtered tools
    by (rule hoare_seq [OF hoare_when emit_heuristic_tools_reads])
      (rule on_sse_reads [OF mute_builder(4) [rule_format]], simp)
  then show ?thesis
    unfolding handle_part_def feed_heuristic_def
    by (simp add: TEXT thinking_of_def case_prod_unfold hoare_bind [OF run_heur_reads])
qed

lemma handle_parts_reads:
  "hoare read_thinking (\<lambda>t acc. acc = a \<and> st_think t = p) (gfor parts (handle_part en))
     (\<lambda>_ t acc. acc = a @ thinking_of en parts \<and> st_think t = p) (\<lambda>_ _. False)"
proof (induction parts arbitrary: a)
  case Nil
  show ?case by (auto simp: thinking_of_def hoare_ret)
next
  case (Cons part parts)
  have "thinking_of en (part # parts) = thinking_of en [part] @ thinking_of en parts"
    by (simp add: thinking_of_def)
  then show ?case
    using hoare_seq [OF handle_part_reads Cons.IH [of "a @ thinking_of en [part]"]]
    by simp
qed

text \<open>The text pieces the tag parser is fed, for an upstream without a reasoning channel and
  native tool calls.\<close>

definition chunk_pieces :: "stream_chunk \<Rightarrow> pystr list" where
  "chunk_pieces chunk =
     (case ck_choices chunk of
        [] \<Rightarrow> []
      | choice # _ \<Rightarrow>
          (case cc_delta choice of
             None \<Rightarrow> []
           | Some delta \<Rightarrow>
               (case cd_content delta of None \<Rightarrow> [] | Some s \<Rightarrow> if s = [] then [] else [s])))"

definition text_only :: "stream_chunk \<Rightarrow> bool" where
  "text_only chunk \<longleftrightarrow>
     (\<forall>choice \<in> set (ck_choices chunk). \<forall>delta. cc_delta choice = Some delta \<longrightarrow>
        (\<forall>v. cd_reasoning_content delta = Some v \<longrightarrow> \<not> truthy v) \<and> cd_tool_calls delta = [])"

lemma think_feed_all_append:
  "think_feed_all p (xs @ ys) =
     (case think_feed_all p xs of (cs, p') \<Rightarrow>
        (case think_feed_all p' ys of (ds, p'') \<Rightarrow> (cs @ ds, p'')))"
  by (induction xs arbitrary: p) (auto split: prod.splits)

abbreviation reads :: "(stream_state \<Rightarrow> pystr \<Rightarrow> bool) \<Rightarrow> (sse_event, stream_state, unit) gen
  \<Rightarrow> (stream_state \<Rightarrow> pystr \<Rightarrow> bool) \<Rightarrow> bool" where
  "reads P m Q \<equiv> hoare read_thinking P m (\<lambda>_. Q) (\<lambda>_ _. False)"

abbreviation at :: "pystr \<Rightarrow> think_parser \<Rightarrow> stream_state \<Rightarrow> pystr \<Rightarrow> bool" where
  "at a p \<equiv> (\<lambda>t acc. acc = a \<and> st_think t = p)"

lemma feed_piece_reads:
  assumes "think_feed p s = (parts, p')"
  shows "reads (at a p) (gbind (run_think (\<lambda>p. think_feed p s)) (\<lambda>parts. gfor parts (handle_part en)))
     (at (a @ thinking_of en parts) p')"
proof (rule hoare_bind [where R = "\<lambda>ps t acc. ps = parts \<and> at a p' t acc"])
  show "hoare read_thinking (at a p) (run_think (\<lambda>p. think_feed p s))
      (\<lambda>ps t acc. ps = parts \<and> at a p' t acc) (\<lambda>_ _. False)"
    using assms by (auto simp: hoare_def run_think_def split: prod.split)
  show "reads (\<lambda>t acc. ps = parts \<and> at a p' t acc) (gfor ps (handle_part en))
      (at (a @ thinking_of en parts) p')" for ps
    by (cases "ps = parts") (simp_all add: handle_parts_reads hoare_false)
qed

lemma thinking_of_append [simp]:
  "thinking_of en [] = []" "thinking_of en (xs @ ys) = thinking_of en xs @ thinking_of en ys"
  by (simp_all add: thinking_of_def)

lemma handle_chunk_reads:
  assumes "text_only chunk" and "think_feed_all p (chunk_pieces chunk) = (parts, p')"
  shows "reads (at a p) (handle_chunk en chunk) (at (a @ thinking_of en parts) p')"
  unfolding handle_chunk_def
proof (rule hoare_seq [where R = "at a p"], rule hoare_mod)
  show "reads (at a p)
      (case ck_choices chunk of [] \<Rightarrow> gret ()
       | choice # _ \<Rightarrow>
          (case cc_delta choice of None \<Rightarrow> gret ()
           | Some delta \<Rightarrow>
              gseq (gmod (\<lambda>t. if cc_finish_reason choice \<notin> {None, Some []}
                              then t\<lparr>st_finish_reason := cc_finish_reason choice\<rparr> else t))
                (handle_delta en delta)))
      (at (a @ thinking_of en parts) p')"
  proof (cases "ck_choices chunk")
    case (Cons choice _)
    show ?thesis
    proof (cases "cc_delta choice")
      case (Some delta)
      have plain: "\<And>v. cd_reasoning_content delta = Some v \<Longrightarrow> \<not> truthy v" "cd_tool_calls delta = []"
        using assms(1) Cons Some by (auto simp: text_only_def)
      have none: "(case cd_reasoning_content delta of None \<Rightarrow> gret ()
          | Some r \<Rightarrow> gwhen (en_thinking_enabled en \<and> truthy r) (on_sse (reasoning_out r))) = gret ()"
        using plain(1) by (auto simp: gwhen_def split: option.split)
      have "reads (at a p) (handle_delta en delta) (at (a @ thinking_of en parts) p')"
        unfolding handle_delta_def none
      proof (rule hoare_seq [where R = "at a p"], rule hoare_ret, assumption,
          rule hoare_seq [where R = "at (a @ thinking_of en parts) p'"])
        show "reads (at a p) (case cd_content delta of None \<Rightarrow> gret ()
            | Some content \<Rightarrow> gwhen (content \<noteq> [])
                (gbind (run_think (\<lambda>p. think_feed p content)) (\<lambda>parts. gfor parts (handle_part en))))
            (at (a @ thinking_of en parts) p')"
          using assms(2) Cons Some
          by (cases "cd_content delta")
            (auto simp: chunk_pieces_def thinking_of_append gwhen_def hoare_ret feed_piece_reads
              split: if_splits prod.splits)
        show "reads (at (a @ thinking_of en parts) p')
            (gwhen (cd_tool_calls delta \<noteq> [])
              (gseq (on_sse close_content_blocks)
                (gfor (cd_tool_calls delta) (\<lambda>tc. on_sse
                  (process_tool_delta (en_loads en) (en_dumps en) (en_tool_uuid en) tc)))))
            (at (a @ thinking_of en parts) p')"
          by (simp add: plain(2) gwhen_def hoare_ret)
      qed
      then show ?thesis
        unfolding Cons Some list.case option.case
        by (rule hoare_seq [rotated]) (auto intro!: hoare_mod)
    qed (use assms(2) Cons in \<open>auto simp: chunk_pieces_def thinking_of_append hoare_ret\<close>)
  qed (use assms(2) in \<open>auto simp: chunk_pieces_def thinking_of_append hoare_ret\<close>)
qed auto

lemma handle_chunks_reads:
  assumes "list_all text_only chunks" and "think_feed_all p (concat (map chunk_pieces chunks)) = (parts, p')"
  shows "reads (at a p) (gfor chunks (handle_chunk en)) (at (a @ thinking_of en parts) p')"
  using assms
proof (induction chunks arbitrary: a p parts)
  case Nil
  then show ?case by (simp add: hoare_ret)
next
  case (Cons chunk chunks)
  obtain cs p1 where one: "think_feed_all p (chunk_pieces chunk) = (cs, p1)"
    by (cases "think_feed_all p (chunk_pieces chunk)")
  obtain ds where rest: "think_feed_all p1 (concat (map chunk_pieces chunks)) = (ds, p')"
    and parts: "parts = cs @ ds"
    using Cons.prems(2) one by (auto simp: think_feed_all_append split: prod.splits)
  have "reads (at a p) (handle_chunk en chunk) (at (a @ thinking_of en cs) p1)"
    by (rule handle_chunk_reads [OF _ one]) (use Cons.prems(1) in simp)
  moreover have "reads (at (a @ thinking_of en cs) p1) (gfor chunks (handle_chunk en))
      (at ((a @ thinking_of en cs) @ thinking_of en ds) p')"
    by (rule Cons.IH [OF _ rest]) (use Cons.prems(1) in simp)
  ultimately show ?case by (simp add: parts hoare_seq)
qed

lemma quiet_event_thinking: "\<not> thinking_event ev \<Longrightarrow> event_thinking f ev = []"
  by (auto simp: thinking_event_def event_thinking_def dget_or_def dget_def split: json.splits option.splits)

lemma quiet_reads:
  assumes "quiet m"
  shows "hoare read_thinking (\<lambda>_ acc. acc = a) m (\<lambda>_ _ acc. acc = a) (\<lambda>_ acc. acc = a)"
  unfolding hoare_def
proof (intro allI impI)
  fix s and acc :: pystr assume "acc = a"
  obtain es r s' where m: "m s = (es, r, s')" by (cases "m s")
  have "list_all (\<lambda>ev. \<not> thinking_event ev) es" by (rule emits_only_run [OF assms m])
  then have "thinking_content (\<lambda>_. []) es = []"
    by (auto simp: thinking_content_def list_all_iff quiet_event_thinking)
  with m \<open>acc = a\<close> show "case m s of (es, r, s') \<Rightarrow> \<exists>c'. observe read_thinking acc es = Some c'
      \<and> (case r of Inl _ \<Rightarrow> c' = a | Inr _ \<Rightarrow> c' = a)"
    by (simp add: read_thinking_observe split: sum.split)
qed

definition flushed :: "content_chunk option \<Rightarrow> content_chunk list" where
  "flushed remaining = (case remaining of None \<Rightarrow> [] | Some c \<Rightarrow> [c])"

lemma flush_parsers_reads:
  assumes "think_flush p = (remaining, p')"
  shows "reads (at a p) (flush_parsers en) (\<lambda>_ acc. acc = a @ thinking_of en (flushed remaining))"
  unfolding flush_parsers_def
proof (rule hoare_seq [where R = "at (a @ thinking_of en (flushed remaining)) p'"], rule hoare_bind)
  show "hoare read_thinking (at a p) (run_think think_flush)
      (\<lambda>r t acc. r = remaining \<and> at a p' t acc) (\<lambda>_ _. False)"
    using assms by (auto simp: hoare_def run_think_def split: prod.split)
  show "reads (\<lambda>t acc. r = remaining \<and> at a p' t acc)
      (case r of None \<Rightarrow> gret ()
       | Some part \<Rightarrow>
          (case chunk_type part of
             THINKING \<Rightarrow> gwhen (en_thinking_enabled en) (on_sse (think_out (chunk_content part)))
           | TEXT \<Rightarrow> on_sse (text_out (chunk_content part))))
      (at (a @ thinking_of en (flushed remaining)) p')" for r
  proof (cases "r = remaining")
    case True
    show ?thesis
    proof (cases remaining)
      case None
      with True show ?thesis by (simp add: flushed_def hoare_ret)
    next
      case (Some part)
      show ?thesis
        using on_sse_reads [OF think_out_reads [of a "chunk_content part"], of p']
          on_sse_reads [OF mute_builder(4) [rule_format, of a "chunk_content part"], of p'] True Some
        by (cases "chunk_type part") (auto simp: flushed_def thinking_of_def gwhen_def hoare_ret)
    qed
  qed (simp add: hoare_false)
  show "reads (at (a @ thinking_of en (flushed remaining)) p')
      (gbind (run_heur tool_flush) (emit_heuristic_tools en))
      (\<lambda>_ acc. acc = a @ thinking_of en (flushed remaining))"
    by (rule hoare_bind [OF run_heur_reads], rule hoare_weaken [OF emit_heuristic_tools_reads]) auto
qed

lemma finish_stream_reads:
  assumes "think_flush p = (remaining, p')"
  shows "hoare read_thinking (at a p) (finish_stream en)
     (\<lambda>_ _ acc. acc = a @ thinking_of en (flushed remaining))
     (\<lambda>_ acc. acc = a @ thinking_of en (flushed remaining))"
proof -
  have rest: "quiet (gseq (on_sse add_text_block)
     (gseq (on_sse (flush_task_args (en_loads en) (en_dumps en)))
     (gseq (on_sse close_all_blocks)
     (gbind (gget (\<lambda>t. output_tokens en (st_usage t) (st_sse t))) (\<lambda>r.
      gbind (glift r) (\<lambda>tokens.
      gseq (gyield (\<lambda>t. (message_delta (st_sse t) (map_stop_reason (st_finish_reason t)) tokens, t)))
        (gyield (\<lambda>t. (message_stop, t)))))))))"
    by (intro emits) (simp_all add: emits)
  show ?thesis
    unfolding finish_stream_def
    by (rule hoare_seq [OF hoare_weaken [OF flush_parsers_reads [OF assms]] quiet_reads [OF rest]]) auto
qed

lemma stream_body_reads:
  assumes "list_all text_only chunks"
    and "think_feed_all p (concat (map chunk_pieces chunks)) = (parts, p1)"
    and "think_flush p1 = (remaining, p2)"
  shows "hoare read_thinking (at [] p) (stream_body en (chunks, None))
     (\<lambda>_ _ acc. acc = thinking_of en (parts @ flushed remaining))
     (\<lambda>_ acc. acc = thinking_of en (parts @ flushed remaining))"
  (is "hoare _ _ _ _ ?E")
  unfolding stream_body_def
proof (rule hoare_seq [where R = "at [] p"], rule hoare_yield)
  fix t t' :: stream_state and acc :: pystr and e
  assume "acc = [] \<and> st_think t = p" "(message_start (st_sse t), t) = (e, t')"
  then show "\<exists>c'. read_thinking acc e = Some c' \<and> at [] p t' c'"
    by (auto simp: read_thinking_def)
next
  have feed: "reads (at [] p) (gfor chunks (handle_chunk en)) (at (thinking_of en parts) p1)"
    using handle_chunks_reads [OF assms(1,2), of "[]" en] by simp
  have "reads (at [] p) (consume_upstream en (chunks, None)) (at (thinking_of en parts) p1)"
    unfolding consume_upstream_def fst_conv snd_conv option.case
    by (rule hoare_seq [OF feed]) (rule hoare_ret)
  then have full: "hoare read_thinking (at [] p) (gseq (consume_upstream en (chunks, None)) (gret True))
      (\<lambda>completed t acc. completed \<and> at (thinking_of en parts) p1 t acc) (\<lambda>_ _. False)"
    by (rule hoare_seq) (rule hoare_ret, simp)
  have consumed: "hoare read_thinking (at [] p)
      (gtry (gseq (consume_upstream en (chunks, None)) (gret True))
         (\<lambda>e. gseq (on_sse (error_close (stream_error_message en e))) (gret False)))
      (\<lambda>completed t acc. completed \<and> at (thinking_of en parts) p1 t acc) ?E"
    by (rule hoare_try [where R = "\<lambda>_ _. False"], rule hoare_weaken [OF full], simp_all add: hoare_false)
  show "hoare read_thinking (at [] p)
      (gbind (gtry (gseq (consume_upstream en (chunks, None)) (gret True))
               (\<lambda>e. gseq (on_sse (error_close (stream_error_message en e))) (gret False)))
        (\<lambda>completed. gwhen completed (finish_stream en)))
      (\<lambda>_ _ acc. acc = thinking_of en (parts @ flushed remaining)) ?E"
  proof (rule hoare_bind [OF consumed])
    fix completed
    show "hoare read_thinking (\<lambda>t acc. completed \<and> at (thinking_of en parts) p1 t acc)
        (gwhen completed (finish_stream en))
        (\<lambda>_ _ acc. acc = thinking_of en (parts @ flushed remaining)) ?E"
      by (rule hoare_when, rule hoare_weaken [OF finish_stream_reads [OF assms(3)]]) auto
  qed
qed

lemma thinking_of_labels:
  "en_thinking_enabled en \<Longrightarrow> thinking_of en cs = map snd (filter (\<lambda>(t, c). t = THINKING) (labels cs))"
  by (induction cs) (auto simp: thinking_of_def label_def filter_map comp_def)

text \<open>Claim C3: for a reply sent as text only, cut into chunks in any way, the thinking text a client
  reads out of the emitted stream is exactly the characters the reply's think tags enclose, in
  order; nothing of it is lost, doubled or moved by the parsing, the block changes and the flush.\<close>

theorem thinking_text_is_what_the_tags_enclose:
  assumes "list_all text_only chunks" and "en_thinking_enabled en"
  shows "thinking_content (\<lambda>_. []) (fst (stream_response en (chunks, None) message_id model input_tokens))
     = map snd (filter (\<lambda>(t, c). t = THINKING) (scan False (concat (concat (map chunk_pieces chunks)))))"
proof -
  let ?t0 = "stream_state_init message_id model input_tokens"
  let ?pieces = "concat (map chunk_pieces chunks)"
  obtain parts p1 where feed: "think_feed_all think_parser_init ?pieces = (parts, p1)"
    by (cases "think_feed_all think_parser_init ?pieces")
  obtain remaining p2 where flush: "think_flush p1 = (remaining, p2)" by (cases "think_flush p1")
  obtain es r t where run: "stream_body en (chunks, None) ?t0 = (es, r, t)"
    by (cases "stream_body en (chunks, None) ?t0")
  have "at [] think_parser_init ?t0 []" by (simp add: stream_state_init_def)
  from stream_body_reads [OF assms(1) feed flush, of en, unfolded hoare_def, rule_format, OF this]
  have "thinking_content (\<lambda>_. []) es = thinking_of en (parts @ flushed remaining)"
    by (simp add: run read_thinking_observe split: sum.splits)
  also have "parts @ flushed remaining = parse_stream ?pieces"
    by (simp add: parse_stream_def feed flush flushed_def split: option.split)
  finally show ?thesis
    by (simp add: stream_response_def run thinking_of_labels [OF assms(2)] think_stream_refines_scan)
qed

theorem thinking_text_is_what_the_tags_enclose_witness:
  "thinking_content (\<lambda>_. []) (fst (stream_response (example_env True)
      ([text_chunk ''<thi'', text_chunk ''nk>why</think>so''], None) (u ''m'') (u ''model'') (JInt 1)))
   = map snd (filter (\<lambda>(t, c). t = THINKING) (scan False (u ''<think>why</think>so'')))"
  using thinking_text_is_what_the_tags_enclose
    [of "[text_chunk ''<thi'', text_chunk ''nk>why</think>so'']" "example_env True" "u ''m''" "u ''model''" "JInt 1"]
  by (simp add: text_only_def text_chunk_def example_env_def chunk_pieces_def u_def)

section \<open>Tool calls written as text and the error path\<close>

lemma heuristic_tool_run:
  assumes "iter_heuristic_tool_use_sse dumps tool sb = (es, r, sb')"
  shows "r = Inr () \<and> has_tool_use es \<and> bm_tool_states (sb_blocks sb') = bm_tool_states (sb_blocks sb)"
proof -
  obtain es1 r1 sb1 where one: "close_content_blocks sb = (es1, r1, sb1)"
    by (cases "close_content_blocks sb")
  have "r1 = Inr ()"
    using one by (auto simp: close_content_blocks_def gen_defs split: if_splits)
  then show ?thesis
    using assms one close_content_frame [OF one]
    by (auto simp: iter_heuristic_tool_use_sse_def gseq_def gbind_def emit_heuristic_block_def
        allocate_index_def has_tool_use_def content_block_start_def)
qed

lemma close_all_returns: "close_all_blocks sb = (es, r, sb') \<Longrightarrow> tools_apart (sb_blocks sb) \<Longrightarrow> r = Inr ()"
proof -
  assume run: "close_all_blocks sb = (es, r, sb')" and apart: "tools_apart (sb_blocks sb)"
  obtain es1 r1 sb1 where one: "close_content_blocks sb = (es1, r1, sb1)"
    by (cases "close_content_blocks sb")
  have "r1 = Inr ()"
    using one by (auto simp: close_content_blocks_def gen_defs split: if_splits)
  moreover have "\<forall>(t, st) \<in> set (bm_tool_states (sb_blocks sb1)). map_of (bm_tool_states (sb_blocks sb1)) t = Some st"
    using apart close_content_frame [OF one] by (auto simp: tools_apart_def)
  ultimately show "r = Inr ()"
    using run one close_tools_run [of "bm_tool_states (sb_blocks sb1)" sb1]
    by (simp add: close_all_blocks_def gseq_def gbind_def gget_def)
qed

text \<open>The guard that keeps a text block from following a tool call on the error path does
  not see a tool call written as text. After such a call was emitted, with no native call
  started, a failing upstream makes the transport emit the error as a new text block after the
  tool_use block, which is what the guard is there to avoid.\<close>

theorem error_text_follows_heuristic_tool:
  assumes "tools_apart (sb_blocks sb)" and "\<not> has_emitted_tool_block (sb_blocks sb)"
  shows "\<exists>tool_events rest i. fst (gseq (iter_heuristic_tool_use_sse dumps tool) (error_close msg) sb)
             = tool_events @ rest
           \<and> has_tool_use tool_events \<and> content_block_start i (u ''text'') [] \<in> set rest"
proof -
  obtain es1 r1 sb1 where one: "iter_heuristic_tool_use_sse dumps tool sb = (es1, r1, sb1)"
    by (cases "iter_heuristic_tool_use_sse dumps tool sb")
  note tool_run = heuristic_tool_run [OF one]
  obtain es2 r2 sb2 where two: "close_all_blocks sb1 = (es2, r2, sb2)" by (cases "close_all_blocks sb1")
  have "r2 = Inr ()"
    by (rule close_all_returns [OF two]) (use tool_run assms(1) in \<open>simp add: tools_apart_def\<close>)
  moreover have "\<not> has_emitted_tool_block (sb_blocks sb2)"
    using close_all_frame [OF two] tool_run assms(2) by (simp add: has_emitted_tool_block_def)
  ultimately have "content_block_start (bm_next_index (sb_blocks sb2)) (u ''text'') []
      \<in> set (fst (error_close msg sb1))"
    by (simp add: error_close_def gseq_def gbind_def two gget_def emit_error_def allocate_index_def
        gyield_def)
  then show ?thesis
    using one tool_run
    by (intro exI [of _ es1] exI [of _ "fst (error_close msg sb1)"] exI [of _ "bm_next_index (sb_blocks sb2)"])
      (simp add: gseq_def gbind_def case_prod_unfold)
qed

theorem error_text_follows_heuristic_tool_witness:
  "\<exists>tool_events rest i. fst (gseq (iter_heuristic_tool_use_sse (\<lambda>j. u ''{}'')
        \<lparr>ht_id = u ''toolu_heuristic_1'', ht_name = u ''WebSearch'', ht_input = []\<rparr>)
        (error_close (u ''Provider API request failed.''))
        (sse_builder_init (u ''m'') (u ''model'') (JInt 1))) = tool_events @ rest
     \<and> has_tool_use tool_events \<and> content_block_start i (u ''text'') [] \<in> set rest"
  by (rule error_text_follows_heuristic_tool)
    (simp_all add: sse_builder_init_def block_manager_init_def tools_apart_def has_emitted_tool_block_def)

section \<open>A text the tokenizer refuses\<close>

text \<open>A reply whose reasoning quotes a special token, with no usage from the upstream, ends in the
  tokenizer's \<open>ValueError\<close>: all blocks are closed, but message_delta and message_stop are never sent.\<close>

definition special_token_chunk :: stream_chunk where
  "special_token_chunk =
     \<lparr>ck_usage = None,
      ck_choices = [\<lparr>cc_delta = Some \<lparr>cd_reasoning_content = Some (JStr (u ''<|endoftext|>'')),
                       cd_content = None, cd_tool_calls = []\<rparr>, cc_finish_reason = Some (u ''stop'')\<rparr>]\<rparr>"

lemma special_token_ends_stream:
  "case stream_response ((example_env True)\<lparr>en_encoder := Some (\<lambda>s. if s = u ''<|endoftext|>'' then None else Some (length s))\<rparr>)
      ([special_token_chunk], None) (u ''m'') (u ''model'') (JInt 1) of
     (es, r, t) \<Rightarrow> r = Inl ValueError \<and> message_stop \<notin> set es"
  by code_simp

end
