(* ===== verification/Snapshot_Queue.thy ===== *)
theory Snapshot_Queue
  imports Prelude
begin

text \<open>
  The queue of node ids of a message tree (\<open>_SnapshotQueue\<close>, \<open>messaging/trees/data.py\<close>): a deque
  with a set index for membership. The interface a client relies on is the locale
  \<open>id_queue\<close>, a queue of distinct ids seen as the list of its ids; the code's queue interprets
  it as long as no id is put while it is queued.
\<close>

record snapshot_queue =
  sq_deque :: "pystr list"
  sq_set :: "pystr set"

definition sq_init :: snapshot_queue where
  "sq_init = \<lparr>sq_deque = [], sq_set = {}\<rparr>"

definition sq_put :: "pystr \<Rightarrow> snapshot_queue \<Rightarrow> snapshot_queue" where
  "sq_put item q = \<lparr>sq_deque = sq_deque q @ [item], sq_set = insert item (sq_set q)\<rparr>"

text \<open>\<open>None\<close> is \<open>QueueEmpty\<close>.\<close>

definition sq_get :: "snapshot_queue \<Rightarrow> (pystr \<times> snapshot_queue) option" where
  "sq_get q =
     (case sq_deque q of
        [] \<Rightarrow> None
      | item # rest \<Rightarrow> Some (item, \<lparr>sq_deque = rest, sq_set = sq_set q - {item}\<rparr>))"

definition sq_size :: "snapshot_queue \<Rightarrow> nat" where
  "sq_size q = length (sq_deque q)"

definition sq_snapshot :: "snapshot_queue \<Rightarrow> pystr list" where
  "sq_snapshot q = sq_deque q"

definition sq_remove_if_present :: "pystr \<Rightarrow> snapshot_queue \<Rightarrow> bool \<times> snapshot_queue" where
  "sq_remove_if_present item q =
     (if item \<notin> sq_set q then (False, q)
      else (True, \<lparr>sq_deque = filter (\<lambda>x. x \<noteq> item) (sq_deque q), sq_set = sq_set q - {item}\<rparr>))"

text \<open>The index holds exactly the queued ids, each queued once.\<close>

definition sq_ok :: "snapshot_queue \<Rightarrow> bool" where
  "sq_ok q \<longleftrightarrow> sq_set q = set (sq_deque q) \<and> distinct (sq_deque q)"

section \<open>The interface\<close>

locale id_queue =
  fixes empty :: 'q
    and put :: "'a \<Rightarrow> 'q \<Rightarrow> 'q"
    and get :: "'q \<Rightarrow> ('a \<times> 'q) option"
    and remove :: "'a \<Rightarrow> 'q \<Rightarrow> bool \<times> 'q"
    and ids :: "'q \<Rightarrow> 'a list"
    and ok :: "'q \<Rightarrow> bool"
  assumes ok_empty: "ok empty" "ids empty = []"
    and ok_distinct: "ok q \<Longrightarrow> distinct (ids q)"
    and ok_put: "ok q \<Longrightarrow> x \<notin> set (ids q) \<Longrightarrow> ok (put x q)"
    and ids_put: "ok q \<Longrightarrow> x \<notin> set (ids q) \<Longrightarrow> ids (put x q) = ids q @ [x]"
    and get_None: "ok q \<Longrightarrow> get q = None \<longleftrightarrow> ids q = []"
    and get_Some: "ok q \<Longrightarrow> get q = Some (x, q') \<Longrightarrow> ok q' \<and> ids q = x # ids q'"
    and remove_law: "ok q \<Longrightarrow> remove x q = (b, q') \<Longrightarrow>
           ok q' \<and> (b \<longleftrightarrow> x \<in> set (ids q)) \<and> ids q' = List.filter (\<lambda>y. y \<noteq> x) (ids q)"
begin

lemma put_all:
  assumes "ok q" and "distinct (ids q @ xs)"
  shows "ok (foldl (\<lambda>q x. put x q) q xs) \<and> ids (foldl (\<lambda>q x. put x q) q xs) = ids q @ xs"
  using assms
proof (induction xs arbitrary: q)
  case (Cons x xs)
  have "x \<notin> set (ids q)" using Cons.prems(2) by auto
  with Cons.IH [of "put x q"] Cons.prems show ?case by (simp add: ok_put ids_put)
qed simp

text \<open>First in, first out, with ids cancelled in between.\<close>

lemma put_all_remove_get:
  assumes "distinct xs" and "remove y (foldl (\<lambda>q x. put x q) empty xs) = (b, q)"
  shows "(b \<longleftrightarrow> y \<in> set xs)
    \<and> (case get q of None \<Rightarrow> List.filter (\<lambda>x. x \<noteq> y) xs = []
       | Some (x, q') \<Rightarrow> List.filter (\<lambda>x. x \<noteq> y) xs = x # ids q')"
proof -
  have "ok (foldl (\<lambda>q x. put x q) empty xs)" "ids (foldl (\<lambda>q x. put x q) empty xs) = xs"
    using put_all [of empty xs] assms(1) ok_empty by simp_all
  with remove_law assms(2) have q: "ok q" "b \<longleftrightarrow> y \<in> set xs" "ids q = List.filter (\<lambda>x. x \<noteq> y) xs"
    by metis+
  show ?thesis
  proof (cases "get q")
    case None
    with q get_None [OF q(1)] show ?thesis by simp
  next
    case (Some p)
    obtain x q' where p: "p = (x, q')" by (cases p)
    with get_Some [OF q(1)] Some have "ids q = x # ids q'" by simp
    with Some p q show ?thesis by simp
  qed
qed

lemma get_step: "ok q \<Longrightarrow> get q = Some (x, q') \<Longrightarrow> ok q' \<and> x \<in> set (ids q) \<and> x \<notin> set (ids q')"
  using get_Some [of q x q'] ok_distinct [of q] by auto

end

text \<open>The code's queue provides it.\<close>

interpretation sq: id_queue sq_init sq_put sq_get sq_remove_if_present sq_snapshot sq_ok
proof
  show "sq_ok sq_init" "sq_snapshot sq_init = []"
    by (simp_all add: sq_ok_def sq_init_def sq_snapshot_def)
next
  fix q assume "sq_ok q"
  then show "distinct (sq_snapshot q)" by (simp add: sq_ok_def sq_snapshot_def)
next
  fix q x assume "sq_ok q" "x \<notin> set (sq_snapshot q)"
  then show "sq_ok (sq_put x q)" "sq_snapshot (sq_put x q) = sq_snapshot q @ [x]"
    by (auto simp: sq_ok_def sq_put_def sq_snapshot_def)
next
  fix q assume "sq_ok q"
  show "sq_get q = None \<longleftrightarrow> sq_snapshot q = []"
    by (simp add: sq_get_def sq_snapshot_def split: list.split)
next
  fix q x q' assume "sq_ok q" "sq_get q = Some (x, q')"
  then show "sq_ok q' \<and> sq_snapshot q = x # sq_snapshot q'"
    by (auto simp: sq_ok_def sq_get_def sq_snapshot_def split: list.splits)
next
  fix q x b q' assume "sq_ok q" "sq_remove_if_present x q = (b, q')"
  then show "sq_ok q' \<and> (b \<longleftrightarrow> x \<in> set (sq_snapshot q))
      \<and> sq_snapshot q' = filter (\<lambda>y. y \<noteq> x) (sq_snapshot q)"
    by (auto simp: sq_ok_def sq_remove_if_present_def sq_snapshot_def split: if_splits
        intro!: filter_True [symmetric])
qed

text \<open>The queue from a sequence of puts.\<close>

definition sq_put_all :: "pystr list \<Rightarrow> snapshot_queue" where
  "sq_put_all xs = foldl (\<lambda>q x. sq_put x q) sq_init xs"

text \<open>The queue is first in, first out under cancellation: after any distinct ids were put
  and one of them was removed, the removal reports whether it was queued, and \<open>get_nowait\<close> gives
  the earliest of the others and leaves the rest in order.\<close>

theorem queue_is_fifo_under_removal:
  assumes "distinct xs" and "sq_remove_if_present y (sq_put_all xs) = (b, q)"
  shows "(b \<longleftrightarrow> y \<in> set xs)
    \<and> (case sq_get q of None \<Rightarrow> filter (\<lambda>x. x \<noteq> y) xs = []
       | Some (x, q') \<Rightarrow> filter (\<lambda>x. x \<noteq> y) xs = x # sq_snapshot q')"
  using assms unfolding sq_put_all_def by (rule sq.put_all_remove_get)

theorem queue_is_fifo_under_removal_witness:
  "case sq_get (snd (sq_remove_if_present (u ''b'') (sq_put_all [u ''a'', u ''b'', u ''c'']))) of
     None \<Rightarrow> False | Some (x, q') \<Rightarrow> [u ''a'', u ''c''] = x # sq_snapshot q'"
  using queue_is_fifo_under_removal
    [of "[u ''a'', u ''b'', u ''c'']" "u ''b''" True
       "snd (sq_remove_if_present (u ''b'') (sq_put_all [u ''a'', u ''b'', u ''c'']))"]
  by (auto simp: sq_put_all_def sq_put_def sq_init_def sq_remove_if_present_def sq_get_def
      split: option.splits)

text \<open>An id put twice is lost to the index once it is taken: after the first copy is taken
  the second one is still queued, yet \<open>remove_if_present\<close> reports it absent and leaves it, so a
  cancelled id comes out again.\<close>

theorem duplicate_id_escapes_removal:
  assumes "x \<notin> set ys"
  shows "\<exists>q. sq_get (sq_put_all (x # ys @ [x])) = Some (x, q)
    \<and> x \<in> set (sq_snapshot q) \<and> sq_remove_if_present x q = (False, q)"
proof -
  have fold: "foldl (\<lambda>q x. sq_put x q) q zs = \<lparr>sq_deque = sq_deque q @ zs, sq_set = sq_set q \<union> set zs\<rparr>" for q zs
    by (induction zs arbitrary: q) (simp_all add: sq_put_def)
  have "sq_put_all (x # ys @ [x]) = \<lparr>sq_deque = x # ys @ [x], sq_set = insert x (set ys)\<rparr>"
    unfolding sq_put_all_def by (subst fold) (auto simp: sq_init_def)
  with assms show ?thesis
    by (simp add: sq_get_def sq_snapshot_def sq_remove_if_present_def)
qed

theorem duplicate_id_escapes_removal_witness:
  "\<exists>q. sq_get (sq_put_all [u ''a'', u ''b'', u ''a'']) = Some (u ''a'', q)
    \<and> u ''a'' \<in> set (sq_snapshot q) \<and> sq_remove_if_present (u ''a'') q = (False, q)"
  using duplicate_id_escapes_removal [of "u ''a''" "[u ''b'']"] by simp

end
