(* ===== verification/Tree_Data.thy ===== *)
theory Tree_Data
  imports Json Snapshot_Queue
begin

text \<open>
  Message trees (\<open>messaging/trees/data.py\<close>, \<open>messaging/models.py\<close>): nodes, the tree with its
  indices, its queue and processing fields, every operation on them, and the dictionaries they
  are saved as. Arguments of the model: the current time, and \<open>isoformat\<close> with
  \<open>fromisoformat\<close> (\<open>None\<close> when it raises). A datetime is its time stamp.
\<close>

record incoming_message =
  im_text :: pystr
  im_chat_id :: pystr
  im_user_id :: pystr
  im_message_id :: pystr
  im_platform :: pystr
  im_reply_to_message_id :: "pystr option"
  im_message_thread_id :: "pystr option"
  im_username :: "pystr option"
  im_status_message_id :: "pystr option"
  im_timestamp :: int
  im_raw_event :: json

definition is_reply :: "incoming_message \<Rightarrow> bool" where
  "is_reply m = (im_reply_to_message_id m \<noteq> None)"

datatype message_state = PENDING | IN_PROGRESS | COMPLETED | ERROR

definition state_value :: "message_state \<Rightarrow> pystr" where
  "state_value s = (case s of PENDING \<Rightarrow> u ''pending'' | IN_PROGRESS \<Rightarrow> u ''in_progress''
                    | COMPLETED \<Rightarrow> u ''completed'' | ERROR \<Rightarrow> u ''error'')"

text \<open>\<open>MessageState(value)\<close>.\<close>

definition state_of_value :: "pystr \<Rightarrow> message_state option" where
  "state_of_value v =
     (if v = u ''pending'' then Some PENDING else if v = u ''in_progress'' then Some IN_PROGRESS
      else if v = u ''completed'' then Some COMPLETED else if v = u ''error'' then Some ERROR
      else None)"

record message_node =
  mn_node_id :: pystr
  mn_incoming :: incoming_message
  mn_status_message_id :: pystr
  mn_state :: message_state
  mn_parent_id :: "pystr option"
  mn_session_id :: "pystr option"
  mn_children_ids :: "pystr list"
  mn_created_at :: int
  mn_completed_at :: "int option"
  mn_error_message :: "pystr option"
  mn_context :: json

definition new_node :: "pystr \<Rightarrow> incoming_message \<Rightarrow> pystr \<Rightarrow> pystr option \<Rightarrow> int \<Rightarrow> message_node" where
  "new_node node_id incoming status_message_id parent_id now =
     \<lparr>mn_node_id = node_id, mn_incoming = incoming, mn_status_message_id = status_message_id,
      mn_state = PENDING, mn_parent_id = parent_id, mn_session_id = None, mn_children_ids = [],
      mn_created_at = now, mn_completed_at = None, mn_error_message = None, mn_context = JNull\<rparr>"

section \<open>Dictionaries\<close>

definition opt_json :: "pystr option \<Rightarrow> json" where
  "opt_json v = (case v of None \<Rightarrow> JNull | Some s \<Rightarrow> JStr s)"

definition node_to_dict :: "(int \<Rightarrow> pystr) \<Rightarrow> message_node \<Rightarrow> (pystr \<times> json) list" where
  "node_to_dict isoformat n =
     (let m = mn_incoming n
      in [(u ''node_id'', JStr (mn_node_id n)),
          (u ''incoming'', JObj
            [(u ''text'', JStr (im_text m)), (u ''chat_id'', JStr (im_chat_id m)),
             (u ''user_id'', JStr (im_user_id m)), (u ''message_id'', JStr (im_message_id m)),
             (u ''platform'', JStr (im_platform m)),
             (u ''reply_to_message_id'', opt_json (im_reply_to_message_id m)),
             (u ''message_thread_id'', opt_json (im_message_thread_id m)),
             (u ''username'', opt_json (im_username m))]),
          (u ''status_message_id'', JStr (mn_status_message_id n)),
          (u ''state'', JStr (state_value (mn_state n))),
          (u ''parent_id'', opt_json (mn_parent_id n)),
          (u ''session_id'', opt_json (mn_session_id n)),
          (u ''children_ids'', JList (map JStr (mn_children_ids n))),
          (u ''created_at'', JStr (isoformat (mn_created_at n))),
          (u ''completed_at'', opt_json (map_option isoformat (mn_completed_at n))),
          (u ''error_message'', opt_json (mn_error_message n))])"

text \<open>Reading may fail on a missing key or a value that does not parse; a value of a JSON type that
  no saved dictionary has is rejected as unparsable.\<close>

datatype load_error = MissingKey | BadValue

type_synonym 'a loaded = "load_error + 'a"

definition load_bind :: "'a loaded \<Rightarrow> ('a \<Rightarrow> 'b loaded) \<Rightarrow> 'b loaded" where
  "load_bind r f = (case r of Inl e \<Rightarrow> Inl e | Inr a \<Rightarrow> f a)"

definition need :: "(pystr \<times> json) list \<Rightarrow> string \<Rightarrow> json loaded" where
  "need d k = (case map_of d (u k) of None \<Rightarrow> Inl MissingKey | Some v \<Rightarrow> Inr v)"

definition need_str :: "(pystr \<times> json) list \<Rightarrow> string \<Rightarrow> pystr loaded" where
  "need_str d k = load_bind (need d k) (\<lambda>v. case v of JStr s \<Rightarrow> Inr s | _ \<Rightarrow> Inl BadValue)"

definition opt_str :: "(pystr \<times> json) list \<Rightarrow> string \<Rightarrow> pystr option loaded" where
  "opt_str d k = (case dget d k of JNull \<Rightarrow> Inr None | JStr s \<Rightarrow> Inr (Some s) | _ \<Rightarrow> Inl BadValue)"

fun load_strs :: "json list \<Rightarrow> pystr list loaded" where
  "load_strs [] = Inr []"
| "load_strs (JStr s # vs) = load_bind (load_strs vs) (\<lambda>ss. Inr (s # ss))"
| "load_strs (_ # vs) = Inl BadValue"

definition load_time :: "(pystr \<Rightarrow> int option) \<Rightarrow> pystr \<Rightarrow> int loaded" where
  "load_time fromisoformat s = (case fromisoformat s of None \<Rightarrow> Inl BadValue | Some t \<Rightarrow> Inr t)"

definition incoming_from_dict :: "int \<Rightarrow> (pystr \<times> json) list \<Rightarrow> incoming_message loaded" where
  "incoming_from_dict now d =
     load_bind (need_str d ''text'') (\<lambda>txt.
     load_bind (need_str d ''chat_id'') (\<lambda>chat.
     load_bind (need_str d ''user_id'') (\<lambda>user.
     load_bind (need_str d ''message_id'') (\<lambda>msg.
     load_bind (need_str d ''platform'') (\<lambda>platform.
     load_bind (opt_str d ''reply_to_message_id'') (\<lambda>reply.
     load_bind (opt_str d ''message_thread_id'') (\<lambda>thread.
     load_bind (opt_str d ''username'') (\<lambda>username.
       Inr \<lparr>im_text = txt, im_chat_id = chat, im_user_id = user, im_message_id = msg,
            im_platform = platform, im_reply_to_message_id = reply, im_message_thread_id = thread,
            im_username = username, im_status_message_id = None, im_timestamp = now,
            im_raw_event = JNull\<rparr>))))))))"

definition node_from_dict ::
  "(pystr \<Rightarrow> int option) \<Rightarrow> int \<Rightarrow> (pystr \<times> json) list \<Rightarrow> message_node loaded" where
  "node_from_dict fromisoformat now d =
     load_bind (load_bind (need d ''incoming'') (\<lambda>v. case v of
        JObj i \<Rightarrow> incoming_from_dict now i | _ \<Rightarrow> Inl BadValue)) (\<lambda>incoming.
     load_bind (need_str d ''node_id'') (\<lambda>node_id.
     load_bind (need_str d ''status_message_id'') (\<lambda>status.
     load_bind (load_bind (need_str d ''state'') (\<lambda>v. case state_of_value v of
        None \<Rightarrow> Inl BadValue | Some s \<Rightarrow> Inr s)) (\<lambda>state.
     load_bind (opt_str d ''parent_id'') (\<lambda>parent.
     load_bind (opt_str d ''session_id'') (\<lambda>session.
     load_bind (case dget_or d ''children_ids'' (JList []) of
        JList vs \<Rightarrow> load_strs vs | _ \<Rightarrow> Inl BadValue) (\<lambda>children.
     load_bind (load_bind (need_str d ''created_at'') (load_time fromisoformat)) (\<lambda>created.
     load_bind (load_bind (opt_str d ''completed_at'') (\<lambda>c. case c of
        None \<Rightarrow> Inr None
      | Some s \<Rightarrow> if s = [] then Inr None
                 else load_bind (load_time fromisoformat s) (\<lambda>t. Inr (Some t)))) (\<lambda>completed.
     load_bind (opt_str d ''error_message'') (\<lambda>error_message.
       Inr \<lparr>mn_node_id = node_id, mn_incoming = incoming, mn_status_message_id = status,
            mn_state = state, mn_parent_id = parent, mn_session_id = session,
            mn_children_ids = children, mn_created_at = created, mn_completed_at = completed,
            mn_error_message = error_message, mn_context = JNull\<rparr>))))))))))"

section \<open>The tree\<close>

record message_tree =
  mt_root_id :: pystr
  mt_nodes :: "(pystr, message_node) dict"
  mt_status_to_node :: "(pystr, pystr) dict"
  mt_queue :: snapshot_queue
  mt_is_processing :: bool
  mt_current_node_id :: "pystr option"
  mt_current_task :: "nat option"

definition new_tree :: "message_node \<Rightarrow> message_tree" where
  "new_tree root_node =
     \<lparr>mt_root_id = mn_node_id root_node, mt_nodes = [(mn_node_id root_node, root_node)],
      mt_status_to_node = [(mn_status_message_id root_node, mn_node_id root_node)],
      mt_queue = sq_init, mt_is_processing = False, mt_current_node_id = None,
      mt_current_task = None\<rparr>"

definition get_node :: "message_tree \<Rightarrow> pystr \<Rightarrow> message_node option" where
  "get_node t node_id = map_of (mt_nodes t) node_id"

text \<open>A change of the node object stored under an id.\<close>

definition upd_node :: "pystr \<Rightarrow> (message_node \<Rightarrow> message_node) \<Rightarrow> message_tree \<Rightarrow> message_tree" where
  "upd_node node_id f t =
     (case get_node t node_id of
        None \<Rightarrow> t
      | Some n \<Rightarrow> t\<lparr>mt_nodes := AList.update node_id (f n) (mt_nodes t)\<rparr>)"

text \<open>\<open>None\<close> is the \<open>ValueError\<close> of an unknown parent.\<close>

definition add_node ::
  "pystr \<Rightarrow> incoming_message \<Rightarrow> pystr \<Rightarrow> pystr \<Rightarrow> int \<Rightarrow> message_tree \<Rightarrow> message_tree option" where
  "add_node node_id incoming status_message_id parent_id now t =
     (if \<not> has_key (mt_nodes t) parent_id then None
      else
        (let node = new_node node_id incoming status_message_id (Some parent_id) now;
             t1 = t\<lparr>mt_nodes := AList.update node_id node (mt_nodes t),
                    mt_status_to_node := AList.update status_message_id node_id (mt_status_to_node t)\<rparr>
         in Some (upd_node parent_id
                   (\<lambda>p. p\<lparr>mn_children_ids := mn_children_ids p @ [node_id]\<rparr>) t1)))"

definition get_children :: "message_tree \<Rightarrow> pystr \<Rightarrow> message_node list" where
  "get_children t node_id =
     (case get_node t node_id of
        None \<Rightarrow> []
      | Some n \<Rightarrow> List.map_filter (get_node t) (mn_children_ids n))"

definition get_parent :: "message_tree \<Rightarrow> pystr \<Rightarrow> message_node option" where
  "get_parent t node_id =
     (case get_node t node_id of
        None \<Rightarrow> None
      | Some n \<Rightarrow> (case mn_parent_id n of
                     None \<Rightarrow> None
                   | Some p \<Rightarrow> if p = [] then None else get_node t p))"

definition get_parent_session_id :: "message_tree \<Rightarrow> pystr \<Rightarrow> pystr option" where
  "get_parent_session_id t node_id =
     (case get_parent t node_id of None \<Rightarrow> None | Some p \<Rightarrow> mn_session_id p)"

definition set_if_given :: "pystr option \<Rightarrow> pystr option \<Rightarrow> pystr option" where
  "set_if_given new old = (case new of None \<Rightarrow> old | Some s \<Rightarrow> if s = [] then old else Some s)"

definition update_state ::
  "pystr \<Rightarrow> message_state \<Rightarrow> pystr option \<Rightarrow> pystr option \<Rightarrow> int \<Rightarrow> message_tree \<Rightarrow> message_tree" where
  "update_state node_id state session_id error_message now =
     upd_node node_id (\<lambda>n. n\<lparr>mn_state := state,
       mn_session_id := set_if_given session_id (mn_session_id n),
       mn_error_message := set_if_given error_message (mn_error_message n),
       mn_completed_at := (if state \<in> {COMPLETED, ERROR} then Some now else mn_completed_at n)\<rparr>)"

definition enqueue :: "pystr \<Rightarrow> message_tree \<Rightarrow> nat \<times> message_tree" where
  "enqueue node_id t =
     (let q = sq_put node_id (mt_queue t) in (sq_size q, t\<lparr>mt_queue := q\<rparr>))"

definition dequeue :: "message_tree \<Rightarrow> pystr option \<times> message_tree" where
  "dequeue t =
     (case sq_get (mt_queue t) of
        None \<Rightarrow> (None, t)
      | Some (item, q) \<Rightarrow> (Some item, t\<lparr>mt_queue := q\<rparr>))"

definition remove_from_queue :: "pystr \<Rightarrow> message_tree \<Rightarrow> bool \<times> message_tree" where
  "remove_from_queue node_id t =
     (case sq_remove_if_present node_id (mt_queue t) of (b, q) \<Rightarrow> (b, t\<lparr>mt_queue := q\<rparr>))"

definition set_processing_state :: "pystr option \<Rightarrow> bool \<Rightarrow> message_tree \<Rightarrow> message_tree" where
  "set_processing_state node_id is_processing t =
     t\<lparr>mt_is_processing := is_processing,
       mt_current_node_id := (if is_processing then node_id else None)\<rparr>"

definition clear_current_node :: "message_tree \<Rightarrow> message_tree" where
  "clear_current_node t = t\<lparr>mt_current_node_id := None\<rparr>"

definition is_current_node :: "pystr \<Rightarrow> message_tree \<Rightarrow> bool" where
  "is_current_node node_id t = (mt_current_node_id t = Some node_id)"

definition put_queue_unlocked :: "pystr \<Rightarrow> message_tree \<Rightarrow> message_tree" where
  "put_queue_unlocked node_id t = t\<lparr>mt_queue := sq_put node_id (mt_queue t)\<rparr>"

definition set_node_error_sync :: "pystr \<Rightarrow> pystr \<Rightarrow> int \<Rightarrow> message_tree \<Rightarrow> message_tree" where
  "set_node_error_sync node_id error_message now =
     upd_node node_id (\<lambda>n. n\<lparr>mn_state := ERROR, mn_error_message := Some error_message,
                            mn_completed_at := Some now\<rparr>)"

text \<open>The affected nodes are given by their ids.\<close>

function drain_queue :: "pystr \<Rightarrow> int \<Rightarrow> message_tree \<Rightarrow> pystr list \<times> message_tree" where
  "drain_queue error_message now t =
     (case sq_get (mt_queue t) of
        None \<Rightarrow> ([], t)
      | Some (node_id, q) \<Rightarrow>
          (let t1 = t\<lparr>mt_queue := q\<rparr>
           in if has_key (mt_nodes t1) node_id
              then (case drain_queue error_message now (set_node_error_sync node_id error_message now t1) of
                      (nodes, t2) \<Rightarrow> (node_id # nodes, t2))
              else drain_queue error_message now t1))"
  by pat_completeness auto
termination
  by (relation "measure (\<lambda>(e, now, t). sq_size (mt_queue t))")
    (auto simp: sq_get_def sq_size_def set_node_error_sync_def upd_node_def split: list.splits option.splits)

declare drain_queue.simps [simp del]

definition reset_processing_state :: "message_tree \<Rightarrow> message_tree" where
  "reset_processing_state t = t\<lparr>mt_is_processing := False, mt_current_node_id := None\<rparr>"

definition find_node_by_status_message :: "message_tree \<Rightarrow> pystr \<Rightarrow> message_node option" where
  "find_node_by_status_message t status_msg_id =
     (case map_of (mt_status_to_node t) status_msg_id of
        None \<Rightarrow> None
      | Some node_id \<Rightarrow> if node_id = [] then None else get_node t node_id)"

text \<open>The traversal takes the end of its stack; on a tree with a cycle it never returns, which is
  the value \<open>None\<close>.\<close>

partial_function (option) desc_loop ::
  "(pystr, message_node) dict \<Rightarrow> pystr list \<Rightarrow> pystr list \<Rightarrow> pystr list option" where
  "desc_loop nodes stack result =
     (if stack = [] then Some result
      else
        (let nid = last stack; stack' = butlast stack
         in case map_of nodes nid of
              None \<Rightarrow> desc_loop nodes stack' (result @ [nid])
            | Some n \<Rightarrow> desc_loop nodes (stack' @ mn_children_ids n) (result @ [nid])))"

declare desc_loop.simps [code]

definition get_descendants :: "message_tree \<Rightarrow> pystr \<Rightarrow> pystr list option" where
  "get_descendants t node_id =
     (if \<not> has_key (mt_nodes t) node_id then Some [] else desc_loop (mt_nodes t) [node_id] [])"

text \<open>The deletions of \<open>remove_branch\<close>; \<open>del\<close> of a missing status id raises \<open>KeyError\<close>, which
  leaves the tree with what was deleted so far.\<close>

fun remove_nodes :: "pystr list \<Rightarrow> message_tree \<Rightarrow> (load_error + message_node list) \<times> message_tree" where
  "remove_nodes [] t = (Inr [], t)"
| "remove_nodes (nid # nids) t =
     (case get_node t nid of
        None \<Rightarrow> remove_nodes nids t
      | Some n \<Rightarrow>
          (let t1 = t\<lparr>mt_nodes := AList.delete nid (mt_nodes t)\<rparr>
           in if \<not> has_key (mt_status_to_node t1) (mn_status_message_id n) then (Inl MissingKey, t1)
              else (case remove_nodes nids (t1\<lparr>mt_status_to_node :=
                           AList.delete (mn_status_message_id n) (mt_status_to_node t1)\<rparr>) of
                      (Inl e, t2) \<Rightarrow> (Inl e, t2)
                    | (Inr removed, t2) \<Rightarrow> (Inr (n # removed), t2))))"

definition remove_branch ::
  "pystr \<Rightarrow> message_tree \<Rightarrow> ((load_error + message_node list) \<times> message_tree) option" where
  "remove_branch branch_root_id t =
     (if \<not> has_key (mt_nodes t) branch_root_id then Some (Inr [], t)
      else
        (case get_descendants t branch_root_id of
           None \<Rightarrow> None
         | Some nids \<Rightarrow>
             (case remove_nodes nids t of
                (Inl e, t1) \<Rightarrow> Some (Inl e, t1)
              | (Inr removed, t1) \<Rightarrow>
                  Some (Inr removed,
                    (case get_parent t branch_root_id of
                       None \<Rightarrow> t1
                     | Some p \<Rightarrow>
                         upd_node (mn_node_id p) (\<lambda>p. p\<lparr>mn_children_ids :=
                           filter (\<lambda>c. c \<noteq> branch_root_id) (mn_children_ids p)\<rparr>) t1)))))"

definition tree_to_dict :: "(int \<Rightarrow> pystr) \<Rightarrow> message_tree \<Rightarrow> (pystr \<times> json) list" where
  "tree_to_dict isoformat t =
     [(u ''root_id'', JStr (mt_root_id t)),
      (u ''nodes'', JObj (map (\<lambda>(nid, n). (nid, JObj (node_to_dict isoformat n))) (mt_nodes t)))]"

definition add_node_from_dict :: "message_node \<Rightarrow> message_tree \<Rightarrow> message_tree" where
  "add_node_from_dict n t =
     t\<lparr>mt_nodes := AList.update (mn_node_id n) n (mt_nodes t),
       mt_status_to_node := AList.update (mn_status_message_id n) (mn_node_id n) (mt_status_to_node t)\<rparr>"

definition node_of_json :: "(pystr \<Rightarrow> int option) \<Rightarrow> int \<Rightarrow> json \<Rightarrow> message_node loaded" where
  "node_of_json fromisoformat now v =
     (case v of JObj d \<Rightarrow> node_from_dict fromisoformat now d | _ \<Rightarrow> Inl BadValue)"

fun load_nodes ::
  "(pystr \<Rightarrow> int option) \<Rightarrow> int \<Rightarrow> pystr \<Rightarrow> (pystr \<times> json) list \<Rightarrow> message_tree \<Rightarrow> message_tree loaded" where
  "load_nodes fromisoformat now root_id [] t = Inr t"
| "load_nodes fromisoformat now root_id ((nid, v) # rest) t =
     (if nid = root_id then load_nodes fromisoformat now root_id rest t
      else load_bind (node_of_json fromisoformat now v) (\<lambda>n.
             load_nodes fromisoformat now root_id rest (add_node_from_dict n t)))"

definition tree_from_dict ::
  "(pystr \<Rightarrow> int option) \<Rightarrow> int \<Rightarrow> (pystr \<times> json) list \<Rightarrow> message_tree loaded" where
  "tree_from_dict fromisoformat now d =
     load_bind (need_str d ''root_id'') (\<lambda>root_id.
     load_bind (load_bind (need d ''nodes'') (\<lambda>v. case v of JObj ns \<Rightarrow> Inr ns | _ \<Rightarrow> Inl BadValue))
       (\<lambda>nodes_data.
          load_bind (case map_of nodes_data root_id of
                       None \<Rightarrow> Inl MissingKey | Some v \<Rightarrow> node_of_json fromisoformat now v)
            (\<lambda>root_node. load_nodes fromisoformat now root_id nodes_data (new_tree root_node))))"

section \<open>Well-formed trees\<close>

text \<open>Every node is stored under its id, which is not empty, and found by its status message; the
  root is there and has no parent; children point at their parents, no id is a child twice, and
  the ids can be ranked so that children rank higher.\<close>

definition ranked :: "(pystr \<Rightarrow> message_node option) \<Rightarrow> (pystr \<Rightarrow> nat) \<Rightarrow> bool" where
  "ranked m r \<longleftrightarrow> (\<forall>p n c. m p = Some n \<longrightarrow> c \<in> set (mn_children_ids n) \<longrightarrow> r p < r c)"

definition linked :: "(pystr \<Rightarrow> message_node option) \<Rightarrow> bool" where
  "linked m \<longleftrightarrow>
     (\<forall>p n. m p = Some n \<longrightarrow> mn_node_id n = p \<and> distinct (mn_children_ids n)
        \<and> (\<forall>c \<in> set (mn_children_ids n). \<exists>k. m c = Some k \<and> mn_parent_id k = Some p))"

definition wf_tree :: "message_tree \<Rightarrow> bool" where
  "wf_tree t \<longleftrightarrow>
     linked (get_node t) \<and> (\<exists>r. ranked (get_node t) r) \<and> get_node t [] = None
     \<and> (\<exists>n. get_node t (mt_root_id t) = Some n \<and> mn_parent_id n = None)
     \<and> (\<forall>p n. get_node t p = Some n \<longrightarrow> map_of (mt_status_to_node t) (mn_status_message_id n) = Some p)"

lemma get_node_finite [simp]: "finite (dom (get_node t))"
  unfolding get_node_def by (rule finite_dom_map_of)

lemma get_node_upd [simp]:
  "get_node (upd_node i f t) j =
     (if j = i then map_option f (get_node t i) else get_node t j)"
  by (auto simp: upd_node_def get_node_def split: option.split)

lemma upd_node_fields [simp]:
  "mt_root_id (upd_node i f t) = mt_root_id t" "mt_queue (upd_node i f t) = mt_queue t"
  "mt_status_to_node (upd_node i f t) = mt_status_to_node t"
  "mt_is_processing (upd_node i f t) = mt_is_processing t"
  "mt_current_node_id (upd_node i f t) = mt_current_node_id t"
  "mt_current_task (upd_node i f t) = mt_current_task t"
  by (simp_all add: upd_node_def split: option.split)

lemma linked_child:
  "linked m \<Longrightarrow> m p = Some n \<Longrightarrow> c \<in> set (mn_children_ids n) \<Longrightarrow> \<exists>k. m c = Some k \<and> mn_parent_id k = Some p"
  unfolding linked_def by blast

lemma linked_children_distinct: "linked m \<Longrightarrow> m p = Some n \<Longrightarrow> distinct (mn_children_ids n)"
  unfolding linked_def by blast

text \<open>A change of a node that keeps its id, parent, children and status message keeps the tree
  well-formed: so do all state changes.\<close>

definition same_links :: "message_node \<Rightarrow> message_node \<Rightarrow> bool" where
  "same_links n n' \<longleftrightarrow> mn_node_id n' = mn_node_id n \<and> mn_parent_id n' = mn_parent_id n
     \<and> mn_children_ids n' = mn_children_ids n \<and> mn_status_message_id n' = mn_status_message_id n"

lemma wf_upd_node:
  assumes wf: "wf_tree t" and same: "\<And>n. same_links n (f n)"
  shows "wf_tree (upd_node i f t)"
proof -
  let ?t = "upd_node i f t"
  have node: "\<exists>n0. get_node t p = Some n0 \<and> same_links n0 n" if "get_node ?t p = Some n" for p n
    using that same by (auto simp: same_links_def split: if_splits)
  have node': "\<exists>n. get_node ?t p = Some n \<and> same_links n0 n" if "get_node t p = Some n0" for p n0
    using that same by (auto simp: same_links_def)
  have "linked (get_node ?t)"
    unfolding linked_def
  proof (intro allI impI conjI ballI)
    fix p n assume "get_node ?t p = Some n"
    then obtain n0 where n0: "get_node t p = Some n0" "same_links n0 n" using node by blast
    have l: "linked (get_node t)" using wf by (simp add: wf_tree_def)
    show "mn_node_id n = p" using l n0 by (auto simp: linked_def same_links_def)
    show "distinct (mn_children_ids n)"
      using linked_children_distinct [OF l n0(1)] n0(2) by (simp add: same_links_def)
    fix c assume "c \<in> set (mn_children_ids n)"
    with n0 linked_child [OF l n0(1)] obtain k0 where k0: "get_node t c = Some k0" "mn_parent_id k0 = Some p"
      by (auto simp: same_links_def)
    obtain k where "get_node ?t c = Some k" "same_links k0 k" using node' [OF k0(1)] by blast
    with k0 show "\<exists>k. get_node ?t c = Some k \<and> mn_parent_id k = Some p"
      by (auto simp: same_links_def simp del: get_node_upd)
  qed
  moreover obtain r where r: "ranked (get_node t) r" using wf unfolding wf_tree_def by blast
  have "ranked (get_node ?t) r"
    unfolding ranked_def
  proof (intro allI impI)
    fix p n c assume n: "get_node ?t p = Some n" and c: "c \<in> set (mn_children_ids n)"
    obtain n0 where "get_node t p = Some n0" "same_links n0 n" using node [OF n] by blast
    with r c show "r p < r c" by (auto simp: ranked_def same_links_def)
  qed
  moreover obtain n0 where n0: "get_node t (mt_root_id t) = Some n0" "mn_parent_id n0 = None"
    using wf unfolding wf_tree_def by blast
  obtain n1 where "get_node ?t (mt_root_id t) = Some n1" "same_links n0 n1" using node' [OF n0(1)] by blast
  then have "\<exists>n. get_node ?t (mt_root_id ?t) = Some n \<and> mn_parent_id n = None"
    using n0(2) by (intro exI [of _ n1]) (simp add: same_links_def del: get_node_upd)
  moreover have "get_node ?t [] = None" using wf by (simp add: wf_tree_def)
  moreover have "map_of (mt_status_to_node ?t) (mn_status_message_id n) = Some p"
    if n: "get_node ?t p = Some n" for p n
  proof -
    obtain n0 where "get_node t p = Some n0" "same_links n0 n" using node [OF n] by blast
    with wf show ?thesis unfolding wf_tree_def by (simp add: same_links_def)
  qed
  ultimately show ?thesis unfolding wf_tree_def by blast
qed

lemma wf_update_state: "wf_tree t \<Longrightarrow> wf_tree (update_state i st sid err now t)"
  unfolding update_state_def by (rule wf_upd_node) (simp_all add: same_links_def)

lemma wf_set_node_error: "wf_tree t \<Longrightarrow> wf_tree (set_node_error_sync i err now t)"
  unfolding set_node_error_sync_def by (rule wf_upd_node) (simp_all add: same_links_def)

lemma wf_tree_frame:
  "mt_nodes t' = mt_nodes t \<Longrightarrow> mt_root_id t' = mt_root_id t
   \<Longrightarrow> mt_status_to_node t' = mt_status_to_node t \<Longrightarrow> wf_tree t' = wf_tree t"
  by (simp add: wf_tree_def get_node_def [abs_def])

lemma wf_new_tree:
  "mn_children_ids n = [] \<Longrightarrow> mn_parent_id n = None \<Longrightarrow> mn_node_id n \<noteq> [] \<Longrightarrow> wf_tree (new_tree n)"
  by (auto simp: wf_tree_def new_tree_def get_node_def [abs_def] linked_def ranked_def split: if_splits)

text \<open>Adding a node under a fresh id and a fresh status message.\<close>

definition fresh_for :: "pystr \<Rightarrow> pystr \<Rightarrow> message_tree \<Rightarrow> bool" where
  "fresh_for node_id status t \<longleftrightarrow> node_id \<noteq> [] \<and> \<not> has_key (mt_nodes t) node_id \<and> \<not> has_key (mt_status_to_node t) status"

lemma add_node_lookup:
  assumes "add_node i m status p now t = Some t'" and "fresh_for i status t"
  shows "\<exists>pn. get_node t p = Some pn \<and> p \<noteq> i \<and> get_node t i = None
    \<and> get_node t' = (get_node t)(i \<mapsto> new_node i m status (Some p) now,
                                   p \<mapsto> pn\<lparr>mn_children_ids := mn_children_ids pn @ [i]\<rparr>)
    \<and> map_of (mt_status_to_node t') = (map_of (mt_status_to_node t))(status \<mapsto> i)
    \<and> mt_root_id t' = mt_root_id t"
proof -
  have p: "has_key (mt_nodes t) p" and i: "\<not> has_key (mt_nodes t) i"
    using assms by (auto simp: add_node_def fresh_for_def split: if_splits)
  then obtain pn where pn: "get_node t p = Some pn" by (auto simp: has_key_def get_node_def)
  have "p \<noteq> i" using p i by auto
  moreover have "get_node t i = None" using i by (auto simp: has_key_def get_node_def domIff)
  moreover have "get_node t' = (get_node t)(i \<mapsto> new_node i m status (Some p) now,
                                   p \<mapsto> pn\<lparr>mn_children_ids := mn_children_ids pn @ [i]\<rparr>)"
    using assms(1) p pn \<open>p \<noteq> i\<close>
    by (intro ext) (auto simp: add_node_def Let_def, auto simp: get_node_def)
  moreover have "map_of (mt_status_to_node t') = (map_of (mt_status_to_node t))(status \<mapsto> i)"
      "mt_root_id t' = mt_root_id t"
    using assms(1) p by (auto simp: add_node_def Let_def)
  ultimately show ?thesis using pn by blast
qed

lemma wf_add_node:
  assumes wf: "wf_tree t" and add: "add_node i m status p now t = Some t'" and fresh: "fresh_for i status t"
  shows "wf_tree t'"
proof -
  let ?new = "new_node i m status (Some p) now"
  obtain pn where pn: "get_node t p = Some pn" "p \<noteq> i" "get_node t i = None"
    and look: "get_node t' = (get_node t)(i \<mapsto> ?new, p \<mapsto> pn\<lparr>mn_children_ids := mn_children_ids pn @ [i]\<rparr>)"
    and status: "map_of (mt_status_to_node t') = (map_of (mt_status_to_node t))(status \<mapsto> i)"
    and root: "mt_root_id t' = mt_root_id t"
    using add_node_lookup [OF add fresh] by blast
  have l: "linked (get_node t)" using wf by (simp add: wf_tree_def)
  have no_i: "i \<notin> set (mn_children_ids n)" if "get_node t q = Some n" for q n
    using linked_child [OF l that, of i] pn(3) by auto
  have "linked (get_node t')"
    unfolding linked_def
  proof (intro allI impI conjI ballI)
    fix q n assume n: "get_node t' q = Some n"
    show "mn_node_id n = q"
      using n l pn unfolding look linked_def by (auto simp: new_node_def split: if_splits)
    show "distinct (mn_children_ids n)"
      using n pn linked_children_distinct [OF l] no_i unfolding look
      by (auto simp: new_node_def split: if_splits)
    fix c assume c: "c \<in> set (mn_children_ids n)"
    have "q \<noteq> i" using n c pn(2) by (auto simp: look new_node_def)
    show "\<exists>k. get_node t' c = Some k \<and> mn_parent_id k = Some q"
    proof (cases "c = i")
      case True
      then have "q = p" using n c no_i \<open>q \<noteq> i\<close> pn(2) by (auto simp: look split: if_splits)
      with True pn(2) show ?thesis by (simp add: look new_node_def)
    next
      case False
      then obtain n0 where "get_node t q = Some n0" "c \<in> set (mn_children_ids n0)"
        using n c \<open>q \<noteq> i\<close> pn by (auto simp: look split: if_splits)
      from linked_child [OF l this] obtain k where "get_node t c = Some k" "mn_parent_id k = Some q" by blast
      with False pn show ?thesis by (cases "c = p") (auto simp: look)
    qed
  qed
  moreover obtain r where r: "ranked (get_node t) r" using wf unfolding wf_tree_def by blast
  have "ranked (get_node t') (r(i := Suc (r p)))"
    unfolding ranked_def
  proof (intro allI impI)
    fix q n c assume n: "get_node t' q = Some n" and c: "c \<in> set (mn_children_ids n)"
    have "q \<noteq> i" using n c pn(2) by (auto simp: look new_node_def)
    show "(r(i := Suc (r p))) q < (r(i := Suc (r p))) c"
    proof (cases "c = i")
      case True
      then have "q = p" using n c no_i \<open>q \<noteq> i\<close> pn(2) by (auto simp: look split: if_splits)
      with True pn(2) show ?thesis by simp
    next
      case False
      then obtain n0 where "get_node t q = Some n0" "c \<in> set (mn_children_ids n0)"
        using n c \<open>q \<noteq> i\<close> pn by (auto simp: look split: if_splits)
      with r False \<open>q \<noteq> i\<close> show ?thesis by (auto simp: ranked_def)
    qed
  qed
  moreover have "\<exists>n. get_node t' (mt_root_id t') = Some n \<and> mn_parent_id n = None"
    using wf pn by (cases "mt_root_id t = p") (auto simp: wf_tree_def root look)
  moreover have "get_node t' [] = None"
    using wf pn fresh by (auto simp: wf_tree_def fresh_for_def look)
  moreover have "map_of (mt_status_to_node t') (mn_status_message_id n) = Some q"
    if n: "get_node t' q = Some n" for q n
  proof (cases "q = i")
    case True
    with n pn(2) show ?thesis by (auto simp: look status new_node_def)
  next
    case False
    obtain n0 where n0: "get_node t q = Some n0" "mn_status_message_id n0 = mn_status_message_id n"
      using n pn False by (auto simp: look split: if_splits)
    have "map_of (mt_status_to_node t) (mn_status_message_id n) = Some q"
      using wf n0 unfolding wf_tree_def by metis
    moreover have "map_of (mt_status_to_node t) status = None"
      using fresh by (auto simp: fresh_for_def has_key_def)
    ultimately show ?thesis by (auto simp: status)
  qed
  ultimately show ?thesis unfolding wf_tree_def by blast
qed

section \<open>The traversal\<close>

text \<open>The ids below a node.\<close>

inductive below :: "(pystr \<Rightarrow> message_node option) \<Rightarrow> pystr \<Rightarrow> pystr \<Rightarrow> bool" for m a where
  below_refl: "m a \<noteq> None \<Longrightarrow> below m a a"
| below_child: "below m a p \<Longrightarrow> m p = Some n \<Longrightarrow> c \<in> set (mn_children_ids n) \<Longrightarrow> m c \<noteq> None \<Longrightarrow> below m a c"

text \<open>What the loop keeps: visited and waiting ids are distinct nodes below the start, every child of
  a visited node is visited or waiting, and every id but the start has a visited parent.\<close>

definition walk_ok :: "(pystr \<Rightarrow> message_node option) \<Rightarrow> pystr \<Rightarrow> pystr list \<Rightarrow> pystr list \<Rightarrow> bool" where
  "walk_ok m a stack result \<longleftrightarrow>
     distinct (result @ stack) \<and> a \<in> set (result @ stack)
     \<and> (\<forall>x \<in> set (result @ stack). below m a x)
     \<and> (\<forall>x \<in> set result. \<forall>n. m x = Some n \<longrightarrow> set (mn_children_ids n) \<subseteq> set (result @ stack))
     \<and> (\<forall>x \<in> set (result @ stack). x \<noteq> a \<longrightarrow> (\<exists>n p. m x = Some n \<and> mn_parent_id n = Some p \<and> p \<in> set result))"

lemma walk_ok_parent:
  assumes "walk_ok m a stack result" and "x \<in> set (result @ stack)" and "x \<noteq> a"
  shows "\<exists>n p. m x = Some n \<and> mn_parent_id n = Some p \<and> p \<in> set result"
  using assms(1) unfolding walk_ok_def using assms(2,3) by meson

lemma walk_ok_children:
  "walk_ok m a stack result \<Longrightarrow> x \<in> set result \<Longrightarrow> m x = Some n
   \<Longrightarrow> set (mn_children_ids n) \<subseteq> set (result @ stack)"
  unfolding walk_ok_def by meson

lemma below_known: "below m a x \<Longrightarrow> m x \<noteq> None"
  by (induction rule: below.induct) auto

lemma below_rank:
  assumes "ranked m r" and "below m a x"
  shows "r a \<le> r x"
  using assms(2)
proof (induction rule: below.induct)
  case (below_child p n c)
  with assms(1) show ?case unfolding ranked_def by (meson less_imp_le_nat order.trans)
qed simp

lemma walk_step:
  assumes ok: "walk_ok m a (stack @ [x]) result" and l: "linked m" and r: "ranked m r"
    and n: "m x = Some n"
  shows "walk_ok m a (stack @ mn_children_ids n) (result @ [x])"
proof -
  let ?cs = "mn_children_ids n"
  have bx: "below m a x" using ok by (simp add: walk_ok_def)
  have x_new: "x \<notin> set result" using ok by (auto simp: walk_ok_def)
  have fresh: "c \<notin> set (result @ stack @ [x])" if c: "c \<in> set ?cs" for c
  proof
    assume "c \<in> set (result @ stack @ [x])"
    obtain k where k: "m c = Some k" "mn_parent_id k = Some x" using linked_child [OF l n c] by blast
    have "r x < r c" using r n c unfolding ranked_def by blast
    then have "c \<noteq> a" using below_rank [OF r bx] by auto
    then obtain n' p where "m c = Some n'" "mn_parent_id n' = Some p" "p \<in> set result"
      using walk_ok_parent [OF ok \<open>c \<in> set (result @ stack @ [x])\<close>] by blast
    with k x_new show False by simp
  qed
  have d: "distinct ?cs" by (rule linked_children_distinct [OF l n])
  have below_c: "below m a c" if "c \<in> set ?cs" for c
    using below_child [OF bx n that] linked_child [OF l n that] by auto
  show ?thesis
    unfolding walk_ok_def
  proof (intro conjI ballI allI impI)
    show "distinct ((result @ [x]) @ stack @ ?cs)"
      using ok d fresh by (auto simp: walk_ok_def)
    show "a \<in> set ((result @ [x]) @ stack @ ?cs)" using ok by (auto simp: walk_ok_def)
  next
    fix y assume "y \<in> set ((result @ [x]) @ stack @ ?cs)"
    then show "below m a y" using ok below_c by (auto simp: walk_ok_def)
  next
    fix y n' assume y: "y \<in> set (result @ [x])" "m y = Some n'"
    show "set (mn_children_ids n') \<subseteq> set ((result @ [x]) @ stack @ ?cs)"
    proof (cases "y = x")
      case True
      with y(2) n show ?thesis by auto
    next
      case False
      with y walk_ok_children [OF ok, of y n'] show ?thesis by auto
    qed
  next
    fix y assume y: "y \<in> set ((result @ [x]) @ stack @ ?cs)" "y \<noteq> a"
    show "\<exists>n' p. m y = Some n' \<and> mn_parent_id n' = Some p \<and> p \<in> set (result @ [x])"
    proof (cases "y \<in> set ?cs")
      case True
      then show ?thesis using linked_child [OF l n, of y] by auto
    next
      case False
      with y have "y \<in> set (result @ stack @ [x])" by auto
      from walk_ok_parent [OF ok this y(2)] show ?thesis by auto
    qed
  qed
qed

lemma desc_loop_walk:
  assumes "walk_ok (map_of nodes) a stack result" and "linked (map_of nodes)" and "ranked (map_of nodes) r"
  shows "\<exists>xs. desc_loop nodes stack result = Some xs \<and> walk_ok (map_of nodes) a [] xs"
  using assms(1)
proof (induction "card (dom (map_of nodes) - set result)" arbitrary: stack result rule: less_induct)
  case less
  show ?case
  proof (cases stack rule: rev_cases)
    case Nil
    with less.prems show ?thesis by (simp add: desc_loop.simps)
  next
    case (snoc stack' x)
    have ok: "walk_ok (map_of nodes) a (stack' @ [x]) result" using less.prems snoc by simp
    then have "map_of nodes x \<noteq> None" and new: "x \<notin> set result"
      by (auto simp: walk_ok_def dest: below_known)
    then obtain n where n: "map_of nodes x = Some n" by auto
    have "card (dom (map_of nodes) - set (result @ [x])) < card (dom (map_of nodes) - set result)"
      using n new by (intro psubset_card_mono) (auto simp: finite_dom_map_of)
    from less.hyps [OF this walk_step [OF ok assms(2,3) n]] snoc n show ?thesis
      by (subst desc_loop.simps) (simp add: Let_def)
  qed
qed

lemma walk_done:
  assumes "walk_ok m a [] xs"
  shows "distinct xs \<and> set xs = {x. below m a x}"
proof -
  have "x \<in> set xs" if "below m a x" for x
    using that
  proof (induction rule: below.induct)
    case (below_child p n c)
    with assms show ?case unfolding walk_ok_def by auto
  qed (use assms in \<open>auto simp: walk_ok_def\<close>)
  with assms show ?thesis by (auto simp: walk_ok_def)
qed

lemma get_descendants_result:
  assumes "wf_tree t"
  shows "\<exists>xs. get_descendants t i = Some xs \<and> distinct xs \<and> set xs = {x. below (get_node t) i x}"
proof (cases "has_key (mt_nodes t) i")
  case False
  then have "get_node t i = None" by (auto simp: has_key_def get_node_def domIff)
  moreover have "get_node t i \<noteq> None" if "below (get_node t) i x" for x
    using that by (induction rule: below.induct) auto
  ultimately show ?thesis using False by (auto simp: get_descendants_def)
next
  case True
  then have "map_of (mt_nodes t) i \<noteq> None" by (auto simp: has_key_def)
  then have "walk_ok (map_of (mt_nodes t)) i [i] []" by (simp add: walk_ok_def below_refl)
  moreover obtain r where "ranked (get_node t) r" "linked (get_node t)"
    using assms unfolding wf_tree_def by blast
  moreover have m: "get_node t = map_of (mt_nodes t)" by (simp add: fun_eq_iff get_node_def)
  ultimately obtain xs where "desc_loop (mt_nodes t) [i] [] = Some xs" "walk_ok (map_of (mt_nodes t)) i [] xs"
    using desc_loop_walk by metis
  with walk_done True m show ?thesis by (simp add: get_descendants_def)
qed

text \<open>Removing nodes: what is left, and when it succeeds.\<close>

lemma remove_nodes_lookup:
  assumes "distinct ids" and "\<And>i. i \<in> set ids \<Longrightarrow> get_node t i \<noteq> None"
    and "\<And>i n. get_node t i = Some n \<Longrightarrow> map_of (mt_status_to_node t) (mn_status_message_id n) = Some i"
  shows "\<exists>t'. remove_nodes ids t = (Inr (map (\<lambda>i. the (get_node t i)) ids), t')
    \<and> get_node t' = (get_node t) |` (- set ids) \<and> mt_root_id t' = mt_root_id t
    \<and> (\<forall>i n. get_node t' i = Some n \<longrightarrow> map_of (mt_status_to_node t') (mn_status_message_id n) = Some i)"
  using assms
proof (induction ids arbitrary: t)
  case Nil
  then show ?case by (auto simp: restrict_map_def)
next
  case (Cons i ids)
  obtain n where n: "get_node t i = Some n" using Cons.prems(2) by auto
  let ?t = "t\<lparr>mt_nodes := AList.delete i (mt_nodes t),
              mt_status_to_node := AList.delete (mn_status_message_id n) (mt_status_to_node t)\<rparr>"
  have look: "get_node ?t = (get_node t)(i := None)" by (auto simp: fun_eq_iff get_node_def)
  have status: "has_key (mt_status_to_node t) (mn_status_message_id n)"
    using Cons.prems(3) [OF n] by (auto simp: has_key_def)
  have nodes: "map (\<lambda>j. the (get_node ?t j)) ids = map (\<lambda>j. the (get_node t j)) ids"
    using Cons.prems(1) by (auto simp: look)
  have "\<exists>t'. remove_nodes ids ?t = (Inr (map (\<lambda>j. the (get_node ?t j)) ids), t')
    \<and> get_node t' = (get_node ?t) |` (- set ids) \<and> mt_root_id t' = mt_root_id ?t
    \<and> (\<forall>j n. get_node t' j = Some n \<longrightarrow> map_of (mt_status_to_node t') (mn_status_message_id n) = Some j)"
  proof (rule Cons.IH)
    show "distinct ids" "\<And>j. j \<in> set ids \<Longrightarrow> get_node ?t j \<noteq> None"
      using Cons.prems(1,2) by (auto simp: look)
    fix j k assume k: "get_node ?t j = Some k"
    then have "get_node t j = Some k" "j \<noteq> i" by (auto simp: look split: if_splits)
    with Cons.prems(3) [of j k] Cons.prems(3) [OF n]
    show "map_of (mt_status_to_node ?t) (mn_status_message_id k) = Some j" by auto
  qed
  then obtain t' where t': "remove_nodes ids ?t = (Inr (map (\<lambda>j. the (get_node t j)) ids), t')"
    "get_node t' = (get_node ?t) |` (- set ids)" "mt_root_id t' = mt_root_id t"
    "\<forall>j n. get_node t' j = Some n \<longrightarrow> map_of (mt_status_to_node t') (mn_status_message_id n) = Some j"
    unfolding nodes by auto
  moreover have "(get_node ?t) |` (- set ids) = (get_node t) |` (- set (i # ids))"
    by (auto simp: look restrict_map_def fun_eq_iff)
  ultimately show ?case using n status by (simp add: Let_def)
qed

lemma below_parent:
  assumes "linked m" and "below m b x" and "x \<noteq> b"
  shows "\<exists>n p. m x = Some n \<and> mn_parent_id n = Some p \<and> below m b p"
  using assms(2,3)
proof (cases rule: below.cases)
  case (below_child p n)
  with linked_child [OF assms(1)] show ?thesis by blast
qed simp

lemma below_child_of:
  assumes "below m b p" and "m p = Some n" and "linked m" and "c \<in> set (mn_children_ids n)"
  shows "below m b c"
  using below_child [OF assms(1,2,4)] linked_child [OF assms(3,2,4)] by auto

lemma remove_branch_result:
  assumes wf: "wf_tree t" and b: "get_node t b \<noteq> None" and not_root: "b \<noteq> mt_root_id t"
  shows "\<exists>removed t'. remove_branch b t = Some (Inr removed, t') \<and> wf_tree t'
    \<and> dom (get_node t') = dom (get_node t) - {x. below (get_node t) b x}
    \<and> mn_node_id ` set removed = {x. below (get_node t) b x}"
proof -
  let ?m = "get_node t"
  let ?B = "{x. below ?m b x}"
  have l: "linked ?m" using wf by (simp add: wf_tree_def)
  obtain r where r: "ranked ?m r" using wf unfolding wf_tree_def by blast
  obtain xs where xs: "get_descendants t b = Some xs" "distinct xs" "set xs = ?B"
    using get_descendants_result [OF wf] by blast
  have known: "?m i \<noteq> None" if "i \<in> set xs" for i using that xs below_known by auto
  have st: "map_of (mt_status_to_node t) (mn_status_message_id n) = Some i" if "?m i = Some n" for i n
    using wf that by (simp add: wf_tree_def)
  obtain t1 where t1: "remove_nodes xs t = (Inr (map (\<lambda>i. the (?m i)) xs), t1)"
    "get_node t1 = ?m |` (- set xs)" "mt_root_id t1 = mt_root_id t"
    "\<And>i n. get_node t1 i = Some n \<Longrightarrow> map_of (mt_status_to_node t1) (mn_status_message_id n) = Some i"
    using remove_nodes_lookup [OF xs(2) known st] by blast
  define t' where "t' = (case get_parent t b of None \<Rightarrow> t1
     | Some p \<Rightarrow> upd_node (mn_node_id p) (\<lambda>p. p\<lparr>mn_children_ids :=
           filter (\<lambda>c. c \<noteq> b) (mn_children_ids p)\<rparr>) t1)"
  have run: "remove_branch b t = Some (Inr (map (\<lambda>i. the (?m i)) xs), t')"
  proof -
    have "has_key (mt_nodes t) b" using b by (auto simp: has_key_def get_node_def)
    then show ?thesis by (simp add: remove_branch_def xs(1) t1(1) t'_def)
  qed
  have ids: "mn_node_id (the (?m i)) = i" if "i \<in> set xs" for i
    using known [OF that] l by (auto simp: linked_def)
  have root_out: "mt_root_id t \<notin> set xs"
  proof
    assume "mt_root_id t \<in> set xs"
    then have "below ?m b (mt_root_id t)" using xs by simp
    from below_parent [OF l this] not_root wf show False by (auto simp: wf_tree_def)
  qed
  have lost: "c = b \<and> get_parent t b = Some n"
    if q: "?m q = Some n" "q \<notin> set xs" and c: "c \<in> set (mn_children_ids n)" "c \<in> set xs" for q n c
  proof -
    obtain k where k: "?m c = Some k" "mn_parent_id k = Some q" using linked_child [OF l q(1) c(1)] by blast
    have "c = b"
    proof (rule ccontr)
      assume "c \<noteq> b"
      with below_parent [OF l, of b c] c(2) xs(3) k have "below ?m b q" by auto
      with q(2) xs(3) show False by simp
    qed
    moreover have "q \<noteq> []" using q(1) wf by (auto simp: wf_tree_def)
    ultimately show ?thesis using k q(1) by (simp add: get_parent_def)
  qed
  have node: "\<exists>n0. ?m q = Some n0 \<and> q \<notin> set xs \<and> mn_node_id n = mn_node_id n0
      \<and> mn_parent_id n = mn_parent_id n0 \<and> mn_status_message_id n = mn_status_message_id n0
      \<and> get_node t1 q = Some n0
      \<and> (mn_children_ids n = mn_children_ids n0 \<and> get_parent t b \<noteq> Some n0
         \<or> mn_children_ids n = filter (\<lambda>c. c \<noteq> b) (mn_children_ids n0))"
    if n: "get_node t' q = Some n" for q n
  proof (cases "get_parent t b")
    case None
    with n t1(2) show ?thesis by (auto simp: t'_def restrict_map_def split: if_splits)
  next
    case (Some p)
    then have "?m (mn_node_id p) = Some p" using l
      by (auto simp: get_parent_def linked_def split: option.splits if_splits)
    then have other: "p \<noteq> n0" if "q \<noteq> mn_node_id p" "?m q = Some n0" for n0
      using that l unfolding linked_def by blast
    have look: "get_node t1 q = (if q \<in> set xs then None else ?m q)"
      by (simp add: t1(2) restrict_map_def)
    show ?thesis
    proof (cases "q = mn_node_id p")
      case True
      with n look \<open>?m (mn_node_id p) = Some p\<close> show ?thesis
        by (auto simp: t'_def Some split: if_splits)
    next
      case False
      with n look other Some show ?thesis by (auto simp: t'_def split: if_splits)
    qed
  qed
  have kept: "\<exists>k. get_node t' c = Some k \<and> mn_parent_id k = mn_parent_id k0"
    if "?m c = Some k0" "c \<notin> set xs" for c k0
    using that t1(2) by (auto simp: t'_def restrict_map_def split: option.splits)
  have "linked (get_node t')"
    unfolding linked_def
  proof (intro allI impI conjI ballI)
    fix q n assume n: "get_node t' q = Some n"
    from node [OF n] obtain n0 where n0: "?m q = Some n0" "q \<notin> set xs" "mn_node_id n = mn_node_id n0"
      and ch: "mn_children_ids n = mn_children_ids n0 \<and> get_parent t b \<noteq> Some n0
         \<or> mn_children_ids n = filter (\<lambda>c. c \<noteq> b) (mn_children_ids n0)" by blast
    show "mn_node_id n = q" using n0 l by (simp add: linked_def)
    show "distinct (mn_children_ids n)" using ch linked_children_distinct [OF l n0(1)] by auto
    fix c assume c: "c \<in> set (mn_children_ids n)"
    then have c0: "c \<in> set (mn_children_ids n0)" using ch by auto
    have "c \<notin> set xs" using lost [OF n0(1,2) c0] ch c by auto
    then show "\<exists>k. get_node t' c = Some k \<and> mn_parent_id k = Some q"
      using linked_child [OF l n0(1) c0] kept by fastforce
  qed
  moreover have "ranked (get_node t') r"
    unfolding ranked_def
  proof (intro allI impI)
    fix q n c assume n: "get_node t' q = Some n" and c: "c \<in> set (mn_children_ids n)"
    from node [OF n] c obtain n0 where "?m q = Some n0" "c \<in> set (mn_children_ids n0)" by auto
    with r show "r q < r c" unfolding ranked_def by blast
  qed
  moreover have "\<exists>n. get_node t' (mt_root_id t') = Some n \<and> mn_parent_id n = None"
  proof -
    obtain k0 where k0: "?m (mt_root_id t) = Some k0" "mn_parent_id k0 = None"
      using wf unfolding wf_tree_def by blast
    have "mt_root_id t' = mt_root_id t" by (simp add: t'_def t1(3) split: option.split)
    with kept [OF k0(1) root_out] k0(2) show ?thesis by simp
  qed
  moreover have "get_node t' [] = None"
  proof (rule ccontr)
    assume "get_node t' [] \<noteq> None"
    then obtain n where "get_node t' [] = Some n" by blast
    from node [OF this] wf show False by (auto simp: wf_tree_def)
  qed
  moreover have "map_of (mt_status_to_node t') (mn_status_message_id n) = Some q"
    if n: "get_node t' q = Some n" for q n
  proof -
    have "mt_status_to_node t' = mt_status_to_node t1" by (simp add: t'_def split: option.split)
    with node [OF n] t1(4) show ?thesis by auto
  qed
  ultimately have "wf_tree t'" unfolding wf_tree_def by blast
  moreover have "dom (get_node t') = dom ?m - ?B"
  proof -
    have "dom (get_node t') = dom (get_node t1)"
      by (auto simp: t'_def dom_def split: option.split)
    then show ?thesis using t1(2) xs(3) by (auto simp: restrict_map_def dom_def split: if_splits)
  qed
  moreover have "mn_node_id ` set (map (\<lambda>i. the (?m i)) xs) = ?B"
    using ids xs(3) by (auto simp: image_image image_iff)
  ultimately show ?thesis using run by blast
qed

section \<open>Reachable trees\<close>

inductive tree_reach :: "message_tree \<Rightarrow> bool" where
  reach_new: "mn_children_ids n = [] \<Longrightarrow> mn_parent_id n = None \<Longrightarrow> mn_node_id n \<noteq> []
     \<Longrightarrow> tree_reach (new_tree n)"
| reach_add: "tree_reach t \<Longrightarrow> fresh_for i status t \<Longrightarrow> add_node i m status p now t = Some t'
     \<Longrightarrow> tree_reach t'"
| reach_update: "tree_reach t \<Longrightarrow> tree_reach (update_state i st sid err now t)"
| reach_error: "tree_reach t \<Longrightarrow> tree_reach (set_node_error_sync i err now t)"
| reach_queue: "tree_reach t \<Longrightarrow> tree_reach (put_queue_unlocked i t)"
| reach_dequeue: "tree_reach t \<Longrightarrow> tree_reach (snd (dequeue t))"
| reach_unqueue: "tree_reach t \<Longrightarrow> tree_reach (snd (remove_from_queue i t))"
| reach_processing: "tree_reach t \<Longrightarrow> tree_reach (set_processing_state i b t)"
| reach_remove: "tree_reach t \<Longrightarrow> get_node t b \<noteq> None \<Longrightarrow> b \<noteq> mt_root_id t
     \<Longrightarrow> remove_branch b t = Some (Inr removed, t') \<Longrightarrow> tree_reach t'"

inductive_cases tree_reachE: "tree_reach t"

lemma reach_wf: "tree_reach t \<Longrightarrow> wf_tree t"
proof (induction rule: tree_reach.induct)
  case (reach_queue t i)
  then show ?case using wf_tree_frame [of "put_queue_unlocked i t" t] by (simp add: put_queue_unlocked_def)
next
  case (reach_dequeue t)
  have "wf_tree (snd (dequeue t)) = wf_tree t"
    by (rule wf_tree_frame) (auto simp: dequeue_def split: option.split)
  with reach_dequeue show ?case by simp
next
  case (reach_unqueue t i)
  have "wf_tree (snd (remove_from_queue i t)) = wf_tree t"
    by (rule wf_tree_frame) (auto simp: remove_from_queue_def split: prod.split)
  with reach_unqueue show ?case by simp
next
  case (reach_processing t i b)
  then show ?case using wf_tree_frame [of "set_processing_state i b t" t] by (simp add: set_processing_state_def)
next
  case (reach_remove t b removed t')
  with remove_branch_result [of t b] show ?case by auto
qed (auto intro: wf_new_tree wf_add_node wf_update_state wf_set_node_error)

lemma distinct_upd_node:
  "distinct (map fst (mt_nodes t)) \<Longrightarrow> distinct (map fst (mt_nodes (upd_node i f t)))"
  by (simp add: upd_node_def split: option.split)

lemma distinct_remove_nodes:
  "remove_nodes ids t = (r, t') \<Longrightarrow> distinct (map fst (mt_nodes t)) \<Longrightarrow> distinct (map fst (mt_nodes t'))"
  by (induction ids t arbitrary: r t' rule: remove_nodes.induct)
    (auto simp: Let_def split: option.splits if_splits prod.splits sum.splits)

lemma distinct_remove_branch:
  assumes "remove_branch b t = Some (r, t')" and "distinct (map fst (mt_nodes t))"
  shows "distinct (map fst (mt_nodes t'))"
  using assms
  by (auto simp: remove_branch_def split: if_splits option.splits prod.splits sum.splits
      dest!: distinct_remove_nodes intro: distinct_upd_node)

lemma reach_distinct: "tree_reach t \<Longrightarrow> distinct (map fst (mt_nodes t))"
proof (induction rule: tree_reach.induct)
  case (reach_add t i status m p now t')
  then show ?case by (auto simp: add_node_def Let_def intro!: distinct_upd_node split: if_splits)
next
  case (reach_remove t b removed t')
  then show ?case by (blast intro: distinct_remove_branch)
qed (auto simp: new_tree_def update_state_def set_node_error_sync_def put_queue_unlocked_def
    dequeue_def remove_from_queue_def set_processing_state_def intro: distinct_upd_node
    split: option.split prod.split)

section \<open>Saving and loading\<close>

text \<open>What a node is after it was saved and loaded: the fields the dictionary does not hold are at
  their defaults.\<close>

definition reload :: "int \<Rightarrow> message_node \<Rightarrow> message_node" where
  "reload now n = n\<lparr>mn_incoming := (mn_incoming n)\<lparr>im_status_message_id := None,
                      im_timestamp := now, im_raw_event := JNull\<rparr>, mn_context := JNull\<rparr>"

lemma load_strs_map [simp]: "load_strs (map JStr ss) = Inr ss"
  by (induction ss) (simp_all add: load_bind_def)

lemma load_bind_Inr [simp]: "load_bind (Inr a) f = f a"
  by (simp add: load_bind_def)

lemma opt_str_found: "dget d k = opt_json v \<Longrightarrow> opt_str d k = Inr v"
  by (cases v) (simp_all add: opt_str_def opt_json_def)

lemma need_str_found: "map_of d (u k) = Some (JStr s) \<Longrightarrow> need_str d k = Inr s"
  by (simp add: need_str_def need_def)

lemma state_value_inverse [simp]: "state_of_value (state_value s) = Some s"
  by (cases s) (simp_all add: state_of_value_def state_value_def)

lemma node_roundtrip:
  assumes iso: "\<And>x. fromisoformat (isoformat x) = Some x" "\<And>x. isoformat x \<noteq> []"
  shows "node_from_dict fromisoformat now (node_to_dict isoformat n) = Inr (reload now n)"
proof -
  let ?m = "mn_incoming n"
  let ?i = "[(u ''text'', JStr (im_text ?m)), (u ''chat_id'', JStr (im_chat_id ?m)),
     (u ''user_id'', JStr (im_user_id ?m)), (u ''message_id'', JStr (im_message_id ?m)),
     (u ''platform'', JStr (im_platform ?m)),
     (u ''reply_to_message_id'', opt_json (im_reply_to_message_id ?m)),
     (u ''message_thread_id'', opt_json (im_message_thread_id ?m)),
     (u ''username'', opt_json (im_username ?m))]"
  let ?d = "node_to_dict isoformat n"
  have strs: "need_str ?i ''text'' = Inr (im_text ?m)" "need_str ?i ''chat_id'' = Inr (im_chat_id ?m)"
    "need_str ?i ''user_id'' = Inr (im_user_id ?m)" "need_str ?i ''message_id'' = Inr (im_message_id ?m)"
    "need_str ?i ''platform'' = Inr (im_platform ?m)"
    "opt_str ?i ''reply_to_message_id'' = Inr (im_reply_to_message_id ?m)"
    "opt_str ?i ''message_thread_id'' = Inr (im_message_thread_id ?m)"
    "opt_str ?i ''username'' = Inr (im_username ?m)"
    by (simp_all add: need_str_found opt_str_found)
  have incoming: "incoming_from_dict now ?i = Inr (?m\<lparr>im_status_message_id := None,
      im_timestamp := now, im_raw_event := JNull\<rparr>)"
    unfolding incoming_from_dict_def strs load_bind_Inr by simp
  have fields: "need ?d ''incoming'' = Inr (JObj ?i)"
    "need_str ?d ''node_id'' = Inr (mn_node_id n)"
    "need_str ?d ''status_message_id'' = Inr (mn_status_message_id n)"
    "need_str ?d ''state'' = Inr (state_value (mn_state n))"
    "opt_str ?d ''parent_id'' = Inr (mn_parent_id n)"
    "opt_str ?d ''session_id'' = Inr (mn_session_id n)"
    "dget_or ?d ''children_ids'' (JList []) = JList (map JStr (mn_children_ids n))"
    "need_str ?d ''created_at'' = Inr (isoformat (mn_created_at n))"
    "opt_str ?d ''completed_at'' = Inr (map_option isoformat (mn_completed_at n))"
    "opt_str ?d ''error_message'' = Inr (mn_error_message n)"
    by (simp_all add: node_to_dict_def Let_def need_def need_str_found opt_str_found)
  show ?thesis
    unfolding node_from_dict_def fields load_bind_Inr json.case incoming
    by (cases "mn_completed_at n") (simp_all add: load_time_def iso reload_def)
qed

lemma load_nodes_run:
  assumes iso: "\<And>x. fromisoformat (isoformat x) = Some x" "\<And>x. isoformat x \<noteq> []"
    and "distinct (map fst ns)" and "\<forall>(k, n) \<in> set ns. mn_node_id n = k"
  shows "\<exists>t'. load_nodes fromisoformat now root
        (map (\<lambda>(nid, n). (nid, JObj (node_to_dict isoformat n))) ns) t = Inr t'
    \<and> (\<forall>i. get_node t' i = (if i \<noteq> root \<and> map_of ns i \<noteq> None
           then map_option (reload now) (map_of ns i) else get_node t i))
    \<and> mt_root_id t' = mt_root_id t \<and> mt_queue t' = mt_queue t \<and> mt_is_processing t' = mt_is_processing t"
  using assms(3,4)
proof (induction ns arbitrary: t)
  case (Cons x ns)
  obtain k n where x: "x = (k, n)" by (cases x)
  have id: "mn_node_id (reload now n) = k" using Cons.prems(2) x by (simp add: reload_def)
  have k: "map_of ns k = None" using Cons.prems(1) x by (simp add: map_of_eq_None_iff)
  show ?case
  proof (cases "k = root")
    case True
    with Cons.IH [of t] Cons.prems x show ?thesis by auto
  next
    case False
    let ?t = "add_node_from_dict (reload now n) t"
    have run: "node_of_json fromisoformat now (JObj (node_to_dict isoformat n)) = Inr (reload now n)"
      by (simp add: node_of_json_def node_roundtrip iso)
    have look: "get_node ?t i = (if i = k then Some (reload now n) else get_node t i)" for i
      by (simp add: add_node_from_dict_def get_node_def id)
    obtain t' where t': "load_nodes fromisoformat now root
        (map (\<lambda>(nid, n). (nid, JObj (node_to_dict isoformat n))) ns) ?t = Inr t'"
      "\<forall>i. get_node t' i = (if i \<noteq> root \<and> map_of ns i \<noteq> None
           then map_option (reload now) (map_of ns i) else get_node ?t i)"
      "mt_root_id t' = mt_root_id ?t" "mt_queue t' = mt_queue ?t"
      "mt_is_processing t' = mt_is_processing ?t"
      using Cons.IH [of ?t] Cons.prems by auto
    have "get_node t' i = (if i \<noteq> root \<and> map_of (x # ns) i \<noteq> None
           then map_option (reload now) (map_of (x # ns) i) else get_node t i)" for i
      using t'(2) look [of i] k False x by (cases "i = k") auto
    with t' False x run show ?thesis by (simp add: add_node_from_dict_def)
  qed
qed simp

text \<open>The index of the status messages, when \<open>st\<close> tells the node of each.\<close>

lemma load_nodes_step:
  assumes iso: "\<And>x. fromisoformat (isoformat x) = Some x" "\<And>x. isoformat x \<noteq> []"
    and "load_nodes fromisoformat now root (map (\<lambda>(nid, n). (nid, JObj (node_to_dict isoformat n))) ((k, n) # ns)) t = Inr t'"
  shows "load_nodes fromisoformat now root (map (\<lambda>(nid, n). (nid, JObj (node_to_dict isoformat n))) ns)
    (if k = root then t else add_node_from_dict (reload now n) t) = Inr t'"
  using assms(3) by (simp add: node_of_json_def node_roundtrip [of fromisoformat isoformat, OF iso] split: if_splits)

lemma load_nodes_status:
  assumes iso: "\<And>x. fromisoformat (isoformat x) = Some x" "\<And>x. isoformat x \<noteq> []"
  shows "load_nodes fromisoformat now root (map (\<lambda>(nid, n). (nid, JObj (node_to_dict isoformat n))) ns) t = Inr t'
    \<Longrightarrow> \<forall>(k, n) \<in> set ns. mn_node_id n = k \<and> st (mn_status_message_id n) = k
    \<Longrightarrow> map_of (mt_status_to_node t') s = (if \<exists>(k, n) \<in> set ns. k \<noteq> root \<and> mn_status_message_id n = s
      then Some (st s) else map_of (mt_status_to_node t) s)"
proof (induction ns arbitrary: t)
  case (Cons x ns)
  obtain k n where x: "x = (k, n)" by (cases x)
  from Cons.IH [OF load_nodes_step [OF iso Cons.prems(1) [unfolded x]]] Cons.prems(2) x show ?case
    by (auto simp: add_node_from_dict_def reload_def split: if_splits)
qed simp

lemma load_nodes_distinct:
  assumes iso: "\<And>x. fromisoformat (isoformat x) = Some x" "\<And>x. isoformat x \<noteq> []"
  shows "load_nodes fromisoformat now root (map (\<lambda>(nid, n). (nid, JObj (node_to_dict isoformat n))) ns) t = Inr t'
    \<Longrightarrow> distinct (map fst (mt_nodes t)) \<Longrightarrow> distinct (map fst (mt_nodes t'))"
proof (induction ns arbitrary: t)
  case (Cons x ns)
  obtain k n where x: "x = (k, n)" by (cases x)
  show ?case
    by (rule Cons.IH [OF load_nodes_step [OF iso Cons.prems(1) [unfolded x]]])
      (use Cons.prems(2) in \<open>simp add: add_node_from_dict_def\<close>)
qed simp

text \<open>Nodes changed in what are no links, and status messages still found, keep a tree well-formed.\<close>

lemma wf_same_links:
  assumes wf: "wf_tree t" and nodes: "\<And>i. get_node t' i = map_option f (get_node t i)"
    and same: "\<And>n. same_links n (f n)" and root: "mt_root_id t' = mt_root_id t"
    and status: "\<And>p n. get_node t p = Some n \<Longrightarrow> map_of (mt_status_to_node t') (mn_status_message_id n) = Some p"
  shows "wf_tree t'"
proof -
  have link: "mn_node_id (f n) = mn_node_id n" "mn_parent_id (f n) = mn_parent_id n"
    "mn_children_ids (f n) = mn_children_ids n" "mn_status_message_id (f n) = mn_status_message_id n" for n
    using same [of n] by (simp_all add: same_links_def)
  have l: "linked (get_node t)" using wf by (simp add: wf_tree_def)
  have "linked (get_node t')"
    unfolding linked_def
  proof (intro allI impI conjI ballI)
    fix p n assume "get_node t' p = Some n"
    then obtain n0 where n0: "get_node t p = Some n0" "n = f n0" by (auto simp: nodes)
    then show "mn_node_id n = p" "distinct (mn_children_ids n)"
      using l linked_children_distinct [OF l n0(1)] by (auto simp: linked_def link)
    fix c assume "c \<in> set (mn_children_ids n)"
    with linked_child [OF l n0(1)] n0(2) obtain k where "get_node t c = Some k" "mn_parent_id k = Some p"
      by (auto simp: link)
    then show "\<exists>k. get_node t' c = Some k \<and> mn_parent_id k = Some p" by (simp add: nodes link)
  qed
  moreover obtain rk where "ranked (get_node t) rk" using wf unfolding wf_tree_def by blast
  then have "ranked (get_node t') rk" by (auto simp: ranked_def nodes link)
  moreover have "get_node t' [] = None" using wf by (simp add: wf_tree_def nodes)
  moreover obtain n where "get_node t (mt_root_id t) = Some n" "mn_parent_id n = None"
    using wf unfolding wf_tree_def by blast
  then have "\<exists>n. get_node t' (mt_root_id t') = Some n \<and> mn_parent_id n = None"
    by (simp add: root nodes link)
  moreover have "map_of (mt_status_to_node t') (mn_status_message_id n) = Some p" if "get_node t' p = Some n" for p n
    using that status by (auto simp: nodes link)
  ultimately show ?thesis unfolding wf_tree_def by blast
qed

lemma find_by_key_map:
  "map_of (map (\<lambda>(nid, n). (nid, f n)) ns) i = map_option f (map_of ns i)"
  by (induction ns) auto

lemma reloaded_tree:
  assumes iso: "\<And>x. fromisoformat (isoformat x) = Some x" "\<And>x. isoformat x \<noteq> []"
    and wf: "wf_tree t" and d: "distinct (map fst (mt_nodes t))"
  shows "\<exists>t'. tree_from_dict fromisoformat now (tree_to_dict isoformat t) = Inr t' \<and> wf_tree t'
    \<and> distinct (map fst (mt_nodes t'))
    \<and> mt_root_id t' = mt_root_id t \<and> \<not> mt_is_processing t' \<and> sq_snapshot (mt_queue t') = []
    \<and> (\<forall>i. get_node t' i = map_option (reload now) (get_node t i))"
proof -
  let ?data = "map (\<lambda>(nid, n). (nid, JObj (node_to_dict isoformat n))) (mt_nodes t)"
  obtain root where root: "get_node t (mt_root_id t) = Some root" "mn_node_id root = mt_root_id t"
    using wf unfolding wf_tree_def linked_def by blast
  define st where "st = (\<lambda>s. the (map_of (mt_status_to_node t) s))"
  have look: "get_node t k = Some n" if "(k, n) \<in> set (mt_nodes t)" for k n
    using d that by (simp add: get_node_def)
  have ids: "\<forall>(k, n) \<in> set (mt_nodes t). mn_node_id n = k \<and> st (mn_status_message_id n) = k"
  proof (clarify)
    fix k n assume "(k, n) \<in> set (mt_nodes t)"
    from look [OF this] wf show "mn_node_id n = k \<and> st (mn_status_message_id n) = k"
      by (simp add: wf_tree_def linked_def st_def)
  qed
  have root_data: "map_of ?data (mt_root_id t) = Some (JObj (node_to_dict isoformat root))"
    using root(1) by (simp add: find_by_key_map get_node_def)
  have root_node: "node_of_json fromisoformat now (JObj (node_to_dict isoformat root)) = Inr (reload now root)"
    by (simp add: node_of_json_def node_roundtrip iso)
  let ?t0 = "new_tree (reload now root)"
  have ids': "\<forall>(k, n) \<in> set (mt_nodes t). mn_node_id n = k" using ids by auto
  obtain t' where t': "load_nodes fromisoformat now (mt_root_id t) ?data ?t0 = Inr t'"
    "\<forall>i. get_node t' i = (if i \<noteq> mt_root_id t \<and> map_of (mt_nodes t) i \<noteq> None
         then map_option (reload now) (map_of (mt_nodes t) i) else get_node ?t0 i)"
    "mt_root_id t' = mt_root_id ?t0" "mt_queue t' = mt_queue ?t0" "mt_is_processing t' = mt_is_processing ?t0"
    using load_nodes_run [OF iso d ids', of now "mt_root_id t" ?t0] by blast
  have nodes: "get_node t' i = map_option (reload now) (get_node t i)" for i
    using t'(2) root by (cases "i = mt_root_id t")
      (auto simp: get_node_def new_tree_def reload_def split: option.splits)
  have dist: "distinct (map fst (mt_nodes t'))"
    by (rule load_nodes_distinct [OF iso t'(1)]) (simp add: new_tree_def)
  have root_id: "mt_root_id t' = mt_root_id t" using t'(3) root(2) by (simp add: new_tree_def reload_def)
  have "wf_tree t'"
  proof (rule wf_same_links [OF wf nodes _ root_id])
    show "same_links n (reload now n)" for n by (simp add: same_links_def reload_def)
    fix p n assume n: "get_node t p = Some n"
    then have mem: "(p, n) \<in> set (mt_nodes t)" by (auto simp: get_node_def dest: map_of_SomeD)
    then have st: "st (mn_status_message_id n) = p" using ids by auto
    show "map_of (mt_status_to_node t') (mn_status_message_id n) = Some p"
    proof (cases "p = mt_root_id t")
      case False
      with load_nodes_status [OF iso t'(1) ids, of "mn_status_message_id n"] mem st show ?thesis by auto
    next
      case True
      with n root have "n = root" by simp
      with load_nodes_status [OF iso t'(1) ids, of "mn_status_message_id n"] st True root(2)
      show ?thesis by (auto simp: new_tree_def reload_def)
    qed
  qed
  moreover have "tree_from_dict fromisoformat now (tree_to_dict isoformat t) = Inr t'"
    using root_data root_node t'(1)
    by (simp add: tree_from_dict_def tree_to_dict_def need_str_def need_def)
  ultimately show ?thesis
    using t'(4,5) nodes dist root_id by (auto simp: new_tree_def sq_snapshot_def sq_init_def)
qed

section \<open>Properties\<close>

text \<open>Claim C10: in every tree the operations can build, however branches were added and removed, the
  traversal of a subtree ends and gives each id at or below the start exactly once.\<close>

theorem subtree_traversal_is_exact:
  assumes "tree_reach t"
  shows "\<exists>xs. get_descendants t i = Some xs \<and> distinct xs \<and> set xs = {x. below (get_node t) i x}"
  by (rule get_descendants_result [OF reach_wf [OF assms]])

definition example_message :: incoming_message where
  "example_message =
     \<lparr>im_text = u ''hi'', im_chat_id = u ''c'', im_user_id = u ''us'', im_message_id = u ''a'',
      im_platform = u ''telegram'', im_reply_to_message_id = None, im_message_thread_id = None,
      im_username = None, im_status_message_id = None, im_timestamp = 0, im_raw_event = JNull\<rparr>"

definition example_tree :: message_tree where
  "example_tree =
     the (add_node (u ''b'') example_message (u ''sb'') (u ''a'') 2
       (new_tree (new_node (u ''a'') example_message (u ''sa'') None 1)))"

lemma u_neq_Nil: "u (c # cs) \<noteq> []"
  by (simp add: u_def)

lemma example_tree_reach: "tree_reach example_tree"
proof (rule reach_add)
  show "tree_reach (new_tree (new_node (u ''a'') example_message (u ''sa'') None 1))"
    by (rule reach_new) (simp_all add: new_node_def u_neq_Nil)
  show "fresh_for (u ''b'') (u ''sb'') (new_tree (new_node (u ''a'') example_message (u ''sa'') None 1))"
    by (simp add: fresh_for_def new_tree_def new_node_def has_key_def u_neq_Nil)
  show "add_node (u ''b'') example_message (u ''sb'') (u ''a'') 2
      (new_tree (new_node (u ''a'') example_message (u ''sa'') None 1)) = Some example_tree"
    by (simp add: example_tree_def add_node_def Let_def new_tree_def new_node_def has_key_def)
qed

theorem subtree_traversal_is_exact_witness:
  "\<exists>xs. get_descendants example_tree (u ''a'') = Some xs \<and> distinct xs
     \<and> set xs = {x. below (get_node example_tree) (u ''a'') x}"
  by (rule subtree_traversal_is_exact [OF example_tree_reach])

text \<open>Claim C9: removing a branch that is not the whole tree removes exactly the nodes at or below it,
  returns them, and leaves a well-formed tree: no child or parent pointer dangles, and every
  status message still finds its node.\<close>

theorem remove_branch_removes_subtree:
  assumes "tree_reach t" and "get_node t b \<noteq> None" and "b \<noteq> mt_root_id t"
  shows "\<exists>removed t'. remove_branch b t = Some (Inr removed, t') \<and> wf_tree t'
    \<and> dom (get_node t') = dom (get_node t) - {x. below (get_node t) b x}
    \<and> mn_node_id ` set removed = {x. below (get_node t) b x}"
  by (rule remove_branch_result [OF reach_wf [OF assms(1)] assms(2,3)])

theorem remove_branch_removes_subtree_witness:
  "\<exists>removed t'. remove_branch (u ''b'') example_tree = Some (Inr removed, t') \<and> wf_tree t'
    \<and> dom (get_node t') = dom (get_node example_tree) - {x. below (get_node example_tree) (u ''b'') x}
    \<and> mn_node_id ` set removed = {x. below (get_node example_tree) (u ''b'') x}"
  by (rule remove_branch_removes_subtree [OF example_tree_reach])
    (simp_all add: example_tree_def add_node_def Let_def new_tree_def new_node_def has_key_def
      get_node_def upd_node_def)

text \<open>Claim C38: saving a tree to its dictionary and loading it gives a well-formed tree with the same root
  and ids, and under every id the node with the same parent, children, state, session, times and error;
  what the dictionary leaves out is lost: the context, and of the message its status message id, its
  time and its raw event. The tree is idle with an empty queue.\<close>

theorem tree_save_load_roundtrip:
  assumes iso: "\<And>x. fromisoformat (isoformat x) = Some x" "\<And>x. isoformat x \<noteq> []"
    and reach: "tree_reach t"
  shows "\<exists>t'. tree_from_dict fromisoformat now (tree_to_dict isoformat t) = Inr t' \<and> wf_tree t'
    \<and> mt_root_id t' = mt_root_id t \<and> \<not> mt_is_processing t' \<and> sq_snapshot (mt_queue t') = []
    \<and> (\<forall>i. get_node t' i = map_option (reload now) (get_node t i))"
  using reloaded_tree [OF iso reach_wf [OF reach] reach_distinct [OF reach], of now] by blast

definition example_iso :: "int \<Rightarrow> pystr" where
  "example_iso x = [x]"

definition example_fromiso :: "pystr \<Rightarrow> int option" where
  "example_fromiso s = (case s of [x] \<Rightarrow> Some x | _ \<Rightarrow> None)"

theorem tree_save_load_roundtrip_witness:
  "\<exists>t'. tree_from_dict example_fromiso 7 (tree_to_dict example_iso example_tree) = Inr t' \<and> wf_tree t'
    \<and> mt_root_id t' = mt_root_id example_tree \<and> \<not> mt_is_processing t' \<and> sq_snapshot (mt_queue t') = []
    \<and> (\<forall>i. get_node t' i = map_option (reload 7) (get_node example_tree i))"
  by (rule tree_save_load_roundtrip)
    (simp_all add: example_iso_def example_fromiso_def example_tree_reach)

end
