(* ===== verification/Tree_Queue.thy ===== *)
theory Tree_Queue
  imports Tree_Data
begin

text \<open>
  Processing of one message tree's queue (\<open>TreeQueueProcessor\<close> and the cancelling operations of
  \<open>TreeQueueManager\<close>, \<open>messaging/trees/queue_manager.py\<close>). The tree comes with the asyncio tasks
  created for it. Every section under the tree's lock runs without suspension (nothing that is
  awaited inside one suspends), so it is one step; a task suspends only while the node
  processor runs and while the callbacks are notified. Actions are what the event loop can do
  next; \<open>tq_apply\<close> gives the state after one, \<open>None\<close> when it cannot happen.
\<close>

section \<open>Tasks\<close>

text \<open>A task is created, runs the processor, notifies the callbacks for the next node it started,
  and is done. A task that is cancelled before its first step never runs its body.\<close>

datatype task_phase = TCreated | TRunning | TNotifying | TDone

record task =
  tk_node :: pystr
  tk_phase :: task_phase
  tk_cancel :: bool

record tree_proc =
  tp_tree :: message_tree
  tp_tasks :: "(nat, task) dict"
  tp_next_task :: nat

definition upd_tree :: "(message_tree \<Rightarrow> message_tree) \<Rightarrow> tree_proc \<Rightarrow> tree_proc" where
  "upd_tree f tp = tp\<lparr>tp_tree := f (tp_tree tp)\<rparr>"

definition set_phase :: "nat \<Rightarrow> task_phase \<Rightarrow> tree_proc \<Rightarrow> tree_proc" where
  "set_phase tid ph tp =
     (case map_of (tp_tasks tp) tid of
        None \<Rightarrow> tp
      | Some tk \<Rightarrow> tp\<lparr>tp_tasks := AList.update tid (tk\<lparr>tk_phase := ph\<rparr>) (tp_tasks tp)\<rparr>)"

text \<open>\<open>tree.set_current_task(asyncio.create_task(self.process_node(...)))\<close>.\<close>

definition create_task :: "pystr \<Rightarrow> tree_proc \<Rightarrow> tree_proc" where
  "create_task node_id tp =
     \<lparr>tp_tree = (tp_tree tp)\<lparr>mt_current_task := Some (tp_next_task tp)\<rparr>,
      tp_tasks = AList.update (tp_next_task tp)
        \<lparr>tk_node = node_id, tk_phase = TCreated, tk_cancel = False\<rparr> (tp_tasks tp),
      tp_next_task = Suc (tp_next_task tp)\<rparr>"

definition cancel_current_task :: "tree_proc \<Rightarrow> bool \<times> tree_proc" where
  "cancel_current_task tp =
     (case mt_current_task (tp_tree tp) of
        None \<Rightarrow> (False, tp)
      | Some tid \<Rightarrow>
          (case map_of (tp_tasks tp) tid of
             None \<Rightarrow> (False, tp)
           | Some tk \<Rightarrow>
               if tk_phase tk = TDone then (False, tp)
               else (True, tp\<lparr>tp_tasks := AList.update tid (tk\<lparr>tk_cancel := True\<rparr>) (tp_tasks tp)\<rparr>)))"

section \<open>The processor\<close>

text \<open>\<open>_process_next\<close> under the lock; whether the callbacks are notified afterwards. An empty id
  counts as no id.\<close>

definition process_next :: "tree_proc \<Rightarrow> bool \<times> tree_proc" where
  "process_next tp =
     (case dequeue (tp_tree tp) of
        (next_node_id, t) \<Rightarrow>
          (case next_node_id of
             None \<Rightarrow> (False, tp\<lparr>tp_tree := set_processing_state None False t\<rparr>)
           | Some nid \<Rightarrow>
               if nid = [] then (False, tp\<lparr>tp_tree := set_processing_state None False t\<rparr>)
               else
                 (let t1 = set_processing_state (Some nid) True t;
                      tp1 = tp\<lparr>tp_tree := t1\<rparr>
                  in (True, if has_key (mt_nodes t1) nid then create_task nid tp1 else tp1))))"

definition enqueue_and_start :: "pystr \<Rightarrow> tree_proc \<Rightarrow> bool \<times> tree_proc" where
  "enqueue_and_start node_id tp =
     (if mt_is_processing (tp_tree tp)
      then (True, upd_tree (put_queue_unlocked node_id) tp)
      else
        (let tp1 = upd_tree (set_processing_state (Some node_id) True) tp
         in (False, if has_key (mt_nodes (tp_tree tp1)) node_id then create_task node_id tp1 else tp1)))"

text \<open>The end of \<open>process_node\<close>: start the next node, then notify or be done.\<close>

definition hand_over :: "nat \<Rightarrow> tree_proc \<Rightarrow> tree_proc" where
  "hand_over tid tp =
     (case process_next tp of (notify, tp1) \<Rightarrow> set_phase tid (if notify then TNotifying else TDone) tp1)"

text \<open>How the processor ends: it returns, it raises (with the message for the user), or the
  cancellation reaches it.\<close>

datatype outcome = Returned | Raised pystr | Cancelled

text \<open>The first step of a task. \<open>skip\<close> is whether the node object is in state ERROR.\<close>

definition task_start :: "nat \<Rightarrow> bool \<Rightarrow> tree_proc \<Rightarrow> tree_proc option" where
  "task_start tid skip tp =
     (case map_of (tp_tasks tp) tid of
        None \<Rightarrow> None
      | Some tk \<Rightarrow>
          if tk_phase tk \<noteq> TCreated then None
          else if tk_cancel tk then Some (set_phase tid TDone tp)
          else if skip then Some (hand_over tid tp)
          else Some (set_phase tid TRunning tp))"

definition task_finish :: "nat \<Rightarrow> outcome \<Rightarrow> int \<Rightarrow> tree_proc \<Rightarrow> tree_proc option" where
  "task_finish tid how now tp =
     (case map_of (tp_tasks tp) tid of
        None \<Rightarrow> None
      | Some tk \<Rightarrow>
          if tk_phase tk \<noteq> TRunning \<or> (how = Cancelled \<and> \<not> tk_cancel tk) then None
          else
            (let tp1 = (case how of
                   Raised msg \<Rightarrow> upd_tree (update_state (tk_node tk) ERROR None (Some msg) now) tp
                 | _ \<Rightarrow> tp)
             in Some (hand_over tid (upd_tree clear_current_node tp1))))"

section \<open>Cancelling\<close>

definition is_stale :: "message_state \<Rightarrow> bool" where
  "is_stale s \<longleftrightarrow> s \<in> {PENDING, IN_PROGRESS}"

text \<open>Marking nodes one after the other.\<close>

fun mark_errors :: "pystr \<Rightarrow> int \<Rightarrow> pystr list \<Rightarrow> message_tree \<Rightarrow> message_tree" where
  "mark_errors msg now [] t = t"
| "mark_errors msg now (nid # nids) t = mark_errors msg now nids (set_node_error_sync nid msg now t)"

definition cancel_tree :: "int \<Rightarrow> tree_proc \<Rightarrow> pystr list \<times> tree_proc" where
  "cancel_tree now tp =
     (case cancel_current_task tp of
        (was_running, tp1) \<Rightarrow>
          (let t = tp_tree tp1;
               current = (if was_running
                 then (case mt_current_node_id t of
                         None \<Rightarrow> []
                       | Some cid \<Rightarrow>
                           if cid = [] then []
                           else (case get_node t cid of
                                   None \<Rightarrow> []
                                 | Some n \<Rightarrow> if mn_state n \<in> {COMPLETED, ERROR} then [] else [cid]))
                 else []);
               t1 = mark_errors (u ''Cancelled by user'') now current t
           in case drain_queue (u ''Cancelled by user'') now t1 of
                (queued, t2) \<Rightarrow>
                  (let cancelled = current @ queued;
                       stale = map fst (filter (\<lambda>(nid, n). is_stale (mn_state n)
                                 \<and> mn_node_id n \<notin> set cancelled) (mt_nodes t2));
                       t3 = mark_errors (u ''Stale task cleaned up'') now stale t2
                   in (cancelled, tp1\<lparr>tp_tree := reset_processing_state t3\<rparr>))))"

definition cancel_node :: "pystr \<Rightarrow> int \<Rightarrow> tree_proc \<Rightarrow> pystr list \<times> tree_proc" where
  "cancel_node node_id now tp =
     (case get_node (tp_tree tp) node_id of
        None \<Rightarrow> ([], tp)
      | Some n \<Rightarrow>
          if mn_state n \<in> {COMPLETED, ERROR} then ([], tp)
          else
            (let tp1 = (if is_current_node node_id (tp_tree tp) then snd (cancel_current_task tp) else tp)
             in ([node_id], upd_tree (\<lambda>t. set_node_error_sync node_id (u ''Cancelled by user'') now
                              (snd (remove_from_queue node_id t))) tp1)))"

text \<open>\<open>cancel_branch\<close> walks over a set of ids; \<open>order\<close> is the order it is walked in.\<close>

fun cancel_ids :: "int \<Rightarrow> pystr list \<Rightarrow> tree_proc \<Rightarrow> pystr list \<times> tree_proc" where
  "cancel_ids now [] tp = ([], tp)"
| "cancel_ids now (nid # nids) tp =
     (case get_node (tp_tree tp) nid of
        None \<Rightarrow> cancel_ids now nids tp
      | Some n \<Rightarrow>
          if mn_state n \<in> {COMPLETED, ERROR} then cancel_ids now nids tp
          else
            (let tp1 = (if is_current_node nid (tp_tree tp) then snd (cancel_current_task tp)
                        else upd_tree (\<lambda>t. snd (remove_from_queue nid t)) tp)
             in case cancel_ids now nids
                       (upd_tree (set_node_error_sync nid (u ''Cancelled by user'') now) tp1) of
                  (cancelled, tp2) \<Rightarrow> (nid # cancelled, tp2)))"

section \<open>Actions\<close>

datatype tq_action =
    AEnqueue pystr
  | AStart nat bool
  | AFinish nat outcome int
  | ANotified nat
  | ASetState pystr message_state "pystr option" "pystr option" int
  | AAddNode pystr incoming_message pystr pystr int
  | ACancelNode pystr int
  | ACancelBranch "pystr list" int
  | ACancelTree int
  | ARemoveBranch pystr

text \<open>A start must agree with the state of its node while the node is in the tree.\<close>

definition skip_agrees :: "nat \<Rightarrow> bool \<Rightarrow> tree_proc \<Rightarrow> bool" where
  "skip_agrees tid skip tp =
     (case map_of (tp_tasks tp) tid of
        None \<Rightarrow> True
      | Some tk \<Rightarrow> (case get_node (tp_tree tp) (tk_node tk) of
                      None \<Rightarrow> True | Some n \<Rightarrow> skip = (mn_state n = ERROR)))"

fun tq_apply :: "tq_action \<Rightarrow> tree_proc \<Rightarrow> tree_proc option" where
  "tq_apply (AEnqueue nid) tp = Some (snd (enqueue_and_start nid tp))"
| "tq_apply (AStart tid skip) tp = (if skip_agrees tid skip tp then task_start tid skip tp else None)"
| "tq_apply (AFinish tid how now) tp = task_finish tid how now tp"
| "tq_apply (ANotified tid) tp =
     (case map_of (tp_tasks tp) tid of
        None \<Rightarrow> None
      | Some tk \<Rightarrow> if tk_phase tk = TNotifying then Some (set_phase tid TDone tp) else None)"
| "tq_apply (ASetState nid st sid err now) tp = Some (upd_tree (update_state nid st sid err now) tp)"
| "tq_apply (AAddNode nid m status parent now) tp =
     map_option (\<lambda>t. tp\<lparr>tp_tree := t\<rparr>) (add_node nid m status parent now (tp_tree tp))"
| "tq_apply (ACancelNode nid now) tp = Some (snd (cancel_node nid now tp))"
| "tq_apply (ACancelBranch nids now) tp = Some (snd (cancel_ids now nids tp))"
| "tq_apply (ACancelTree now) tp = Some (snd (cancel_tree now tp))"
| "tq_apply (ARemoveBranch nid) tp =
     (case remove_branch nid (tp_tree tp) of
        Some (Inr removed, t) \<Rightarrow> Some (tp\<lparr>tp_tree := t\<rparr>)
      | _ \<Rightarrow> None)"

fun tq_run :: "tq_action list \<Rightarrow> tree_proc \<Rightarrow> tree_proc option" where
  "tq_run [] tp = Some tp"
| "tq_run (a # as) tp = (case tq_apply a tp of None \<Rightarrow> None | Some tp' \<Rightarrow> tq_run as tp')"

text \<open>The states reachable by actions that satisfy \<open>P\<close> where they happen.\<close>

inductive tq_reach :: "(tq_action \<Rightarrow> tree_proc \<Rightarrow> bool) \<Rightarrow> tree_proc \<Rightarrow> tree_proc \<Rightarrow> bool"
  for P tp0 where
  tq_refl: "tq_reach P tp0 tp0"
| tq_step: "tq_reach P tp0 tp \<Longrightarrow> P a tp \<Longrightarrow> tq_apply a tp = Some tp' \<Longrightarrow> tq_reach P tp0 tp'"

inductive_cases tq_reachE: "tq_reach P tp0 tp"

definition idle_proc :: "message_tree \<Rightarrow> tree_proc" where
  "idle_proc t = \<lparr>tp_tree = t\<lparr>mt_queue := sq_init, mt_is_processing := False,
       mt_current_node_id := None, mt_current_task := None\<rparr>, tp_tasks = [], tp_next_task = 0\<rparr>"

text \<open>A live task has not handed over yet.\<close>

definition live :: "tree_proc \<Rightarrow> nat \<Rightarrow> bool" where
  "live tp tid \<longleftrightarrow> (\<exists>tk. map_of (tp_tasks tp) tid = Some tk \<and> tk_phase tk \<in> {TCreated, TRunning})"

definition running :: "tree_proc \<Rightarrow> nat \<Rightarrow> bool" where
  "running tp tid \<longleftrightarrow> (\<exists>tk. map_of (tp_tasks tp) tid = Some tk \<and> tk_phase tk = TRunning)"

section \<open>What the steps do to the live tasks\<close>

lemma live_set_phase:
  "live (set_phase tid ph tp) i \<longleftrightarrow>
     (if i = tid then map_of (tp_tasks tp) tid \<noteq> None \<and> ph \<in> {TCreated, TRunning} else live tp i)"
  by (auto simp: live_def set_phase_def split: option.split)

lemma set_phase_tree [simp]:
  "tp_tree (set_phase tid ph tp) = tp_tree tp" "tp_next_task (set_phase tid ph tp) = tp_next_task tp"
  by (simp_all add: set_phase_def split: option.split)

lemma live_create_task: "live (create_task nid tp) i \<longleftrightarrow> i = tp_next_task tp \<or> live tp i"
  by (auto simp: live_def create_task_def)

lemma create_task_tree [simp]:
  "mt_is_processing (tp_tree (create_task nid tp)) = mt_is_processing (tp_tree tp)"
  "mt_queue (tp_tree (create_task nid tp)) = mt_queue (tp_tree tp)"
  "mt_nodes (tp_tree (create_task nid tp)) = mt_nodes (tp_tree tp)"
  by (simp_all add: create_task_def)

lemma upd_tree_simps [simp]:
  "tp_tree (upd_tree f tp) = f (tp_tree tp)" "tp_tasks (upd_tree f tp) = tp_tasks tp"
  "tp_next_task (upd_tree f tp) = tp_next_task tp"
  by (simp_all add: upd_tree_def)

lemma live_tasks: "tp_tasks tp' = tp_tasks tp \<Longrightarrow> live tp' i = live tp i"
  by (simp add: live_def)

lemma live_upd_tree [simp]:
  "live (upd_tree f tp) i = live tp i" "live (tp\<lparr>tp_tree := t\<rparr>) i = live tp i"
  by (simp_all add: live_def)

lemma set_phase_known [simp]:
  "map_of (tp_tasks (set_phase tid ph tp)) i = None \<longleftrightarrow> map_of (tp_tasks tp) i = None"
  by (auto simp: set_phase_def update_conv' split: option.split)

lemma cancel_current_task_effect:
  "tp_tree (snd (cancel_current_task tp)) = tp_tree tp"
  "tp_next_task (snd (cancel_current_task tp)) = tp_next_task tp"
  "live (snd (cancel_current_task tp)) i = live tp i"
  "map_option tk_phase (map_of (tp_tasks (snd (cancel_current_task tp))) i)
     = map_option tk_phase (map_of (tp_tasks tp) i)"
  by (auto simp: cancel_current_task_def live_def split: option.split)

lemma tree_ops_processing [simp]:
  "mt_is_processing (set_node_error_sync nid msg now t) = mt_is_processing t"
  "mt_is_processing (update_state nid st sid err now t) = mt_is_processing t"
  "mt_is_processing (put_queue_unlocked nid t) = mt_is_processing t"
  "mt_is_processing (clear_current_node t) = mt_is_processing t"
  "mt_is_processing (snd (remove_from_queue nid t)) = mt_is_processing t"
  "mt_is_processing (set_processing_state nid' b t) = b"
  by (simp_all add: set_node_error_sync_def update_state_def put_queue_unlocked_def
      clear_current_node_def remove_from_queue_def set_processing_state_def split: prod.split)

lemma tree_ops_queue [simp]:
  "mt_queue (set_node_error_sync nid msg now t) = mt_queue t"
  "mt_queue (update_state nid st sid err now t) = mt_queue t"
  "mt_queue (clear_current_node t) = mt_queue t"
  "mt_queue (set_processing_state nid' b t) = mt_queue t"
  by (simp_all add: set_node_error_sync_def update_state_def clear_current_node_def
      set_processing_state_def)

lemma has_key_upd_node [simp]: "has_key (mt_nodes (upd_node i f t)) j = has_key (mt_nodes t) j"
  by (auto simp: upd_node_def get_node_def has_key_def split: option.split)

lemma tree_ops_keys [simp]:
  "has_key (mt_nodes (set_node_error_sync nid msg now t)) j = has_key (mt_nodes t) j"
  "has_key (mt_nodes (update_state nid st sid err now t)) j = has_key (mt_nodes t) j"
  "mt_nodes (put_queue_unlocked nid t) = mt_nodes t"
  "mt_nodes (clear_current_node t) = mt_nodes t"
  "mt_nodes (snd (remove_from_queue nid t)) = mt_nodes t"
  "mt_nodes (set_processing_state nid' b t) = mt_nodes t"
  by (simp_all add: set_node_error_sync_def update_state_def put_queue_unlocked_def
      clear_current_node_def remove_from_queue_def set_processing_state_def split: prod.split)

text \<open>The two outcomes of \<open>_process_next\<close>: the tree is free, or the next id is being processed.\<close>

lemma process_next_cases:
  assumes "process_next tp = (b, tp')"
  obtains (free) "\<not> b" "tp_tasks tp' = tp_tasks tp" "tp_next_task tp' = tp_next_task tp"
      "\<not> mt_is_processing (tp_tree tp')" "mt_nodes (tp_tree tp') = mt_nodes (tp_tree tp)"
      "sq_snapshot (mt_queue (tp_tree tp)) = [] \<or> hd (sq_snapshot (mt_queue (tp_tree tp))) = []"
      "sq_snapshot (mt_queue (tp_tree tp')) = tl (sq_snapshot (mt_queue (tp_tree tp)))"
  | (started) nid rest where "b" "sq_snapshot (mt_queue (tp_tree tp)) = nid # rest" "nid \<noteq> []"
      "sq_snapshot (mt_queue (tp_tree tp')) = rest" "mt_is_processing (tp_tree tp')"
      "mt_nodes (tp_tree tp') = mt_nodes (tp_tree tp)"
      "if has_key (mt_nodes (tp_tree tp)) nid
       then tp_tasks tp' = AList.update (tp_next_task tp)
              \<lparr>tk_node = nid, tk_phase = TCreated, tk_cancel = False\<rparr> (tp_tasks tp)
            \<and> tp_next_task tp' = Suc (tp_next_task tp) \<and> mt_current_task (tp_tree tp') = Some (tp_next_task tp)
       else tp_tasks tp' = tp_tasks tp \<and> tp_next_task tp' = tp_next_task tp"
proof (cases "sq_deque (mt_queue (tp_tree tp))")
  case Nil
  with assms show thesis
    by (intro free) (auto simp: process_next_def dequeue_def sq_get_def sq_snapshot_def)
next
  case (Cons nid rest)
  show thesis
  proof (cases "nid = []")
    case True
    with assms Cons show thesis
      by (intro free) (auto simp: process_next_def dequeue_def sq_get_def sq_snapshot_def)
  next
    case False
    with assms Cons show thesis
      by (intro started [of nid rest])
        (auto simp: process_next_def dequeue_def sq_get_def sq_snapshot_def Let_def create_task_def
          set_processing_state_def)
  qed
qed

section \<open>Mutual exclusion\<close>

text \<open>At most one task is live, the tree is marked busy while one is, and new ids are fresh.\<close>

definition excl :: "tree_proc \<Rightarrow> bool" where
  "excl tp \<longleftrightarrow>
     (\<forall>i j. live tp i \<longrightarrow> live tp j \<longrightarrow> i = j)
     \<and> (\<forall>i. live tp i \<longrightarrow> mt_is_processing (tp_tree tp))
     \<and> (\<forall>i. tp_next_task tp \<le> i \<longrightarrow> map_of (tp_tasks tp) i = None)"

lemma excl_frame:
  assumes "excl tp" and "\<And>i. live tp' i \<Longrightarrow> live tp i" and "tp_next_task tp' = tp_next_task tp"
    and "\<And>i. map_of (tp_tasks tp) i = None \<Longrightarrow> map_of (tp_tasks tp') i = None"
    and "mt_is_processing (tp_tree tp') = mt_is_processing (tp_tree tp)"
  shows "excl tp'"
  using assms unfolding excl_def by metis

lemma excl_set_phase:
  assumes "excl tp" and "live tp tid \<or> ph \<notin> {TCreated, TRunning}"
  shows "excl (set_phase tid ph tp)"
  by (rule excl_frame [OF assms(1)]) (use assms(2) in \<open>simp_all add: live_set_phase split: if_splits\<close>, blast)

lemma excl_upd_tree:
  "excl tp \<Longrightarrow> mt_is_processing (f (tp_tree tp)) = mt_is_processing (tp_tree tp) \<Longrightarrow> excl (upd_tree f tp)"
  by (rule excl_frame) simp_all

lemma excl_cancel_current: "excl tp \<Longrightarrow> excl (snd (cancel_current_task tp))"
  by (rule excl_frame) (simp_all add: cancel_current_task_effect,
      metis cancel_current_task_effect(4) option.map_disc_iff)

lemma excl_create:
  assumes "excl tp" and "\<And>i. \<not> live tp i" and "mt_is_processing (tp_tree tp)"
  shows "excl (create_task nid tp)"
  using assms unfolding excl_def by (auto simp: live_create_task, simp add: create_task_def)

lemma excl_hand_over:
  assumes ex: "excl tp" and only: "\<And>i. live tp i \<Longrightarrow> i = tid"
    and known: "map_of (tp_tasks tp) tid \<noteq> None"
  shows "excl (hand_over tid tp)"
proof -
  obtain b tp1 where pn: "process_next tp = (b, tp1)" by (cases "process_next tp")
  define tp2 where "tp2 = set_phase tid (if b then TNotifying else TDone) tp1"
  have run: "hand_over tid tp = tp2" by (simp add: hand_over_def pn tp2_def)
  have fresh: "map_of (tp_tasks tp) i = None" if "tp_next_task tp \<le> i" for i
    using ex that by (simp add: excl_def)
  have "tid \<noteq> tp_next_task tp" using fresh [of tid] known by auto
  from pn show ?thesis
  proof (cases rule: process_next_cases)
    case free
    then have "\<not> live tp2 i" for i
      using only by (auto simp: tp2_def live_set_phase live_tasks [of tp1 tp])
    moreover have "map_of (tp_tasks tp2) i = None" if "tp_next_task tp \<le> i" for i
      using fresh [OF that] free known by (auto simp: tp2_def set_phase_def split: option.split)
    ultimately show ?thesis using free by (simp add: run excl_def tp2_def)
  next
    case (started nid rest)
    have l1: "live tp1 i \<Longrightarrow> i = tp_next_task tp \<or> live tp i" for i
      using started(7) by (auto simp: live_def split: if_splits)
    have one: "live tp2 i \<Longrightarrow> i = tp_next_task tp" for i
      using l1 only by (auto simp: tp2_def live_set_phase split: if_splits)
    have none: "map_of (tp_tasks tp2) i = None" if "tp_next_task tp2 \<le> i" for i
      using that fresh [of i] started(7) known \<open>tid \<noteq> tp_next_task tp\<close>
      by (auto simp: tp2_def set_phase_def split: option.splits if_splits)
    have "mt_is_processing (tp_tree tp2)" using started(5) by (simp add: tp2_def)
    with one none show ?thesis unfolding run excl_def by metis
  qed
qed

lemma remove_from_queue_subset:
  "set (sq_snapshot (mt_queue (snd (remove_from_queue nid t)))) \<subseteq> set (sq_snapshot (mt_queue t))"
  by (auto simp: remove_from_queue_def sq_remove_if_present_def sq_snapshot_def split: prod.split if_splits)

lemma current_task_ops [simp]:
  "mt_current_task (set_node_error_sync nid msg now t) = mt_current_task t"
  "mt_current_task (update_state nid st sid err now t) = mt_current_task t"
  "mt_current_task (put_queue_unlocked nid t) = mt_current_task t"
  "mt_current_task (snd (remove_from_queue nid t)) = mt_current_task t"
  "mt_current_task (set_processing_state nid' b t) = mt_current_task t"
  by (simp_all add: set_node_error_sync_def update_state_def put_queue_unlocked_def
      remove_from_queue_def set_processing_state_def split: prod.split)

lemma cancel_ids_effect:
  "cancel_ids now nids tp = (c, tp') \<Longrightarrow>
     (\<forall>i. live tp' i = live tp i) \<and> tp_next_task tp' = tp_next_task tp
     \<and> (\<forall>i. map_option tk_phase (map_of (tp_tasks tp') i) = map_option tk_phase (map_of (tp_tasks tp) i))
     \<and> mt_is_processing (tp_tree tp') = mt_is_processing (tp_tree tp)
     \<and> (\<forall>j. has_key (mt_nodes (tp_tree tp')) j = has_key (mt_nodes (tp_tree tp)) j)
     \<and> set (sq_snapshot (mt_queue (tp_tree tp'))) \<subseteq> set (sq_snapshot (mt_queue (tp_tree tp)))
     \<and> mt_current_task (tp_tree tp') = mt_current_task (tp_tree tp)"
proof (induction now nids tp arbitrary: c tp' rule: cancel_ids.induct)
  case (2 now nid nids tp)
  show ?case
  proof (cases "get_node (tp_tree tp) nid")
    case None
    with 2 show ?thesis by simp
  next
    case (Some n)
    show ?thesis
    proof (cases "mn_state n \<in> {COMPLETED, ERROR}")
      case True
      with 2 Some show ?thesis by simp
    next
      case False
      let ?tp1 = "if is_current_node nid (tp_tree tp) then snd (cancel_current_task tp)
                  else upd_tree (\<lambda>t. snd (remove_from_queue nid t)) tp"
      let ?tp2 = "upd_tree (set_node_error_sync nid (u ''Cancelled by user'') now) ?tp1"
      obtain c2 where run: "cancel_ids now nids ?tp2 = (c2, tp')"
        using 2(4) Some False by (auto simp: Let_def split: prod.splits)
      note IH = 2(3) [OF Some False refl run]
      have same: "tp_next_task ?tp2 = tp_next_task tp" "\<And>i. live ?tp2 i = live tp i"
        "mt_is_processing (tp_tree ?tp2) = mt_is_processing (tp_tree tp)"
        "\<And>j. has_key (mt_nodes (tp_tree ?tp2)) j = has_key (mt_nodes (tp_tree tp)) j"
        "mt_current_task (tp_tree ?tp2) = mt_current_task (tp_tree tp)"
        "\<And>i. map_option tk_phase (map_of (tp_tasks ?tp2) i) = map_option tk_phase (map_of (tp_tasks tp) i)"
        by (simp_all add: cancel_current_task_effect)
      have q: "set (sq_snapshot (mt_queue (tp_tree ?tp2))) \<subseteq> set (sq_snapshot (mt_queue (tp_tree tp)))"
        using remove_from_queue_subset by (simp add: cancel_current_task_effect)
      show ?thesis using IH q unfolding same by (meson order_trans)
    qed
  qed
qed simp

lemma add_node_processing:
  "add_node nid m status p now t = Some t' \<Longrightarrow> mt_is_processing t' = mt_is_processing t \<and> mt_queue t' = mt_queue t
     \<and> mt_current_task t' = mt_current_task t
     \<and> (has_key (mt_nodes t) j \<longrightarrow> has_key (mt_nodes t') j)"
  by (auto simp: add_node_def Let_def split: if_splits)

lemma remove_nodes_processing:
  "remove_nodes ids t = (r, t') \<Longrightarrow> mt_is_processing t' = mt_is_processing t \<and> mt_queue t' = mt_queue t
     \<and> mt_root_id t' = mt_root_id t"
proof (induction ids t arbitrary: r t' rule: remove_nodes.induct)
  case (2 nid nids t)
  show ?case
  proof (cases "get_node t nid")
    case None
    with 2(3) show ?thesis using 2(1) by simp
  next
    case (Some n)
    let ?t1 = "t\<lparr>mt_nodes := AList.delete nid (mt_nodes t)\<rparr>"
    let ?t2 = "?t1\<lparr>mt_status_to_node := AList.delete (mn_status_message_id n) (mt_status_to_node ?t1)\<rparr>"
    show ?thesis
    proof (cases "has_key (mt_status_to_node ?t1) (mn_status_message_id n)")
      case False
      with 2(3) Some have "t' = ?t1" by simp
      then show ?thesis by simp
    next
      case True
      obtain r2 t2 where run: "remove_nodes nids ?t2 = (r2, t2)" by (cases "remove_nodes nids ?t2")
      have "t' = t2" using 2(3) Some True run by (auto split: sum.splits)
      with 2(2) [OF Some refl _ run] True show ?thesis by simp
    qed
  qed
qed simp

lemma remove_branch_processing:
  "remove_branch b t = Some (r, t') \<Longrightarrow> mt_is_processing t' = mt_is_processing t \<and> mt_queue t' = mt_queue t
     \<and> mt_root_id t' = mt_root_id t"
  by (auto simp: remove_branch_def split: if_splits option.splits prod.splits sum.splits
      dest!: remove_nodes_processing)

lemma excl_enqueue:
  assumes ex: "excl tp"
  shows "excl (snd (enqueue_and_start nid tp))"
proof (cases "mt_is_processing (tp_tree tp)")
  case True
  with ex show ?thesis by (simp add: enqueue_and_start_def excl_upd_tree)
next
  case False
  then have none: "\<not> live tp i" for i using ex by (auto simp: excl_def)
  let ?tp1 = "upd_tree (set_processing_state (Some nid) True) tp"
  have "excl ?tp1" using ex none by (simp add: excl_def)
  moreover have "\<not> live ?tp1 i" for i using none by simp
  ultimately show ?thesis
    using False by (simp add: enqueue_and_start_def Let_def excl_create)
qed

lemma excl_task_start:
  assumes ex: "excl tp" and step: "task_start tid skip tp = Some tp'"
  shows "excl tp'"
proof -
  obtain tk where tk: "map_of (tp_tasks tp) tid = Some tk" "tk_phase tk = TCreated"
    using step by (auto simp: task_start_def split: option.splits if_splits)
  then have l: "live tp tid" by (simp add: live_def)
  then have only: "live tp i \<Longrightarrow> i = tid" for i using ex by (auto simp: excl_def)
  have phase: "excl (set_phase tid ph tp)" for ph
    using excl_set_phase [OF ex] l by blast
  show ?thesis
    using step tk phase excl_hand_over [OF ex only] by (auto simp: task_start_def simp del: Let_def split: if_splits)
qed

lemma excl_task_finish:
  assumes ex: "excl tp" and step: "task_finish tid how now tp = Some tp'"
  shows "excl tp'"
proof -
  obtain tk where tk: "map_of (tp_tasks tp) tid = Some tk" "tk_phase tk = TRunning"
    using step by (auto simp: task_finish_def split: option.splits if_splits)
  define tp1 where "tp1 = upd_tree clear_current_node (case how of
      Raised msg \<Rightarrow> upd_tree (update_state (tk_node tk) ERROR None (Some msg) now) tp | _ \<Rightarrow> tp)"
  have same: "tp_tasks tp1 = tp_tasks tp" "tp_next_task tp1 = tp_next_task tp"
    "mt_is_processing (tp_tree tp1) = mt_is_processing (tp_tree tp)"
    by (simp_all add: tp1_def split: outcome.split)
  then have ex1: "excl tp1" by (intro excl_frame [OF ex]) (auto simp: live_tasks [OF same(1)])
  have "live tp1 tid" using tk same by (simp add: live_def)
  then have "live tp1 i \<Longrightarrow> i = tid" for i using ex1 by (auto simp: excl_def)
  from excl_hand_over [OF ex1 this] tk same(1) have "excl (hand_over tid tp1)" by simp
  moreover have "tp' = hand_over tid tp1"
    using step tk by (auto simp: task_finish_def tp1_def Let_def split: if_splits)
  ultimately show ?thesis by simp
qed

lemma excl_step:
  assumes ex: "excl tp" and step: "tq_apply a tp = Some tp'" and no: "\<And>now. a \<noteq> ACancelTree now"
  shows "excl tp'"
proof (cases a)
  case (AEnqueue nid)
  with step excl_enqueue [OF ex] show ?thesis by auto
next
  case (AStart tid skip)
  with step excl_task_start [OF ex] show ?thesis by (auto split: if_splits)
next
  case (AFinish tid how now)
  with step excl_task_finish [OF ex] show ?thesis by auto
next
  case (ANotified tid)
  with step have tp': "tp' = set_phase tid TDone tp" by (auto split: option.splits if_splits)
  show ?thesis unfolding tp' by (rule excl_set_phase [OF ex]) simp
next
  case (ASetState nid st sid err now)
  with step have tp': "tp' = upd_tree (update_state nid st sid err now) tp" by simp
  show ?thesis unfolding tp' by (rule excl_upd_tree [OF ex]) simp
next
  case (AAddNode nid m status parent now)
  with step obtain t where t: "add_node nid m status parent now (tp_tree tp) = Some t" "tp' = tp\<lparr>tp_tree := t\<rparr>"
    by auto
  show ?thesis unfolding t(2)
    by (rule excl_frame [OF ex]) (use add_node_processing [OF t(1)] in \<open>simp_all add: live_def\<close>)
next
  case (ACancelNode nid now)
  have "snd (cancel_node nid now tp) = tp \<or> (\<exists>tp1. (tp1 = tp \<or> tp1 = snd (cancel_current_task tp))
      \<and> snd (cancel_node nid now tp) = upd_tree (\<lambda>t. set_node_error_sync nid (u ''Cancelled by user'') now
          (snd (remove_from_queue nid t))) tp1)"
    by (auto simp: cancel_node_def Let_def split: option.split)
  then show ?thesis
  proof
    assume "snd (cancel_node nid now tp) = tp"
    with ACancelNode step ex show ?thesis by simp
  next
    assume "\<exists>tp1. (tp1 = tp \<or> tp1 = snd (cancel_current_task tp))
      \<and> snd (cancel_node nid now tp) = upd_tree (\<lambda>t. set_node_error_sync nid (u ''Cancelled by user'') now
          (snd (remove_from_queue nid t))) tp1"
    then obtain tp1 where tp1: "tp1 = tp \<or> tp1 = snd (cancel_current_task tp)"
      and tp': "tp' = upd_tree (\<lambda>t. set_node_error_sync nid (u ''Cancelled by user'') now
          (snd (remove_from_queue nid t))) tp1"
      using ACancelNode step by auto
    show ?thesis unfolding tp'
      by (rule excl_upd_tree) (use tp1 ex excl_cancel_current [OF ex] in auto)
  qed
next
  case (ACancelBranch nids now)
  then obtain c where run: "cancel_ids now nids tp = (c, tp')" using step by (cases "cancel_ids now nids tp") auto
  from cancel_ids_effect [OF run] show ?thesis
    by (intro excl_frame [OF ex]) (simp_all, metis option.map_disc_iff)
next
  case (ACancelTree now)
  with no show ?thesis by blast
next
  case (ARemoveBranch nid)
  with step obtain removed t where "remove_branch nid (tp_tree tp) = Some (Inr removed, t)"
    "tp' = tp\<lparr>tp_tree := t\<rparr>"
    by (auto split: option.splits prod.splits sum.splits)
  with remove_branch_processing [of nid "tp_tree tp" "Inr removed" t] show ?thesis
    by (intro excl_frame [OF ex]) (simp_all add: live_def)
qed

lemma excl_idle: "excl (idle_proc t)"
  by (simp add: excl_def idle_proc_def live_def)

text \<open>The actions other than the cancelling of the whole tree.\<close>

definition no_tree_cancel :: "tq_action \<Rightarrow> tree_proc \<Rightarrow> bool" where
  "no_tree_cancel a tp \<longleftrightarrow> (case a of ACancelTree now \<Rightarrow> False | _ \<Rightarrow> True)"

lemma reach_excl:
  assumes "tq_reach P tp0 tp" and "excl tp0" and "\<And>a tp. P a tp \<Longrightarrow> no_tree_cancel a tp"
  shows "excl tp"
  using assms(1)
proof (induction rule: tq_reach.induct)
  case tq_refl
  show ?case by (rule assms(2))
next
  case (tq_step tp a tp')
  from assms(3) [OF tq_step(2)] have "a \<noteq> ACancelTree now" for now
    by (auto simp: no_tree_cancel_def)
  with excl_step [OF tq_step(4,3)] show ?case .
qed

text \<open>Claim C17: mutual exclusion. Whatever is enqueued, finished, cancelled node by node or branch by
  branch, added or removed, in any order, never are two tasks of a tree started or about to
  start; while one is, the tree is marked busy, so that a new message is queued behind it.\<close>

theorem one_task_at_a_time:
  assumes "tq_reach no_tree_cancel (idle_proc t) tp" and "live tp i"
  shows "(\<forall>j. live tp j \<longrightarrow> j = i) \<and> mt_is_processing (tp_tree tp)
    \<and> fst (enqueue_and_start nid tp) \<and> (\<forall>j. live (snd (enqueue_and_start nid tp)) j \<longrightarrow> j = i)"
proof -
  have "excl tp" by (rule reach_excl [OF assms(1) excl_idle])
  with assms(2) show ?thesis by (auto simp: excl_def enqueue_and_start_def)
qed

section \<open>Progress\<close>

definition current_created :: "tree_proc \<Rightarrow> bool" where
  "current_created tp =
     (case mt_current_task (tp_tree tp) of
        None \<Rightarrow> False
      | Some tid \<Rightarrow> (case map_of (tp_tasks tp) tid of None \<Rightarrow> False | Some tk \<Rightarrow> tk_phase tk = TCreated))"

text \<open>The use under which the queue cannot get stuck: the ids enqueued are nodes of the tree, the tree
  is not cancelled as a whole, no branch is removed, and the current node is not cancelled
  between its task's creation and its first step.\<close>

fun careful :: "tq_action \<Rightarrow> tree_proc \<Rightarrow> bool" where
  "careful (AEnqueue nid) tp \<longleftrightarrow> nid \<noteq> [] \<and> has_key (mt_nodes (tp_tree tp)) nid"
| "careful (ACancelNode nid now) tp \<longleftrightarrow> \<not> (is_current_node nid (tp_tree tp) \<and> current_created tp)"
| "careful (ACancelBranch nids now) tp \<longleftrightarrow>
     \<not> (list_ex (\<lambda>nid. is_current_node nid (tp_tree tp)) nids \<and> current_created tp)"
| "careful (ACancelTree now) tp \<longleftrightarrow> False"
| "careful (ARemoveBranch nid) tp \<longleftrightarrow> False"
| "careful a tp \<longleftrightarrow> True"

text \<open>The tree's own task, when it is busy, is about to start and not cancelled, or running.\<close>

definition moving :: "tree_proc \<Rightarrow> bool" where
  "moving tp \<longleftrightarrow>
     (\<exists>tid tk. mt_current_task (tp_tree tp) = Some tid \<and> map_of (tp_tasks tp) tid = Some tk
        \<and> (tk_phase tk = TCreated \<and> \<not> tk_cancel tk \<or> tk_phase tk = TRunning))"

definition advancing :: "tree_proc \<Rightarrow> bool" where
  "advancing tp \<longleftrightarrow>
     (if mt_is_processing (tp_tree tp) then moving tp else sq_snapshot (mt_queue (tp_tree tp)) = [])
     \<and> (\<forall>nid \<in> set (sq_snapshot (mt_queue (tp_tree tp))). nid \<noteq> [] \<and> has_key (mt_nodes (tp_tree tp)) nid)"

lemma moving_frame:
  "tp_tasks tp' = tp_tasks tp \<Longrightarrow> mt_current_task (tp_tree tp') = mt_current_task (tp_tree tp)
   \<Longrightarrow> moving tp' = moving tp"
  by (simp add: moving_def)

lemma advancing_frame:
  assumes "advancing tp" and "mt_is_processing (tp_tree tp') = mt_is_processing (tp_tree tp)"
    and "mt_is_processing (tp_tree tp) \<Longrightarrow> moving tp \<Longrightarrow> moving tp'"
    and "\<And>nid. has_key (mt_nodes (tp_tree tp)) nid \<Longrightarrow> has_key (mt_nodes (tp_tree tp')) nid"
    and "set (sq_snapshot (mt_queue (tp_tree tp'))) \<subseteq> set (sq_snapshot (mt_queue (tp_tree tp)))"
  shows "advancing tp'"
  using assms unfolding advancing_def by (auto split: if_splits)

lemma moving_create: "moving (create_task nid tp)"
  by (simp add: moving_def create_task_def)

lemma clear_current_task [simp]: "mt_current_task (clear_current_node t) = mt_current_task t"
  by (simp add: clear_current_node_def)

lemma advancing_upd_tree:
  assumes "advancing tp"
    and "mt_is_processing (f (tp_tree tp)) = mt_is_processing (tp_tree tp)"
    and "mt_current_task (f (tp_tree tp)) = mt_current_task (tp_tree tp)"
    and "\<And>nid. has_key (mt_nodes (tp_tree tp)) nid \<Longrightarrow> has_key (mt_nodes (f (tp_tree tp))) nid"
    and "set (sq_snapshot (mt_queue (f (tp_tree tp)))) \<subseteq> set (sq_snapshot (mt_queue (tp_tree tp)))"
  shows "advancing (upd_tree f tp)"
  by (rule advancing_frame [OF assms(1)]) (use assms(2-5) moving_frame [of "upd_tree f tp" tp] in auto)

lemma put_snapshot [simp]:
  "sq_snapshot (mt_queue (put_queue_unlocked nid t)) = sq_snapshot (mt_queue t) @ [nid]"
  by (simp add: put_queue_unlocked_def sq_put_def sq_snapshot_def)

lemma advancing_enqueue:
  assumes ad: "advancing tp" and ok: "nid \<noteq> []" "has_key (mt_nodes (tp_tree tp)) nid"
  shows "advancing (snd (enqueue_and_start nid tp))"
proof (cases "mt_is_processing (tp_tree tp)")
  case True
  have "moving (upd_tree (put_queue_unlocked nid) tp) = moving tp" by (rule moving_frame) simp_all
  with ad ok True show ?thesis by (auto simp: enqueue_and_start_def advancing_def)
next
  case False
  with ad ok show ?thesis
    by (auto simp: enqueue_and_start_def Let_def advancing_def intro: moving_create)
qed

lemma moving_set_phase:
  "moving tp \<Longrightarrow> mt_current_task (tp_tree tp) \<noteq> Some tid \<or> ph = TRunning \<Longrightarrow> moving (set_phase tid ph tp)"
  by (auto simp: moving_def set_phase_def update_conv' split: option.split)

lemma advancing_hand_over:
  assumes ad: "\<forall>nid \<in> set (sq_snapshot (mt_queue (tp_tree tp))). nid \<noteq> [] \<and> has_key (mt_nodes (tp_tree tp)) nid"
    and known: "map_of (tp_tasks tp) tid \<noteq> None" and ex: "excl tp"
  shows "advancing (hand_over tid tp)"
proof -
  obtain b tp1 where pn: "process_next tp = (b, tp1)" by (cases "process_next tp")
  have fresh: "tid \<noteq> tp_next_task tp" using ex known by (auto simp: excl_def)
  from pn show ?thesis
  proof (cases rule: process_next_cases)
    case free
    from free(6) ad have "sq_snapshot (mt_queue (tp_tree tp)) = []"
      by (cases "sq_snapshot (mt_queue (tp_tree tp))") auto
    with free pn show ?thesis by (simp add: hand_over_def advancing_def)
  next
    case (started nid rest)
    with ad have key: "has_key (mt_nodes (tp_tree tp)) nid" by simp
    with started(7) have "moving tp1" by (simp add: moving_def)
    moreover have "mt_current_task (tp_tree tp1) \<noteq> Some tid" using started(7) key fresh by simp
    ultimately have "moving (set_phase tid TNotifying tp1)" by (intro moving_set_phase) auto
    with started pn ad show ?thesis by (simp add: hand_over_def advancing_def)
  qed
qed

lemma moving_cancel_current:
  "moving tp \<Longrightarrow> \<not> current_created tp \<Longrightarrow> moving (snd (cancel_current_task tp))"
  by (auto simp: moving_def cancel_current_task_def current_created_def split: option.splits)

lemma current_created_cancel [simp]:
  "current_created (snd (cancel_current_task tp)) = current_created tp"
  by (auto simp: cancel_current_task_def current_created_def split: option.splits)

lemma current_created_upd [simp]:
  "mt_current_task (f (tp_tree tp)) = mt_current_task (tp_tree tp)
   \<Longrightarrow> current_created (upd_tree f tp) = current_created tp"
  by (simp add: current_created_def split: option.split)

lemma advancing_cancel_current:
  assumes "advancing tp" and "\<not> current_created tp"
  shows "advancing (snd (cancel_current_task tp))"
  by (rule advancing_frame [OF assms(1)])
    (use assms(2) moving_cancel_current in \<open>simp_all add: cancel_current_task_effect\<close>)

lemma current_node_ops [simp]:
  "is_current_node i (set_node_error_sync nid msg now t) = is_current_node i t"
  "is_current_node i (snd (remove_from_queue nid t)) = is_current_node i t"
  by (simp_all add: is_current_node_def set_node_error_sync_def remove_from_queue_def split: prod.split)

lemma advancing_cancel_ids:
  "advancing tp \<Longrightarrow> \<not> (list_ex (\<lambda>nid. is_current_node nid (tp_tree tp)) nids \<and> current_created tp)
   \<Longrightarrow> cancel_ids now nids tp = (c, tp') \<Longrightarrow> advancing tp'"
proof (induction now nids tp arbitrary: c tp' rule: cancel_ids.induct)
  case (2 now nid nids tp)
  show ?case
  proof (cases "get_node (tp_tree tp) nid")
    case None
    with 2(5,6) show ?thesis by (intro 2(1) [OF None 2(4)]) auto
  next
    case (Some n)
    show ?thesis
    proof (cases "mn_state n \<in> {COMPLETED, ERROR}")
      case True
      with 2(5,6) Some show ?thesis by (intro 2(2) [OF Some True 2(4)]) auto
    next
      case False
      let ?tp1 = "if is_current_node nid (tp_tree tp) then snd (cancel_current_task tp)
                  else upd_tree (\<lambda>t. snd (remove_from_queue nid t)) tp"
      let ?tp2 = "upd_tree (set_node_error_sync nid (u ''Cancelled by user'') now) ?tp1"
      obtain c2 where run: "cancel_ids now nids ?tp2 = (c2, tp')"
        using 2(6) Some False by (auto simp: Let_def split: prod.splits)
      have "advancing ?tp1"
        using 2(4,5) advancing_cancel_current [of tp] by (auto intro!: advancing_upd_tree remove_from_queue_subset)
      then have ad: "advancing ?tp2" by (rule advancing_upd_tree) simp_all
      have "\<not> (list_ex (\<lambda>nid. is_current_node nid (tp_tree ?tp2)) nids \<and> current_created ?tp2)"
        using 2(5) by (auto simp: cancel_current_task_effect)
      from 2(3) [OF Some False refl ad this run] show ?thesis .
    qed
  qed
qed simp

lemma advancing_start:
  assumes ex: "excl tp" and ad: "advancing tp" and step: "task_start tid skip tp = Some tp'"
  shows "advancing tp'"
proof -
  obtain tk where tk: "map_of (tp_tasks tp) tid = Some tk" "tk_phase tk = TCreated"
    using step by (auto simp: task_start_def split: option.splits if_splits)
  then have l: "live tp tid" by (simp add: live_def)
  then have "mt_is_processing (tp_tree tp)" using ex by (auto simp: excl_def)
  with ad obtain tid' tk' where cur: "mt_current_task (tp_tree tp) = Some tid'" "map_of (tp_tasks tp) tid' = Some tk'"
      "tk_phase tk' = TCreated \<and> \<not> tk_cancel tk' \<or> tk_phase tk' = TRunning"
    by (auto simp: advancing_def moving_def)
  then have "live tp tid'" by (auto simp: live_def)
  with l ex have "tid' = tid" by (auto simp: excl_def)
  with cur tk have nc: "\<not> tk_cancel tk" by simp
  have "advancing (set_phase tid TRunning tp)"
    by (rule advancing_frame [OF ad]) (simp_all add: moving_set_phase)
  moreover have "advancing (hand_over tid tp)"
    by (rule advancing_hand_over) (use ad tk ex in \<open>simp_all add: advancing_def\<close>)
  ultimately show ?thesis using step tk nc by (auto simp: task_start_def split: if_splits)
qed

text \<open>The state in which a finishing task hands over.\<close>

lemma task_finish_hand_over:
  assumes ex: "excl tp" and step: "task_finish tid how now tp = Some tp'"
  obtains tp1 where "tp' = hand_over tid tp1" "excl tp1" "tp_tasks tp1 = tp_tasks tp"
    "mt_queue (tp_tree tp1) = mt_queue (tp_tree tp)" "running tp1 tid"
    "\<And>i. has_key (mt_nodes (tp_tree tp1)) i = has_key (mt_nodes (tp_tree tp)) i"
    "mt_current_task (tp_tree tp1) = mt_current_task (tp_tree tp)"
proof -
  obtain tk where tk: "map_of (tp_tasks tp) tid = Some tk" "tk_phase tk = TRunning"
    using step by (auto simp: task_finish_def split: option.splits if_splits)
  define tp1 where "tp1 = upd_tree clear_current_node (case how of
      Raised msg \<Rightarrow> upd_tree (update_state (tk_node tk) ERROR None (Some msg) now) tp | _ \<Rightarrow> tp)"
  have "excl tp1" unfolding tp1_def by (rule excl_upd_tree) (auto intro: excl_upd_tree [OF ex] simp: ex split: outcome.split)
  moreover have "tp' = hand_over tid tp1"
    using step tk by (auto simp: task_finish_def tp1_def Let_def split: if_splits)
  moreover have "tp_tasks tp1 = tp_tasks tp" by (simp add: tp1_def split: outcome.split)
  ultimately show thesis
    using tk by (intro that [of tp1]) (simp_all add: running_def tp1_def split: outcome.split)
qed

lemma advancing_finish:
  assumes ex: "excl tp" and ad: "advancing tp" and step: "task_finish tid how now tp = Some tp'"
  shows "advancing tp'"
proof -
  obtain tp1 where tp1: "tp' = hand_over tid tp1" "excl tp1" "tp_tasks tp1 = tp_tasks tp"
    "mt_queue (tp_tree tp1) = mt_queue (tp_tree tp)" "running tp1 tid"
    "\<And>i. has_key (mt_nodes (tp_tree tp1)) i = has_key (mt_nodes (tp_tree tp)) i"
    using task_finish_hand_over [OF ex step] by blast
  show ?thesis unfolding tp1(1)
    by (rule advancing_hand_over) (use tp1 ad in \<open>auto simp: advancing_def running_def\<close>)
qed

lemma add_node_keys:
  "add_node nid m status p now t = Some t' \<Longrightarrow> has_key (mt_nodes t) j \<Longrightarrow> has_key (mt_nodes t') j"
  using add_node_processing by blast

lemma cancel_node_run:
  obtains "snd (cancel_node nid now tp) = tp"
  | tp1 where "snd (cancel_node nid now tp) = upd_tree (\<lambda>t. set_node_error_sync nid (u ''Cancelled by user'') now
          (snd (remove_from_queue nid t))) tp1"
      "tp1 = (if is_current_node nid (tp_tree tp) then snd (cancel_current_task tp) else tp)"
proof (cases "get_node (tp_tree tp) nid")
  case None
  then show thesis by (intro that(1)) (simp add: cancel_node_def)
next
  case (Some n)
  then show thesis
    by (cases "mn_state n \<in> {COMPLETED, ERROR}")
      (use that in \<open>simp_all add: cancel_node_def Let_def\<close>)
qed

lemma advancing_step:
  assumes ex: "excl tp" and ad: "advancing tp" and ok: "careful a tp" and step: "tq_apply a tp = Some tp'"
  shows "advancing tp'"
proof (cases a)
  case (AEnqueue nid)
  with step ok advancing_enqueue [OF ad] show ?thesis by auto
next
  case (AStart tid skip)
  with step advancing_start [OF ex ad] show ?thesis by (auto split: if_splits)
next
  case (AFinish tid how now)
  with step advancing_finish [OF ex ad] show ?thesis by auto
next
  case (ANotified tid)
  with step obtain tk where tk: "map_of (tp_tasks tp) tid = Some tk" "tk_phase tk = TNotifying"
    and tp': "tp' = set_phase tid TDone tp" by (auto split: option.splits if_splits)
  have "moving tp \<Longrightarrow> mt_current_task (tp_tree tp) \<noteq> Some tid" using tk by (auto simp: moving_def)
  then show ?thesis unfolding tp'
    by (intro advancing_frame [OF ad]) (simp_all add: moving_set_phase)
next
  case (ASetState nid st sid err now)
  with step have tp': "tp' = upd_tree (update_state nid st sid err now) tp" by simp
  show ?thesis unfolding tp' by (rule advancing_upd_tree [OF ad]) simp_all
next
  case (AAddNode nid m status parent now)
  with step obtain t where t: "add_node nid m status parent now (tp_tree tp) = Some t"
    and tp': "tp' = upd_tree (\<lambda>_. t) tp"
    by (auto simp: upd_tree_def)
  show ?thesis unfolding tp'
    by (rule advancing_upd_tree [OF ad]) (use add_node_processing [OF t] add_node_keys [OF t] in simp_all)
next
  case (ACancelNode nid now)
  with step have tp': "tp' = snd (cancel_node nid now tp)" by simp
  show ?thesis
  proof (rule cancel_node_run [of nid now tp])
    assume "snd (cancel_node nid now tp) = tp"
    with tp' ad show ?thesis by simp
  next
    fix tp1
    assume run: "snd (cancel_node nid now tp) = upd_tree (\<lambda>t. set_node_error_sync nid (u ''Cancelled by user'') now
          (snd (remove_from_queue nid t))) tp1"
      and tp1: "tp1 = (if is_current_node nid (tp_tree tp) then snd (cancel_current_task tp) else tp)"
    have "advancing tp1" using ad ok ACancelNode advancing_cancel_current [OF ad] by (auto simp: tp1)
    then show ?thesis unfolding tp' run by (rule advancing_upd_tree) (simp_all add: remove_from_queue_subset)
  qed
next
  case (ACancelBranch nids now)
  then obtain c where run: "cancel_ids now nids tp = (c, tp')" using step by (cases "cancel_ids now nids tp") auto
  show ?thesis by (rule advancing_cancel_ids [OF ad _ run]) (use ok ACancelBranch in simp)
qed (use ok in auto)

lemma careful_no_cancel: "careful a tp \<Longrightarrow> no_tree_cancel a tp"
  by (cases a) (auto simp: no_tree_cancel_def)

lemma advancing_idle: "advancing (idle_proc t)"
  by (simp add: advancing_def idle_proc_def sq_snapshot_def sq_init_def)

lemma reach_advancing:
  "tq_reach careful (idle_proc t) tp \<Longrightarrow> advancing tp"
proof (induction rule: tq_reach.induct)
  case tq_refl
  show ?case by (rule advancing_idle)
next
  case (tq_step tp a tp')
  have "excl tp" by (rule reach_excl [OF tq_step(1) excl_idle careful_no_cancel])
  from advancing_step [OF this tq_step(4,2,3)] show ?case .
qed

text \<open>What the starts and finishes still have to do: two per queued node, and the current task's own.\<close>

definition pending_work :: "tree_proc \<Rightarrow> nat" where
  "pending_work tp = 2 * length (sq_snapshot (mt_queue (tp_tree tp)))
     + (case mt_current_task (tp_tree tp) of
          None \<Rightarrow> 0
        | Some tid \<Rightarrow> (case map_of (tp_tasks tp) tid of
                         None \<Rightarrow> 0
                       | Some tk \<Rightarrow> (case tk_phase tk of TCreated \<Rightarrow> 2 | TRunning \<Rightarrow> 1 | _ \<Rightarrow> 0)))"

definition task_step :: "tq_action \<Rightarrow> bool" where
  "task_step a \<longleftrightarrow> (case a of AStart tid skip \<Rightarrow> True | AFinish tid how now \<Rightarrow> True | _ \<Rightarrow> False)"

lemma live_is_current:
  assumes ex: "excl tp" and ad: "advancing tp" and l: "live tp tid"
  shows "mt_current_task (tp_tree tp) = Some tid"
proof -
  have "moving tp" using ex ad l by (auto simp: excl_def advancing_def)
  then obtain tid' where "mt_current_task (tp_tree tp) = Some tid'" "live tp tid'"
    by (auto simp: moving_def live_def)
  with l ex show ?thesis by (auto simp: excl_def)
qed

lemma hand_over_work:
  assumes cur: "mt_current_task (tp_tree tp) = Some tid" and known: "map_of (tp_tasks tp) tid \<noteq> None"
    and keys: "\<forall>nid \<in> set (sq_snapshot (mt_queue (tp_tree tp))). nid \<noteq> [] \<and> has_key (mt_nodes (tp_tree tp)) nid"
    and ex: "excl tp"
  shows "pending_work (hand_over tid tp) \<le> 2 * length (sq_snapshot (mt_queue (tp_tree tp)))"
proof -
  obtain b tp1 where pn: "process_next tp = (b, tp1)" by (cases "process_next tp")
  have fresh: "tid \<noteq> tp_next_task tp" using ex known by (auto simp: excl_def)
  have other: "map_of (tp_tasks (set_phase tid ph tp1)) i = map_of (tp_tasks tp1) i" if "i \<noteq> tid" for ph i
    using that by (simp add: set_phase_def update_conv' split: option.split)
  from pn show ?thesis
  proof (cases rule: process_next_cases)
    case free
    have "mt_current_task (tp_tree tp1) = Some tid"
      using pn cur free(1)
      by (auto simp: process_next_def dequeue_def Let_def split: option.splits if_splits prod.splits)
    moreover obtain tk where "map_of (tp_tasks (set_phase tid TDone tp1)) tid = Some tk" "tk_phase tk = TDone"
      using known free(2) by (auto simp: set_phase_def update_conv')
    ultimately show ?thesis using pn free by (simp add: hand_over_def pending_work_def)
  next
    case (started nid rest)
    with keys have "has_key (mt_nodes (tp_tree tp)) nid" by simp
    with started(7) have "mt_current_task (tp_tree tp1) = Some (tp_next_task tp)"
      "map_of (tp_tasks (set_phase tid TNotifying tp1)) (tp_next_task tp)
         = Some \<lparr>tk_node = nid, tk_phase = TCreated, tk_cancel = False\<rparr>"
      using fresh other [of "tp_next_task tp" TNotifying] by simp_all
    with pn started show ?thesis by (simp add: hand_over_def pending_work_def)
  qed
qed

lemma task_step_work:
  assumes ex: "excl tp" and ad: "advancing tp" and a: "task_step a" and step: "tq_apply a tp = Some tp'"
  shows "pending_work tp' < pending_work tp"
proof (cases a)
  case (AStart tid skip)
  with step have start: "task_start tid skip tp = Some tp'" by (auto split: if_splits)
  then obtain tk where tk: "map_of (tp_tasks tp) tid = Some tk" "tk_phase tk = TCreated"
    by (auto simp: task_start_def split: option.splits if_splits)
  then have cur: "mt_current_task (tp_tree tp) = Some tid"
    by (intro live_is_current [OF ex ad]) (simp add: live_def)
  then have w: "pending_work tp = 2 * length (sq_snapshot (mt_queue (tp_tree tp))) + 2"
    using tk by (simp add: pending_work_def)
  have "pending_work (set_phase tid ph tp) < pending_work tp" if "ph \<in> {TRunning, TDone}" for ph
    using that cur tk w by (auto simp: pending_work_def set_phase_def)
  moreover have "pending_work (hand_over tid tp) < pending_work tp"
    using hand_over_work [OF cur _ _ ex] tk ad w by (fastforce simp: advancing_def)
  ultimately show ?thesis using start tk by (auto simp: task_start_def split: if_splits)
next
  case (AFinish tid how now)
  with step have fin: "task_finish tid how now tp = Some tp'" by simp
  from task_finish_hand_over [OF ex fin] obtain tp1 where
    tp1: "tp' = hand_over tid tp1" "excl tp1" "tp_tasks tp1 = tp_tasks tp"
    "mt_queue (tp_tree tp1) = mt_queue (tp_tree tp)" "running tp1 tid"
    "\<And>i. has_key (mt_nodes (tp_tree tp1)) i = has_key (mt_nodes (tp_tree tp)) i"
    "mt_current_task (tp_tree tp1) = mt_current_task (tp_tree tp)"
    by blast
  then have cur: "mt_current_task (tp_tree tp) = Some tid"
    by (intro live_is_current [OF ex ad]) (auto simp: live_def running_def)
  have "pending_work tp = 2 * length (sq_snapshot (mt_queue (tp_tree tp))) + 1"
    using cur tp1(3,5) by (auto simp: pending_work_def running_def)
  moreover have "pending_work tp' \<le> 2 * length (sq_snapshot (mt_queue (tp_tree tp)))"
    using hand_over_work [of tp1 tid] tp1 cur ad by (auto simp: running_def advancing_def)
  ultimately show ?thesis by simp
qed (use a in \<open>simp_all add: task_step_def\<close>)

lemma task_step_careful: "task_step a \<Longrightarrow> careful a tp"
  by (cases a) (auto simp: task_step_def)

lemma task_run_work:
  "list_all task_step as \<Longrightarrow> tq_reach careful (idle_proc t) tp \<Longrightarrow> tq_run as tp = Some tp'
   \<Longrightarrow> length as + pending_work tp' \<le> pending_work tp \<and> tq_reach careful (idle_proc t) tp'"
proof (induction as arbitrary: tp)
  case (Cons a as)
  then obtain tp1 where st: "tq_apply a tp = Some tp1" and run: "tq_run as tp1 = Some tp'"
    by (auto split: option.splits)
  have "excl tp" by (rule reach_excl [OF Cons.prems(2) excl_idle careful_no_cancel])
  then have less: "pending_work tp1 < pending_work tp"
    using task_step_work reach_advancing [OF Cons.prems(2)] Cons.prems(1) st by auto
  have "tq_reach careful (idle_proc t) tp1"
    by (rule tq_step [OF Cons.prems(2) _ st]) (use Cons.prems(1) task_step_careful in simp)
  from Cons.IH [OF _ this run] Cons.prems(1) less show ?case by auto
qed simp

lemma advancing_enabled:
  assumes "advancing tp" and "mt_is_processing (tp_tree tp)"
  shows "\<exists>a tp'. task_step a \<and> tq_apply a tp = Some tp'"
proof -
  from assms obtain tid tk where tk: "map_of (tp_tasks tp) tid = Some tk"
      "tk_phase tk = TCreated \<and> \<not> tk_cancel tk \<or> tk_phase tk = TRunning"
    by (auto simp: advancing_def moving_def)
  show ?thesis
  proof (cases "tk_phase tk = TRunning")
    case True
    with tk have "task_finish tid Returned 0 tp \<noteq> None" by (simp add: task_finish_def)
    then have "task_step (AFinish tid Returned 0)" "tq_apply (AFinish tid Returned 0) tp \<noteq> None"
      by (simp_all add: task_step_def)
    then show ?thesis by blast
  next
    case False
    define skip where "skip \<longleftrightarrow> (case get_node (tp_tree tp) (tk_node tk) of
      None \<Rightarrow> False | Some n \<Rightarrow> mn_state n = ERROR)"
    have "skip_agrees tid skip tp" using tk by (auto simp: skip_agrees_def skip_def split: option.split)
    with False tk have "task_step (AStart tid skip)" "tq_apply (AStart tid skip) tp \<noteq> None"
      by (simp_all add: task_start_def task_step_def)
    then show ?thesis by blast
  qed
qed

text \<open>Claim C18: progress. Under careful use the queue never gets stuck: from every reachable state the
  tasks' starts and finishes end after at most \<open>pending_work\<close> steps, however the processors end
  (return, raise, or are cancelled); while the tree is marked busy there always is a next one;
  and once it is free its queue is empty, so nothing that was enqueued is left behind.\<close>

theorem queue_drains:
  assumes "tq_reach careful (idle_proc t) tp" and "tq_run as tp = Some tp'" and "list_all task_step as"
  shows "length as \<le> pending_work tp
    \<and> (if mt_is_processing (tp_tree tp') then \<exists>a tp''. task_step a \<and> tq_apply a tp' = Some tp''
       else sq_snapshot (mt_queue (tp_tree tp')) = [])"
proof -
  from task_run_work [OF assms(3,1,2)] have bound: "length as + pending_work tp' \<le> pending_work tp"
    and reach: "tq_reach careful (idle_proc t) tp'" by simp_all
  have ad: "advancing tp'" by (rule reach_advancing [OF reach])
  then show ?thesis using bound advancing_enabled by (auto simp: advancing_def)
qed

definition example_busy :: tree_proc where
  "example_busy = snd (enqueue_and_start (u ''b'')
     (snd (enqueue_and_start (u ''a'') (idle_proc example_tree))))"

lemma example_keys:
  "has_key (mt_nodes example_tree) (u ''a'')" "has_key (mt_nodes example_tree) (u ''b'')"
  by code_simp+

lemma idle_simps [simp]:
  "mt_nodes (tp_tree (idle_proc t)) = mt_nodes t" "\<not> mt_is_processing (tp_tree (idle_proc t))"
  by (simp_all add: idle_proc_def)

lemma example_busy_reach: "tq_reach careful (idle_proc example_tree) example_busy"
proof (rule tq_step)
  show "tq_reach careful (idle_proc example_tree) (snd (enqueue_and_start (u ''a'') (idle_proc example_tree)))"
    by (rule tq_step [OF tq_refl, of _ "AEnqueue (u ''a'')"]) (simp_all add: u_neq_Nil example_keys)
  show "careful (AEnqueue (u ''b'')) (snd (enqueue_and_start (u ''a'') (idle_proc example_tree)))"
    by (simp add: u_neq_Nil enqueue_and_start_def Let_def example_keys)
  show "tq_apply (AEnqueue (u ''b'')) (snd (enqueue_and_start (u ''a'') (idle_proc example_tree))) = Some example_busy"
    by (simp add: example_busy_def)
qed

lemma reach_mono:
  "tq_reach P tp0 tp \<Longrightarrow> (\<And>a tp. P a tp \<Longrightarrow> Q a tp) \<Longrightarrow> tq_reach Q tp0 tp"
  by (induction rule: tq_reach.induct) (auto intro: tq_refl tq_step)

theorem one_task_at_a_time_witness:
  "{j. live example_busy j} = {0} \<and> mt_is_processing (tp_tree example_busy)
    \<and> fst (enqueue_and_start (u ''a'') example_busy)
    \<and> {j. live (snd (enqueue_and_start (u ''a'') example_busy)) j} = {0}"
proof -
  have r: "tq_reach no_tree_cancel (idle_proc example_tree) example_busy"
    by (rule reach_mono [OF example_busy_reach]) (rule careful_no_cancel)
  have l: "live example_busy 0"
    by (simp add: example_busy_def enqueue_and_start_def Let_def example_keys live_create_task)
      (simp add: idle_proc_def)
  note one = one_task_at_a_time [OF r l, of "u ''a''"]
  then have "live (snd (enqueue_and_start (u ''a'') example_busy)) 0"
    using l by (simp add: enqueue_and_start_def Let_def)
  then show ?thesis using one l by blast
qed

theorem queue_drains_witness:
  "\<exists>tp'. tq_run [AStart 0 False, AFinish 0 Returned 5] example_busy = Some tp'
    \<and> length [AStart 0 False, AFinish 0 Returned 5] \<le> pending_work example_busy
    \<and> (if mt_is_processing (tp_tree tp') then \<exists>a tp''. task_step a \<and> tq_apply a tp' = Some tp''
       else sq_snapshot (mt_queue (tp_tree tp')) = [])"
proof -
  have "tq_run [AStart 0 False, AFinish 0 Returned 5] example_busy \<noteq> None"
    by code_simp
  then obtain tp' where run: "tq_run [AStart 0 False, AFinish 0 Returned 5] example_busy = Some tp'" by blast
  have "list_all task_step [AStart 0 False, AFinish 0 Returned 5]" by (simp add: task_step_def)
  from queue_drains [OF example_busy_reach run this] run show ?thesis by blast
qed

section \<open>Where exclusion and progress fail\<close>

text \<open>\<open>cancel_tree\<close> marks the tree free although the cancelled task has not ended. A message sent then
  starts at once; when the cancelled task ends, it takes the next entry or marks the tree free,
  although the new task runs: the message after that starts beside it.\<close>

definition one_node :: message_tree where
  "one_node = new_tree (new_node (u ''a'') example_message (u ''sa'') None 1)"

definition cancelled_then_two :: "tq_action list" where
  "cancelled_then_two =
     [AEnqueue (u ''a''), AStart 0 False, ACancelTree 2,
      AAddNode (u ''b'') example_message (u ''sb'') (u ''a'') 3, AEnqueue (u ''b''), AStart 1 False,
      AFinish 0 Cancelled 4,
      AAddNode (u ''c'') example_message (u ''sc'') (u ''a'') 5, AEnqueue (u ''c''), AStart 2 False]"

theorem tree_cancel_breaks_exclusion:
  "\<exists>tp. tq_run cancelled_then_two (idle_proc one_node) = Some tp \<and> running tp 1 \<and> running tp 2"
proof -
  have "map_option (\<lambda>tp. (map_option tk_phase (map_of (tp_tasks tp) 1),
      map_option tk_phase (map_of (tp_tasks tp) 2))) (tq_run cancelled_then_two (idle_proc one_node))
    = Some (Some TRunning, Some TRunning)"
    by code_simp
  then show ?thesis by (auto simp: running_def)
qed

text \<open>A task that is cancelled before its first step never runs \<open>process_node\<close>, so it never hands over:
  the tree stays busy, and the message queued behind it is never started.\<close>

definition cancelled_before_start :: "tq_action list" where
  "cancelled_before_start =
     [AEnqueue (u ''a''), AEnqueue (u ''b''), ACancelNode (u ''a'') 3, AStart 0 True]"

theorem early_cancel_leaves_tree_stuck:
  "\<exists>tp. tq_run cancelled_before_start (idle_proc example_tree) = Some tp
     \<and> mt_is_processing (tp_tree tp) \<and> sq_snapshot (mt_queue (tp_tree tp)) = [u ''b'']
     \<and> (\<forall>i. \<not> live tp i)"
proof -
  have "map_option (\<lambda>tp. (mt_is_processing (tp_tree tp), sq_snapshot (mt_queue (tp_tree tp)),
      map (\<lambda>(i, tk). (i, tk_phase tk)) (tp_tasks tp))) (tq_run cancelled_before_start (idle_proc example_tree))
    = Some (True, [u ''b''], [(0, TDone)])"
    by code_simp
  then obtain tp tk where "tq_run cancelled_before_start (idle_proc example_tree) = Some tp"
    "mt_is_processing (tp_tree tp)" "sq_snapshot (mt_queue (tp_tree tp)) = [u ''b'']"
    "tp_tasks tp = [(0, tk)]" "tk_phase tk = TDone"
    by (auto split: prod.splits)
  then show ?thesis by (auto simp: live_def split: if_splits)
qed

text \<open>\<open>_process_next\<close> marks the tree busy with an id that is no longer a node and starts no task: a
  queued message whose branch is removed leaves its tree busy for ever.\<close>

definition removed_while_queued :: "tq_action list" where
  "removed_while_queued =
     [AEnqueue (u ''a''), AStart 0 False, AEnqueue (u ''b''), ARemoveBranch (u ''b''),
      AFinish 0 Returned 3, ANotified 0]"

theorem removed_node_leaves_tree_stuck:
  "\<exists>tp. tq_run removed_while_queued (idle_proc example_tree) = Some tp
     \<and> mt_is_processing (tp_tree tp) \<and> (\<forall>i. \<not> live tp i)"
proof -
  have "map_option (\<lambda>tp. (mt_is_processing (tp_tree tp),
      map (\<lambda>(i, tk). (i, tk_phase tk)) (tp_tasks tp))) (tq_run removed_while_queued (idle_proc example_tree))
    = Some (True, [(0, TDone)])"
    by code_simp
  then obtain tp tk where "tq_run removed_while_queued (idle_proc example_tree) = Some tp"
    "mt_is_processing (tp_tree tp)" "tp_tasks tp = [(0, tk)]" "tk_phase tk = TDone"
    by (auto split: prod.splits)
  then show ?thesis by (auto simp: live_def split: if_splits)
qed

end
