(* ===== verification/Tree_Manager.thy ===== *)
theory Tree_Manager
  imports Tree_Queue "HOL-Library.Multiset"
begin

text \<open>
  The index of the trees and the manager (\<open>TreeRepository\<close> and \<open>TreeQueueManager\<close>,
  \<open>messaging/trees/queue_manager.py\<close>): which tree holds which id, adding messages to trees,
  errors that spread to the waiting replies, cancelling and removing. The trees are held with
  their tasks, as in the theory of their queues. No lock is contended, so every operation is a
  function of the state. Nodes in results are given by their ids.
\<close>

section \<open>The repository\<close>

record tree_repo =
  rp_trees :: "(pystr, tree_proc) dict"
  rp_node_to_tree :: "(pystr, pystr) dict"

definition repo_init :: tree_repo where
  "repo_init = \<lparr>rp_trees = [], rp_node_to_tree = []\<rparr>"

text \<open>A tree no task was created for yet.\<close>

definition fresh_proc :: "message_tree \<Rightarrow> tree_proc" where
  "fresh_proc t = \<lparr>tp_tree = t, tp_tasks = [], tp_next_task = 0\<rparr>"

definition get_tree :: "tree_repo \<Rightarrow> pystr \<Rightarrow> tree_proc option" where
  "get_tree r root_id = map_of (rp_trees r) root_id"

text \<open>The root id a node is registered under and the tree found there.\<close>

definition find_tree :: "tree_repo \<Rightarrow> pystr \<Rightarrow> (pystr \<times> tree_proc) option" where
  "find_tree r node_id =
     (case map_of (rp_node_to_tree r) node_id of
        None \<Rightarrow> None
      | Some root_id \<Rightarrow>
          if root_id = [] then None else map_option (Pair root_id) (map_of (rp_trees r) root_id))"

definition get_tree_for_node :: "tree_repo \<Rightarrow> pystr \<Rightarrow> message_tree option" where
  "get_tree_for_node r node_id = map_option (\<lambda>(root, tp). tp_tree tp) (find_tree r node_id)"

definition repo_get_node :: "tree_repo \<Rightarrow> pystr \<Rightarrow> message_node option" where
  "repo_get_node r node_id =
     (case get_tree_for_node r node_id of None \<Rightarrow> None | Some t \<Rightarrow> get_node t node_id)"

definition add_tree :: "pystr \<Rightarrow> tree_proc \<Rightarrow> tree_repo \<Rightarrow> tree_repo" where
  "add_tree root_id tp r =
     r\<lparr>rp_trees := AList.update root_id tp (rp_trees r),
       rp_node_to_tree := AList.update root_id root_id (rp_node_to_tree r)\<rparr>"

definition register_node :: "pystr \<Rightarrow> pystr \<Rightarrow> tree_repo \<Rightarrow> tree_repo" where
  "register_node node_id root_id r =
     r\<lparr>rp_node_to_tree := AList.update node_id root_id (rp_node_to_tree r)\<rparr>"

definition has_node :: "tree_repo \<Rightarrow> pystr \<Rightarrow> bool" where
  "has_node r node_id = has_key (rp_node_to_tree r) node_id"

definition tree_count :: "tree_repo \<Rightarrow> nat" where
  "tree_count r = length (rp_trees r)"

definition is_tree_busy :: "tree_repo \<Rightarrow> pystr \<Rightarrow> bool" where
  "is_tree_busy r root_id =
     (case get_tree r root_id of None \<Rightarrow> False | Some tp \<Rightarrow> mt_is_processing (tp_tree tp))"

definition is_node_tree_busy :: "tree_repo \<Rightarrow> pystr \<Rightarrow> bool" where
  "is_node_tree_busy r node_id =
     (case get_tree_for_node r node_id of None \<Rightarrow> False | Some t \<Rightarrow> mt_is_processing t)"

definition get_queue_size :: "tree_repo \<Rightarrow> pystr \<Rightarrow> nat" where
  "get_queue_size r node_id =
     (case get_tree_for_node r node_id of None \<Rightarrow> 0 | Some t \<Rightarrow> sq_size (mt_queue t))"

definition resolve_parent_node_id :: "tree_repo \<Rightarrow> pystr \<Rightarrow> pystr option" where
  "resolve_parent_node_id r msg_id =
     (case get_tree_for_node r msg_id of
        None \<Rightarrow> None
      | Some t \<Rightarrow>
          if has_key (mt_nodes t) msg_id then Some msg_id
          else map_option mn_node_id (find_node_by_status_message t msg_id))"

text \<open>The loop of \<open>get_pending_children\<close>; it does not return on a cycle of waiting nodes.\<close>

definition pending_kids :: "(pystr, message_node) dict \<Rightarrow> message_node \<Rightarrow> pystr list" where
  "pending_kids nodes n =
     filter (\<lambda>c. case map_of nodes c of None \<Rightarrow> False | Some k \<Rightarrow> mn_state k = PENDING) (mn_children_ids n)"

partial_function (option) pend_loop ::
  "(pystr, message_node) dict \<Rightarrow> pystr list \<Rightarrow> message_node list \<Rightarrow> message_node list option" where
  "pend_loop nodes stack pending =
     (if stack = [] then Some pending
      else
        (let current_id = last stack; stack' = butlast stack
         in case map_of nodes current_id of
              None \<Rightarrow> pend_loop nodes stack' pending
            | Some n \<Rightarrow> pend_loop nodes (stack' @ pending_kids nodes n)
                          (pending @ map (\<lambda>c. the (map_of nodes c)) (pending_kids nodes n))))"

declare pend_loop.simps [code]

definition get_pending_children :: "tree_repo \<Rightarrow> pystr \<Rightarrow> message_node list option" where
  "get_pending_children r node_id =
     (case get_tree_for_node r node_id of
        None \<Rightarrow> Some []
      | Some t \<Rightarrow> pend_loop (mt_nodes t) [node_id] [])"

definition all_trees :: "tree_repo \<Rightarrow> message_tree list" where
  "all_trees r = map (\<lambda>(root, tp). tp_tree tp) (rp_trees r)"

definition tree_ids :: "tree_repo \<Rightarrow> pystr list" where
  "tree_ids r = map fst (rp_trees r)"

definition unregister_nodes :: "pystr list \<Rightarrow> tree_repo \<Rightarrow> tree_repo" where
  "unregister_nodes node_ids r =
     r\<lparr>rp_node_to_tree := fold AList.delete node_ids (rp_node_to_tree r)\<rparr>"

definition all_nodes :: "message_tree \<Rightarrow> message_node list" where
  "all_nodes t = map snd (mt_nodes t)"

definition remove_tree :: "pystr \<Rightarrow> tree_repo \<Rightarrow> message_tree option \<times> tree_repo" where
  "remove_tree root_id r =
     (case get_tree r root_id of
        None \<Rightarrow> (None, r)
      | Some tp \<Rightarrow>
          (Some (tp_tree tp),
           unregister_nodes (map mn_node_id (all_nodes (tp_tree tp)))
             (r\<lparr>rp_trees := AList.delete root_id (rp_trees r)\<rparr>)))"

definition get_message_ids_for_chat :: "tree_repo \<Rightarrow> pystr \<Rightarrow> pystr \<Rightarrow> pystr set" where
  "get_message_ids_for_chat r platform chat_id =
     set (concat (map (\<lambda>n.
        if im_platform (mn_incoming n) = platform \<and> im_chat_id (mn_incoming n) = chat_id
        then im_message_id (mn_incoming n)
             # (if mn_status_message_id n \<noteq> [] then [mn_status_message_id n] else [])
        else []) (concat (map all_nodes (all_trees r)))))"

text \<open>A mapping of ids that is not from strings to strings is rejected here when it is loaded; in the
  program it is kept and fails where it is used.\<close>

definition repo_to_dict :: "(int \<Rightarrow> pystr) \<Rightarrow> tree_repo \<Rightarrow> (pystr \<times> json) list" where
  "repo_to_dict isoformat r =
     [(u ''trees'', JObj (map (\<lambda>(rid, tp). (rid, JObj (tree_to_dict isoformat (tp_tree tp)))) (rp_trees r))),
      (u ''node_to_tree'', JObj (map (\<lambda>(i, root). (i, JStr root)) (rp_node_to_tree r)))]"

fun load_trees ::
  "(pystr \<Rightarrow> int option) \<Rightarrow> int \<Rightarrow> (pystr \<times> json) list \<Rightarrow> (pystr, tree_proc) dict loaded" where
  "load_trees fromisoformat now [] = Inr []"
| "load_trees fromisoformat now ((root_id, v) # rest) =
     load_bind (case v of JObj d \<Rightarrow> tree_from_dict fromisoformat now d | _ \<Rightarrow> Inl BadValue) (\<lambda>t.
     load_bind (load_trees fromisoformat now rest) (\<lambda>trees. Inr ((root_id, fresh_proc t) # trees)))"

fun load_index :: "(pystr \<times> json) list \<Rightarrow> (pystr, pystr) dict loaded" where
  "load_index [] = Inr []"
| "load_index ((i, JStr root) # rest) = load_bind (load_index rest) (\<lambda>ix. Inr ((i, root) # ix))"
| "load_index (_ # rest) = Inl BadValue"

definition repo_from_dict ::
  "(pystr \<Rightarrow> int option) \<Rightarrow> int \<Rightarrow> (pystr \<times> json) list \<Rightarrow> tree_repo loaded" where
  "repo_from_dict fromisoformat now data =
     load_bind (case dget_or data ''trees'' (JObj []) of
        JObj ts \<Rightarrow> load_trees fromisoformat now ts | _ \<Rightarrow> Inl BadValue) (\<lambda>trees.
     load_bind (case dget_or data ''node_to_tree'' (JObj []) of
        JObj ix \<Rightarrow> load_index ix | _ \<Rightarrow> Inl BadValue) (\<lambda>ix.
     Inr \<lparr>rp_trees = trees, rp_node_to_tree = ix\<rparr>))"

section \<open>The manager\<close>

definition set_tree :: "pystr \<Rightarrow> tree_proc \<Rightarrow> tree_repo \<Rightarrow> tree_repo" where
  "set_tree root_id tp r = r\<lparr>rp_trees := AList.update root_id tp (rp_trees r)\<rparr>"

definition create_tree :: "pystr \<Rightarrow> incoming_message \<Rightarrow> pystr \<Rightarrow> int \<Rightarrow> tree_repo \<Rightarrow> tree_repo" where
  "create_tree node_id incoming status_message_id now =
     add_tree node_id (fresh_proc (new_tree (new_node node_id incoming status_message_id None now)))"

text \<open>\<open>None\<close> is the \<open>ValueError\<close> of a parent that is not there.\<close>

definition add_to_tree ::
  "pystr \<Rightarrow> pystr \<Rightarrow> incoming_message \<Rightarrow> pystr \<Rightarrow> int \<Rightarrow> tree_repo \<Rightarrow> tree_repo option" where
  "add_to_tree parent_node_id node_id incoming status_message_id now r =
     (if \<not> has_node r parent_node_id then None
      else case find_tree r parent_node_id of
             None \<Rightarrow> None
           | Some (key, tp) \<Rightarrow>
               (case add_node node_id incoming status_message_id parent_node_id now (tp_tree tp) of
                  None \<Rightarrow> None
                | Some t \<Rightarrow> Some (register_node node_id (mt_root_id t)
                              (set_tree key (tp\<lparr>tp_tree := t\<rparr>) r))))"

definition manager_enqueue :: "pystr \<Rightarrow> tree_repo \<Rightarrow> bool \<times> tree_repo" where
  "manager_enqueue node_id r =
     (case find_tree r node_id of
        None \<Rightarrow> (False, r)
      | Some (key, tp) \<Rightarrow> (case enqueue_and_start node_id tp of (queued, tp') \<Rightarrow> (queued, set_tree key tp' r)))"

text \<open>The states of the waiting children change after all of them were collected.\<close>

definition mark_node_error ::
  "pystr \<Rightarrow> pystr \<Rightarrow> bool \<Rightarrow> int \<Rightarrow> tree_repo \<Rightarrow> (pystr list \<times> tree_repo) option" where
  "mark_node_error node_id error_message propagate now r =
     (case find_tree r node_id of
        None \<Rightarrow> Some ([], r)
      | Some (key, tp) \<Rightarrow>
          (let t = tp_tree tp;
               (affected, t1) = (case get_node t node_id of
                  None \<Rightarrow> ([], t)
                | Some n \<Rightarrow> ([mn_node_id n], update_state node_id ERROR None (Some error_message) now t))
           in if \<not> propagate then Some (affected, set_tree key (tp\<lparr>tp_tree := t1\<rparr>) r)
              else (case get_pending_children (set_tree key (tp\<lparr>tp_tree := t1\<rparr>) r) node_id of
                      None \<Rightarrow> None
                    | Some children \<Rightarrow>
                        Some (affected @ map mn_node_id children,
                          set_tree key (tp\<lparr>tp_tree := fold (\<lambda>child. update_state (mn_node_id child) ERROR None
                            (Some (u ''Parent failed: '' @ error_message)) now) children t1\<rparr>) r))))"

definition manager_cancel_tree :: "pystr \<Rightarrow> int \<Rightarrow> tree_repo \<Rightarrow> pystr list \<times> tree_repo" where
  "manager_cancel_tree root_id now r =
     (case get_tree r root_id of
        None \<Rightarrow> ([], r)
      | Some tp \<Rightarrow> (case cancel_tree now tp of (cancelled, tp') \<Rightarrow> (cancelled, set_tree root_id tp' r)))"

definition manager_cancel_node :: "pystr \<Rightarrow> int \<Rightarrow> tree_repo \<Rightarrow> pystr list \<times> tree_repo" where
  "manager_cancel_node node_id now r =
     (case find_tree r node_id of
        None \<Rightarrow> ([], r)
      | Some (key, tp) \<Rightarrow> (case cancel_node node_id now tp of (cancelled, tp') \<Rightarrow> (cancelled, set_tree key tp' r)))"

fun cancel_trees :: "pystr list \<Rightarrow> int \<Rightarrow> tree_repo \<Rightarrow> pystr list \<times> tree_repo" where
  "cancel_trees [] now r = ([], r)"
| "cancel_trees (root_id # root_ids) now r =
     (case manager_cancel_tree root_id now r of
        (cancelled, r1) \<Rightarrow> (case cancel_trees root_ids now r1 of (later, r2) \<Rightarrow> (cancelled @ later, r2)))"

definition cancel_all :: "int \<Rightarrow> tree_repo \<Rightarrow> pystr list \<times> tree_repo" where
  "cancel_all now r = cancel_trees (tree_ids r) now r"

text \<open>The stale nodes of a tree are marked one after the other.\<close>

definition cleanup_tree :: "int \<Rightarrow> message_tree \<Rightarrow> nat \<times> message_tree" where
  "cleanup_tree now t =
     (let stale = map fst (filter (\<lambda>(nid, n). is_stale (mn_state n)) (mt_nodes t))
      in (length stale, mark_errors (u ''Lost during server restart'') now stale t))"

fun cleanup_trees :: "int \<Rightarrow> (pystr, tree_proc) dict \<Rightarrow> nat \<times> (pystr, tree_proc) dict" where
  "cleanup_trees now [] = (0, [])"
| "cleanup_trees now ((root, tp) # rest) =
     (case cleanup_tree now (tp_tree tp) of
        (k, t) \<Rightarrow> (case cleanup_trees now rest of (k', rest') \<Rightarrow> (k + k', (root, tp\<lparr>tp_tree := t\<rparr>) # rest')))"

definition cleanup_stale_nodes :: "int \<Rightarrow> tree_repo \<Rightarrow> nat \<times> tree_repo" where
  "cleanup_stale_nodes now r =
     (case cleanup_trees now (rp_trees r) of (cleaned, trees) \<Rightarrow> (cleaned, r\<lparr>rp_trees := trees\<rparr>))"

text \<open>\<open>order\<close> stands for the order in which a set of ids is walked; \<open>None\<close> if the traversal does not
  return.\<close>

definition cancel_branch ::
  "(pystr list \<Rightarrow> pystr list) \<Rightarrow> pystr \<Rightarrow> int \<Rightarrow> tree_repo \<Rightarrow> (pystr list \<times> tree_repo) option" where
  "cancel_branch order branch_root_id now r =
     (case find_tree r branch_root_id of
        None \<Rightarrow> Some ([], r)
      | Some (key, tp) \<Rightarrow>
          (case get_descendants (tp_tree tp) branch_root_id of
             None \<Rightarrow> None
           | Some branch_ids \<Rightarrow>
               (case cancel_ids now (order branch_ids) tp of
                  (cancelled, tp') \<Rightarrow> Some (cancelled, set_tree key tp' r))))"

text \<open>Removed nodes, root id and whether the whole tree was removed; \<open>Inl\<close> is the \<open>KeyError\<close> of
  \<open>MessageTree.remove_branch\<close>.\<close>

definition manager_remove_branch ::
  "pystr \<Rightarrow> int \<Rightarrow> tree_repo \<Rightarrow> ((load_error + (pystr list \<times> pystr \<times> bool)) \<times> tree_repo) option" where
  "manager_remove_branch branch_root_id now r =
     (case find_tree r branch_root_id of
        None \<Rightarrow> Some (Inr ([], [], False), r)
      | Some (key, tp) \<Rightarrow>
          (let root_id = mt_root_id (tp_tree tp)
           in if branch_root_id = root_id
              then (case manager_cancel_tree root_id now r of
                      (cancelled, r1) \<Rightarrow>
                        (case remove_tree root_id r1 of
                           (Some t, r2) \<Rightarrow> Some (Inr (map mn_node_id (all_nodes t), root_id, True), r2)
                         | (None, r2) \<Rightarrow> Some (Inr (cancelled, root_id, True), r2)))
              else (case remove_branch branch_root_id (tp_tree tp) of
                      None \<Rightarrow> None
                    | Some (Inl e, t) \<Rightarrow> Some (Inl e, set_tree key (tp\<lparr>tp_tree := t\<rparr>) r)
                    | Some (Inr removed, t) \<Rightarrow>
                        Some (Inr (map mn_node_id removed, root_id, False),
                          unregister_nodes (map mn_node_id removed) (set_tree key (tp\<lparr>tp_tree := t\<rparr>) r)))))"

section \<open>What keeps the nodes of a tree\<close>

text \<open>The tree keeps its root and its ids, and stays well-formed.\<close>

definition keeps :: "message_tree \<Rightarrow> message_tree \<Rightarrow> bool" where
  "keeps t t' \<longleftrightarrow> mt_root_id t' = mt_root_id t \<and> dom (get_node t') = dom (get_node t)
     \<and> (wf_tree t \<longrightarrow> wf_tree t')
     \<and> (distinct (map fst (mt_nodes t)) \<longrightarrow> distinct (map fst (mt_nodes t')))"

named_theorems keeps_intros

lemma keeps_refl [simp, intro]: "keeps t t"
  by (simp add: keeps_def)

lemma keeps_trans: "keeps t t1 \<Longrightarrow> keeps t1 t2 \<Longrightarrow> keeps t t2"
  by (simp add: keeps_def)

lemma keeps_upd_node:
  assumes "\<And>n. same_links n (f n)"
  shows "keeps t (upd_node i f t)"
  using wf_upd_node [OF _ assms, of t i] distinct_upd_node [of t i f]
  by (auto simp: keeps_def dom_def split: if_splits)

lemma keeps_update_state [keeps_intros]: "keeps t (update_state nid st sid err now t)"
  unfolding update_state_def by (rule keeps_upd_node) (simp add: same_links_def)

lemma keeps_set_error [keeps_intros]: "keeps t (set_node_error_sync nid err now t)"
  unfolding set_node_error_sync_def by (rule keeps_upd_node) (simp add: same_links_def)

lemma keeps_frame:
  "mt_root_id t' = mt_root_id t \<Longrightarrow> mt_nodes t' = mt_nodes t \<Longrightarrow> mt_status_to_node t' = mt_status_to_node t
   \<Longrightarrow> keeps t t'"
  using wf_tree_frame [of t' t] by (simp add: keeps_def get_node_def [abs_def])

lemma keeps_queue [keeps_intros]:
  "keeps t (put_queue_unlocked i t)" "keeps t (snd (dequeue t))" "keeps t (snd (remove_from_queue i t))"
  "keeps t (set_processing_state j b t)" "keeps t (clear_current_node t)" "keeps t (reset_processing_state t)"
  by (auto intro!: keeps_frame simp: put_queue_unlocked_def dequeue_def remove_from_queue_def
      set_processing_state_def clear_current_node_def reset_processing_state_def split: option.split prod.split)

lemma keeps_mark_errors [keeps_intros]: "keeps t (mark_errors msg now nids t)"
  by (induction nids arbitrary: t) (auto intro: keeps_trans [OF keeps_set_error])

lemma keeps_drain [keeps_intros]: "drain_queue msg now t = (nids, t') \<Longrightarrow> keeps t t'"
proof (induction msg now t arbitrary: nids t' rule: drain_queue.induct)
  case (1 msg now t)
  show ?case
  proof (cases "sq_get (mt_queue t)")
    case None
    with 1(3) show ?thesis by (simp add: drain_queue.simps)
  next
    case (Some p)
    obtain nid q where p: "sq_get (mt_queue t) = Some (nid, q)" using Some by (cases p) auto
    let ?t = "t\<lparr>mt_queue := q\<rparr>"
    have k: "keeps t ?t" by (rule keeps_frame) simp_all
    show ?thesis
    proof (cases "has_key (mt_nodes t) nid")
      case True
      then obtain nids2 where "drain_queue msg now (set_node_error_sync nid msg now ?t) = (nids2, t')"
        using 1(3) p by (subst (asm) drain_queue.simps) (auto simp: Let_def split: prod.splits)
      with 1(1) [OF p refl refl] True have "keeps (set_node_error_sync nid msg now ?t) t'" by simp
      with keeps_trans [OF k keeps_set_error] show ?thesis by (rule keeps_trans)
    next
      case False
      then have "drain_queue msg now ?t = (nids, t')"
        using 1(3) p by (subst (asm) drain_queue.simps) (simp add: Let_def)
      from 1(2) [OF p refl refl _ this] False k show ?thesis by (auto intro: keeps_trans)
    qed
  qed
qed

lemma keeps_create_task [keeps_intros]: "keeps (tp_tree tp) (tp_tree (create_task nid tp))"
  by (rule keeps_frame) (simp_all add: create_task_def)

lemma keeps_process_next [keeps_intros]: "keeps (tp_tree tp) (tp_tree (snd (process_next tp)))"
proof -
  obtain x t where d: "dequeue (tp_tree tp) = (x, t)" by (cases "dequeue (tp_tree tp)")
  have k: "keeps (tp_tree tp) t" using keeps_queue(2) [of "tp_tree tp"] d by simp
  have start: "keeps (tp_tree tp) (tp_tree (create_task nid (tp\<lparr>tp_tree := set_processing_state i b t\<rparr>)))" for nid i b
    using keeps_trans [OF k keeps_queue(4)] keeps_create_task [of "tp\<lparr>tp_tree := set_processing_state i b t\<rparr>" nid]
    by (auto intro: keeps_trans)
  have mark: "keeps (tp_tree tp) (set_processing_state i b t)" for i b
    by (rule keeps_trans [OF k keeps_queue(4)])
  show ?thesis
    by (auto simp: process_next_def d Let_def mark start split: option.split)
qed

lemma keeps_enqueue [keeps_intros]: "keeps (tp_tree tp) (tp_tree (snd (enqueue_and_start nid tp)))"
proof (cases "mt_is_processing (tp_tree tp)")
  case True
  then show ?thesis by (simp add: enqueue_and_start_def keeps_queue)
next
  case False
  let ?tp1 = "upd_tree (set_processing_state (Some nid) True) tp"
  have "keeps (tp_tree tp) (tp_tree ?tp1)" by (simp add: keeps_queue)
  with False show ?thesis
    by (auto simp: enqueue_and_start_def Let_def intro: keeps_queue keeps_trans [OF _ keeps_create_task])
qed

lemma keeps_cancel_current [simp]: "tp_tree (snd (cancel_current_task tp)) = tp_tree tp"
  by (rule cancel_current_task_effect)

lemma keeps_cancel_tree [keeps_intros]: "keeps (tp_tree tp) (tp_tree (snd (cancel_tree now tp)))"
proof -
  obtain b tp1 where c: "cancel_current_task tp = (b, tp1)" by (cases "cancel_current_task tp")
  then have t: "tp_tree tp1 = tp_tree tp" using keeps_cancel_current [of tp] by simp
  have all: "keeps (tp_tree tp) (reset_processing_state (mark_errors m2 now stale t2))"
    if "drain_queue m1 now (mark_errors m1 now cur (tp_tree tp)) = (queued, t2)" for m1 m2 cur queued t2 stale
    by (rule keeps_trans [OF keeps_mark_errors keeps_trans [OF keeps_drain [OF that]
        keeps_trans [OF keeps_mark_errors keeps_queue(6)]]])
  obtain cur where "snd (cancel_tree now tp) = (case drain_queue (u ''Cancelled by user'') now
      (mark_errors (u ''Cancelled by user'') now cur (tp_tree tp)) of
        (queued, t2) \<Rightarrow> tp1\<lparr>tp_tree := reset_processing_state (mark_errors (u ''Stale task cleaned up'') now
          (map fst (filter (\<lambda>(nid, n). is_stale (mn_state n) \<and> mn_node_id n \<notin> set (cur @ queued)) (mt_nodes t2))) t2)\<rparr>)"
    unfolding cancel_tree_def c prod.case Let_def t by (simp only: prod.case_distrib [of snd] snd_conv)
  with all show ?thesis by (cases "drain_queue (u ''Cancelled by user'') now
      (mark_errors (u ''Cancelled by user'') now cur (tp_tree tp))") simp
qed

lemma keeps_cancel_node [keeps_intros]: "keeps (tp_tree tp) (tp_tree (snd (cancel_node nid now tp)))"
  by (rule cancel_node_run [of nid now tp])
    (auto intro: keeps_trans keeps_queue keeps_set_error)

lemma keeps_cancel_ids [keeps_intros]:
  "cancel_ids now nids tp = (c, tp') \<Longrightarrow> keeps (tp_tree tp) (tp_tree tp')"
proof (induction now nids tp arbitrary: c tp' rule: cancel_ids.induct)
  case (2 now nid nids tp)
  show ?case
  proof (cases "get_node (tp_tree tp) nid")
    case None
    with 2(1) [OF None] 2(4) show ?thesis by simp
  next
    case (Some n)
    show ?thesis
    proof (cases "mn_state n \<in> {COMPLETED, ERROR}")
      case True
      with 2(2) [OF Some True] 2(4) Some show ?thesis by simp
    next
      case False
      let ?tp1 = "if is_current_node nid (tp_tree tp) then snd (cancel_current_task tp)
                  else upd_tree (\<lambda>t. snd (remove_from_queue nid t)) tp"
      let ?tp2 = "upd_tree (set_node_error_sync nid (u ''Cancelled by user'') now) ?tp1"
      obtain c2 where run: "cancel_ids now nids ?tp2 = (c2, tp')"
        using 2(4) Some False by (auto simp: Let_def split: prod.splits)
      have "keeps (tp_tree tp) (tp_tree ?tp2)"
        by (auto intro: keeps_trans keeps_queue keeps_set_error)
      from this 2(3) [OF Some False refl run] show ?thesis by (rule keeps_trans)
    qed
  qed
qed simp

lemma keeps_hand_over [keeps_intros]: "keeps (tp_tree tp) (tp_tree (hand_over tid tp))"
  using keeps_process_next [of tp] by (auto simp: hand_over_def split: prod.split)

lemma keeps_task_start [keeps_intros]:
  "task_start tid skip tp = Some tp' \<Longrightarrow> keeps (tp_tree tp) (tp_tree tp')"
  by (auto simp: task_start_def keeps_hand_over split: option.splits if_splits)

lemma keeps_task_finish [keeps_intros]:
  assumes "task_finish tid how now tp = Some tp'"
  shows "keeps (tp_tree tp) (tp_tree tp')"
proof -
  obtain tp1 where "tp' = hand_over tid (upd_tree clear_current_node tp1)" "keeps (tp_tree tp) (tp_tree tp1)"
    using assms keeps_update_state
    by (auto simp: task_finish_def Let_def split: option.splits if_splits outcome.splits)
  with keeps_hand_over [of "upd_tree clear_current_node tp1" tid] keeps_queue(5) [of "tp_tree tp1"]
  show ?thesis by (auto intro: keeps_trans)
qed

text \<open>The actions by which ids neither enter nor leave a tree.\<close>

definition in_place :: "tq_action \<Rightarrow> bool" where
  "in_place a \<longleftrightarrow> (case a of AAddNode nid m status parent now \<Rightarrow> False | ARemoveBranch nid \<Rightarrow> False | _ \<Rightarrow> True)"

lemma keeps_action [keeps_intros]:
  assumes "in_place a" and "tq_apply a tp = Some tp'"
  shows "keeps (tp_tree tp) (tp_tree tp')"
proof (cases a)
  case (ACancelBranch nids now)
  with assms obtain c where "cancel_ids now nids tp = (c, tp')" by (cases "cancel_ids now nids tp") auto
  then show ?thesis by (rule keeps_cancel_ids)
qed (use assms in \<open>auto simp: in_place_def split: if_splits option.splits intro: keeps_intros\<close>)

section \<open>The index\<close>

text \<open>Every tree is held under its root id, is well-formed, and each of its ids is registered under it:
  an id is in one tree at most, and found there.\<close>

definition repo_ok :: "tree_repo \<Rightarrow> bool" where
  "repo_ok r \<longleftrightarrow>
     (\<forall>root tp. get_tree r root = Some tp \<longrightarrow>
        root \<noteq> [] \<and> wf_tree (tp_tree tp) \<and> mt_root_id (tp_tree tp) = root
        \<and> distinct (map fst (mt_nodes (tp_tree tp)))
        \<and> (\<forall>i. get_node (tp_tree tp) i \<noteq> None \<longrightarrow> map_of (rp_node_to_tree r) i = Some root))"

lemma find_tree_iff:
  "find_tree r i = Some (root, tp) \<longleftrightarrow>
     map_of (rp_node_to_tree r) i = Some root \<and> root \<noteq> [] \<and> get_tree r root = Some tp"
  by (auto simp: find_tree_def get_tree_def split: option.split)

lemma get_tree_set [simp]:
  "get_tree (set_tree key tp r) root = (if root = key then Some tp else get_tree r root)"
  "rp_node_to_tree (set_tree key tp r) = rp_node_to_tree r"
  by (simp_all add: get_tree_def set_tree_def)

lemma get_tree_register [simp]:
  "get_tree (register_node i root r) = get_tree r"
  "map_of (rp_node_to_tree (register_node i root r)) = (map_of (rp_node_to_tree r))(i \<mapsto> root)"
  by (simp_all add: get_tree_def register_node_def fun_eq_iff)

lemma map_of_fold_delete [simp]:
  "map_of (fold AList.delete ks d) k = (if k \<in> set ks then None else map_of d k)"
  by (induction ks arbitrary: d) auto

lemma get_tree_unregister [simp]:
  "get_tree (unregister_nodes ids r) = get_tree r"
  "map_of (rp_node_to_tree (unregister_nodes ids r)) i = (if i \<in> set ids then None else map_of (rp_node_to_tree r) i)"
  by (simp_all add: get_tree_def unregister_nodes_def fun_eq_iff)

lemma repo_ok_tree:
  assumes "repo_ok r" and "get_tree r root = Some tp"
  shows "root \<noteq> []" "wf_tree (tp_tree tp)" "mt_root_id (tp_tree tp) = root"
    "get_node (tp_tree tp) i \<noteq> None \<Longrightarrow> map_of (rp_node_to_tree r) i = Some root"
    "distinct (map fst (mt_nodes (tp_tree tp)))"
  using assms by (auto simp: repo_ok_def)

lemma repo_ok_set_tree:
  assumes ok: "repo_ok r" and tp: "get_tree r root = Some tp" and k: "keeps (tp_tree tp) (tp_tree tp')"
  shows "repo_ok (set_tree root tp' r)"
proof -
  have "get_node (tp_tree tp') i \<noteq> None \<longleftrightarrow> get_node (tp_tree tp) i \<noteq> None" for i
    using k by (auto simp: keeps_def)
  with ok tp k show ?thesis by (auto simp: repo_ok_def keeps_def)
qed

lemma repo_ok_create:
  assumes ok: "repo_ok r" and fresh: "node_id \<noteq> []" "\<not> has_node r node_id"
  shows "repo_ok (create_tree node_id m status now r)"
proof -
  let ?n = "new_node node_id m status None now"
  have wf: "wf_tree (new_tree ?n)" using fresh by (intro wf_new_tree) (simp_all add: new_node_def)
  have look: "get_tree (create_tree node_id m status now r) root
      = (if root = node_id then Some (fresh_proc (new_tree ?n)) else get_tree r root)" for root
    by (simp add: create_tree_def add_tree_def get_tree_def)
  have ix: "map_of (rp_node_to_tree (create_tree node_id m status now r)) i
      = (if i = node_id then Some node_id else map_of (rp_node_to_tree r) i)" for i
    by (simp add: create_tree_def add_tree_def)
  show ?thesis
    unfolding repo_ok_def
  proof (intro allI impI)
    fix root tp
    assume tp: "get_tree (create_tree node_id m status now r) root = Some tp"
    show "root \<noteq> [] \<and> wf_tree (tp_tree tp) \<and> mt_root_id (tp_tree tp) = root
        \<and> distinct (map fst (mt_nodes (tp_tree tp)))
        \<and> (\<forall>i. get_node (tp_tree tp) i \<noteq> None \<longrightarrow>
              map_of (rp_node_to_tree (create_tree node_id m status now r)) i = Some root)"
    proof (cases "root = node_id")
      case True
      with tp look have "tp_tree tp = new_tree ?n" by (auto simp: fresh_proc_def)
      with wf fresh True ix show ?thesis by (auto simp: new_tree_def new_node_def get_node_def)
    next
      case False
      with tp look have old: "get_tree r root = Some tp" by simp
      have "i \<noteq> node_id" if "get_node (tp_tree tp) i \<noteq> None" for i
        using repo_ok_tree(4) [OF ok old that] fresh by (auto simp: has_node_def has_key_def)
      with repo_ok_tree [OF ok old] ix show ?thesis by simp
    qed
  qed
qed

lemma repo_ok_register:
  assumes ok: "repo_ok r" and fresh: "\<not> has_node r i"
  shows "repo_ok (register_node i root r)"
  unfolding repo_ok_def
proof (intro allI impI)
  fix k tp assume "get_tree (register_node i root r) k = Some tp"
  then have k: "get_tree r k = Some tp" by simp
  have "j \<noteq> i" if "get_node (tp_tree tp) j \<noteq> None" for j
    using repo_ok_tree(4) [OF ok k that] fresh by (auto simp: has_node_def has_key_def)
  with repo_ok_tree [OF ok k]
  show "k \<noteq> [] \<and> wf_tree (tp_tree tp) \<and> mt_root_id (tp_tree tp) = k
      \<and> distinct (map fst (mt_nodes (tp_tree tp)))
      \<and> (\<forall>j. get_node (tp_tree tp) j \<noteq> None \<longrightarrow> map_of (rp_node_to_tree (register_node i root r)) j = Some k)"
    by simp
qed

lemma wf_node_id: "wf_tree t \<Longrightarrow> get_node t q = Some n \<Longrightarrow> mn_node_id n = q"
  unfolding wf_tree_def linked_def by blast

lemma add_to_tree_result:
  assumes ok: "repo_ok r" and p: "find_tree r p = Some (root, tp)" "has_key (mt_nodes (tp_tree tp)) p"
    and fresh: "fresh_for i status (tp_tree tp)" "\<not> has_node r i"
  shows "\<exists>r' tp'. add_to_tree p i m status now r = Some r' \<and> repo_ok r' \<and> find_tree r' i = Some (root, tp')
    \<and> get_node (tp_tree tp') i = Some (new_node i m status (Some p) now)
    \<and> (\<forall>j. j \<noteq> i \<longrightarrow> j \<noteq> p \<longrightarrow> repo_get_node r' j = repo_get_node r j)"
proof -
  have gt: "get_tree r root = Some tp" "root \<noteq> []" "map_of (rp_node_to_tree r) p = Some root"
    using p(1) by (auto simp: find_tree_iff)
  obtain t where add: "add_node i m status p now (tp_tree tp) = Some t" using p(2) by (simp add: add_node_def)
  from add_node_lookup [OF add fresh(1)] obtain pn where t: "get_node (tp_tree tp) p = Some pn" "p \<noteq> i"
    "get_node t = (get_node (tp_tree tp))(i \<mapsto> new_node i m status (Some p) now,
        p \<mapsto> pn\<lparr>mn_children_ids := mn_children_ids pn @ [i]\<rparr>)"
    "mt_root_id t = mt_root_id (tp_tree tp)"
    by blast
  define tp' where "tp' = tp\<lparr>tp_tree := t\<rparr>"
  define r' where "r' = register_node i root (set_tree root tp' r)"
  have root: "mt_root_id t = root" using t(4) repo_ok_tree(3) [OF ok gt(1)] by simp
  have run: "add_to_tree p i m status now r = Some r'"
    using p gt add root by (simp add: add_to_tree_def has_node_def has_key_def r'_def tp'_def)
  have d: "distinct (map fst (mt_nodes t))"
    using add repo_ok_tree(5) [OF ok gt(1)]
    by (auto simp: add_node_def Let_def intro!: distinct_upd_node split: if_splits)
  have wf: "wf_tree t" by (rule wf_add_node [OF repo_ok_tree(2) [OF ok gt(1)] add fresh(1)])
  have other: "i \<noteq> j" if "get_tree r root' = Some tp0" "get_node (tp_tree tp0) j \<noteq> None" for root' tp0 j
    using repo_ok_tree(4) [OF ok that] fresh(2) by (auto simp: has_node_def has_key_def)
  have "repo_ok r'"
    unfolding repo_ok_def
  proof (intro allI impI)
    fix root' tp0 assume tp0: "get_tree r' root' = Some tp0"
    show "root' \<noteq> [] \<and> wf_tree (tp_tree tp0) \<and> mt_root_id (tp_tree tp0) = root'
        \<and> distinct (map fst (mt_nodes (tp_tree tp0)))
        \<and> (\<forall>j. get_node (tp_tree tp0) j \<noteq> None \<longrightarrow> map_of (rp_node_to_tree r') j = Some root')"
    proof (cases "root' = root")
      case True
      with tp0 have "tp0 = tp'" by (simp add: r'_def)
      with True wf d root gt t repo_ok_tree(4) [OF ok gt(1)] show ?thesis by (auto simp: tp'_def r'_def)
    next
      case False
      with tp0 have "get_tree r root' = Some tp0" by (simp add: r'_def)
      with repo_ok_tree [OF ok this] other [OF this] show ?thesis by (auto simp: r'_def)
    qed
  qed
  moreover have "find_tree r' i = Some (root, tp')" using gt(2) by (simp add: find_tree_iff r'_def)
  moreover have "get_node (tp_tree tp') i = Some (new_node i m status (Some p) now)" using t by (simp add: tp'_def)
  moreover have "repo_get_node r' j = repo_get_node r j" if "j \<noteq> i" "j \<noteq> p" for j
  proof -
    have "find_tree r' j = (case find_tree r j of None \<Rightarrow> None
        | Some (k, tp0) \<Rightarrow> Some (k, if k = root then tp' else tp0))"
      using that(1) gt(1,2)
      by (auto simp: find_tree_def r'_def set_tree_def register_node_def get_tree_def split: option.split)
    then show ?thesis
      using that t gt p by (auto simp: repo_get_node_def get_tree_for_node_def tp'_def find_tree_iff split: option.split)
  qed
  ultimately show ?thesis using run by blast
qed

section \<open>Errors spread to the waiting replies\<close>

text \<open>The nodes that are reached from a node over waiting replies only.\<close>

inductive waits_below :: "(pystr \<Rightarrow> message_node option) \<Rightarrow> pystr \<Rightarrow> pystr \<Rightarrow> bool" for m a where
  waits_child: "m a = Some n \<Longrightarrow> c \<in> set (mn_children_ids n) \<Longrightarrow> m c = Some k \<Longrightarrow> mn_state k = PENDING
     \<Longrightarrow> waits_below m a c"
| waits_step: "waits_below m a p \<Longrightarrow> m p = Some n \<Longrightarrow> c \<in> set (mn_children_ids n) \<Longrightarrow> m c = Some k
     \<Longrightarrow> mn_state k = PENDING \<Longrightarrow> waits_below m a c"

text \<open>The loop is the subtree traversal of the tree without the children that do not wait.\<close>

definition waiting_part :: "(pystr, message_node) dict \<Rightarrow> pystr \<Rightarrow> message_node option" where
  "waiting_part nodes i = map_option (\<lambda>n. n\<lparr>mn_children_ids := pending_kids nodes n\<rparr>) (map_of nodes i)"

lemma pending_kids_iff:
  "c \<in> set (pending_kids nodes n) \<longleftrightarrow>
     c \<in> set (mn_children_ids n) \<and> (\<exists>k. map_of nodes c = Some k \<and> mn_state k = PENDING)"
  by (auto simp: pending_kids_def split: option.splits)

lemma waiting_linked:
  assumes l: "linked (map_of nodes)"
  shows "linked (waiting_part nodes)"
  unfolding linked_def
proof (intro allI impI conjI ballI)
  fix p n assume "waiting_part nodes p = Some n"
  then obtain n0 where n0: "map_of nodes p = Some n0" "n = n0\<lparr>mn_children_ids := pending_kids nodes n0\<rparr>"
    by (auto simp: waiting_part_def)
  show "mn_node_id n = p" using l n0 by (simp add: linked_def)
  show "distinct (mn_children_ids n)"
    using linked_children_distinct [OF l n0(1)] n0(2) by (simp add: pending_kids_def)
  fix c assume "c \<in> set (mn_children_ids n)"
  with linked_child [OF l n0(1), of c] n0(2)
  show "\<exists>k. waiting_part nodes c = Some k \<and> mn_parent_id k = Some p"
    by (auto simp: waiting_part_def pending_kids_iff)
qed

lemma waiting_ranked: "ranked (map_of nodes) r \<Longrightarrow> ranked (waiting_part nodes) r"
  unfolding ranked_def by (auto simp: waiting_part_def pending_kids_iff)

lemma below_waiting:
  assumes "map_of nodes a \<noteq> None"
  shows "below (waiting_part nodes) a x \<longleftrightarrow> x = a \<or> waits_below (map_of nodes) a x"
proof
  assume "below (waiting_part nodes) a x"
  then show "x = a \<or> waits_below (map_of nodes) a x"
    by (induction rule: below.induct)
      (auto simp: waiting_part_def pending_kids_iff intro: waits_child waits_step)
next
  have start: "below (waiting_part nodes) a a" using assms by (intro below_refl) (simp add: waiting_part_def)
  have kid: "below (waiting_part nodes) a c"
    if "below (waiting_part nodes) a p" "map_of nodes p = Some n" "c \<in> set (mn_children_ids n)"
      "map_of nodes c = Some k" "mn_state k = PENDING" for p n c k
    by (rule below_child [OF that(1), of "n\<lparr>mn_children_ids := pending_kids nodes n\<rparr>"])
      (use that in \<open>simp_all add: waiting_part_def pending_kids_iff\<close>)
  assume "x = a \<or> waits_below (map_of nodes) a x"
  then show "below (waiting_part nodes) a x"
  proof
    assume "waits_below (map_of nodes) a x"
    then show ?thesis by (induction rule: waits_below.induct) (auto intro: kid start)
  qed (simp add: start)
qed

lemma pend_loop_walk:
  assumes "walk_ok (waiting_part nodes) a stack result" and l: "linked (map_of nodes)" and r: "ranked (map_of nodes) r"
    and "mset (a # map mn_node_id pending) = mset (result @ stack)"
  shows "\<exists>xs vs. pend_loop nodes stack pending = Some xs \<and> walk_ok (waiting_part nodes) a [] vs
    \<and> mset (a # map mn_node_id xs) = mset vs"
  using assms(1,4)
proof (induction "card (dom (waiting_part nodes) - set result)" arbitrary: stack result pending rule: less_induct)
  case less
  show ?case
  proof (cases stack rule: rev_cases)
    case Nil
    with less.prems show ?thesis by (auto simp: pend_loop.simps)
  next
    case (snoc stack' x)
    have ok: "walk_ok (waiting_part nodes) a (stack' @ [x]) result" using less.prems snoc by simp
    then have "waiting_part nodes x \<noteq> None" and new: "x \<notin> set result"
      by (auto simp: walk_ok_def dest: below_known)
    then obtain n where n: "map_of nodes x = Some n" by (auto simp: waiting_part_def)
    have d: "dom (waiting_part nodes) = dom (map_of nodes)" by (auto simp: waiting_part_def dom_def)
    have small: "card (dom (waiting_part nodes) - set (result @ [x])) < card (dom (waiting_part nodes) - set result)"
      unfolding d using n new by (intro psubset_card_mono) (auto simp: finite_dom_map_of)
    let ?n = "n\<lparr>mn_children_ids := pending_kids nodes n\<rparr>"
    have nw: "waiting_part nodes x = Some ?n" using n by (simp add: waiting_part_def)
    from walk_step [OF ok waiting_linked [OF l] waiting_ranked [OF r] nw]
    have ok': "walk_ok (waiting_part nodes) a (stack' @ pending_kids nodes n) (result @ [x])" by simp
    have ids: "map mn_node_id (map (\<lambda>c. the (map_of nodes c)) (pending_kids nodes n)) = pending_kids nodes n"
      unfolding map_map by (rule map_idI) (use l in \<open>auto simp: pending_kids_iff linked_def\<close>)
    have "mset (a # map mn_node_id (pending @ map (\<lambda>c. the (map_of nodes c)) (pending_kids nodes n)))
        = mset ((result @ [x]) @ stack' @ pending_kids nodes n)"
      using less.prems(2) snoc unfolding map_append ids by simp
    from less.hyps [OF small ok' this] snoc n show ?thesis
      by (subst pend_loop.simps) (simp add: Let_def)
  qed
qed

lemma pend_loop_result:
  assumes wf: "wf_tree t"
  shows "\<exists>xs. pend_loop (mt_nodes t) [a] [] = Some xs \<and> distinct (map mn_node_id xs)
    \<and> mn_node_id ` set xs = {x. waits_below (get_node t) a x}"
proof (cases "map_of (mt_nodes t) a")
  case None
  have "\<not> waits_below (get_node t) a x" for x
  proof
    assume "waits_below (get_node t) a x"
    then show False by (induction rule: waits_below.induct) (use None in \<open>auto simp: get_node_def\<close>)
  qed
  with None show ?thesis by (simp add: pend_loop.simps)
next
  case (Some n)
  have m: "get_node t = map_of (mt_nodes t)" by (simp add: fun_eq_iff get_node_def)
  obtain r where r: "ranked (map_of (mt_nodes t)) r" and l: "linked (map_of (mt_nodes t))"
    using wf unfolding wf_tree_def m by blast
  have "walk_ok (waiting_part (mt_nodes t)) a [a] []"
    using Some by (simp add: walk_ok_def below_refl waiting_part_def)
  from pend_loop_walk [OF this l r, of "[]"] obtain xs vs where
    run: "pend_loop (mt_nodes t) [a] [] = Some xs" and ok: "walk_ok (waiting_part (mt_nodes t)) a [] vs"
    and ms: "mset (a # map mn_node_id xs) = mset vs"
    by auto
  from walk_done [OF ok] have vs: "distinct vs" "set vs = {x. x = a \<or> waits_below (get_node t) a x}"
    using Some by (auto simp: below_waiting m)
  have d: "distinct (a # map mn_node_id xs)" using vs(1) ms by (metis mset_eq_imp_distinct_iff)
  have "set (a # map mn_node_id xs) = set vs" using ms by (metis set_mset_mset)
  moreover have "\<not> waits_below (get_node t) a a"
  proof
    have up: "r a < r x" if "waits_below (get_node t) a x" for x
      using that
    proof (induction rule: waits_below.induct)
      case (waits_child n c k)
      with r m show ?case unfolding ranked_def by metis
    next
      case (waits_step p n c k)
      with r m show ?case unfolding ranked_def by (metis less_trans)
    qed
    assume "waits_below (get_node t) a a"
    from up [OF this] show False by simp
  qed
  ultimately have "mn_node_id ` set xs = {x. waits_below (get_node t) a x}" using d vs(2) by auto
  with run d show ?thesis by auto
qed

lemma waits_below_upd:
  assumes r: "ranked (get_node t) r" and same: "\<And>n. mn_children_ids (f n) = mn_children_ids n"
  shows "waits_below (get_node (upd_node i f t)) i x = waits_below (get_node t) i x"
proof
  let ?m = "get_node t" and ?m' = "get_node (upd_node i f t)"
  have up: "r i < r y" if "waits_below ?m i y" for y
    using that
  proof (induction rule: waits_below.induct)
    case (waits_child n c k)
    with r show ?case unfolding ranked_def by metis
  next
    case (waits_step p n c k)
    with r show ?case unfolding ranked_def by (metis less_trans)
  qed
  have kid: "c \<noteq> i" if "?m p = Some n" "c \<in> set (mn_children_ids n)" "p = i \<or> r i < r p" for p n c
    using r that unfolding ranked_def by force
  show "waits_below ?m i x" if "waits_below ?m' i x"
    using that
  proof (induction rule: waits_below.induct)
    case (waits_child n c k)
    then obtain n0 where n0: "?m i = Some n0" "c \<in> set (mn_children_ids n0)" by (auto simp: same)
    with kid have "c \<noteq> i" by blast
    with waits_child n0 show ?case by (auto intro: waits_below.waits_child)
  next
    case (waits_step p n c k)
    have "p \<noteq> i" using up [OF waits_step(6)] by auto
    with waits_step(2) have n: "?m p = Some n" by simp
    with kid [OF n waits_step(3)] up [OF waits_step(6)] have "c \<noteq> i" by blast
    with waits_step n show ?case by (auto intro: waits_below.waits_step)
  qed
  show "waits_below ?m' i x" if "waits_below ?m i x"
    using that
  proof (induction rule: waits_below.induct)
    case (waits_child n c k)
    with kid have "c \<noteq> i" by blast
    with waits_child show ?case
      by (intro waits_below.waits_child [of ?m' i "f n" c k]) (simp_all add: same)
  next
    case (waits_step p n c k)
    have "p \<noteq> i" using up [OF waits_step(1)] by auto
    with kid [OF waits_step(2,3)] up [OF waits_step(1)] have "c \<noteq> i" by blast
    with waits_step \<open>p \<noteq> i\<close> show ?case
      by (intro waits_below.waits_step [OF waits_step(6)]) simp_all
  qed
qed

lemma fold_update_lookup:
  "distinct (map mn_node_id ns) \<Longrightarrow>
   get_node (fold (\<lambda>child. update_state (mn_node_id child) st sid err now) ns t) x
     = (if x \<in> mn_node_id ` set ns then get_node (update_state x st sid err now t) x else get_node t x)"
  by (induction ns arbitrary: t) (auto simp: update_state_def)

lemma keeps_fold_update: "keeps t (fold (\<lambda>child. update_state (mn_node_id child) st sid err now) ns t)"
  by (induction ns arbitrary: t) (auto intro: keeps_trans [OF keeps_update_state])

lemma keeps_mark_node_error:
  assumes "mark_node_error i msg b now r = Some (ids, r')" and "find_tree r i = Some (root, tp)"
  shows "\<exists>t. r' = set_tree root (tp\<lparr>tp_tree := t\<rparr>) r \<and> keeps (tp_tree tp) t"
proof -
  define t1 where "t1 = (case get_node (tp_tree tp) i of None \<Rightarrow> tp_tree tp
    | Some n \<Rightarrow> update_state i ERROR None (Some msg) now (tp_tree tp))"
  have k: "keeps (tp_tree tp) t1" by (simp add: t1_def keeps_update_state split: option.split)
  define spread where "spread = (\<lambda>ns :: message_node list. fold (\<lambda>child. update_state (mn_node_id child) ERROR None
                            (Some (u ''Parent failed: '' @ msg)) now) ns t1)"
  have k2: "keeps (tp_tree tp) (spread ns)" for ns
    unfolding spread_def by (rule keeps_trans [OF k keeps_fold_update])
  have split: "(case get_node (tp_tree tp) i of None \<Rightarrow> ([], tp_tree tp)
      | Some n \<Rightarrow> ([mn_node_id n], update_state i ERROR None (Some msg) now (tp_tree tp)))
    = ((case get_node (tp_tree tp) i of None \<Rightarrow> [] | Some n \<Rightarrow> [mn_node_id n]), t1)"
    by (simp add: t1_def split: option.split)
  have res: "mark_node_error i msg b now r =
      (if \<not> b then Some (case get_node (tp_tree tp) i of None \<Rightarrow> [] | Some n \<Rightarrow> [mn_node_id n],
                     set_tree root (tp\<lparr>tp_tree := t1\<rparr>) r)
       else map_option (\<lambda>ns. ((case get_node (tp_tree tp) i of None \<Rightarrow> [] | Some n \<Rightarrow> [mn_node_id n])
                @ map mn_node_id ns, set_tree root (tp\<lparr>tp_tree := spread ns\<rparr>) r))
              (get_pending_children (set_tree root (tp\<lparr>tp_tree := t1\<rparr>) r) i))"
    using assms(2) unfolding mark_node_error_def Let_def spread_def
    by (simp only: option.case prod.case split) (simp split: option.split)
  have "r' = set_tree root (tp\<lparr>tp_tree := t1\<rparr>) r \<or> (\<exists>ns. r' = set_tree root (tp\<lparr>tp_tree := spread ns\<rparr>) r)"
    using assms(1) unfolding res by (auto split: if_splits)
  with k k2 show ?thesis by blast
qed

lemma find_tree_set:
  "get_tree r root \<noteq> None \<Longrightarrow> find_tree (set_tree root tp' r) x
     = map_option (\<lambda>(k, tp0). (k, if k = root then tp' else tp0)) (find_tree r x)"
  by (auto simp: find_tree_def set_tree_def get_tree_def option.map_comp comp_def split: option.split)

lemma get_node_of: "find_tree r x = Some (root, tp) \<Longrightarrow> repo_get_node r x = get_node (tp_tree tp) x"
  by (simp add: repo_get_node_def get_tree_for_node_def)

lemma repo_get_node_iff:
  assumes ok: "repo_ok r" and tp: "get_tree r root = Some tp" and k: "keeps (tp_tree tp) t"
  shows "repo_get_node (set_tree root (tp\<lparr>tp_tree := t\<rparr>) r) x =
     (if map_of (rp_node_to_tree r) x = Some root then get_node t x else repo_get_node r x)"
  using repo_ok_tree(1) [OF ok tp]
  by (auto simp: repo_get_node_def get_tree_for_node_def find_tree_def set_tree_def split: option.split)

lemma mark_node_error_result:
  assumes ok: "repo_ok r" and ft: "find_tree r i = Some (root, tp)" and n: "get_node (tp_tree tp) i = Some n"
  shows "\<exists>affected r'. mark_node_error i msg True now r = Some (affected, r') \<and> distinct affected
    \<and> set affected = {x. x = i \<or> waits_below (get_node (tp_tree tp)) i x}
    \<and> (\<forall>x. if x \<in> set affected
           then map_option mn_state (repo_get_node r' x) = Some ERROR
           else repo_get_node r' x = repo_get_node r x)"
proof -
  have gt: "get_tree r root = Some tp" "map_of (rp_node_to_tree r) i = Some root"
    using ft by (auto simp: find_tree_iff)
  note wf = repo_ok_tree(2) [OF ok gt(1)]
  let ?t = "tp_tree tp"
  let ?t1 = "update_state i ERROR None (Some msg) now ?t"
  obtain rk where rk: "ranked (get_node ?t) rk" using wf unfolding wf_tree_def by blast
  have id: "mn_node_id n = i" using wf n by (simp add: wf_tree_def linked_def)
  have "wf_tree ?t1" by (rule wf_update_state [OF wf])
  from pend_loop_result [OF this, of i] obtain xs where
    run: "pend_loop (mt_nodes ?t1) [i] [] = Some xs" and d: "distinct (map mn_node_id xs)"
    and set: "mn_node_id ` set xs = {x. waits_below (get_node ?t1) i x}" by blast
  have w: "waits_below (get_node ?t1) i x = waits_below (get_node ?t) i x" for x
    unfolding update_state_def by (rule waits_below_upd [OF rk]) simp
  have self: "\<not> waits_below (get_node ?t) i i"
  proof
    have up: "rk i < rk x" if "waits_below (get_node ?t) i x" for x
      using that
    proof (induction rule: waits_below.induct)
      case (waits_child n c k)
      with rk show ?case unfolding ranked_def by metis
    next
      case (waits_step p n c k)
      with rk show ?case unfolding ranked_def by (metis less_trans)
    qed
    assume "waits_below (get_node ?t) i i"
    from up [OF this] show False by simp
  qed
  define t2 where "t2 = fold (\<lambda>child. update_state (mn_node_id child) ERROR None
      (Some (u ''Parent failed: '' @ msg)) now) xs ?t1"
  define r' where "r' = set_tree root (tp\<lparr>tp_tree := t2\<rparr>) r"
  have k: "keeps ?t t2" unfolding t2_def by (rule keeps_trans [OF keeps_update_state keeps_fold_update])
  have ft1: "find_tree (set_tree root tp1 r) i = Some (root, tp1)" for tp1
    using gt repo_ok_tree(1) [OF ok gt(1)] by (simp add: find_tree_iff)
  have res: "mark_node_error i msg True now r = Some (i # map mn_node_id xs, r')"
    using ft n id run
    by (simp add: mark_node_error_def Let_def get_pending_children_def get_tree_for_node_def ft1 r'_def t2_def)
  have look: "\<not> (x = i \<or> waits_below (get_node ?t) i x) \<Longrightarrow> get_node t2 x = get_node ?t x"
    "x = i \<or> waits_below (get_node ?t) i x \<Longrightarrow> map_option mn_state (get_node t2 x) = map_option (\<lambda>_. ERROR) (get_node ?t x)" for x
    unfolding t2_def fold_update_lookup [OF d] using set w self
    by (auto simp: update_state_def option.map_comp comp_def)
  have known: "get_node ?t x \<noteq> None" if "x = i \<or> waits_below (get_node ?t) i x" for x
    using that n by (auto elim: waits_below.cases)
  have "if x \<in> set (i # map mn_node_id xs) then map_option mn_state (repo_get_node r' x) = Some ERROR
      else repo_get_node r' x = repo_get_node r x" for x
  proof (cases "x = i \<or> waits_below (get_node ?t) i x")
    case True
    from repo_ok_tree(4) [OF ok gt(1) known [OF True]] True look(2) [OF True] known [OF True] set w
    show ?thesis by (auto simp: r'_def repo_get_node_iff [OF ok gt(1) k])
  next
    case False
    have "get_node t2 x = get_node ?t x" using look(1) [of x] False by simp
    with False set w show ?thesis
      using gt(1)
      by (auto simp: r'_def repo_get_node_def get_tree_for_node_def find_tree_set find_tree_iff split: option.split)
  qed
  moreover have "distinct (i # map mn_node_id xs)" "set (i # map mn_node_id xs) = {x. x = i \<or> waits_below (get_node ?t) i x}"
    using d set w self by auto
  ultimately show ?thesis using res by blast
qed

section \<open>Reachable repositories\<close>

lemma cleanup_trees_lookup:
  "map_of (snd (cleanup_trees now d)) root
     = map_option (\<lambda>tp. tp\<lparr>tp_tree := snd (cleanup_tree now (tp_tree tp))\<rparr>) (map_of d root)"
  by (induction now d rule: cleanup_trees.induct) (auto split: prod.splits)

lemma keeps_cleanup: "keeps t (snd (cleanup_tree now t))"
  by (simp add: cleanup_tree_def Let_def keeps_mark_errors)

lemma repo_ok_cleanup:
  assumes "repo_ok r"
  shows "repo_ok (snd (cleanup_stale_nodes now r))"
proof -
  have look: "get_tree (snd (cleanup_stale_nodes now r)) root
      = map_option (\<lambda>tp. tp\<lparr>tp_tree := snd (cleanup_tree now (tp_tree tp))\<rparr>) (get_tree r root)" for root
    using cleanup_trees_lookup [of now "rp_trees r" root]
    by (auto simp: get_tree_def cleanup_stale_nodes_def split: prod.splits)
  have ix: "rp_node_to_tree (snd (cleanup_stale_nodes now r)) = rp_node_to_tree r"
    by (simp add: cleanup_stale_nodes_def split: prod.split)
  show ?thesis
    unfolding repo_ok_def look ix
  proof (intro allI impI)
    fix root tp' assume "map_option (\<lambda>tp. tp\<lparr>tp_tree := snd (cleanup_tree now (tp_tree tp))\<rparr>) (get_tree r root) = Some tp'"
    then obtain tp where tp: "get_tree r root = Some tp" "tp_tree tp' = snd (cleanup_tree now (tp_tree tp))" by auto
    have "get_node (tp_tree tp') i \<noteq> None \<longleftrightarrow> get_node (tp_tree tp) i \<noteq> None" for i
      using keeps_cleanup [of "tp_tree tp" now] tp(2) by (auto simp: keeps_def)
    with keeps_cleanup [of "tp_tree tp" now] repo_ok_tree [OF assms tp(1)] tp(2)
    show "root \<noteq> [] \<and> wf_tree (tp_tree tp') \<and> mt_root_id (tp_tree tp') = root
        \<and> distinct (map fst (mt_nodes (tp_tree tp')))
        \<and> (\<forall>i. get_node (tp_tree tp') i \<noteq> None \<longrightarrow> map_of (rp_node_to_tree r) i = Some root)"
      by (simp add: keeps_def)
  qed
qed

lemma all_nodes_ids:
  assumes "wf_tree t" and d: "distinct (map fst (mt_nodes t))"
  shows "set (map mn_node_id (all_nodes t)) = dom (get_node t)"
proof -
  have node: "(i, n) \<in> set (mt_nodes t) \<longleftrightarrow> get_node t i = Some n" for i n
    using d by (simp add: get_node_def)
  have "mn_node_id n = i" if "get_node t i = Some n" for i n
    using assms(1) that by (simp add: wf_tree_def linked_def)
  with node show ?thesis by (force simp: all_nodes_def image_iff)
qed

text \<open>What removing a branch does to the index and to the trees.\<close>

lemma remove_whole_tree:
  assumes ok: "repo_ok r" and ft: "find_tree r b = Some (root, tp)" and b: "mt_root_id (tp_tree tp) = b"
  shows "\<exists>ids r'. manager_remove_branch b now r = Some (Inr (ids, root, True), r')
    \<and> (\<forall>k. get_tree r' k = (if k = root then None else get_tree r k))
    \<and> (\<forall>i. map_of (rp_node_to_tree r') i = (if i \<in> set ids then None else map_of (rp_node_to_tree r) i))
    \<and> set ids = dom (get_node (tp_tree tp))"
proof -
  have gt: "get_tree r root = Some tp" using ft by (auto simp: find_tree_iff)
  with repo_ok_tree(3) [OF ok gt] b have root: "root = b" by simp
  obtain c tp' where ct: "cancel_tree now tp = (c, tp')" by (cases "cancel_tree now tp")
  have k: "keeps (tp_tree tp) (tp_tree tp')" using keeps_cancel_tree [of tp now] ct by simp
  let ?ids = "map mn_node_id (all_nodes (tp_tree tp'))"
  let ?r = "unregister_nodes ?ids ((set_tree root tp' r)\<lparr>rp_trees := AList.delete root (rp_trees (set_tree root tp' r))\<rparr>)"
  have "remove_tree root (set_tree root tp' r) = (Some (tp_tree tp'), ?r)"
    by (simp add: remove_tree_def)
  then have "manager_remove_branch b now r = Some (Inr (?ids, root, True), ?r)"
    using ft gt b root ct by (simp add: manager_remove_branch_def manager_cancel_tree_def Let_def)
  moreover have "get_tree ?r k = (if k = root then None else get_tree r k)" for k
    by (simp add: unregister_nodes_def get_tree_def set_tree_def)
  moreover have "map_of (rp_node_to_tree ?r) i = (if i \<in> set ?ids then None else map_of (rp_node_to_tree r) i)" for i
    by (simp add: unregister_nodes_def set_tree_def)
  moreover have "set ?ids = dom (get_node (tp_tree tp))"
    using all_nodes_ids [of "tp_tree tp'"] k repo_ok_tree(2,5) [OF ok gt] by (auto simp: keeps_def)
  ultimately show ?thesis by blast
qed

lemma repo_ok_whole_tree:
  assumes ok: "repo_ok r" and tp: "get_tree r root = Some tp"
    and trees: "\<forall>k. get_tree r' k = (if k = root then None else get_tree r k)"
    and ix: "\<forall>i. map_of (rp_node_to_tree r') i = (if i \<in> set ids then None else map_of (rp_node_to_tree r) i)"
    and ids: "set ids = dom (get_node (tp_tree tp))"
  shows "repo_ok r'"
  unfolding repo_ok_def
proof (intro allI impI)
  fix k tpk assume k: "get_tree r' k = Some tpk"
  with trees have old: "get_tree r k = Some tpk" "k \<noteq> root" by (auto split: if_splits)
  have "i \<notin> set ids" if "get_node (tp_tree tpk) i \<noteq> None" for i
    using repo_ok_tree(4) [OF ok old(1) that] repo_ok_tree(4) [OF ok tp, of i] old(2) ids by auto
  with repo_ok_tree [OF ok old(1)] ix
  show "k \<noteq> [] \<and> wf_tree (tp_tree tpk) \<and> mt_root_id (tp_tree tpk) = k
      \<and> distinct (map fst (mt_nodes (tp_tree tpk)))
      \<and> (\<forall>i. get_node (tp_tree tpk) i \<noteq> None \<longrightarrow> map_of (rp_node_to_tree r') i = Some k)"
    by auto
qed

lemma remove_inner_branch:
  assumes ok: "repo_ok r" and ft: "find_tree r b = Some (root, tp)" and b: "mt_root_id (tp_tree tp) \<noteq> b"
    and node: "get_node (tp_tree tp) b \<noteq> None"
  shows "\<exists>ids r' t. manager_remove_branch b now r = Some (Inr (ids, root, False), r')
    \<and> r' = unregister_nodes ids (set_tree root (tp\<lparr>tp_tree := t\<rparr>) r)
    \<and> set ids = {x. below (get_node (tp_tree tp)) b x}
    \<and> dom (get_node t) = dom (get_node (tp_tree tp)) - set ids \<and> repo_ok r'"
proof -
  have gt: "get_tree r root = Some tp" using ft by (auto simp: find_tree_iff)
  note wf = repo_ok_tree(2) [OF ok gt] and root = repo_ok_tree(3) [OF ok gt]
  from remove_branch_result [OF wf node] b obtain removed t where
    run: "remove_branch b (tp_tree tp) = Some (Inr removed, t)" and wf': "wf_tree t"
    and dom: "dom (get_node t) = dom (get_node (tp_tree tp)) - {x. below (get_node (tp_tree tp)) b x}"
    and ids: "mn_node_id ` set removed = {x. below (get_node (tp_tree tp)) b x}"
    by auto
  let ?ids = "map mn_node_id removed"
  let ?r = "unregister_nodes ?ids (set_tree root (tp\<lparr>tp_tree := t\<rparr>) r)"
  have "manager_remove_branch b now r = Some (Inr (?ids, root, False), ?r)"
    using ft b run root by (simp add: manager_remove_branch_def Let_def)
  moreover have "set ?ids = {x. below (get_node (tp_tree tp)) b x}" using ids by simp
  moreover have "repo_ok ?r"
    unfolding repo_ok_def
  proof (intro allI impI)
    fix k tpk assume k: "get_tree ?r k = Some tpk"
    show "k \<noteq> [] \<and> wf_tree (tp_tree tpk) \<and> mt_root_id (tp_tree tpk) = k
      \<and> distinct (map fst (mt_nodes (tp_tree tpk)))
      \<and> (\<forall>i. get_node (tp_tree tpk) i \<noteq> None \<longrightarrow> map_of (rp_node_to_tree ?r) i = Some k)"
    proof (cases "k = root")
      case True
      then have "tpk = tp\<lparr>tp_tree := t\<rparr>" using k by simp
      moreover have "mt_root_id t = root" using remove_branch_processing [OF run] root by simp
      moreover have "distinct (map fst (mt_nodes t))"
        by (rule distinct_remove_branch [OF run repo_ok_tree(5) [OF ok gt]])
      moreover have "i \<notin> set ?ids \<and> get_node (tp_tree tp) i \<noteq> None" if "get_node t i \<noteq> None" for i
        using dom ids that by auto
      ultimately show ?thesis
        using True wf' repo_ok_tree(1,4) [OF ok gt] by auto
    next
      case False
      then have old: "get_tree r k = Some tpk" using k by simp
      have "i \<notin> set ?ids" if "get_node (tp_tree tpk) i \<noteq> None" for i
      proof
        assume "i \<in> set ?ids"
        then have "get_node (tp_tree tp) i \<noteq> None" using ids below_known by auto
        with repo_ok_tree(4) [OF ok gt] repo_ok_tree(4) [OF ok old that] False show False by auto
      qed
      with repo_ok_tree [OF ok old] show ?thesis by auto
    qed
  qed
  ultimately show ?thesis using dom by blast
qed

lemma repo_ok_remove:
  assumes ok: "repo_ok r" and run: "manager_remove_branch b now r = Some (Inr res, r')"
  shows "repo_ok r'"
proof (cases "find_tree r b")
  case None
  with run ok show ?thesis by (simp add: manager_remove_branch_def)
next
  case (Some p)
  then obtain root tp where ft: "find_tree r b = Some (root, tp)" by (cases p) auto
  then have gt: "get_tree r root = Some tp" by (simp add: find_tree_iff)
  consider "mt_root_id (tp_tree tp) = b" | "mt_root_id (tp_tree tp) \<noteq> b" "get_node (tp_tree tp) b \<noteq> None"
    | "mt_root_id (tp_tree tp) \<noteq> b" "get_node (tp_tree tp) b = None" by blast
  then show ?thesis
  proof cases
    case 1
    from remove_whole_tree [OF ok ft 1, of now] run show ?thesis
      by (auto intro: repo_ok_whole_tree [OF ok gt])
  next
    case 2
    from remove_inner_branch [OF ok ft 2, of now] run show ?thesis by auto
  next
    case 3
    have "\<not> has_key (mt_nodes (tp_tree tp)) b" using 3(2) by (simp add: has_key_def get_node_def)
    then have "remove_branch b (tp_tree tp) = Some (Inr [], tp_tree tp)" by (simp add: remove_branch_def)
    with run ft 3(1) have "r' = unregister_nodes [] (set_tree root tp r)"
      by (simp add: manager_remove_branch_def Let_def)
    moreover have "repo_ok (set_tree root tp r)" by (rule repo_ok_set_tree [OF ok gt]) simp
    ultimately show ?thesis by (simp add: repo_ok_def)
  qed
qed

text \<open>A restart from the saved form.\<close>

lemma load_trees_get:
  "load_trees fromisoformat now (map (\<lambda>(rid, tp). (rid, JObj (tree_to_dict isoformat (tp_tree tp)))) ts) = Inr ts'
   \<Longrightarrow> map_of ts' root = Some tp' \<Longrightarrow>
   \<exists>tp t. map_of ts root = Some tp \<and> tp' = fresh_proc t
     \<and> tree_from_dict fromisoformat now (tree_to_dict isoformat (tp_tree tp)) = Inr t"
proof (induction ts arbitrary: ts')
  case (Cons x ts)
  obtain rid tp where x: "x = (rid, tp)" by (cases x)
  with Cons.prems(1) obtain t ts2 where t: "tree_from_dict fromisoformat now (tree_to_dict isoformat (tp_tree tp)) = Inr t"
    and ts2: "load_trees fromisoformat now (map (\<lambda>(rid, tp). (rid, JObj (tree_to_dict isoformat (tp_tree tp)))) ts) = Inr ts2"
    and ts': "ts' = (rid, fresh_proc t) # ts2"
    by (auto simp: load_bind_def split: sum.splits)
  show ?case
  proof (cases "root = rid")
    case True
    with Cons.prems(2) ts' x t show ?thesis by auto
  next
    case False
    with Cons.IH [OF ts2] Cons.prems(2) ts' x show ?thesis by simp
  qed
qed simp

lemma load_index_same: "load_index (map (\<lambda>(i, root). (i, JStr root)) ix) = Inr ix"
  by (induction ix) auto

lemma repo_ok_restart:
  assumes ok: "repo_ok r" and iso: "\<forall>x. fromisoformat (isoformat x) = Some x \<and> isoformat x \<noteq> []"
    and load: "repo_from_dict fromisoformat now (repo_to_dict isoformat r) = Inr r'"
  shows "repo_ok r'"
proof -
  have parts: "dget_or (repo_to_dict isoformat r) ''trees'' (JObj [])
      = JObj (map (\<lambda>(rid, tp). (rid, JObj (tree_to_dict isoformat (tp_tree tp)))) (rp_trees r))"
    "dget_or (repo_to_dict isoformat r) ''node_to_tree'' (JObj []) = JObj (map (\<lambda>(i, root). (i, JStr root)) (rp_node_to_tree r))"
    by (simp_all add: repo_to_dict_def)
  obtain ts where ts: "load_trees fromisoformat now
      (map (\<lambda>(rid, tp). (rid, JObj (tree_to_dict isoformat (tp_tree tp)))) (rp_trees r)) = Inr ts"
    and r': "r' = \<lparr>rp_trees = ts, rp_node_to_tree = rp_node_to_tree r\<rparr>"
    using load by (auto simp: repo_from_dict_def parts load_bind_def load_index_same split: sum.splits)
  show ?thesis
    unfolding repo_ok_def
  proof (intro allI impI)
    fix root tp' assume "get_tree r' root = Some tp'"
    then have "map_of ts root = Some tp'" by (simp add: get_tree_def r')
    from load_trees_get [OF ts this] obtain tp t where tp: "get_tree r root = Some tp" and t: "tp' = fresh_proc t"
      "tree_from_dict fromisoformat now (tree_to_dict isoformat (tp_tree tp)) = Inr t"
      by (auto simp: get_tree_def)
    note old = repo_ok_tree [OF ok tp]
    from reloaded_tree [of fromisoformat isoformat, OF _ _ old(2,5), of now] iso t(2)
    have new: "wf_tree t" "distinct (map fst (mt_nodes t))" "mt_root_id t = mt_root_id (tp_tree tp)"
      "\<forall>i. get_node t i = map_option (reload now) (get_node (tp_tree tp) i)"
      by auto
    show "root \<noteq> [] \<and> wf_tree (tp_tree tp') \<and> mt_root_id (tp_tree tp') = root
        \<and> distinct (map fst (mt_nodes (tp_tree tp')))
        \<and> (\<forall>i. get_node (tp_tree tp') i \<noteq> None \<longrightarrow> map_of (rp_node_to_tree r') i = Some root)"
      using old new by (auto simp: t(1) fresh_proc_def r')
  qed
qed

text \<open>What the message handler does with the manager: new conversations and replies with ids that are new
  to the index, status messages registered beside them, whatever happens to a tree's queue and tasks,
  errors, the removal of branches, and a restart from the saved form with the clean-up that follows.\<close>

inductive repo_reach :: "tree_repo \<Rightarrow> bool" where
  rr_init: "repo_reach repo_init"
| rr_create: "repo_reach r \<Longrightarrow> node_id \<noteq> [] \<Longrightarrow> \<not> has_node r node_id
     \<Longrightarrow> repo_reach (create_tree node_id m status now r)"
| rr_add: "repo_reach r \<Longrightarrow> find_tree r p = Some (root, tp) \<Longrightarrow> fresh_for i status (tp_tree tp)
     \<Longrightarrow> \<not> has_node r i \<Longrightarrow> add_to_tree p i m status now r = Some r' \<Longrightarrow> repo_reach r'"
| rr_register: "repo_reach r \<Longrightarrow> \<not> has_node r i \<Longrightarrow> repo_reach (register_node i root r)"
| rr_action: "repo_reach r \<Longrightarrow> get_tree r root = Some tp \<Longrightarrow> in_place a \<Longrightarrow> tq_apply a tp = Some tp'
     \<Longrightarrow> repo_reach (set_tree root tp' r)"
| rr_error: "repo_reach r \<Longrightarrow> mark_node_error i msg b now r = Some (ids, r') \<Longrightarrow> repo_reach r'"
| rr_cleanup: "repo_reach r \<Longrightarrow> repo_reach (snd (cleanup_stale_nodes now r))"
| rr_remove: "repo_reach r \<Longrightarrow> manager_remove_branch b now r = Some (Inr res, r') \<Longrightarrow> repo_reach r'"
| rr_restart: "repo_reach r \<Longrightarrow> \<forall>x. fromisoformat (isoformat x) = Some x \<and> isoformat x \<noteq> []
     \<Longrightarrow> repo_from_dict fromisoformat now (repo_to_dict isoformat r) = Inr r' \<Longrightarrow> repo_reach r'"

lemma reach_repo_ok: "repo_reach r \<Longrightarrow> repo_ok r"
proof (induction rule: repo_reach.induct)
  case rr_init
  show ?case by (simp add: repo_ok_def repo_init_def get_tree_def)
next
  case (rr_create r node_id m status now)
  then show ?case by (intro repo_ok_create)
next
  case (rr_add r p root tp i status m now r')
  from rr_add.hyps(5) rr_add.hyps(2) have "has_key (mt_nodes (tp_tree tp)) p"
    by (auto simp: add_to_tree_def add_node_def split: if_splits)
  from add_to_tree_result [OF rr_add.IH rr_add.hyps(2) this rr_add.hyps(3,4), of m now]
  obtain r2 where "add_to_tree p i m status now r = Some r2" "repo_ok r2" by blast
  with rr_add.hyps(5) show ?case by simp
next
  case (rr_register r i root)
  then show ?case by (intro repo_ok_register)
next
  case (rr_action r root tp a tp')
  from repo_ok_set_tree [OF rr_action.IH rr_action.hyps(2) keeps_action [OF rr_action.hyps(3,4)]] show ?case .
next
  case (rr_error r i msg b now ids r')
  show ?case
  proof (cases "find_tree r i")
    case None
    with rr_error show ?thesis by (simp add: mark_node_error_def)
  next
    case (Some p)
    then obtain root tp where ft: "find_tree r i = Some (root, tp)" by (cases p) auto
    from keeps_mark_node_error [OF rr_error.hyps(2) ft] obtain t where
      t: "r' = set_tree root (tp\<lparr>tp_tree := t\<rparr>) r" "keeps (tp_tree tp) t" by blast
    from ft have "get_tree r root = Some tp" by (simp add: find_tree_iff)
    from repo_ok_set_tree [OF rr_error.IH this] t show ?thesis by simp
  qed
next
  case (rr_cleanup r now)
  then show ?case by (intro repo_ok_cleanup)
next
  case (rr_remove r b now res r')
  show ?case by (rule repo_ok_remove [OF rr_remove.IH rr_remove.hyps(2)])
next
  case (rr_restart r fromisoformat isoformat now r')
  show ?case by (rule repo_ok_restart [OF rr_restart.IH rr_restart.hyps(2,3)])
qed

text \<open>Claim C19: the index is exact as long as ids are new. In every repository that is reached by
  messages whose ids are new to the index, and whatever else happens, a restart included, each tree is
  held under the id of its root, and every node of it is found from its id, in that tree and no other.
  The handler does not check that ids are new.\<close>

theorem index_finds_every_node:
  assumes "repo_reach r" and "get_tree r root = Some tp" and "get_node (tp_tree tp) i = Some n"
  shows "get_tree_for_node r i = Some (tp_tree tp) \<and> repo_get_node r i = Some n
    \<and> mt_root_id (tp_tree tp) = root \<and> wf_tree (tp_tree tp)
    \<and> (\<forall>root' tp'. get_tree r root' = Some tp' \<and> get_node (tp_tree tp') i \<noteq> None \<longleftrightarrow> root' = root \<and> tp' = tp)"
proof -
  note ok = reach_repo_ok [OF assms(1)]
  note facts = repo_ok_tree [OF ok assms(2)]
  have ix: "map_of (rp_node_to_tree r) i = Some root" using facts(4) assms(3) by simp
  then have ft: "find_tree r i = Some (root, tp)" using facts(1) assms(2) by (simp add: find_tree_iff)
  have "root' = root" if "get_tree r root' = Some tp'" "get_node (tp_tree tp') i \<noteq> None" for root' tp'
    using repo_ok_tree(4) [OF ok that] ix by simp
  then have "\<forall>root' tp'. get_tree r root' = Some tp' \<and> get_node (tp_tree tp') i \<noteq> None \<longleftrightarrow> root' = root \<and> tp' = tp"
    using assms(2,3) by (metis option.distinct(1) option.inject)
  moreover have "get_tree_for_node r i = Some (tp_tree tp)" "repo_get_node r i = Some n"
    using ft assms(3) by (simp_all add: get_tree_for_node_def repo_get_node_def)
  ultimately show ?thesis using facts(2,3) by blast
qed

text \<open>Claim C20: a reply always finds its place. When the message replied to resolves to a parent, the
  parent is a node, and adding a message with new ids under it succeeds: the new node is found,
  with that parent and pending, every node but the two is as before, and the index stays exact.\<close>

theorem reply_is_attached:
  assumes "repo_reach r" and "resolve_parent_node_id r msg_id = Some p"
    and "\<not> has_node r i" and "fresh_for i status (the (get_tree_for_node r msg_id))"
  shows "\<exists>r' c. add_to_tree p i m status now r = Some r' \<and> repo_reach r' \<and> repo_get_node r p \<noteq> None
    \<and> repo_get_node r' i = Some c \<and> mn_parent_id c = Some p \<and> mn_state c = PENDING
    \<and> (\<forall>j. j = i \<or> j = p \<or> repo_get_node r' j = repo_get_node r j)"
proof -
  note ok = reach_repo_ok [OF assms(1)]
  have "find_tree r msg_id \<noteq> None"
    using assms(2) unfolding resolve_parent_node_id_def get_tree_for_node_def by (cases "find_tree r msg_id") simp_all
  then obtain root tp where ft: "find_tree r msg_id = Some (root, tp)" by auto
  then have gt: "get_tree r root = Some tp" "root \<noteq> []" by (simp_all add: find_tree_iff)
  obtain n where n: "get_node (tp_tree tp) p = Some n"
  proof (cases "has_key (mt_nodes (tp_tree tp)) msg_id")
    case True
    with assms(2) ft have "p = msg_id" by (simp add: resolve_parent_node_id_def get_tree_for_node_def)
    with True that show thesis by (auto simp: has_key_def get_node_def)
  next
    case False
    with assms(2) ft obtain n where "find_node_by_status_message (tp_tree tp) msg_id = Some n" "p = mn_node_id n"
      by (auto simp: resolve_parent_node_id_def get_tree_for_node_def)
    moreover from this obtain q where "get_node (tp_tree tp) q = Some n"
      by (auto simp: find_node_by_status_message_def split: option.splits if_splits)
    ultimately show thesis using that wf_node_id [OF repo_ok_tree(2) [OF ok gt(1)]] by blast
  qed
  have "map_of (rp_node_to_tree r) p = Some root" using repo_ok_tree(4) [OF ok gt(1)] n by simp
  then have p: "find_tree r p = Some (root, tp)" using gt by (simp add: find_tree_iff)
  have key: "has_key (mt_nodes (tp_tree tp)) p" using n by (simp add: has_key_def get_node_def)
  have fresh: "fresh_for i status (tp_tree tp)" using assms(4) ft by (simp add: get_tree_for_node_def)
  from add_to_tree_result [OF ok p key fresh assms(3), of m now] obtain r' tp' where
    run: "add_to_tree p i m status now r = Some r'" and new: "find_tree r' i = Some (root, tp')"
      "get_node (tp_tree tp') i = Some (new_node i m status (Some p) now)"
    and other: "\<forall>j. j \<noteq> i \<longrightarrow> j \<noteq> p \<longrightarrow> repo_get_node r' j = repo_get_node r j" by blast
  have "repo_reach r'" by (rule rr_add [OF assms(1) p fresh assms(3) run])
  moreover have "repo_get_node r' i = Some (new_node i m status (Some p) now)"
    using new by (simp add: get_node_of)
  moreover have "repo_get_node r p \<noteq> None" using p n by (simp add: get_node_of)
  moreover have "\<forall>j. j = i \<or> j = p \<or> repo_get_node r' j = repo_get_node r j" using other by blast
  moreover have "mn_parent_id (new_node i m status (Some p) now) = Some p"
    "mn_state (new_node i m status (Some p) now) = PENDING"
    by (simp_all add: new_node_def)
  ultimately show ?thesis using run by blast
qed

text \<open>Claim C21: a failed message takes its waiting replies with it. Marking a node as failed always
  returns; it marks exactly that node and the nodes below it over waiting replies, each once,
  and changes no other node.\<close>

theorem failure_spreads_to_waiting_replies:
  assumes "repo_reach r" and "find_tree r i = Some (root, tp)" and "get_node (tp_tree tp) i = Some n"
  shows "\<exists>affected r'. mark_node_error i msg True now r = Some (affected, r') \<and> distinct affected
    \<and> set affected = {x. x = i \<or> waits_below (get_node (tp_tree tp)) i x}
    \<and> (\<forall>x. if x \<in> set affected
           then map_option mn_state (repo_get_node r' x) = Some ERROR
           else repo_get_node r' x = repo_get_node r x)"
  by (rule mark_node_error_result [OF reach_repo_ok [OF assms(1)] assms(2,3)])

text \<open>A repeated id, as message ids of two chats can be, breaks it: the node of the older tree is no longer
  found, its id leads to the new tree.\<close>

theorem repeated_id_hides_node:
  assumes "repo_reach r" and "get_tree r root = Some tp" and "get_node (tp_tree tp) i = Some n" and "i \<noteq> root" and "i \<noteq> []"
  shows "\<exists>t. get_tree_for_node (create_tree i m status now r) i = Some t \<and> t \<noteq> tp_tree tp
    \<and> get_tree (create_tree i m status now r) root = Some tp"
proof -
  let ?t = "new_tree (new_node i m status None now)"
  have "mt_root_id (tp_tree tp) = root" using repo_ok_tree(3) [OF reach_repo_ok [OF assms(1)] assms(2)] .
  moreover have "mt_root_id ?t = i" by (simp add: new_tree_def new_node_def)
  ultimately have "?t \<noteq> tp_tree tp" using assms(4) by metis
  moreover have "get_tree_for_node (create_tree i m status now r) i = Some ?t"
    using assms(5) by (simp add: get_tree_for_node_def find_tree_def create_tree_def add_tree_def fresh_proc_def)
  moreover have "get_tree (create_tree i m status now r) root = Some tp"
    using assms(2,4) by (simp add: get_tree_def create_tree_def add_tree_def)
  ultimately show ?thesis by blast
qed

definition example_repo0 :: tree_repo where
  "example_repo0 = register_node (u ''sa'') (u ''a'') (create_tree (u ''a'') example_message (u ''sa'') 1 repo_init)"

definition example_repo :: tree_repo where
  "example_repo = the (add_to_tree (u ''a'') (u ''b'') example_message (u ''sb'') 2 example_repo0)"

lemma example_repo0_reach: "repo_reach example_repo0"
  unfolding example_repo0_def
  by (intro rr_register rr_create rr_init) (code_simp+)

lemma example_repo_reach: "repo_reach example_repo"
proof -
  have "find_tree example_repo0 (u ''a'') \<noteq> None" by code_simp
  then obtain root tp where ft: "find_tree example_repo0 (u ''a'') = Some (root, tp)" by auto
  have "fresh_for (u ''b'') (u ''sb'') (tp_tree (snd (the (find_tree example_repo0 (u ''a'')))))" by code_simp
  then have fresh: "fresh_for (u ''b'') (u ''sb'') (tp_tree tp)" by (simp add: ft)
  have new: "\<not> has_node example_repo0 (u ''b'')" by code_simp
  have "add_to_tree (u ''a'') (u ''b'') example_message (u ''sb'') 2 example_repo0 \<noteq> None" by code_simp
  then have "add_to_tree (u ''a'') (u ''b'') example_message (u ''sb'') 2 example_repo0 = Some example_repo"
    by (auto simp: example_repo_def)
  from rr_add [OF example_repo0_reach ft fresh new this] show ?thesis .
qed

theorem index_finds_every_node_witness:
  "\<exists>tp n. get_tree example_repo (u ''a'') = Some tp \<and> get_node (tp_tree tp) (u ''b'') = Some n
    \<and> get_tree_for_node example_repo (u ''b'') = Some (tp_tree tp) \<and> repo_get_node example_repo (u ''b'') = Some n
    \<and> mt_root_id (tp_tree tp) = u ''a'' \<and> wf_tree (tp_tree tp)"
proof -
  have "map_option (\<lambda>tp. get_node (tp_tree tp) (u ''b'') = None) (get_tree example_repo (u ''a'')) = Some False"
    by code_simp
  then obtain tp n where "get_tree example_repo (u ''a'') = Some tp" "get_node (tp_tree tp) (u ''b'') = Some n"
    by auto
  with index_finds_every_node [OF example_repo_reach this] show ?thesis by blast
qed

theorem reply_is_attached_witness:
  "resolve_parent_node_id example_repo (u ''sa'') = Some (u ''a'')
    \<and> (\<exists>r' c. add_to_tree (u ''a'') (u ''c'') example_message (u ''sc'') 3 example_repo = Some r' \<and> repo_reach r'
      \<and> repo_get_node example_repo (u ''a'') \<noteq> None
      \<and> repo_get_node r' (u ''c'') = Some c \<and> mn_parent_id c = Some (u ''a'') \<and> mn_state c = PENDING
      \<and> (\<forall>j. j = u ''c'' \<or> j = u ''a'' \<or> repo_get_node r' j = repo_get_node example_repo j))"
proof
  show r: "resolve_parent_node_id example_repo (u ''sa'') = Some (u ''a'')" by code_simp
  show "\<exists>r' c. add_to_tree (u ''a'') (u ''c'') example_message (u ''sc'') 3 example_repo = Some r' \<and> repo_reach r'
      \<and> repo_get_node example_repo (u ''a'') \<noteq> None
      \<and> repo_get_node r' (u ''c'') = Some c \<and> mn_parent_id c = Some (u ''a'') \<and> mn_state c = PENDING
      \<and> (\<forall>j. j = u ''c'' \<or> j = u ''a'' \<or> repo_get_node r' j = repo_get_node example_repo j)"
    by (rule reply_is_attached [OF example_repo_reach r]) (code_simp+)
qed

theorem failure_spreads_to_waiting_replies_witness:
  "\<exists>root tp n affected r'. find_tree example_repo (u ''a'') = Some (root, tp) \<and> get_node (tp_tree tp) (u ''a'') = Some n
    \<and> mark_node_error (u ''a'') (u ''boom'') True 9 example_repo = Some (affected, r') \<and> distinct affected
    \<and> set affected = {x. x = u ''a'' \<or> waits_below (get_node (tp_tree tp)) (u ''a'') x}
    \<and> (\<forall>x. if x \<in> set affected
           then map_option mn_state (repo_get_node r' x) = Some ERROR
           else repo_get_node r' x = repo_get_node example_repo x)"
proof -
  have "map_option (\<lambda>(root, tp). get_node (tp_tree tp) (u ''a'') = None) (find_tree example_repo (u ''a'')) = Some False"
    by code_simp
  then obtain root tp n where ft: "find_tree example_repo (u ''a'') = Some (root, tp)"
    and n: "get_node (tp_tree tp) (u ''a'') = Some n"
    by auto
  from failure_spreads_to_waiting_replies [OF example_repo_reach ft n, of "u ''boom''" 9] ft n show ?thesis by blast
qed

end
