(* ===== verification/Sliding_Window.thy ===== *)
theory Sliding_Window
  imports Prelude Complex_Main
begin

text \<open>
  The strict sliding window limiter (\<open>core/rate_limit.py\<close>). The body of \<open>acquire\<close> under its lock is
  one step at a reading of the monotonic clock: it takes a slot or says how long to sleep. Times
  are exact rationals; the rounding of Python's floats is not modelled. The promise its two
  clients rely on is the locale \<open>admission\<close>.
\<close>

section \<open>The limiter\<close>

record window =
  w_rate_limit :: nat
  w_rate_window :: rat
  w_times :: "rat list"

text \<open>\<open>None\<close> is the \<open>ValueError\<close> of a limit or window that is not positive.\<close>

definition make_window :: "int \<Rightarrow> rat \<Rightarrow> window option" where
  "make_window rate_limit rate_window =
     (if rate_limit \<le> 0 then None
      else if rate_window \<le> 0 then None
      else Some \<lparr>w_rate_limit = nat rate_limit, w_rate_window = rate_window, w_times = []\<rparr>)"

text \<open>One round of the loop of \<open>acquire\<close>: \<open>None\<close> when the slot was taken, otherwise the time to sleep.\<close>

definition acquire_step :: "rat \<Rightarrow> window \<Rightarrow> rat option \<times> window" where
  "acquire_step now w =
     (let times = dropWhile (\<lambda>t. t \<le> now - w_rate_window w) (w_times w)
      in if length times < w_rate_limit w
         then (None, w\<lparr>w_times := times @ [now]\<rparr>)
         else (Some (max 0 (hd times + w_rate_window w - now)), w\<lparr>w_times := times\<rparr>))"

text \<open>\<open>acquire\<close> of a task that is alone: round after round, each at the clock reading after the sleep,
  which is late by \<open>lag\<close>. \<open>None\<close> when the rounds run out; otherwise the time of the slot.\<close>

fun acquire :: "nat \<Rightarrow> rat \<Rightarrow> (nat \<Rightarrow> rat) \<Rightarrow> window \<Rightarrow> (rat \<times> window) option" where
  "acquire 0 now lag w = None"
| "acquire (Suc rounds) now lag w =
     (case acquire_step now w of
        (None, w') \<Rightarrow> Some (now, w')
      | (Some wait, w') \<Rightarrow> acquire rounds (now + wait + lag rounds) lag w')"

section \<open>Admission\<close>

text \<open>What a client may rely on. The times held are those of the latest grants; a try forgets only
  times that are out of the window, and grants only while fewer than the limit are held.\<close>

locale admission =
  fixes try_at :: "rat \<Rightarrow> 'w \<Rightarrow> rat option \<times> 'w"
    and held :: "'w \<Rightarrow> rat list"
    and limit :: "'w \<Rightarrow> nat"
    and width :: "'w \<Rightarrow> rat"
  assumes config: "try_at now w = (res, w') \<Longrightarrow> limit w' = limit w \<and> width w' = width w"
    and granted: "try_at now w = (None, w') \<Longrightarrow>
      \<exists>k. held w' = drop k (held w) @ [now] \<and> list_all (\<lambda>t. t \<le> now - width w) (take k (held w))
        \<and> length (held w') \<le> limit w"
    and refused: "try_at now w = (Some d, w') \<Longrightarrow>
      \<exists>k. held w' = drop k (held w) \<and> list_all (\<lambda>t. t \<le> now - width w) (take k (held w))"
begin

text \<open>The grants so far, oldest first: they are in the past, the forgotten ones are out of the window,
  and no window holds more than the limit.\<close>

definition sound :: "rat list \<Rightarrow> rat \<Rightarrow> 'w \<Rightarrow> bool" where
  "sound past now w \<longleftrightarrow>
     list_all (\<lambda>t. t \<le> now) past
     \<and> (\<exists>k. held w = drop k past \<and> list_all (\<lambda>t. t \<le> now - width w) (take k past))
     \<and> (\<forall>x. length (filter (\<lambda>t. x < t \<and> t \<le> x + width w) past) \<le> limit w)"

lemma sound_start: "held w = [] \<Longrightarrow> sound [] now w"
  by (auto simp: sound_def)

lemma all_le_mono: "list_all (\<lambda>t. t \<le> a) ts \<Longrightarrow> a \<le> b \<Longrightarrow> list_all (\<lambda>t :: rat. t \<le> b) ts"
  by (auto simp: list_all_iff intro: order_trans)

lemma take_drop_all:
  "list_all P (take k past) \<Longrightarrow> list_all P (take j (drop k past)) \<Longrightarrow> list_all P (take (k + j) past)"
  by (simp add: take_add)

lemma sound_later: "sound past now w \<Longrightarrow> now \<le> later \<Longrightarrow> sound past later w"
proof -
  assume s: "sound past now w" and le: "now \<le> later"
  then obtain k where k: "held w = drop k past" "list_all (\<lambda>t. t \<le> now - width w) (take k past)"
    by (auto simp: sound_def)
  have "list_all (\<lambda>t. t \<le> later - width w) (take k past)"
    by (rule all_le_mono [OF k(2)]) (simp add: le)
  moreover have "list_all (\<lambda>t. t \<le> later) past"
    by (rule all_le_mono [OF _ le]) (use s in \<open>simp add: sound_def\<close>)
  ultimately show ?thesis using s k(1) by (auto simp: sound_def)
qed

lemma sound_refused:
  assumes s: "sound past now w" and t: "try_at now w = (Some d, w')"
  shows "sound past now w'"
proof -
  obtain k where k: "held w = drop k past" "list_all (\<lambda>t. t \<le> now - width w) (take k past)"
    using s by (auto simp: sound_def)
  from refused [OF t] obtain j where j: "held w' = drop j (held w)" "list_all (\<lambda>t. t \<le> now - width w) (take j (held w))"
    by blast
  have "held w' = drop (k + j) past" using j(1) k(1) by (simp add: add.commute)
  moreover have "list_all (\<lambda>t. t \<le> now - width w) (take (k + j) past)"
    by (rule take_drop_all) (use k j in simp_all)
  ultimately show ?thesis using s config [OF t] unfolding sound_def by auto
qed

lemma sound_granted:
  assumes s: "sound past now w" and t: "try_at now w = (None, w')"
  shows "sound (past @ [now]) now w'"
proof -
  obtain k where k: "held w = drop k past" "list_all (\<lambda>t. t \<le> now - width w) (take k past)"
    using s by (auto simp: sound_def)
  from granted [OF t] obtain j where j: "held w' = drop j (held w) @ [now]"
    "list_all (\<lambda>t. t \<le> now - width w) (take j (held w))" "length (held w') \<le> limit w"
    by blast
  define m where "m = min (k + j) (length past)"
  have old: "list_all (\<lambda>t. t \<le> now - width w) (take m past)"
  proof -
    have "take m past = take (k + j) past" by (simp add: m_def min_def)
    with take_drop_all [OF k(2)] j(2) k(1) show ?thesis by simp
  qed
  have h: "held w' = drop m past @ [now]" using j(1) k(1) by (simp add: m_def min_def add.commute)
  have m: "m \<le> length past" by (simp add: m_def)
  have "length (filter (\<lambda>t. x < t \<and> t \<le> x + width w) (past @ [now])) \<le> limit w" for x
  proof (cases "now \<le> x + width w \<and> x < now")
    case True
    have "filter (\<lambda>t. x < t \<and> t \<le> x + width w) (take m past) = []"
      using old True by (fastforce simp: list_all_iff filter_empty_conv)
    then have "filter (\<lambda>t. x < t \<and> t \<le> x + width w) past
        = filter (\<lambda>t. x < t \<and> t \<le> x + width w) (drop m past)"
      by (metis append_Nil append_take_drop_id filter_append)
    then have "length (filter (\<lambda>t. x < t \<and> t \<le> x + width w) past) \<le> length (drop m past)"
      by (metis length_filter_le)
    with j(3) h show ?thesis by simp
  next
    case False
    with s show ?thesis by (auto simp: sound_def)
  qed
  moreover have "\<exists>k. held w' = drop k (past @ [now]) \<and> list_all (\<lambda>t. t \<le> now - width w') (take k (past @ [now]))"
    using h m old config [OF t] by (intro exI [of _ m]) simp
  moreover have "list_all (\<lambda>t. t \<le> now) (past @ [now])" using s by (simp add: sound_def)
  ultimately show ?thesis using config [OF t] unfolding sound_def by simp
qed

lemma sound_bound:
  "sound past now w \<Longrightarrow> length (filter (\<lambda>t. x < t \<and> t \<le> x + width w) past) \<le> limit w"
  by (simp add: sound_def)

end

interpretation win: admission acquire_step w_times w_rate_limit w_rate_window
proof unfold_locales
  fix now w d w'
  assume "acquire_step now w = (d, w')"
  then show "w_rate_limit w' = w_rate_limit w \<and> w_rate_window w' = w_rate_window w"
    by (auto simp: acquire_step_def Let_def split: if_splits)
next
  fix now w w'
  assume t: "acquire_step now w = (None, w')"
  let ?p = "\<lambda>t. t \<le> now - w_rate_window w"
  let ?k = "length (takeWhile ?p (w_times w))"
  have "dropWhile ?p (w_times w) = drop ?k (w_times w)" "take ?k (w_times w) = takeWhile ?p (w_times w)"
    by (simp_all add: dropWhile_eq_drop takeWhile_eq_take [symmetric])
  moreover have "list_all ?p (takeWhile ?p (w_times w))" by (auto simp: list_all_iff dest: set_takeWhileD)
  ultimately show "\<exists>k. w_times w' = drop k (w_times w) @ [now] \<and> list_all ?p (take k (w_times w))
      \<and> length (w_times w') \<le> w_rate_limit w"
    using t by (intro exI [of _ ?k]) (auto simp: acquire_step_def Let_def split: if_splits)
next
  fix now w d w'
  assume t: "acquire_step now w = (Some d, w')"
  let ?p = "\<lambda>t. t \<le> now - w_rate_window w"
  let ?k = "length (takeWhile ?p (w_times w))"
  have "dropWhile ?p (w_times w) = drop ?k (w_times w)" "take ?k (w_times w) = takeWhile ?p (w_times w)"
    by (simp_all add: dropWhile_eq_drop takeWhile_eq_take [symmetric])
  moreover have "list_all ?p (takeWhile ?p (w_times w))" by (auto simp: list_all_iff dest: set_takeWhileD)
  ultimately show "\<exists>k. w_times w' = drop k (w_times w) \<and> list_all ?p (take k (w_times w))"
    using t by (intro exI [of _ ?k]) (auto simp: acquire_step_def Let_def split: if_splits)
qed

section \<open>Runs\<close>

text \<open>Any number of tasks call \<open>acquire\<close>: their rounds are steps at the readings of the clock, in the
  order in which they get the lock. The result is the times at which slots were given.\<close>

fun run_rounds :: "rat list \<Rightarrow> window \<Rightarrow> rat list" where
  "run_rounds [] w = []"
| "run_rounds (now # later) w =
     (case acquire_step now w of
        (None, w') \<Rightarrow> now # run_rounds later w'
      | (Some wait, w') \<Rightarrow> run_rounds later w')"

lemma run_rounds_sound:
  "win.sound past t0 w \<Longrightarrow> sorted (t0 # nows) \<Longrightarrow>
   length (filter (\<lambda>t. x < t \<and> t \<le> x + w_rate_window w) (past @ run_rounds nows w)) \<le> w_rate_limit w"
proof (induction nows arbitrary: past t0 w)
  case Nil
  then show ?case using win.sound_bound by simp
next
  case (Cons now nows)
  have s: "win.sound past now w" using win.sound_later [OF Cons.prems(1)] Cons.prems(2) by simp
  have sorted: "sorted (now # nows)" using Cons.prems(2) by simp
  obtain d w' where step: "acquire_step now w = (d, w')" by (cases "acquire_step now w")
  note c = win.config [OF step, THEN conjunct1] win.config [OF step, THEN conjunct2]
  show ?case
  proof (cases d)
    case None
    from Cons.IH [OF win.sound_granted [OF s step [unfolded None]] sorted] step None show ?thesis by (simp add: c)
  next
    case (Some wait)
    from Cons.IH [OF win.sound_refused [OF s step [unfolded Some]] sorted] step Some show ?thesis by (simp add: c)
  qed
qed

text \<open>The window is strict. However many tasks acquire and whatever the clock reads, as long as
  it does not go back, every half-open interval of the window's length holds at most \<open>rate_limit\<close>
  acquisitions.\<close>

theorem window_is_strict:
  assumes "make_window rate_limit rate_window = Some w" and "sorted nows"
  shows "int (length (filter (\<lambda>t. x < t \<and> t \<le> x + rate_window) (run_rounds nows w))) \<le> rate_limit"
proof -
  have w: "w_rate_limit w = nat rate_limit" "w_rate_window w = rate_window" "w_times w = []" "0 < rate_limit"
    using assms(1) by (auto simp: make_window_def split: if_splits)
  show ?thesis
  proof (cases nows)
    case (Cons t0 later)
    from run_rounds_sound [OF win.sound_start [OF w(3), of t0], of nows x] assms(2) Cons w show ?thesis
      by simp
  qed (use w in simp)
qed

theorem window_is_strict_witness:
  "\<exists>w. make_window 2 10 = Some w \<and> run_rounds [0, 3, 5, 10, 11, 14] w = [0, 3, 10, 14]
     \<and> int (length (filter (\<lambda>t. 0 < t \<and> t \<le> 0 + 10) (run_rounds [0, 3, 5, 10, 11, 14] w))) \<le> 2"
proof -
  obtain w where w: "make_window 2 10 = Some w" by (simp add: make_window_def)
  have "run_rounds [0, 3, 5, 10, 11, 14] (the (make_window 2 10)) = [0, 3, 10, 14]" by code_simp
  moreover have "sorted [0, 3, 5, 10, 11, 14 :: rat]" by simp
  ultimately show ?thesis using w window_is_strict [OF w, of "[0, 3, 5, 10, 11, 14]" 0] by simp
qed

text \<open>A closed interval may hold one more: the entry at exactly the cutoff is dropped.\<close>

lemma closed_interval_holds_one_more:
  "map_option (\<lambda>w. length (filter (\<lambda>t. 0 \<le> t \<and> t \<le> 10) (run_rounds [0, 10] w))) (make_window 1 10) = Some 2"
  by code_simp

text \<open>Claim C35: a task that is alone never waits longer than the window and never starves: its first
  round takes the slot, or its second one does after the sleep, however late the sleep returns.\<close>

theorem acquire_alone_succeeds:
  assumes "0 < w_rate_limit w" and "0 < w_rate_window w" and "sorted (w_times w @ [now])" and "\<And>k. 0 \<le> lag k"
    and "length (w_times w) \<le> w_rate_limit w"
  shows "\<exists>t w'. acquire 2 now lag w = Some (t, w') \<and> now \<le> t \<and> t \<le> now + w_rate_window w + lag 1"
proof -
  let ?W = "w_rate_window w"
  define times where "times = dropWhile (\<lambda>t. t \<le> now - ?W) (w_times w)"
  show ?thesis
  proof (cases "length times < w_rate_limit w")
    case True
    with assms(2,4) show ?thesis
      by (simp add: numeral_2_eq_2 acquire_step_def Let_def times_def [symmetric] add_nonneg_nonneg less_imp_le)
  next
    case False
    with assms(1) obtain oldest rest where ts: "times = oldest # rest" by (cases times) auto
    have le: "length times \<le> w_rate_limit w"
      using assms(5) length_dropWhile_le [of _ "w_times w"] unfolding times_def by (rule order_trans [rotated])
    have mem: "oldest \<in> set (w_times w)" using ts set_dropWhileD unfolding times_def
      by (metis list.set_intros(1))
    then have o: "oldest \<le> now" using assms(3) by (simp add: sorted_append)
    have o2: "now - ?W < oldest" using ts unfolding times_def
      by (metis dropWhile_eq_Cons_conv not_le)
    let ?w = "w\<lparr>w_times := times\<rparr>"
    let ?t = "oldest + ?W + lag 1"
    have s1: "acquire_step now w = (Some (oldest + ?W - now), ?w)"
      using False ts o2 by (simp add: acquire_step_def Let_def times_def [symmetric] max_def)
    have "oldest \<le> ?t - ?W" using assms(4) [of 1] by simp
    then have "length (dropWhile (\<lambda>t. t \<le> ?t - ?W) times) \<le> length rest"
      unfolding ts by (simp add: length_dropWhile_le)
    with le ts have "length (dropWhile (\<lambda>t. t \<le> ?t - ?W) times) < w_rate_limit w" by simp
    then have s2: "\<exists>w'. acquire_step ?t ?w = (None, w')" by (simp add: acquire_step_def Let_def)
    have "now + (oldest + ?W - now) + lag 1 = ?t" by simp
    with s1 s2 have "\<exists>w'. acquire 2 now lag w = Some (?t, w')" by (auto simp: numeral_2_eq_2)
    moreover have "now \<le> ?t" "?t \<le> now + ?W + lag 1" using o o2 assms(4) [of 1] by (simp_all add: algebra_simps)
    ultimately show ?thesis by blast
  qed
qed

theorem acquire_alone_succeeds_witness:
  "\<exists>t w'. acquire 2 5 (\<lambda>_. 1) \<lparr>w_rate_limit = 1, w_rate_window = 10, w_times = [3]\<rparr> = Some (t, w')
     \<and> 5 \<le> t \<and> t \<le> 5 + w_rate_window \<lparr>w_rate_limit = 1, w_rate_window = 10, w_times = [3]\<rparr> + (\<lambda>_. 1) (1 :: nat)"
  by (rule acquire_alone_succeeds) simp_all

end
