(* ===== verification/Rate_Limit.thy ===== *)
theory Rate_Limit
  imports Sliding_Window Errors
begin

text \<open>
  The provider rate limiter (\<open>GlobalRateLimiter\<close>, \<open>providers/rate_limit.py\<close>): its construction
  and registry, the reactive block after a 429, the proactive window, the concurrency slots, and
  \<open>execute_with_retry\<close>. Requests run as tasks of one event loop; a request is the phase it is
  suspended in, and one step takes it to the next suspension. Arguments of the steps: the reading
  of the clock, the answer of the upstream call, and the jitter that \<open>random.uniform\<close> draws.
\<close>

section \<open>Limiters\<close>

record glimiter =
  gl_rate_limit :: int
  gl_rate_window :: rat
  gl_max_concurrency :: int
  gl_proactive :: window
  gl_blocked_until :: rat
  gl_free_slots :: int

text \<open>\<open>None\<close> is a \<open>ValueError\<close>.\<close>

definition make_limiter :: "int \<Rightarrow> rat \<Rightarrow> int \<Rightarrow> glimiter option" where
  "make_limiter rate_limit rate_window max_concurrency =
     (if rate_limit \<le> 0 then None
      else if rate_window \<le> 0 then None
      else if max_concurrency \<le> 0 then None
      else map_option (\<lambda>w. \<lparr>gl_rate_limit = rate_limit, gl_rate_window = rate_window,
             gl_max_concurrency = max_concurrency, gl_proactive = w, gl_blocked_until = 0,
             gl_free_slots = max_concurrency\<rparr>) (make_window rate_limit rate_window))"

definition matches_config :: "glimiter \<Rightarrow> int \<Rightarrow> rat \<Rightarrow> int \<Rightarrow> bool" where
  "matches_config g rate_limit rate_window max_concurrency \<longleftrightarrow>
     gl_rate_limit g = rate_limit \<and> gl_rate_window g = rate_window \<and> gl_max_concurrency g = max_concurrency"

text \<open>\<open>value or default\<close>: zero counts as not given.\<close>

definition or_default :: "'a :: zero option \<Rightarrow> 'a \<Rightarrow> 'a" where
  "or_default v d = (case v of None \<Rightarrow> d | Some x \<Rightarrow> if x = 0 then d else x)"

record limiters =
  ls_instance :: "glimiter option"
  ls_scoped :: "(pystr, glimiter) dict"

definition get_instance ::
  "int option \<Rightarrow> rat option \<Rightarrow> int \<Rightarrow> limiters \<Rightarrow> (glimiter \<times> limiters) option" where
  "get_instance rate_limit rate_window max_concurrency ls =
     (case ls_instance ls of
        Some g \<Rightarrow> Some (g, ls)
      | None \<Rightarrow> map_option (\<lambda>g. (g, ls\<lparr>ls_instance := Some g\<rparr>))
                  (make_limiter (or_default rate_limit 40) (or_default rate_window 60) max_concurrency))"

definition get_scoped_instance ::
  "pystr \<Rightarrow> int option \<Rightarrow> rat option \<Rightarrow> int \<Rightarrow> limiters \<Rightarrow> (glimiter \<times> limiters) option" where
  "get_scoped_instance scope rate_limit rate_window max_concurrency ls =
     (if scope = [] then None
      else
        (let desired_rate_limit = or_default rate_limit 40;
             desired_rate_window = or_default rate_window 60;
             rebuild = map_option (\<lambda>g. (g, ls\<lparr>ls_scoped := AList.update scope g (ls_scoped ls)\<rparr>))
               (make_limiter desired_rate_limit desired_rate_window max_concurrency)
         in case map_of (ls_scoped ls) scope of
              Some existing \<Rightarrow>
                if matches_config existing desired_rate_limit desired_rate_window max_concurrency
                then Some (existing, ls) else rebuild
            | None \<Rightarrow> rebuild))"

definition reset_instance :: "limiters \<Rightarrow> limiters" where
  "reset_instance ls = \<lparr>ls_instance = None, ls_scoped = []\<rparr>"

definition set_blocked :: "rat \<Rightarrow> rat \<Rightarrow> glimiter \<Rightarrow> glimiter" where
  "set_blocked now seconds g = g\<lparr>gl_blocked_until := now + seconds\<rparr>"

definition is_blocked :: "rat \<Rightarrow> glimiter \<Rightarrow> bool" where
  "is_blocked now g \<longleftrightarrow> now < gl_blocked_until g"

definition remaining_wait :: "rat \<Rightarrow> glimiter \<Rightarrow> rat" where
  "remaining_wait now g = max 0 (gl_blocked_until g - now)"

text \<open>The two ends of \<open>concurrency_slot\<close>; \<open>None\<close> while no slot is free.\<close>

definition take_slot :: "glimiter \<Rightarrow> glimiter option" where
  "take_slot g = (if gl_free_slots g > 0 then Some (g\<lparr>gl_free_slots := gl_free_slots g - 1\<rparr>) else None)"

definition release_slot :: "glimiter \<Rightarrow> glimiter" where
  "release_slot g = g\<lparr>gl_free_slots := gl_free_slots g + 1\<rparr>"

section \<open>Requests\<close>

text \<open>Where a request is suspended: in the sleeps (until a time) of \<open>wait_if_blocked\<close>, of the window and
  of the backoff, or in the call. \<open>Fresh\<close> has not run yet.\<close>

datatype 'a rq_phase =
    Fresh
  | BlockSleep rat
  | WindowSleep rat
  | Calling
  | Backoff rat
  | Finished "exn + 'a"

text \<open>The answers of the calls and the delays drawn so far are kept beside the attempt counter.\<close>

record 'a request =
  rq_attempt :: nat
  rq_phase :: "'a rq_phase"
  rq_answers :: "(exn + 'a) list"
  rq_delays :: "rat list"

record retry_config =
  rc_max_retries :: nat
  rc_base_delay :: rat
  rc_max_delay :: rat
  rc_jitter :: rat

definition new_request :: "'a request" where
  "new_request = \<lparr>rq_attempt = 0, rq_phase = Fresh, rq_answers = [], rq_delays = []\<rparr>"

text \<open>A round of the proactive limiter: on to the call, or asleep.\<close>

definition proactive_round :: "rat \<Rightarrow> 'a request \<times> glimiter \<Rightarrow> 'a request \<times> glimiter" where
  "proactive_round now rg =
     (case rg of (rq, g) \<Rightarrow>
        (case acquire_step now (gl_proactive g) of
           (None, w) \<Rightarrow> (rq\<lparr>rq_phase := Calling\<rparr>, g\<lparr>gl_proactive := w\<rparr>)
         | (Some wait, w) \<Rightarrow> (rq\<lparr>rq_phase := WindowSleep (now + wait)\<rparr>, g\<lparr>gl_proactive := w\<rparr>)))"

definition wait_if_blocked :: "rat \<Rightarrow> 'a request \<times> glimiter \<Rightarrow> 'a request \<times> glimiter" where
  "wait_if_blocked now rg =
     (case rg of (rq, g) \<Rightarrow>
        if now < gl_blocked_until g
        then (rq\<lparr>rq_phase := BlockSleep (gl_blocked_until g)\<rparr>, g)
        else proactive_round now (rq, g))"

text \<open>The request runs on when its sleep is over.\<close>

definition wake :: "rat \<Rightarrow> 'a request \<times> glimiter \<Rightarrow> ('a request \<times> glimiter) option" where
  "wake now rg =
     (case rg of (rq, g) \<Rightarrow>
        (case rq_phase rq of
           Fresh \<Rightarrow> Some (wait_if_blocked now (rq, g))
         | BlockSleep t \<Rightarrow> if now < t then None else Some (proactive_round now (rq, g))
         | WindowSleep t \<Rightarrow> if now < t then None else Some (proactive_round now (rq, g))
         | Backoff t \<Rightarrow>
             if now < t then None
             else Some (wait_if_blocked now (rq\<lparr>rq_attempt := Suc (rq_attempt rq)\<rparr>, g))
         | Calling \<Rightarrow> None
         | Finished r \<Rightarrow> None))"

definition is_429 :: "exn \<Rightarrow> bool" where
  "is_429 e \<longleftrightarrow> ex_class e = OpenaiRateLimitError
     \<or> (ex_class e = HttpxStatusError \<and> ex_response_status e = 429)"

text \<open>The call returns or raises; \<open>draw\<close> is the jitter.\<close>

definition answer ::
  "retry_config \<Rightarrow> rat \<Rightarrow> exn + 'a \<Rightarrow> rat \<Rightarrow> 'a request \<times> glimiter \<Rightarrow> ('a request \<times> glimiter) option" where
  "answer c now ans draw rg =
     (case rg of (rq, g) \<Rightarrow>
        if rq_phase rq \<noteq> Calling \<or> draw < 0 \<or> rc_jitter c < draw then None
        else
          (let rq' = rq\<lparr>rq_answers := rq_answers rq @ [ans]\<rparr>
           in case ans of
                Inr v \<Rightarrow> Some (rq'\<lparr>rq_phase := Finished (Inr v)\<rparr>, g)
              | Inl e \<Rightarrow>
                  if \<not> is_429 e then Some (rq'\<lparr>rq_phase := Finished (Inl e)\<rparr>, g)
                  else if rc_max_retries c \<le> rq_attempt rq
                  then Some (rq'\<lparr>rq_phase := Finished (Inl e)\<rparr>, g)
                  else
                    (let delay = min (rc_base_delay c * 2 ^ rq_attempt rq) (rc_max_delay c) + draw
                     in Some (rq'\<lparr>rq_phase := Backoff (now + delay), rq_delays := rq_delays rq @ [delay]\<rparr>,
                              set_blocked now delay g))))"

section \<open>Many requests\<close>

record 'a rl_sys =
  rs_now :: rat
  rs_limiter :: glimiter
  rs_requests :: "(nat, 'a request) dict"
  rs_grants :: "rat list"

datatype 'a rl_action = Advance rat | Spawn nat | Wake nat | Answer nat "exn + 'a" rat

definition put_request :: "nat \<Rightarrow> 'a request \<times> glimiter \<Rightarrow> 'a rl_sys \<Rightarrow> 'a rl_sys" where
  "put_request i rg s =
     (case rg of (rq, g) \<Rightarrow>
        s\<lparr>rs_requests := AList.update i rq (rs_requests s), rs_limiter := g,
          rs_grants := rs_grants s @ (if rq_phase rq = Calling then [rs_now s] else [])\<rparr>)"

fun rl_apply :: "retry_config \<Rightarrow> 'a rl_action \<Rightarrow> 'a rl_sys \<Rightarrow> 'a rl_sys option" where
  "rl_apply c (Advance dt) s = (if dt < 0 then None else Some (s\<lparr>rs_now := rs_now s + dt\<rparr>))"
| "rl_apply c (Spawn i) s =
     (if has_key (rs_requests s) i then None
      else Some (s\<lparr>rs_requests := AList.update i new_request (rs_requests s)\<rparr>))"
| "rl_apply c (Wake i) s =
     (case map_of (rs_requests s) i of
        None \<Rightarrow> None
      | Some rq \<Rightarrow> map_option (\<lambda>rg. put_request i rg s) (wake (rs_now s) (rq, rs_limiter s)))"
| "rl_apply c (Answer i ans draw) s =
     (case map_of (rs_requests s) i of
        None \<Rightarrow> None
      | Some rq \<Rightarrow> map_option (\<lambda>rg. put_request i rg s) (answer c (rs_now s) ans draw (rq, rs_limiter s)))"

fun rl_run :: "retry_config \<Rightarrow> 'a rl_action list \<Rightarrow> 'a rl_sys \<Rightarrow> 'a rl_sys option" where
  "rl_run c [] s = Some s"
| "rl_run c (a # as) s = (case rl_apply c a s of None \<Rightarrow> None | Some s' \<Rightarrow> rl_run c as s')"

definition rl_start :: "rat \<Rightarrow> glimiter \<Rightarrow> 'a rl_sys" where
  "rl_start now g = \<lparr>rs_now = now, rs_limiter = g, rs_requests = [], rs_grants = []\<rparr>"

section \<open>The calls of all requests\<close>

lemma proactive_round_cases:
  assumes "proactive_round now (rq, g) = (rq', g')"
  obtains (call) w where "acquire_step now (gl_proactive g) = (None, w)"
      "rq' = rq\<lparr>rq_phase := Calling\<rparr>" "g' = g\<lparr>gl_proactive := w\<rparr>"
  | (sleep) wait w where "acquire_step now (gl_proactive g) = (Some wait, w)"
      "rq' = rq\<lparr>rq_phase := WindowSleep (now + wait)\<rparr>" "g' = g\<lparr>gl_proactive := w\<rparr>"
  using assms by (auto simp: proactive_round_def split: prod.splits option.splits)

lemma wake_cases:
  assumes "wake now (rq, g) = Some (rq', g')"
  obtains (round) rq0 where "proactive_round now (rq0, g) = (rq', g')" "rq_answers rq0 = rq_answers rq"
      "rq_delays rq0 = rq_delays rq"
      "rq_attempt rq0 = (case rq_phase rq of Backoff t \<Rightarrow> Suc (rq_attempt rq) | _ \<Rightarrow> rq_attempt rq)"
      "rq_phase rq \<noteq> Calling" "\<forall>r. rq_phase rq \<noteq> Finished r"
  | (blocked) "g' = g" "rq_answers rq' = rq_answers rq" "rq_delays rq' = rq_delays rq"
      "rq_attempt rq' = (case rq_phase rq of Backoff t \<Rightarrow> Suc (rq_attempt rq) | _ \<Rightarrow> rq_attempt rq)"
      "rq_phase rq' = BlockSleep (gl_blocked_until g)" "rq_phase rq \<noteq> Calling" "\<forall>r. rq_phase rq \<noteq> Finished r"
  using assms by (cases "rq_phase rq") (auto simp: wake_def wait_if_blocked_def split: if_splits)

lemma answer_limiter:
  "answer c now ans draw (rq, g) = Some (rq', g') \<Longrightarrow> gl_proactive g' = gl_proactive g \<and> rq_phase rq' \<noteq> Calling"
  by (auto simp: answer_def Let_def set_blocked_def split: if_splits sum.splits)

definition window_sound :: "'a rl_sys \<Rightarrow> bool" where
  "window_sound s \<longleftrightarrow> win.sound (rs_grants s) (rs_now s) (gl_proactive (rs_limiter s))"

lemma window_sound_step:
  assumes s: "window_sound s" and step: "rl_apply c a s = Some s'"
  shows "window_sound s' \<and> w_rate_limit (gl_proactive (rs_limiter s')) = w_rate_limit (gl_proactive (rs_limiter s))
    \<and> w_rate_window (gl_proactive (rs_limiter s')) = w_rate_window (gl_proactive (rs_limiter s))"
proof (cases a)
  case (Advance dt)
  with step s show ?thesis by (auto simp: window_sound_def intro: win.sound_later split: if_splits)
next
  case (Spawn i)
  with step s show ?thesis by (auto simp: window_sound_def split: if_splits)
next
  case (Wake i)
  with step obtain rq rq' g' where w: "wake (rs_now s) (rq, rs_limiter s) = Some (rq', g')"
    and s': "s' = put_request i (rq', g') s"
    by (auto split: option.splits)
  from w show ?thesis
  proof (cases rule: wake_cases)
    case (round rq0)
    from round(1) show ?thesis
    proof (cases rule: proactive_round_cases)
      case (call v)
      from win.sound_granted [OF _ call(1)] s win.config [OF call(1)] call s'
      show ?thesis by (simp add: window_sound_def put_request_def)
    next
      case (sleep wait v)
      from win.sound_refused [OF _ sleep(1)] s win.config [OF sleep(1)] sleep s'
      show ?thesis by (simp add: window_sound_def put_request_def)
    qed
  next
    case blocked
    with s s' show ?thesis by (simp add: window_sound_def put_request_def)
  qed
next
  case (Answer i ans draw)
  with step obtain rq rq' g' where an: "answer c (rs_now s) ans draw (rq, rs_limiter s) = Some (rq', g')"
    and s': "s' = put_request i (rq', g') s"
    by (auto split: option.splits)
  from answer_limiter [OF an] s s' show ?thesis by (simp add: window_sound_def put_request_def)
qed

lemma window_sound_run:
  "rl_run c as s = Some s' \<Longrightarrow> window_sound s \<Longrightarrow>
   window_sound s' \<and> w_rate_limit (gl_proactive (rs_limiter s')) = w_rate_limit (gl_proactive (rs_limiter s))
    \<and> w_rate_window (gl_proactive (rs_limiter s')) = w_rate_window (gl_proactive (rs_limiter s))"
proof (induction as arbitrary: s)
  case (Cons a as)
  then obtain s1 where st: "rl_apply c a s = Some s1" and run: "rl_run c as s1 = Some s'"
    by (auto split: option.splits)
  from window_sound_step [OF Cons.prems(2) st] Cons.IH [OF run] show ?case by simp
qed simp

text \<open>Claim C22: the provider sees no bursts. However many requests run at once and however their calls
  end, every half-open interval of the window's length starts at most \<open>rate_limit\<close> upstream
  calls, retries included.\<close>

theorem upstream_calls_bounded:
  assumes "make_limiter rate_limit rate_window max_concurrency = Some g"
    and "rl_run c as (rl_start now g) = Some s"
  shows "int (length (filter (\<lambda>t. x < t \<and> t \<le> x + rate_window) (rs_grants s))) \<le> rate_limit"
proof -
  have g: "w_times (gl_proactive g) = []" "w_rate_limit (gl_proactive g) = nat rate_limit"
    "w_rate_window (gl_proactive g) = rate_window" "0 < rate_limit"
    using assms(1) by (auto simp: make_limiter_def make_window_def split: if_splits)
  have "window_sound (rl_start now g)"
    using win.sound_start [OF g(1), of now] by (simp add: window_sound_def rl_start_def)
  from window_sound_run [OF assms(2) this] g
  have s: "window_sound s" "w_rate_limit (gl_proactive (rs_limiter s)) = nat rate_limit"
    "w_rate_window (gl_proactive (rs_limiter s)) = rate_window"
    by (simp_all add: rl_start_def)
  from win.sound_bound [OF s(1) [unfolded window_sound_def], of x] s(2,3) g(4) show ?thesis by simp
qed

section \<open>Retries\<close>

text \<open>The bounds of the \<open>k\<close>-th delay: the capped exponential, and the jitter on top.\<close>

definition delay_ok :: "retry_config \<Rightarrow> nat \<Rightarrow> rat \<Rightarrow> bool" where
  "delay_ok c k d \<longleftrightarrow>
     min (rc_base_delay c * 2 ^ k) (rc_max_delay c) \<le> d
     \<and> d \<le> min (rc_base_delay c * 2 ^ k) (rc_max_delay c) + rc_jitter c"

definition too_many :: "exn + 'a \<Rightarrow> bool" where
  "too_many ans \<longleftrightarrow> (case ans of Inl e \<Rightarrow> is_429 e | Inr v \<Rightarrow> False)"

text \<open>What is true of a request at every suspension.\<close>

definition retry_ok :: "retry_config \<Rightarrow> 'a request \<Rightarrow> bool" where
  "retry_ok c rq \<longleftrightarrow>
     rq_attempt rq \<le> rc_max_retries c
     \<and> (\<forall>k < length (rq_delays rq). delay_ok c k (rq_delays rq ! k))
     \<and> (case rq_phase rq of
          Finished r \<Rightarrow> length (rq_answers rq) = Suc (rq_attempt rq) \<and> last (rq_answers rq) = r
            \<and> list_all too_many (butlast (rq_answers rq))
            \<and> (too_many r \<longrightarrow> rq_attempt rq = rc_max_retries c)
            \<and> length (rq_delays rq) = rq_attempt rq
        | Backoff t \<Rightarrow> length (rq_answers rq) = Suc (rq_attempt rq) \<and> list_all too_many (rq_answers rq)
            \<and> rq_attempt rq < rc_max_retries c \<and> length (rq_delays rq) = Suc (rq_attempt rq)
        | _ \<Rightarrow> length (rq_answers rq) = rq_attempt rq \<and> list_all too_many (rq_answers rq)
            \<and> length (rq_delays rq) = rq_attempt rq)"

lemma retry_ok_new: "retry_ok c new_request"
  by (simp add: retry_ok_def new_request_def)

lemma retry_ok_wake:
  assumes ok: "retry_ok c rq" and step: "wake now (rq, g) = Some (rq', g')"
  shows "retry_ok c rq'"
  using step
proof (cases rule: wake_cases)
  case (round rq0)
  from round(1) have "\<exists>p. (p = Calling \<or> (\<exists>t. p = WindowSleep t)) \<and> rq' = rq0\<lparr>rq_phase := p\<rparr>"
    by (cases rule: proactive_round_cases) auto
  with ok round show ?thesis by (cases "rq_phase rq") (auto simp: retry_ok_def)
next
  case blocked
  with ok show ?thesis by (cases "rq_phase rq") (auto simp: retry_ok_def)
qed

lemma retry_ok_answer:
  assumes ok: "retry_ok c rq" and step: "answer c now ans draw (rq, g) = Some (rq', g')"
  shows "retry_ok c rq'"
proof -
  have calling: "rq_phase rq = Calling" and draw: "0 \<le> draw" "draw \<le> rc_jitter c"
    using step by (auto simp: answer_def split: if_splits)
  have so_far: "length (rq_answers rq) = rq_attempt rq" "list_all too_many (rq_answers rq)"
    "length (rq_delays rq) = rq_attempt rq" "rq_attempt rq \<le> rc_max_retries c"
    "\<forall>k < length (rq_delays rq). delay_ok c k (rq_delays rq ! k)"
    using ok calling by (simp_all add: retry_ok_def)
  show ?thesis
  proof (cases "\<exists>e. ans = Inl e \<and> is_429 e \<and> \<not> rc_max_retries c \<le> rq_attempt rq")
    case True
    then obtain e where e: "ans = Inl e" "is_429 e" "\<not> rc_max_retries c \<le> rq_attempt rq" by blast
    let ?d = "min (rc_base_delay c * 2 ^ rq_attempt rq) (rc_max_delay c) + draw"
    have rq': "rq' = rq\<lparr>rq_answers := rq_answers rq @ [ans], rq_phase := Backoff (now + ?d),
        rq_delays := rq_delays rq @ [?d]\<rparr>"
      using step calling draw e by (simp add: answer_def Let_def split: if_splits)
    have "delay_ok c k ((rq_delays rq @ [?d]) ! k)" if "k < Suc (rq_attempt rq)" for k
      using that so_far(3,5) draw by (cases "k = rq_attempt rq") (auto simp: nth_append delay_ok_def)
    with so_far e show ?thesis unfolding rq' by (simp add: retry_ok_def too_many_def)
  next
    case False
    then have "rq' = rq\<lparr>rq_answers := rq_answers rq @ [ans], rq_phase := Finished ans\<rparr>"
      using step calling draw by (auto simp: answer_def Let_def split: if_splits sum.splits)
    with so_far False show ?thesis
      by (auto simp: retry_ok_def too_many_def split: sum.splits)
  qed
qed

definition all_retry_ok :: "retry_config \<Rightarrow> 'a rl_sys \<Rightarrow> bool" where
  "all_retry_ok c s \<longleftrightarrow> (\<forall>i rq. map_of (rs_requests s) i = Some rq \<longrightarrow> retry_ok c rq)"

lemma all_retry_put:
  "all_retry_ok c s \<Longrightarrow> retry_ok c rq \<Longrightarrow> all_retry_ok c (put_request i (rq, g) s)"
  by (auto simp: all_retry_ok_def put_request_def)

lemma all_retry_step:
  assumes ok: "all_retry_ok c s" and step: "rl_apply c a s = Some s'"
  shows "all_retry_ok c s'"
proof (cases a)
  case (Advance dt)
  with step ok show ?thesis by (auto simp: all_retry_ok_def split: if_splits)
next
  case (Spawn i)
  with step ok show ?thesis by (auto simp: all_retry_ok_def retry_ok_new split: if_splits)
next
  case (Wake i)
  with step obtain rq rq' g' where "map_of (rs_requests s) i = Some rq"
    "wake (rs_now s) (rq, rs_limiter s) = Some (rq', g')" "s' = put_request i (rq', g') s"
    by (auto split: option.splits)
  moreover from this ok have "retry_ok c rq'" by (auto simp: all_retry_ok_def intro: retry_ok_wake)
  ultimately show ?thesis using all_retry_put [OF ok] by simp
next
  case (Answer i ans draw)
  with step obtain rq rq' g' where "map_of (rs_requests s) i = Some rq"
    "answer c (rs_now s) ans draw (rq, rs_limiter s) = Some (rq', g')" "s' = put_request i (rq', g') s"
    by (auto split: option.splits)
  moreover from this ok have "retry_ok c rq'" by (auto simp: all_retry_ok_def intro: retry_ok_answer)
  ultimately show ?thesis using all_retry_put [OF ok] by simp
qed

lemma all_retry_run: "rl_run c as s = Some s' \<Longrightarrow> all_retry_ok c s \<Longrightarrow> all_retry_ok c s'"
  by (induction as arbitrary: s) (auto split: option.splits dest: all_retry_step)

text \<open>Claim C23: retries are bounded and only for 429. In every run, a request has made at most
  \<open>1 + max_retries\<close> calls, every answer but the last was a 429, and the \<open>k\<close>-th delay is the capped
  exponential with jitter; a finished request gives the last answer, and gives up on a 429 only
  after exactly \<open>1 + max_retries\<close> calls.\<close>

theorem retries_are_bounded:
  assumes "rl_run c as (rl_start now g) = Some s" and "map_of (rs_requests s) i = Some rq"
  shows "length (rq_answers rq) \<le> 1 + rc_max_retries c
    \<and> list_all too_many (butlast (rq_answers rq))
    \<and> list_all2 (delay_ok c) [0..<length (rq_delays rq)] (rq_delays rq)
    \<and> (case rq_phase rq of
         Finished r \<Rightarrow> last (rq_answers rq) = r
           \<and> (if too_many r then length (rq_answers rq) = 1 + rc_max_retries c else True)
       | _ \<Rightarrow> True)"
proof -
  have "all_retry_ok c (rl_start now g)" by (simp add: all_retry_ok_def rl_start_def)
  from all_retry_run [OF assms(1) this] assms(2) have ok: "retry_ok c rq" by (simp add: all_retry_ok_def)
  then have "list_all2 (delay_ok c) [0..<length (rq_delays rq)] (rq_delays rq)"
    by (simp add: list_all2_conv_all_nth retry_ok_def)
  moreover have "list_all P (butlast xs)" if "list_all P xs" for P and xs :: "(exn + 'a) list"
    using that by (auto simp: list_all_iff dest: in_set_butlastD)
  ultimately show ?thesis using ok by (cases "rq_phase rq") (auto simp: retry_ok_def)
qed

section \<open>Concrete runs\<close>

definition exn_429 :: exn where
  "exn_429 = \<lparr>ex_class = OpenaiRateLimitError, ex_name = u ''RateLimitError'', ex_status_code = Some 429,
     ex_response_status = 429, ex_str = [], ex_error_type = []\<rparr>"

definition default_retries :: retry_config where
  "default_retries = \<lparr>rc_max_retries = 3, rc_base_delay = 2, rc_max_delay = 60, rc_jitter = 1\<rparr>"

definition default_limiter :: glimiter where
  "default_limiter = the (make_limiter 40 60 5)"

definition one_retry :: "nat rl_action list" where
  "one_retry = [Spawn 0, Wake 0, Answer 0 (Inl exn_429) 1, Advance 3, Wake 0, Answer 0 (Inr 7) 0]"

theorem upstream_calls_bounded_witness:
  "\<exists>s. rl_run default_retries one_retry (rl_start 0 default_limiter) = Some s \<and> rs_grants s = [0, 3]
     \<and> int (length (filter (\<lambda>t. -1 < t \<and> t \<le> -1 + 60) (rs_grants s))) \<le> 40"
proof -
  have "map_option rs_grants (rl_run default_retries one_retry (rl_start 0 default_limiter)) = Some [0, 3]"
    by code_simp
  then obtain s where s: "rl_run default_retries one_retry (rl_start 0 default_limiter) = Some s" "rs_grants s = [0, 3]"
    by auto
  have "make_limiter 40 60 5 = Some default_limiter"
    by (simp add: default_limiter_def make_limiter_def make_window_def)
  from upstream_calls_bounded [OF this s(1), of "-1"] s show ?thesis by blast
qed

theorem retries_are_bounded_witness:
  "\<exists>s rq. rl_run default_retries one_retry (rl_start 0 default_limiter) = Some s
     \<and> map_of (rs_requests s) 0 = Some rq \<and> rq_phase rq = Finished (Inr 7) \<and> rq_delays rq = [3]
     \<and> length (rq_answers rq) \<le> 1 + rc_max_retries default_retries
     \<and> list_all too_many (butlast (rq_answers rq))
     \<and> list_all2 (delay_ok default_retries) [0..<length (rq_delays rq)] (rq_delays rq)"
proof -
  have "map_option (\<lambda>s. map_option (\<lambda>rq. (rq_phase rq, rq_delays rq)) (map_of (rs_requests s) 0))
      (rl_run default_retries one_retry (rl_start 0 default_limiter)) = Some (Some (Finished (Inr 7), [3]))"
    by code_simp
  then obtain s rq where s: "rl_run default_retries one_retry (rl_start 0 default_limiter) = Some s"
    "map_of (rs_requests s) 0 = Some rq" "rq_phase rq = Finished (Inr 7)" "rq_delays rq = [3]"
    by auto
  with retries_are_bounded [OF s(1,2)] show ?thesis by blast
qed

text \<open>\<open>set_blocked\<close> overwrites the time of an earlier block. Request 0 is told to back off until 6 after
  its second 429; the first 429 of request 1, which was already out, ends the block at 5, and a
  third request calls then.\<close>

definition two_failures :: "nat rl_action list" where
  "two_failures = [Spawn 0, Spawn 1, Wake 0, Wake 1, Answer 0 (Inl exn_429) 0, Advance 2, Wake 0,
     Answer 0 (Inl exn_429) 0, Advance 1, Answer 1 (Inl exn_429) 0, Advance 2, Spawn 2, Wake 2]"

theorem later_block_ends_earlier:
  "\<exists>s rq0 rq2. rl_run default_retries two_failures (rl_start 0 default_limiter) = Some s
     \<and> map_of (rs_requests s) 0 = Some rq0 \<and> rq_phase rq0 = Backoff 6
     \<and> map_of (rs_requests s) 2 = Some rq2 \<and> rq_phase rq2 = Calling \<and> rs_now s = 5"
proof -
  have "map_option (\<lambda>s. (map_option rq_phase (map_of (rs_requests s) 0),
        map_option rq_phase (map_of (rs_requests s) 2), rs_now s))
      (rl_run default_retries two_failures (rl_start 0 default_limiter))
    = Some (Some (Backoff 6), Some Calling, 5)"
    by code_simp
  then show ?thesis by auto
qed

end
