(* ===== verification/Message_Limiter.thy ===== *)
theory Message_Limiter
  imports Sliding_Window Errors
begin

text \<open>
  The limiter of the messaging platforms (\<open>MessagingRateLimiter\<close>, \<open>messaging/limiter.py\<close>): a queue
  of sends in which a send under a key that is still waiting replaces the older one, one worker
  that takes them in order through the sliding window and pauses after a flood error, and the
  futures the callers wait on. The worker is the place it is suspended at. Functions to call
  are values of a type of their own; results of calls, clock readings and cancellations are
  arguments of the steps. Arguments of the model: \<open>lower\<close>, Python's \<open>str.lower\<close>, \<open>digit\<close>, the
  decimal digits that \<open>int\<close> accepts, and \<open>float_of\<close>, \<open>float\<close> of a text, \<open>None\<close> for a \<open>ValueError\<close>.
\<close>

section \<open>State\<close>

datatype 'v future = Pending | Resolved 'v | Failed exn | Cancelled

text \<open>The worker: waiting for the queue, in the pause, in the window's sleep, in the call, in the sleep
  after an internal error, or ended. Between, it holds a key, its function and its futures.\<close>

datatype 'f worker =
    Waiting
  | PauseSleep rat 'f "nat list"
  | SlotSleep rat 'f "nat list"
  | InCall 'f "nat list"
  | ErrorSleep rat
  | Ended

record ('f, 'v) limiter =
  ml_window :: window
  ml_queue_list :: "pystr list"
  ml_queue_map :: "(pystr, 'f \<times> nat list) dict"
  ml_shutdown :: bool
  ml_worker :: "'f worker"
  ml_paused_until :: rat
  ml_futures :: "(nat, 'v future) dict"

text \<open>\<open>None\<close> is the \<open>ValueError\<close> of the window's parameters; the worker starts at once.\<close>

definition make_messaging_limiter :: "int \<Rightarrow> rat \<Rightarrow> ('f, 'v) limiter option" where
  "make_messaging_limiter rate_limit rate_window =
     map_option (\<lambda>w. \<lparr>ml_window = w, ml_queue_list = [], ml_queue_map = [], ml_shutdown = False,
        ml_worker = Waiting, ml_paused_until = 0, ml_futures = []\<rparr>) (make_window rate_limit rate_window)"

section \<open>The queue\<close>

definition enqueue_internal_multi ::
  "'f \<Rightarrow> nat list \<Rightarrow> pystr \<Rightarrow> bool \<Rightarrow> ('f, 'v) limiter \<Rightarrow> ('f, 'v) limiter" where
  "enqueue_internal_multi func futures dedup_key front l =
     (case map_of (ml_queue_map l) dedup_key of
        Some (old_func, old_futures) \<Rightarrow>
          l\<lparr>ml_queue_map := AList.update dedup_key (func, old_futures @ futures) (ml_queue_map l)\<rparr>
      | None \<Rightarrow>
          l\<lparr>ml_queue_map := AList.update dedup_key (func, futures) (ml_queue_map l),
            ml_queue_list := (if front then dedup_key # ml_queue_list l else ml_queue_list l @ [dedup_key])\<rparr>)"

text \<open>The part of \<open>enqueue\<close> before it waits: a new future, put behind or into the entry of its key.\<close>

definition enqueue :: "'f \<Rightarrow> nat \<Rightarrow> pystr \<Rightarrow> ('f, 'v) limiter \<Rightarrow> ('f, 'v) limiter" where
  "enqueue func future dedup_key l =
     enqueue_internal_multi func [future] dedup_key False
       (l\<lparr>ml_futures := AList.update future Pending (ml_futures l)\<rparr>)"

section \<open>Flood errors\<close>

text \<open>\<open>int(s)\<close> of a word: a sign, then digits in groups joined by single underscores.\<close>

fun digits_value :: "(int \<Rightarrow> nat option) \<Rightarrow> nat \<Rightarrow> bool \<Rightarrow> pystr \<Rightarrow> nat option" where
  "digits_value digit acc after_digit [] = (if after_digit then Some acc else None)"
| "digits_value digit acc after_digit (c # cs) =
     (case digit c of
        Some d \<Rightarrow> digits_value digit (10 * acc + d) True cs
      | None \<Rightarrow> if after_digit \<and> [c] = u ''_'' then digits_value digit acc False cs else None)"

definition py_int :: "(int \<Rightarrow> nat option) \<Rightarrow> pystr \<Rightarrow> int option" where
  "py_int digit s =
     (case s of
        [] \<Rightarrow> None
      | c # cs \<Rightarrow>
          if [c] = u ''-'' then map_option (\<lambda>n. - int n) (digits_value digit 0 False cs)
          else if [c] = u ''+'' then map_option int (digits_value digit 0 False cs)
          else map_option int (digits_value digit 0 False s))"

text \<open>\<open>parts[1].split()[0]\<close> for the parts at \<open>after \<close>.\<close>

definition word_after :: "pystr \<Rightarrow> pystr option" where
  "word_after msg =
     (case partition_at msg (u ''after '') of
        (_, sep, tail) \<Rightarrow>
          (let part = fst (partition_at tail (u ''after ''));
               word = takeWhile (\<lambda>c. \<not> is_space c) (lstrip part)
           in if sep = [] \<or> word = [] then None else Some word))"

text \<open>The attribute \<open>seconds\<close> of an exception: a number, a text or some other object.\<close>

datatype seconds_attr = SecondsNumber rat | SecondsText pystr | SecondsOther

text \<open>How a call ends: an exception with its \<open>seconds\<close>, if it has that attribute, or a
  \<open>CancelledError\<close>, which is no \<open>Exception\<close>.\<close>

datatype 'v call_end = Returned 'v | Raised exn "seconds_attr option" | CallCancelled

text \<open>A flood error, and the seconds to pause for; \<open>None\<close> when \<open>float\<close> raises on the attribute.\<close>

definition is_flood :: "(pystr \<Rightarrow> pystr) \<Rightarrow> exn \<Rightarrow> bool" where
  "is_flood lower e \<longleftrightarrow> contains (lower (ex_str e)) (u ''flood'') \<or> contains (lower (ex_str e)) (u ''wait'')"

definition flood_wait ::
  "(pystr \<Rightarrow> pystr) \<Rightarrow> (int \<Rightarrow> nat option) \<Rightarrow> (pystr \<Rightarrow> rat option) \<Rightarrow> seconds_attr option \<Rightarrow> exn \<Rightarrow> rat option" where
  "flood_wait lower digit float_of seconds e =
     (case seconds of
        Some (SecondsNumber s) \<Rightarrow> Some s
      | Some (SecondsText t) \<Rightarrow> float_of t
      | Some SecondsOther \<Rightarrow> Some 30
      | None \<Rightarrow>
          if contains (lower (ex_str e)) (u ''after '')
          then (case word_after (lower (ex_str e)) of
                  None \<Rightarrow> Some 30
                | Some w \<Rightarrow> (case py_int digit w of None \<Rightarrow> Some 30 | Some k \<Rightarrow> Some (of_int k)))
          else Some 30)"

section \<open>The worker\<close>

text \<open>Setting the futures that are not done yet.\<close>

fun settle :: "'v future \<Rightarrow> nat list \<Rightarrow> (nat, 'v future) dict \<Rightarrow> (nat, 'v future) dict" where
  "settle r [] fs = fs"
| "settle r (f # rest) fs =
     settle r rest (if map_of fs f = Some Pending then AList.update f r fs else fs)"

definition slot_round :: "rat \<Rightarrow> 'f \<Rightarrow> nat list \<Rightarrow> ('f, 'v) limiter \<Rightarrow> ('f, 'v) limiter" where
  "slot_round now func futures l =
     (case acquire_step now (ml_window l) of
        (None, w) \<Rightarrow> l\<lparr>ml_window := w, ml_worker := InCall func futures\<rparr>
      | (Some wait, w) \<Rightarrow> l\<lparr>ml_window := w, ml_worker := SlotSleep (now + wait) func futures\<rparr>)"

text \<open>From the top of the loop to its next suspension. \<open>_queue_map.pop\<close> of a missing key is an
  internal error, after which the worker sleeps for a second.\<close>

definition worker_loop :: "rat \<Rightarrow> ('f, 'v) limiter \<Rightarrow> ('f, 'v) limiter" where
  "worker_loop now l =
     (if ml_shutdown l then l\<lparr>ml_worker := Ended\<rparr>
      else
        (case ml_queue_list l of
           [] \<Rightarrow> l\<lparr>ml_worker := Waiting\<rparr>
         | dedup_key # rest \<Rightarrow>
             (let l1 = l\<lparr>ml_queue_list := rest\<rparr>
              in case map_of (ml_queue_map l1) dedup_key of
                   None \<Rightarrow> l1\<lparr>ml_worker := ErrorSleep (now + 1)\<rparr>
                 | Some (func, futures) \<Rightarrow>
                     (let l2 = l1\<lparr>ml_queue_map := AList.delete dedup_key (ml_queue_map l1)\<rparr>
                      in if now < ml_paused_until l2
                         then l2\<lparr>ml_worker := PauseSleep (ml_paused_until l2) func futures\<rparr>
                         else slot_round now func futures l2))))"

text \<open>The worker runs on when what it sleeps for has happened.\<close>

definition worker_wake :: "rat \<Rightarrow> ('f, 'v) limiter \<Rightarrow> ('f, 'v) limiter option" where
  "worker_wake now l =
     (case ml_worker l of
        Waiting \<Rightarrow> if ml_queue_list l = [] \<and> \<not> ml_shutdown l then None else Some (worker_loop now l)
      | PauseSleep t func futures \<Rightarrow> if now < t then None else Some (slot_round now func futures l)
      | SlotSleep t func futures \<Rightarrow> if now < t then None else Some (slot_round now func futures l)
      | ErrorSleep t \<Rightarrow> if now < t then None else Some (worker_loop now l)
      | InCall func futures \<Rightarrow> None
      | Ended \<Rightarrow> None)"

text \<open>The call ends; then the worker goes on with the loop. An exception inside the handler is an internal
  error; a cancelled call ends the loop, with the futures of the call as they are.\<close>

definition worker_result ::
  "(pystr \<Rightarrow> pystr) \<Rightarrow> (int \<Rightarrow> nat option) \<Rightarrow> (pystr \<Rightarrow> rat option) \<Rightarrow> rat \<Rightarrow> 'v call_end \<Rightarrow> ('f, 'v) limiter
   \<Rightarrow> ('f, 'v) limiter option" where
  "worker_result lower digit float_of now r l =
     (case ml_worker l of
        InCall func futures \<Rightarrow>
          Some (case r of
              Returned v \<Rightarrow> worker_loop now (l\<lparr>ml_futures := settle (Resolved v) futures (ml_futures l)\<rparr>)
            | CallCancelled \<Rightarrow> l\<lparr>ml_worker := Ended\<rparr>
            | Raised e seconds \<Rightarrow>
                (let l1 = l\<lparr>ml_futures := settle (Failed e) futures (ml_futures l)\<rparr>
                 in if \<not> is_flood lower e then worker_loop now l1
                    else (case flood_wait lower digit float_of seconds e of
                            None \<Rightarrow> l1\<lparr>ml_worker := ErrorSleep (now + 1)\<rparr>
                          | Some s \<Rightarrow> worker_loop now (l1\<lparr>ml_paused_until := now + s\<rparr>))))
      | _ \<Rightarrow> None)"

text \<open>\<open>shutdown\<close>: the event is set and the worker's task cancelled, which ends the loop wherever it is.\<close>

definition shutdown :: "('f, 'v) limiter \<Rightarrow> ('f, 'v) limiter" where
  "shutdown l = l\<lparr>ml_shutdown := True, ml_worker := Ended\<rparr>"

section \<open>Fire and forget\<close>

text \<open>The attempts of \<open>fire_and_forget\<close>: \<open>send k\<close> is how the \<open>k\<close>-th \<open>enqueue\<close> ends. The result, the
  number of attempts made, and the waits between them.\<close>

definition transient_error :: "(pystr \<Rightarrow> pystr) \<Rightarrow> exn \<Rightarrow> bool" where
  "transient_error lower e \<longleftrightarrow>
     list_ex (\<lambda>x. contains (lower (ex_str e)) (u x)) [''connect'', ''timeout'', ''broken'']"

fun attempts_from ::
  "(pystr \<Rightarrow> pystr) \<Rightarrow> (nat \<Rightarrow> exn + 'v) \<Rightarrow> nat \<Rightarrow> nat \<Rightarrow> (exn + 'v) \<times> nat \<times> nat list" where
  "attempts_from lower send attempt 0 = (send attempt, Suc attempt, [])"
| "attempts_from lower send attempt (Suc left) =
     (case send attempt of
        Inr v \<Rightarrow> (Inr v, Suc attempt, [])
      | Inl e \<Rightarrow>
          if transient_error lower e
          then (case attempts_from lower send (Suc attempt) left of
                  (r, n, waits) \<Rightarrow> (r, n, 2 ^ attempt # waits))
          else (Inl e, Suc attempt, []))"

definition fire_and_forget ::
  "(pystr \<Rightarrow> pystr) \<Rightarrow> (nat \<Rightarrow> exn + 'v) \<Rightarrow> (exn + 'v) \<times> nat \<times> nat list" where
  "fire_and_forget lower send = attempts_from lower send 0 2"

section \<open>Runs\<close>

datatype ('f, 'v) ml_action =
    Send 'f nat pystr
  | GiveUp nat
  | WakeWorker
  | CallEnds "'v call_end"
  | Shutdown

record ('f, 'v) ml_sys =
  ms_now :: rat
  ms_limiter :: "('f, 'v) limiter"
  ms_calls :: "rat list"

definition put_limiter :: "('f, 'v) limiter \<Rightarrow> ('f, 'v) ml_sys \<Rightarrow> ('f, 'v) ml_sys" where
  "put_limiter l s = s\<lparr>ms_limiter := l,
     ms_calls := ms_calls s @ (case ml_worker l of InCall func futures \<Rightarrow> [ms_now s] | _ \<Rightarrow> [])\<rparr>"

text \<open>One action at a reading of the clock. A caller may give up waiting, which cancels its future.\<close>

definition ml_apply ::
  "(pystr \<Rightarrow> pystr) \<Rightarrow> (int \<Rightarrow> nat option) \<Rightarrow> (pystr \<Rightarrow> rat option) \<Rightarrow> rat \<Rightarrow> ('f, 'v) ml_action \<Rightarrow> ('f, 'v) ml_sys
   \<Rightarrow> ('f, 'v) ml_sys option" where
  "ml_apply lower digit float_of now a s =
     (if now < ms_now s then None
      else
        (let s1 = s\<lparr>ms_now := now\<rparr>; l = ms_limiter s
         in case a of
              Send func future key \<Rightarrow>
                if has_key (ml_futures l) future then None
                else Some (s1\<lparr>ms_limiter := enqueue func future key l\<rparr>)
            | GiveUp future \<Rightarrow>
                if map_of (ml_futures l) future \<noteq> Some Pending then None
                else Some (s1\<lparr>ms_limiter := l\<lparr>ml_futures := AList.update future Cancelled (ml_futures l)\<rparr>\<rparr>)
            | WakeWorker \<Rightarrow> map_option (\<lambda>l'. put_limiter l' s1) (worker_wake now l)
            | CallEnds r \<Rightarrow> map_option (\<lambda>l'. put_limiter l' s1) (worker_result lower digit float_of now r l)
            | Shutdown \<Rightarrow> Some (s1\<lparr>ms_limiter := shutdown l\<rparr>)))"

fun ml_run ::
  "(pystr \<Rightarrow> pystr) \<Rightarrow> (int \<Rightarrow> nat option) \<Rightarrow> (pystr \<Rightarrow> rat option) \<Rightarrow> (rat \<times> ('f, 'v) ml_action) list \<Rightarrow> ('f, 'v) ml_sys
   \<Rightarrow> ('f, 'v) ml_sys option" where
  "ml_run lower digit float_of [] s = Some s"
| "ml_run lower digit float_of ((now, a) # as) s =
     (case ml_apply lower digit float_of now a s of None \<Rightarrow> None | Some s' \<Rightarrow> ml_run lower digit float_of as s')"

definition ml_start :: "rat \<Rightarrow> ('f, 'v) limiter \<Rightarrow> ('f, 'v) ml_sys" where
  "ml_start now l = \<lparr>ms_now = now, ms_limiter = l, ms_calls = []\<rparr>"

section \<open>No send is lost\<close>

definition in_hand :: "'f worker \<Rightarrow> nat list" where
  "in_hand w = (case w of PauseSleep t func fs \<Rightarrow> fs | SlotSleep t func fs \<Rightarrow> fs | InCall func fs \<Rightarrow> fs | _ \<Rightarrow> [])"

lemma in_hand_simps [simp]:
  "in_hand Waiting = []" "in_hand Ended = []" "in_hand (ErrorSleep t) = []"
  "in_hand (PauseSleep t func fs) = fs" "in_hand (SlotSleep t func fs) = fs" "in_hand (InCall func fs) = fs"
  by (simp_all add: in_hand_def)

text \<open>The queue and the map hold the same keys, each once; a future that is not done is with the worker
  or in the map.\<close>

definition queue_ok :: "('f, 'v) limiter \<Rightarrow> bool" where
  "queue_ok l \<longleftrightarrow> distinct (ml_queue_list l) \<and> (\<forall>k. k \<in> set (ml_queue_list l) \<longleftrightarrow> has_key (ml_queue_map l) k)"

definition held_by :: "('f, 'v) limiter \<Rightarrow> nat \<Rightarrow> bool" where
  "held_by l f \<longleftrightarrow> f \<in> set (in_hand (ml_worker l))
     \<or> (\<exists>k func fs. map_of (ml_queue_map l) k = Some (func, fs) \<and> f \<in> set fs)"

definition working :: "'f worker \<Rightarrow> bool" where
  "working w \<longleftrightarrow> (case w of Ended \<Rightarrow> False | _ \<Rightarrow> True)"

definition in_error :: "'f worker \<Rightarrow> bool" where
  "in_error w \<longleftrightarrow> (case w of ErrorSleep t \<Rightarrow> True | _ \<Rightarrow> False)"

definition ml_ok :: "('f, 'v) limiter \<Rightarrow> bool" where
  "ml_ok l \<longleftrightarrow> queue_ok l \<and> \<not> ml_shutdown l \<and> working (ml_worker l)
     \<and> (\<forall>f. map_of (ml_futures l) f = Some Pending \<longrightarrow> held_by l f)"

lemma ml_ok_queue: "ml_ok l \<Longrightarrow> queue_ok l" and ml_ok_open: "ml_ok l \<Longrightarrow> \<not> ml_shutdown l"
  and ml_ok_working: "ml_ok l \<Longrightarrow> working (ml_worker l)"
  and ml_ok_held: "ml_ok l \<Longrightarrow> map_of (ml_futures l) f = Some Pending \<Longrightarrow> held_by l f"
  by (simp_all add: ml_ok_def)

lemma queue_ok_enqueue:
  "queue_ok l \<Longrightarrow> queue_ok (enqueue_internal_multi func fs key front l)"
  by (auto simp: queue_ok_def enqueue_internal_multi_def has_key_def split: option.split)

lemma enqueue_frame [simp]:
  "ml_shutdown (enqueue_internal_multi func fs key front l) = ml_shutdown l"
  "ml_worker (enqueue_internal_multi func fs key front l) = ml_worker l"
  "ml_futures (enqueue_internal_multi func fs key front l) = ml_futures l"
  "ml_window (enqueue_internal_multi func fs key front l) = ml_window l"
  by (auto simp: enqueue_internal_multi_def split: option.split)

lemma held_enqueue:
  assumes "held_by l f \<or> f \<in> set fs"
  shows "held_by (enqueue_internal_multi func fs key front l) f"
proof -
  define fs0 where "fs0 = (case map_of (ml_queue_map l) key of None \<Rightarrow> [] | Some (old, fs0) \<Rightarrow> fs0)"
  have m: "map_of (ml_queue_map (enqueue_internal_multi func fs key front l))
      = (map_of (ml_queue_map l))(key \<mapsto> (func, fs0 @ fs))"
    by (auto simp: enqueue_internal_multi_def fs0_def fun_eq_iff split: option.split)
  show ?thesis
  proof (cases "f \<in> set fs")
    case True
    then show ?thesis unfolding held_by_def m by (intro disjI2 exI [of _ key]) simp
  next
    case False
    with assms consider "f \<in> set (in_hand (ml_worker l))"
      | k g gs where "map_of (ml_queue_map l) k = Some (g, gs)" "f \<in> set gs"
      by (auto simp: held_by_def)
    then show ?thesis
    proof cases
      case 1
      then show ?thesis by (simp add: held_by_def)
    next
      case (2 k g gs)
      then show ?thesis unfolding held_by_def m
        by (intro disjI2 exI [of _ k]) (auto simp: fs0_def)
    qed
  qed
qed

lemma ml_ok_enqueue:
  assumes ok: "ml_ok l"
  shows "ml_ok (enqueue func future key l)"
proof -
  let ?l = "l\<lparr>ml_futures := AList.update future Pending (ml_futures l)\<rparr>"
  have q: "queue_ok ?l" using ml_ok_queue [OF ok] by (simp add: queue_ok_def)
  have "held_by ?l f \<or> f \<in> set [future]" if "map_of (ml_futures ?l) f = Some Pending" for f
    using that ml_ok_held [OF ok, of f] by (auto simp: held_by_def split: if_splits)
  then show ?thesis
    using queue_ok_enqueue [OF q] held_enqueue [of ?l _ "[future]"] ok
    by (simp add: enqueue_def ml_ok_def)
qed

lemma slot_round_ok:
  assumes "queue_ok l" "\<not> ml_shutdown l"
    and "\<And>f. map_of (ml_futures l) f = Some Pending \<Longrightarrow>
      f \<in> set fs \<or> (\<exists>k func fs. map_of (ml_queue_map l) k = Some (func, fs) \<and> f \<in> set fs)"
  shows "ml_ok (slot_round now func fs l)"
  using assms by (auto simp: slot_round_def ml_ok_def queue_ok_def working_def held_by_def split: prod.split option.split)

lemma slot_round_runs [simp]: "\<not> in_error (ml_worker (slot_round now func fs l))"
  by (auto simp: slot_round_def in_error_def split: prod.split option.split)

lemma worker_loop_runs:
  assumes "queue_ok l"
  shows "\<not> in_error (ml_worker (worker_loop now l))"
proof (cases "ml_queue_list l")
  case (Cons key rest)
  with assms obtain e where "map_of (ml_queue_map l) key = Some e"
    by (metis has_key_def list.set_intros(1) option.exhaust queue_ok_def)
  with Cons show ?thesis
    by (auto simp: worker_loop_def in_error_def [of Ended] in_error_def [of "PauseSleep _ _ _"] Let_def split: prod.split)
qed (simp add: worker_loop_def in_error_def)

lemma worker_loop_ok:
  assumes q: "queue_ok l" and running: "\<not> ml_shutdown l"
    and held: "\<And>f. map_of (ml_futures l) f = Some Pending \<Longrightarrow>
      \<exists>k func fs. map_of (ml_queue_map l) k = Some (func, fs) \<and> f \<in> set fs"
  shows "ml_ok (worker_loop now l)"
proof (cases "ml_queue_list l")
  case Nil
  with q running held show ?thesis
    by (auto simp: worker_loop_def ml_ok_def queue_ok_def working_def held_by_def)
next
  case (Cons key rest)
  with q obtain func fs where m: "map_of (ml_queue_map l) key = Some (func, fs)"
    by (metis has_key_def list.set_intros(1) option.exhaust queue_ok_def surj_pair)
  let ?l = "l\<lparr>ml_queue_list := rest, ml_queue_map := AList.delete key (ml_queue_map l)\<rparr>"
  have q': "queue_ok ?l" using q Cons by (auto simp: queue_ok_def)
  have held': "f \<in> set fs \<or> (\<exists>k func fs. map_of (ml_queue_map ?l) k = Some (func, fs) \<and> f \<in> set fs)"
    if p: "map_of (ml_futures ?l) f = Some Pending" for f
  proof -
    obtain k func2 fs2 where k: "map_of (ml_queue_map l) k = Some (func2, fs2)" "f \<in> set fs2"
      using held [of f] p by auto
    show ?thesis
    proof (cases "k = key")
      case True
      with k m show ?thesis by simp
    next
      case False
      with k have "map_of (ml_queue_map ?l) k = Some (func2, fs2)" by simp
      with k(2) show ?thesis by blast
    qed
  qed
  show ?thesis
  proof (cases "now < ml_paused_until l")
    case True
    then have run: "worker_loop now l = ?l\<lparr>ml_worker := PauseSleep (ml_paused_until l) func fs\<rparr>"
      using running Cons m by (simp add: worker_loop_def Let_def)
    have "queue_ok (worker_loop now l)" using q' unfolding run by (simp add: queue_ok_def)
    moreover have "held_by (worker_loop now l) f" if "map_of (ml_futures (worker_loop now l)) f = Some Pending" for f
      using held' [of f] that unfolding run held_by_def by simp
    ultimately show ?thesis using running unfolding run by (simp add: ml_ok_def working_def)
  next
    case False
    then have run: "worker_loop now l = slot_round now func fs ?l"
      using running Cons m by (simp add: worker_loop_def Let_def)
    show ?thesis unfolding run by (rule slot_round_ok) (use q' running held' in simp_all)
  qed
qed

lemma settle_lookup:
  "map_of (settle r fs d) f = (if f \<in> set fs \<and> map_of d f = Some Pending then Some r else map_of d f)"
  by (induction r fs d rule: settle.induct) auto

lemma ml_ok_wake:
  assumes ok: "ml_ok l" and step: "worker_wake now l = Some l'"
  shows "ml_ok l'"
proof (cases "ml_worker l")
  case Waiting
  with step have "l' = worker_loop now l" by (auto simp: worker_wake_def split: if_splits)
  moreover have "ml_ok (worker_loop now l)"
    by (rule worker_loop_ok [OF ml_ok_queue [OF ok] ml_ok_open [OF ok]])
      (use ml_ok_held [OF ok] Waiting in \<open>simp add: held_by_def\<close>)
  ultimately show ?thesis by simp
next
  case (PauseSleep t func fs)
  with step have "l' = slot_round now func fs l" by (simp add: worker_wake_def split: if_splits)
  moreover have "ml_ok (slot_round now func fs l)"
    by (rule slot_round_ok [OF ml_ok_queue [OF ok] ml_ok_open [OF ok]])
      (use ml_ok_held [OF ok] PauseSleep in \<open>simp add: held_by_def\<close>)
  ultimately show ?thesis by simp
next
  case (SlotSleep t func fs)
  with step have "l' = slot_round now func fs l" by (simp add: worker_wake_def split: if_splits)
  moreover have "ml_ok (slot_round now func fs l)"
    by (rule slot_round_ok [OF ml_ok_queue [OF ok] ml_ok_open [OF ok]])
      (use ml_ok_held [OF ok] SlotSleep in \<open>simp add: held_by_def\<close>)
  ultimately show ?thesis by simp
next
  case (ErrorSleep t)
  with step have "l' = worker_loop now l" by (simp add: worker_wake_def split: if_splits)
  moreover have "ml_ok (worker_loop now l)"
    by (rule worker_loop_ok [OF ml_ok_queue [OF ok] ml_ok_open [OF ok]])
      (use ml_ok_held [OF ok] ErrorSleep in \<open>simp add: held_by_def\<close>)
  ultimately show ?thesis by simp
qed (use step ml_ok_working [OF ok] in \<open>auto simp: worker_wake_def working_def\<close>)

lemma runs_wake:
  assumes "ml_ok l" and "worker_wake now l = Some l'"
  shows "\<not> in_error (ml_worker l')"
  using assms(2) worker_loop_runs [OF ml_ok_queue [OF assms(1)]]
  by (auto simp: worker_wake_def split: worker.splits if_splits)

text \<open>A flood error whose \<open>seconds\<close> \<open>float\<close> cannot read.\<close>

definition unreadable_flood ::
  "(pystr \<Rightarrow> pystr) \<Rightarrow> (int \<Rightarrow> nat option) \<Rightarrow> (pystr \<Rightarrow> rat option) \<Rightarrow> 'v call_end \<Rightarrow> bool" where
  "unreadable_flood lower digit float_of r \<longleftrightarrow>
     (case r of Raised e seconds \<Rightarrow> is_flood lower e \<and> flood_wait lower digit float_of seconds e = None | _ \<Rightarrow> False)"

definition cancels :: "'v call_end \<Rightarrow> bool" where
  "cancels r \<longleftrightarrow> (case r of CallCancelled \<Rightarrow> True | _ \<Rightarrow> False)"

lemma ml_ok_result:
  assumes ok: "ml_ok l" and step: "worker_result lower digit float_of now r l = Some l'" and no: "\<not> cancels r"
  shows "ml_ok l' \<and> (in_error (ml_worker l') \<longrightarrow> unreadable_flood lower digit float_of r)"
proof -
  obtain func fs where w: "ml_worker l = InCall func fs"
    using step by (auto simp: worker_result_def split: worker.splits)
  let ?set = "\<lambda>v p. l\<lparr>ml_futures := settle v fs (ml_futures l), ml_paused_until := p\<rparr>"
  have q: "queue_ok (?set v p)" for v p using ml_ok_queue [OF ok] by (simp add: queue_ok_def)
  have held: "\<exists>k func fs'. map_of (ml_queue_map l) k = Some (func, fs') \<and> f \<in> set fs'"
    if "v \<noteq> Pending" "map_of (settle v fs (ml_futures l)) f = Some Pending" for v f
  proof -
    from that have "map_of (ml_futures l) f = Some Pending" "f \<notin> set fs"
      by (auto simp: settle_lookup split: if_splits)
    with ml_ok_held [OF ok, of f] w show ?thesis by (simp add: held_by_def)
  qed
  have loop: "ml_ok (worker_loop now (?set v p)) \<and> \<not> in_error (ml_worker (worker_loop now (?set v p)))"
    if "v \<noteq> Pending" for v p
    using worker_loop_runs [OF q] held [OF that] ml_ok_open [OF ok]
    by (intro conjI worker_loop_ok [OF q]) simp_all
  show ?thesis
  proof (cases r)
    case (Returned v)
    with step w loop [of "Resolved v" "ml_paused_until l"] show ?thesis by (auto simp: worker_result_def)
  next
    case (Raised e seconds)
    show ?thesis
    proof (cases "flood_wait lower digit float_of seconds e")
      case None
      have "ml_ok (l\<lparr>ml_futures := settle (Failed e) fs (ml_futures l), ml_worker := ErrorSleep (now + 1)\<rparr>)"
        using ok held [of "Failed e"] by (auto simp: ml_ok_def queue_ok_def held_by_def working_def)
      with step w Raised None loop [of "Failed e" "ml_paused_until l"] show ?thesis
        by (auto simp: worker_result_def unreadable_flood_def Let_def split: if_splits)
    next
      case (Some s)
      with step w Raised loop [of "Failed e" "ml_paused_until l"] loop [of "Failed e" "now + s"] show ?thesis
        by (auto simp: worker_result_def Let_def split: if_splits)
    qed
  next
    case CallCancelled
    with no show ?thesis by (simp add: cancels_def)
  qed
qed

lemma ml_ok_give_up:
  "ml_ok l \<Longrightarrow> ml_ok (l\<lparr>ml_futures := AList.update f Cancelled (ml_futures l)\<rparr>)"
  by (auto simp: ml_ok_def queue_ok_def held_by_def split: if_splits)

text \<open>Neither the limiter's shutdown nor a cancelled call.\<close>

definition no_shutdown :: "rat \<times> ('f, 'v) ml_action \<Rightarrow> bool" where
  "no_shutdown p \<longleftrightarrow> (case snd p of Shutdown \<Rightarrow> False | CallEnds r \<Rightarrow> \<not> cancels r | _ \<Rightarrow> True)"

definition action_unreadable ::
  "(pystr \<Rightarrow> pystr) \<Rightarrow> (int \<Rightarrow> nat option) \<Rightarrow> (pystr \<Rightarrow> rat option) \<Rightarrow> rat \<times> ('f, 'v) ml_action \<Rightarrow> bool" where
  "action_unreadable lower digit float_of p \<longleftrightarrow>
     (case snd p of CallEnds r \<Rightarrow> unreadable_flood lower digit float_of r | _ \<Rightarrow> False)"

lemma ml_apply_time:
  "ml_apply lower digit float_of now a s = Some s' \<Longrightarrow> ms_now s' = now \<and> ms_now s \<le> now"
  by (cases a) (auto simp: ml_apply_def Let_def put_limiter_def split: if_splits)

lemma ml_ok_step:
  assumes ok: "ml_ok (ms_limiter s)" and step: "ml_apply lower digit float_of now a s = Some s'" and no: "no_shutdown (now, a)"
  shows "ml_ok (ms_limiter s') \<and> (in_error (ml_worker (ms_limiter s')) \<longrightarrow>
     in_error (ml_worker (ms_limiter s)) \<or> action_unreadable lower digit float_of (now, a))"
proof (cases a)
  case (Send func f key)
  with step have "ms_limiter s' = enqueue func f key (ms_limiter s)"
    by (auto simp: ml_apply_def Let_def split: if_splits)
  with ml_ok_enqueue [OF ok] show ?thesis by (simp add: enqueue_def)
next
  case (GiveUp f)
  with step have "ms_limiter s' = (ms_limiter s)\<lparr>ml_futures := AList.update f Cancelled (ml_futures (ms_limiter s))\<rparr>"
    by (auto simp: ml_apply_def Let_def split: if_splits)
  with ml_ok_give_up [OF ok] show ?thesis by simp
next
  case WakeWorker
  with step obtain l' where "worker_wake now (ms_limiter s) = Some l'" "ms_limiter s' = l'"
    by (auto simp: ml_apply_def Let_def put_limiter_def split: if_splits)
  with ml_ok_wake [OF ok] runs_wake [OF ok] show ?thesis by simp
next
  case (CallEnds r)
  with step obtain l' where "worker_result lower digit float_of now r (ms_limiter s) = Some l'" "ms_limiter s' = l'"
    by (auto simp: ml_apply_def Let_def put_limiter_def split: if_splits)
  with ml_ok_result [OF ok] no CallEnds show ?thesis by (auto simp: no_shutdown_def action_unreadable_def)
next
  case Shutdown
  with no show ?thesis by (simp add: no_shutdown_def)
qed

lemma ml_ok_run:
  "ml_run lower digit float_of as s = Some s' \<Longrightarrow> list_all no_shutdown as \<Longrightarrow> ml_ok (ms_limiter s) \<Longrightarrow>
   ml_ok (ms_limiter s') \<and> (in_error (ml_worker (ms_limiter s')) \<longrightarrow>
     in_error (ml_worker (ms_limiter s)) \<or> list_ex (action_unreadable lower digit float_of) as)"
proof (induction as arbitrary: s)
  case (Cons p as)
  obtain now a where p: "p = (now, a)" by (cases p)
  with Cons.prems(1) obtain s1 where st: "ml_apply lower digit float_of now a s = Some s1"
    and run: "ml_run lower digit float_of as s1 = Some s'" by (auto split: option.splits)
  have "no_shutdown (now, a)" using Cons.prems(2) p by simp
  from ml_ok_step [OF Cons.prems(3) st this] Cons.IH [OF run] Cons.prems(2) p show ?case by auto
qed simp

lemma ml_ok_start:
  assumes "make_messaging_limiter rate_limit rate_window = Some l"
  shows "ml_ok l"
proof -
  obtain w where "l = \<lparr>ml_window = w, ml_queue_list = [], ml_queue_map = [], ml_shutdown = False,
      ml_worker = Waiting, ml_paused_until = 0, ml_futures = []\<rparr>"
    using assms by (auto simp: make_messaging_limiter_def)
  then show ?thesis by (simp add: ml_ok_def queue_ok_def working_def has_key_def)
qed

lemma worker_can_move:
  assumes ok: "ml_ok (ms_limiter s)" and p: "map_of (ml_futures (ms_limiter s)) f = Some Pending"
  shows "\<exists>now a s'. (a = WakeWorker \<or> (\<exists>r. a = CallEnds r)) \<and> ml_apply lower digit float_of now a s = Some s'"
proof -
  let ?l = "ms_limiter s"
  have wake: "worker_wake now ?l \<noteq> None \<Longrightarrow> ms_now s \<le> now \<Longrightarrow> ml_apply lower digit float_of now WakeWorker s \<noteq> None" for now
    by (auto simp: ml_apply_def Let_def)
  show ?thesis
  proof (cases "ml_worker ?l")
    case Waiting
    with ml_ok_held [OF ok p] obtain k where "has_key (ml_queue_map ?l) k"
      by (auto simp: held_by_def has_key_def)
    with ml_ok_queue [OF ok] have "k \<in> set (ml_queue_list ?l)" by (simp add: queue_ok_def)
    then have "worker_wake (ms_now s) ?l \<noteq> None" using Waiting by (auto simp: worker_wake_def)
    with wake show ?thesis by blast
  next
    case (PauseSleep t func fs)
    then have "worker_wake (max (ms_now s) t) ?l \<noteq> None" by (simp add: worker_wake_def)
    with wake [of "max (ms_now s) t"] show ?thesis by (metis max.cobounded1 option.exhaust)
  next
    case (SlotSleep t func fs)
    then have "worker_wake (max (ms_now s) t) ?l \<noteq> None" by (simp add: worker_wake_def)
    with wake [of "max (ms_now s) t"] show ?thesis by (metis max.cobounded1 option.exhaust)
  next
    case (InCall func fs)
    then have "worker_result lower digit float_of (ms_now s) r ?l \<noteq> None" for r by (simp add: worker_result_def)
    then have "ml_apply lower digit float_of (ms_now s) (CallEnds r) s \<noteq> None" for r
      by (simp add: ml_apply_def Let_def)
    then show ?thesis by blast
  next
    case (ErrorSleep t)
    then have "worker_wake (max (ms_now s) t) ?l \<noteq> None" by (simp add: worker_wake_def)
    with wake [of "max (ms_now s) t"] show ?thesis by (metis max.cobounded1 option.exhaust)
  qed (use ml_ok_working [OF ok] in \<open>simp_all add: working_def\<close>)
qed

text \<open>Claim C33: no send is lost. Until the limiter is shut down or a call raises \<open>CancelledError\<close>,
  whatever is sent, replaced, given up, paused by a flood or failing: the queue and its map agree, a
  caller still waiting has its future with the worker or in the queue, and the worker has not ended
  and can go on. It meets an internal error only after a flood error whose \<open>seconds\<close> are a text that
  is no number.\<close>

theorem no_send_is_lost:
  assumes "make_messaging_limiter rate_limit rate_window = Some l"
    and "ml_run lower digit float_of as (ml_start t0 l) = Some s" and "list_all no_shutdown as"
    and "map_of (ml_futures (ms_limiter s)) f = Some Pending"
  shows "queue_ok (ms_limiter s) \<and> held_by (ms_limiter s) f \<and> working (ml_worker (ms_limiter s))
    \<and> (\<exists>now a s'. (a = WakeWorker \<or> (\<exists>r. a = CallEnds r)) \<and> ml_apply lower digit float_of now a s = Some s')
    \<and> (in_error (ml_worker (ms_limiter s)) \<longrightarrow> list_ex (action_unreadable lower digit float_of) as)"
proof -
  have start: "ml_ok (ms_limiter (ml_start t0 l))" "\<not> in_error (ml_worker (ms_limiter (ml_start t0 l)))"
    using ml_ok_start [OF assms(1)] assms(1) by (auto simp: ml_start_def make_messaging_limiter_def in_error_def)
  from ml_ok_run [OF assms(2,3) start(1)] start(2)
  have ok: "ml_ok (ms_limiter s)"
    and "in_error (ml_worker (ms_limiter s)) \<longrightarrow> list_ex (action_unreadable lower digit float_of) as"
    by blast+
  then show ?thesis
    using ml_ok_queue [OF ok] ml_ok_held [OF ok assms(4)] ml_ok_working [OF ok] worker_can_move [OF ok assms(4)]
    by blast
qed

section \<open>The rate\<close>

definition calls_sound :: "('f, 'v) ml_sys \<Rightarrow> bool" where
  "calls_sound s \<longleftrightarrow> win.sound (ms_calls s) (ms_now s) (ml_window (ms_limiter s))"

text \<open>A move of the worker tries the window once at most, and is in a call exactly when it was given a slot.\<close>

definition one_try :: "rat \<Rightarrow> ('f, 'v) limiter \<Rightarrow> ('f, 'v) limiter \<Rightarrow> bool" where
  "one_try now l l' \<longleftrightarrow>
     (ml_window l' = ml_window l \<and> (\<forall>func fs. ml_worker l' \<noteq> InCall func fs))
     \<or> (\<exists>wait. acquire_step now (ml_window l) = (Some wait, ml_window l') \<and> (\<forall>func fs. ml_worker l' \<noteq> InCall func fs))
     \<or> (acquire_step now (ml_window l) = (None, ml_window l') \<and> (\<exists>func fs. ml_worker l' = InCall func fs))"

lemma one_try_slot: "ml_window l = ml_window l0 \<Longrightarrow> one_try now l0 (slot_round now func fs l)"
  by (auto simp: one_try_def slot_round_def split: prod.split option.split)

lemma one_try_loop: "ml_window l = ml_window l0 \<Longrightarrow> one_try now l0 (worker_loop now l)"
  by (auto simp: worker_loop_def Let_def split: list.split option.split intro!: one_try_slot)
    (auto simp: one_try_def)

lemma one_try_wake: "worker_wake now l = Some l' \<Longrightarrow> one_try now l l'"
  by (auto simp: worker_wake_def intro: one_try_loop one_try_slot split: worker.splits if_splits)

lemma one_try_result: "worker_result lower digit float_of now r l = Some l' \<Longrightarrow> one_try now l l'"
  by (auto simp: worker_result_def Let_def intro!: one_try_loop split: worker.splits call_end.splits option.splits if_splits)
    (auto simp: one_try_def)

lemma calls_sound_put:
  assumes s: "calls_sound s" and t: "one_try (ms_now s) (ms_limiter s) l"
  shows "calls_sound (put_limiter l s)"
    and "w_rate_limit (ml_window l) = w_rate_limit (ml_window (ms_limiter s))
      \<and> w_rate_window (ml_window l) = w_rate_window (ml_window (ms_limiter s))"
proof -
  note sound = s [unfolded calls_sound_def]
  from t consider (none) "ml_window l = ml_window (ms_limiter s)" "\<forall>func fs. ml_worker l \<noteq> InCall func fs"
    | (wait) d where "acquire_step (ms_now s) (ml_window (ms_limiter s)) = (Some d, ml_window l)"
        "\<forall>func fs. ml_worker l \<noteq> InCall func fs"
    | (call) func fs where "acquire_step (ms_now s) (ml_window (ms_limiter s)) = (None, ml_window l)"
        "ml_worker l = InCall func fs"
    by (auto simp: one_try_def)
  then have "calls_sound (put_limiter l s) \<and> w_rate_limit (ml_window l) = w_rate_limit (ml_window (ms_limiter s))
      \<and> w_rate_window (ml_window l) = w_rate_window (ml_window (ms_limiter s))"
  proof cases
    case none
    then have "(case ml_worker l of InCall func fs \<Rightarrow> [ms_now s] | _ \<Rightarrow> []) = []" by (simp split: worker.split)
    with none sound show ?thesis by (simp add: calls_sound_def put_limiter_def)
  next
    case (wait d)
    then have "(case ml_worker l of InCall func fs \<Rightarrow> [ms_now s] | _ \<Rightarrow> []) = []" by (simp split: worker.split)
    with win.sound_refused [OF sound wait(1)] win.config [OF wait(1)] show ?thesis
      by (simp add: calls_sound_def put_limiter_def)
  next
    case (call func fs)
    with win.sound_granted [OF sound call(1)] win.config [OF call(1)] show ?thesis
      by (simp add: calls_sound_def put_limiter_def)
  qed
  then show "calls_sound (put_limiter l s)"
    and "w_rate_limit (ml_window l) = w_rate_limit (ml_window (ms_limiter s))
      \<and> w_rate_window (ml_window l) = w_rate_window (ml_window (ms_limiter s))"
    by blast+
qed

lemma enqueue_window [simp]: "ml_window (enqueue func f key l) = ml_window l"
  by (simp add: enqueue_def)

lemma calls_sound_step:
  assumes s: "calls_sound s" and step: "ml_apply lower digit float_of now a s = Some s'"
  shows "calls_sound s' \<and> w_rate_limit (ml_window (ms_limiter s')) = w_rate_limit (ml_window (ms_limiter s))
      \<and> w_rate_window (ml_window (ms_limiter s')) = w_rate_window (ml_window (ms_limiter s))"
proof -
  let ?s = "s\<lparr>ms_now := now\<rparr>"
  have s1: "calls_sound ?s"
    using win.sound_later [OF s [unfolded calls_sound_def]] ml_apply_time [OF step] by (simp add: calls_sound_def)
  show ?thesis
  proof (cases a)
    case WakeWorker
    with step obtain l' where l': "worker_wake now (ms_limiter s) = Some l'" "s' = put_limiter l' ?s"
      by (auto simp: ml_apply_def Let_def split: if_splits)
    with calls_sound_put [OF s1, of l'] one_try_wake [OF l'(1)] show ?thesis by (simp add: put_limiter_def)
  next
    case (CallEnds r)
    with step obtain l' where l': "worker_result lower digit float_of now r (ms_limiter s) = Some l'" "s' = put_limiter l' ?s"
      by (auto simp: ml_apply_def Let_def split: if_splits)
    with calls_sound_put [OF s1, of l'] one_try_result [OF l'(1)] show ?thesis by (simp add: put_limiter_def)
  qed (use step s1 in \<open>auto simp: ml_apply_def Let_def calls_sound_def shutdown_def split: if_splits\<close>)
qed

lemma calls_sound_run:
  "ml_run lower digit float_of as s = Some s' \<Longrightarrow> calls_sound s \<Longrightarrow>
   calls_sound s' \<and> w_rate_limit (ml_window (ms_limiter s')) = w_rate_limit (ml_window (ms_limiter s))
      \<and> w_rate_window (ml_window (ms_limiter s')) = w_rate_window (ml_window (ms_limiter s))"
proof (induction as arbitrary: s)
  case (Cons p as)
  obtain now a where p: "p = (now, a)" by (cases p)
  with Cons.prems(1) obtain s1 where st: "ml_apply lower digit float_of now a s = Some s1"
    and run: "ml_run lower digit float_of as s1 = Some s'" by (auto split: option.splits)
  from calls_sound_step [OF Cons.prems(2) st] Cons.IH [OF run] show ?case by simp
qed simp

text \<open>Claim C34: the platform sees no bursts. Whatever is sent and however the calls end, every half-open
  interval of the window's length starts at most \<open>rate_limit\<close> calls.\<close>

theorem platform_calls_bounded:
  assumes "make_messaging_limiter rate_limit rate_window = Some l"
    and "ml_run lower digit float_of as (ml_start t0 l) = Some s"
  shows "int (length (filter (\<lambda>t. x < t \<and> t \<le> x + rate_window) (ms_calls s))) \<le> rate_limit"
proof -
  have l: "w_times (ml_window l) = []" "w_rate_limit (ml_window l) = nat rate_limit"
    "w_rate_window (ml_window l) = rate_window" "0 < rate_limit"
    using assms(1) by (auto simp: make_messaging_limiter_def make_window_def split: if_splits)
  have "calls_sound (ml_start t0 l)"
    using win.sound_start [OF l(1), of t0] by (simp add: calls_sound_def ml_start_def)
  from calls_sound_run [OF assms(2) this] l
  have s: "calls_sound s" "w_rate_limit (ml_window (ms_limiter s)) = nat rate_limit"
    "w_rate_window (ml_window (ms_limiter s)) = rate_window"
    by (simp_all add: ml_start_def)
  from win.sound_bound [OF s(1) [unfolded calls_sound_def], of x] s(2,3) l(4) show ?thesis by simp
qed

section \<open>Fire and forget is bounded\<close>

text \<open>A send that nobody waits for is tried at most three times; it is tried again only after a
  transient error, after one second and then two; and its result is that of the last attempt.\<close>

theorem fire_and_forget_bounded:
  "\<exists>r n waits. fire_and_forget lower send = (r, n, waits) \<and> 1 \<le> n \<and> n \<le> 3 \<and> r = send (n - 1)
    \<and> length waits = n - 1 \<and> waits = map (\<lambda>k. 2 ^ k) [0..<n - 1]
    \<and> (\<forall>k. k + 1 < n \<longleftrightarrow> k < n - 1 \<and> (case send k of Inl e \<Rightarrow> transient_error lower e | Inr v \<Rightarrow> False))
    \<and> (n = 3 \<or> (case r of Inl e \<Rightarrow> \<not> transient_error lower e | Inr v \<Rightarrow> True))"
proof -
  consider (0) "case send 0 of Inl e \<Rightarrow> \<not> transient_error lower e | Inr v \<Rightarrow> True"
    | (1) e0 where "send 0 = Inl e0" "transient_error lower e0"
        "case send 1 of Inl e \<Rightarrow> \<not> transient_error lower e | Inr v \<Rightarrow> True"
    | (2) e0 e1 where "send 0 = Inl e0" "transient_error lower e0" "send 1 = Inl e1" "transient_error lower e1"
    by (cases "send 0"; cases "send 1") auto
  then show ?thesis
  proof cases
    case 0
    then have "fire_and_forget lower send = (send 0, 1, [])"
      by (auto simp: fire_and_forget_def numeral_2_eq_2 split: sum.splits)
    with 0 show ?thesis by auto
  next
    case (1 e0)
    then have "fire_and_forget lower send = (send 1, 2, [1])"
      by (auto simp: fire_and_forget_def numeral_2_eq_2 split: sum.splits)
    with 1 show ?thesis by (auto simp: less_Suc_eq)
  next
    case (2 e0 e1)
    then have "fire_and_forget lower send = (send 2, 3, [1, 2])"
      by (simp add: fire_and_forget_def numeral_2_eq_2 eval_nat_numeral)
    with 2 show ?thesis by (auto simp: less_Suc_eq numeral_2_eq_2 numeral_3_eq_3)
  qed
qed

section \<open>Shutdown\<close>

text \<open>The code sets no future when it shuts down: a caller that still waits then is never answered.\<close>

lemma ended_step:
  assumes "ml_worker (ms_limiter s) = Ended" and "map_of (ml_futures (ms_limiter s)) f = Some Pending"
    and "ml_apply lower digit float_of now a s = Some s'" and "a \<noteq> GiveUp f"
  shows "ml_worker (ms_limiter s') = Ended \<and> map_of (ml_futures (ms_limiter s')) f = Some Pending"
  using assms
  by (cases a) (auto simp: ml_apply_def Let_def worker_wake_def worker_result_def shutdown_def enqueue_def
      has_key_def split: if_splits)

lemma ended_run:
  assumes "ml_worker (ms_limiter s) = Ended" and "map_of (ml_futures (ms_limiter s)) f = Some Pending"
    and "ml_run lower digit float_of as s = Some s'" and "list_all (\<lambda>p. snd p \<noteq> GiveUp f) as"
  shows "ml_worker (ms_limiter s') = Ended \<and> map_of (ml_futures (ms_limiter s')) f = Some Pending"
  using assms
proof (induction as arbitrary: s)
  case (Cons p as)
  obtain t a where p: "p = (t, a)" by (cases p)
  with Cons.prems(3) obtain s1 where st: "ml_apply lower digit float_of t a s = Some s1"
    and run: "ml_run lower digit float_of as s1 = Some s'" by (auto split: option.splits)
  have "ml_worker (ms_limiter s1) = Ended \<and> map_of (ml_futures (ms_limiter s1)) f = Some Pending"
    by (rule ended_step [OF Cons.prems(1,2) st]) (use Cons.prems(4) p in simp)
  with Cons.IH [OF _ _ run] Cons.prems(4) show ?case by simp
qed simp

theorem shutdown_strands_waiters:
  assumes "ml_apply lower digit float_of now Shutdown s0 = Some s" and "map_of (ml_futures (ms_limiter s0)) f = Some Pending"
    and "ml_run lower digit float_of as s = Some s'" and "list_all (\<lambda>p. snd p \<noteq> GiveUp f) as"
  shows "map_of (ml_futures (ms_limiter s')) f = Some Pending"
proof -
  have "ml_worker (ms_limiter s) = Ended" "map_of (ml_futures (ms_limiter s)) f = Some Pending"
    using assms(1,2) by (auto simp: ml_apply_def Let_def shutdown_def split: if_splits)
  from ended_run [OF this assms(3,4)] show ?thesis ..
qed

text \<open>Nor does it when a call raises \<open>CancelledError\<close>: the worker ends for good, so no caller that waits
  then is answered, those of the cancelled call and those still queued.\<close>

theorem cancelled_call_strands_waiters:
  assumes "ml_apply lower digit float_of now (CallEnds CallCancelled) s0 = Some s"
    and "map_of (ml_futures (ms_limiter s0)) f = Some Pending"
    and "ml_run lower digit float_of as s = Some s'" and "list_all (\<lambda>p. snd p \<noteq> GiveUp f) as"
  shows "ml_worker (ms_limiter s') = Ended \<and> map_of (ml_futures (ms_limiter s')) f = Some Pending"
proof -
  have "ml_worker (ms_limiter s) = Ended" "map_of (ml_futures (ms_limiter s)) f = Some Pending"
    using assms(1,2)
    by (auto simp: ml_apply_def Let_def worker_result_def put_limiter_def split: if_splits worker.splits)
  from ended_run [OF this assms(3,4)] show ?thesis .
qed

section \<open>A concrete run\<close>

definition ascii_digit :: "int \<Rightarrow> nat option" where
  "ascii_digit c = (if 48 \<le> c \<and> c \<le> 57 then Some (nat (c - 48)) else None)"

definition flood_exn :: exn where
  "flood_exn = \<lparr>ex_class = OtherException, ex_name = u ''RetryAfter'', ex_status_code = None,
     ex_response_status = 0, ex_str = u ''wait'', ex_error_type = []\<rparr>"

definition example_limiter :: "(nat, nat) limiter" where
  "example_limiter = the (make_messaging_limiter 1 1)"

text \<open>Two edits of one message are sent before the worker runs: only the second function is called. A
  flood error then pauses the worker.\<close>

definition example_sends :: "(rat \<times> (nat, nat) ml_action) list" where
  "example_sends =
     [(0, Send 10 0 (u ''m'')), (0, Send 11 1 (u ''m'')), (0, Send 20 2 (u ''n'')), (0, WakeWorker),
      (0, CallEnds (Raised flood_exn None))]"

definition is_pending :: "'v future \<Rightarrow> bool" where
  "is_pending f = (case f of Pending \<Rightarrow> True | _ \<Rightarrow> False)"

lemma is_pending_iff: "is_pending f \<longleftrightarrow> f = Pending"
  by (simp add: is_pending_def split: future.split)

lemma example_sends_run:
  "map_option (\<lambda>s. (ms_calls s, map (\<lambda>(i, f). (i, is_pending f)) (ml_futures (ms_limiter s))))
     (ml_run id ascii_digit (\<lambda>_. None) example_sends (ml_start 0 example_limiter))
   = Some ([0], [(0, False), (1, False), (2, True)])"
  by code_simp

theorem no_send_is_lost_witness:
  "\<exists>s. ml_run id ascii_digit (\<lambda>_. None) example_sends (ml_start 0 example_limiter) = Some s
    \<and> queue_ok (ms_limiter s) \<and> held_by (ms_limiter s) 2 \<and> working (ml_worker (ms_limiter s))
    \<and> (\<exists>now a s'. (a = WakeWorker \<or> (\<exists>r. a = CallEnds r)) \<and> ml_apply id ascii_digit (\<lambda>_. None) now a s = Some s')
    \<and> (in_error (ml_worker (ms_limiter s)) \<longrightarrow> list_ex (action_unreadable id ascii_digit (\<lambda>_. None)) example_sends)"
proof -
  obtain s where s: "ml_run id ascii_digit (\<lambda>_. None) example_sends (ml_start 0 example_limiter) = Some s"
    and e: "(ms_calls s, map (\<lambda>(i, f). (i, is_pending f)) (ml_futures (ms_limiter s)))
      = ([0], [(0, False), (1, False), (2, True)])"
    using map_option_SomeD [OF example_sends_run] by (elim exE conjE)
  from e have p: "map_of (ml_futures (ms_limiter s)) 2 = Some Pending"
    by (auto simp: is_pending_iff map_eq_Cons_conv)
  have lim: "make_messaging_limiter 1 1 = Some example_limiter"
    by (simp add: example_limiter_def make_messaging_limiter_def make_window_def)
  have no: "list_all no_shutdown example_sends" by (simp add: example_sends_def no_shutdown_def cancels_def)
  show ?thesis by (rule exI [of _ s], rule conjI [OF s no_send_is_lost [OF lim s no p]])
qed

theorem platform_calls_bounded_witness:
  "\<exists>s. ml_run id ascii_digit (\<lambda>_. None) example_sends (ml_start 0 example_limiter) = Some s
    \<and> int (length (filter (\<lambda>t. -1 < t \<and> t \<le> -1 + 1) (ms_calls s))) \<le> 1"
proof -
  obtain s where s: "ml_run id ascii_digit (\<lambda>_. None) example_sends (ml_start 0 example_limiter) = Some s"
    using map_option_SomeD [OF example_sends_run] by (elim exE conjE)
  have lim: "make_messaging_limiter 1 1 = Some example_limiter"
    by (simp add: example_limiter_def make_messaging_limiter_def make_window_def)
  show ?thesis by (rule exI [of _ s], rule conjI [OF s platform_calls_bounded [OF lim s]])
qed

end
