(* ===== verification/Conversion.thy ===== *)
theory Conversion
  imports Json "HOL-Library.Multiset"
begin

text \<open>
  Conversion of Anthropic messages to the OpenAI chat format (\<open>core/anthropic/conversion.py\<close>).
  Messages, blocks and results are JSON objects. Arguments of the model: \<open>json.dumps\<close> with and
  without escaping and Python's \<open>str\<close> of a value that is not a string, collected in a record. A
  text field that is not a string makes \<open>str.join\<close> raise, which is an error of its own.
\<close>

record pylib =
  py_dumps :: "json \<Rightarrow> pystr"
  py_dumps_unicode :: "json \<Rightarrow> pystr"
  py_str_value :: "json \<Rightarrow> pystr"

definition py_str :: "pylib \<Rightarrow> json \<Rightarrow> pystr" where
  "py_str p v = (case v of JStr s \<Rightarrow> s | _ \<Rightarrow> py_str_value p v)"

section \<open>Results\<close>

datatype conv_error =
    UnsupportedFields "pystr list"
  | AssistantImage
  | ServerToolBlock json
  | UserImage
  | JoinTypeError

type_synonym 'a conv = "conv_error + 'a"

definition conv_bind :: "'a conv \<Rightarrow> ('a \<Rightarrow> 'b conv) \<Rightarrow> 'b conv" where
  "conv_bind r f = (case r of Inl e \<Rightarrow> Inl e | Inr a \<Rightarrow> f a)"

lemma conv_bind_simps [simp]: "conv_bind (Inr a) f = f a" "conv_bind (Inl e) f = Inl e"
  by (simp_all add: conv_bind_def)

lemma conv_bind_Inr: "conv_bind r f = Inr b \<longleftrightarrow> (\<exists>a. r = Inr a \<and> f a = Inr b)"
  by (cases r) auto

lemma conv_bind_Inl: "conv_bind r f = Inl e \<longleftrightarrow> r = Inl e \<or> (\<exists>a. r = Inr a \<and> f a = Inl e)"
  by (cases r) auto

text \<open>\<open>sep.join(parts)\<close> over values that should be strings.\<close>

fun strings_of :: "json list \<Rightarrow> pystr list conv" where
  "strings_of [] = Inr []"
| "strings_of (JStr s # vs) = conv_bind (strings_of vs) (\<lambda>ss. Inr (s # ss))"
| "strings_of (_ # vs) = Inl JoinTypeError"

definition join_parts :: "string \<Rightarrow> json list \<Rightarrow> pystr conv" where
  "join_parts sep parts = conv_bind (strings_of parts) (\<lambda>ss. Inr (join (u sep) ss))"

definition nl :: string where "nl = [CHR 0x0A]"

section \<open>Helpers\<close>

datatype replay_mode = DISABLED | THINK_TAGS | REASONING_CONTENT

definition reject_native_only_fields :: "pystr list \<Rightarrow> unit conv" where
  "reject_native_only_fields extra = (if extra = [] then Inr () else Inl (UnsupportedFields extra))"

record tool =
  tl_name :: json
  tl_description :: json
  tl_input_schema :: json

definition tool_input_schema :: "tool \<Rightarrow> json" where
  "tool_input_schema t =
     (case tl_input_schema t of
        JObj d \<Rightarrow> JObj d
      | _ \<Rightarrow> JObj [(u ''type'', JStr (u ''object'')), (u ''properties'', JObj [])])"

definition result_item :: "pylib \<Rightarrow> json \<Rightarrow> pystr" where
  "result_item p item =
     (case item of
        JObj d \<Rightarrow> if is_text (dget d ''type'') ''text'' then py_str p (dget_or d ''text'' (JStr []))
                  else py_dumps_unicode p item
      | _ \<Rightarrow> py_str p item)"

definition serialize_tool_result_content :: "pylib \<Rightarrow> json \<Rightarrow> pystr" where
  "serialize_tool_result_content p tool_content =
     (case tool_content of
        JNull \<Rightarrow> []
      | JStr s \<Rightarrow> s
      | JObj d \<Rightarrow> py_dumps_unicode p tool_content
      | JList items \<Rightarrow> join (u nl) (map (result_item p) items)
      | _ \<Rightarrow> py_str p tool_content)"

definition clean_reasoning_content :: "json \<Rightarrow> pystr option" where
  "clean_reasoning_content value =
     (case value of JStr s \<Rightarrow> if s = [] then None else Some s | _ \<Rightarrow> None)"

definition think_tag_content :: "pystr \<Rightarrow> pystr" where
  "think_tag_content reasoning = u ''<think>'' @ u nl @ reasoning @ u nl @ u ''</think>''"

record pending_after_tools =
  pt_remaining_tool_ids :: "pystr list"
  pt_deferred_blocks :: "json list"
  pt_top_level_reasoning :: "pystr option"
  pt_reasoning_replay :: replay_mode
  pt_deferred_emitted :: bool

definition needs_deferred :: "pending_after_tools \<Rightarrow> bool" where
  "needs_deferred pnd \<longleftrightarrow> pt_deferred_blocks pnd \<noteq> [] \<and> \<not> pt_deferred_emitted pnd"

definition is_tool_use :: "json \<Rightarrow> bool" where
  "is_tool_use block = is_text (get_block_type block) ''tool_use''"

fun index_first_tool_use :: "json list \<Rightarrow> nat option" where
  "index_first_tool_use [] = None"
| "index_first_tool_use (block # blocks) =
     (if is_tool_use block then Some 0 else map_option Suc (index_first_tool_use blocks))"

definition tool_call :: "pylib \<Rightarrow> json \<Rightarrow> json" where
  "tool_call p block =
     (let tool_input = get_block_attr block ''input'' (JObj [])
      in JObj [(u ''id'', get_block_attr block ''id'' JNull),
               (u ''type'', JStr (u ''function'')),
               (u ''function'', JObj
                  [(u ''name'', get_block_attr block ''name'' JNull),
                   (u ''arguments'', JStr (if is_obj tool_input then py_dumps p tool_input
                                           else py_str p tool_input))])])"

definition iter_tool_uses_in_order :: "pylib \<Rightarrow> json list \<Rightarrow> json list" where
  "iter_tool_uses_in_order p blocks = map (tool_call p) (filter is_tool_use blocks)"

definition deferred_post_tool_blocks :: "json list \<Rightarrow> nat \<Rightarrow> json list" where
  "deferred_post_tool_blocks content first_tool_index =
     filter (\<lambda>b. \<not> is_tool_use b) (drop (Suc first_tool_index) content)"

definition assert_no_forbidden_assistant_block :: "json \<Rightarrow> unit conv" where
  "assert_no_forbidden_assistant_block block =
     (let block_type = get_block_type block
      in if is_text block_type ''image'' then Inl AssistantImage
         else if is_text block_type ''server_tool_use'' \<or> is_text block_type ''web_search_tool_result''
                 \<or> is_text block_type ''web_fetch_tool_result''
         then Inl (ServerToolBlock block_type)
         else Inr ())"

section \<open>Assistant messages\<close>

text \<open>The loop over the blocks: texts, thinking kept for \<open>reasoning_content\<close>, tool calls.\<close>

fun assistant_parts ::
  "pylib \<Rightarrow> pystr option \<Rightarrow> replay_mode \<Rightarrow> json list \<Rightarrow> (json list \<times> json list \<times> json list) conv" where
  "assistant_parts p reasoning replay [] = Inr ([], [], [])"
| "assistant_parts p reasoning replay (block # blocks) =
     (let block_type = get_block_type block
      in if is_text block_type ''text''
         then conv_bind (assistant_parts p reasoning replay blocks)
                (\<lambda>(cs, ts, tcs). Inr (get_block_attr block ''text'' (JStr []) # cs, ts, tcs))
         else if is_text block_type ''thinking''
         then (if replay = DISABLED then assistant_parts p reasoning replay blocks
               else
                 (let thinking = get_block_attr block ''thinking'' (JStr [])
                  in conv_bind (assistant_parts p reasoning replay blocks)
                       (\<lambda>(cs, ts, tcs).
                          if replay = THINK_TAGS
                          then Inr (JStr (think_tag_content (py_str p thinking)) # cs, ts, tcs)
                          else if reasoning = None then Inr (cs, thinking # ts, tcs)
                          else Inr (cs, ts, tcs))))
         else if is_text block_type ''redacted_thinking'' then assistant_parts p reasoning replay blocks
         else if is_text block_type ''tool_use''
         then conv_bind (assistant_parts p reasoning replay blocks)
                (\<lambda>(cs, ts, tcs). Inr (cs, ts, tool_call p block # tcs))
         else conv_bind (assert_no_forbidden_assistant_block block)
                (\<lambda>_. assistant_parts p reasoning replay blocks))"

definition convert_assistant_message ::
  "pylib \<Rightarrow> pystr option \<Rightarrow> replay_mode \<Rightarrow> json list \<Rightarrow> (pystr \<times> json) list conv" where
  "convert_assistant_message p reasoning replay content =
     conv_bind (assistant_parts p reasoning replay content) (\<lambda>(cs, ts, tool_calls).
     conv_bind (join_parts (nl @ nl) cs) (\<lambda>joined.
       (let content_str = (if joined = [] \<and> tool_calls = [] then u '' '' else joined);
            msg = [(u ''role'', JStr (u ''assistant'')), (u ''content'', JStr content_str)];
            msg = (if tool_calls \<noteq> [] then dset msg ''tool_calls'' (JList tool_calls) else msg)
        in if replay = REASONING_CONTENT
           then (case reasoning of
                   Some r \<Rightarrow> Inr (if r = [] then msg else dset msg ''reasoning_content'' (JStr r))
                 | None \<Rightarrow>
                     conv_bind (join_parts nl ts) (\<lambda>r.
                       Inr (if r = [] then msg else dset msg ''reasoning_content'' (JStr r))))
           else Inr msg)))"

text \<open>The ids a later tool result must name before the deferred text is replayed.\<close>

definition pending_ids :: "pylib \<Rightarrow> json list \<Rightarrow> pystr list" where
  "pending_ids p tool_calls =
     map (py_str p) (filter (\<lambda>tid. tid \<noteq> JNull \<and> strip (py_str p tid) \<noteq> [])
       (map (\<lambda>tc. dget (obj_of tc) ''id'') tool_calls))"

definition convert_assistant_message_with_split ::
  "pylib \<Rightarrow> json list \<Rightarrow> nat \<Rightarrow> pystr option \<Rightarrow> replay_mode
   \<Rightarrow> ((pystr \<times> json) list \<times> pending_after_tools option) conv" where
  "convert_assistant_message_with_split p content first_tool_index reasoning replay =
     (let pre = take first_tool_index content;
          tool_calls = iter_tool_uses_in_order p content
      in if tool_calls = []
         then conv_bind (convert_assistant_message p reasoning replay content) (\<lambda>m. Inr (m, None))
         else
           (let deferred_blocks = deferred_post_tool_blocks content first_tool_index
            in conv_bind
                 (if pre = []
                  then (let m = [(u ''role'', JStr (u ''assistant'')), (u ''content'', JStr [])]
                        in Inr (case reasoning of
                                  Some r \<Rightarrow> if replay = REASONING_CONTENT \<and> r \<noteq> []
                                            then dset m ''reasoning_content'' (JStr r) else m
                                | None \<Rightarrow> m))
                  else convert_assistant_message p reasoning replay pre)
                 (\<lambda>pre_msg.
                    (let m1 = dset pre_msg ''tool_calls'' (JList tool_calls);
                         m2 = (if is_text (dget m1 ''content'') '' '' then dset m1 ''content'' (JStr []) else m1)
                     in Inr (m2,
                          if deferred_blocks = [] then None
                          else Some \<lparr>pt_remaining_tool_ids = pending_ids p tool_calls,
                                     pt_deferred_blocks = deferred_blocks,
                                     pt_top_level_reasoning = reasoning,
                                     pt_reasoning_replay = replay,
                                     pt_deferred_emitted = False\<rparr>)))))"

definition deferred_post_tool_to_messages ::
  "pylib \<Rightarrow> pending_after_tools \<Rightarrow> (pystr \<times> json) list list conv" where
  "deferred_post_tool_to_messages p pnd =
     (if pt_deferred_blocks pnd = [] then Inr []
      else conv_bind (convert_assistant_message p (pt_top_level_reasoning pnd) (pt_reasoning_replay pnd)
                        (pt_deferred_blocks pnd)) (\<lambda>m. Inr [m]))"

section \<open>User messages\<close>

definition user_message :: "pystr \<Rightarrow> (pystr \<times> json) list" where
  "user_message content = [(u ''role'', JStr (u ''user'')), (u ''content'', JStr content)]"

definition flush_text :: "json list \<Rightarrow> (pystr \<times> json) list list conv" where
  "flush_text text_parts =
     (if text_parts = [] then Inr []
      else conv_bind (join_parts nl text_parts) (\<lambda>content. Inr [user_message content]))"

definition tool_message :: "pylib \<Rightarrow> json \<Rightarrow> (pystr \<times> json) list" where
  "tool_message p block =
     [(u ''role'', JStr (u ''tool'')),
      (u ''tool_call_id'', get_block_attr block ''tool_use_id'' JNull),
      (u ''content'', JStr (serialize_tool_result_content p (get_block_attr block ''content'' (JStr []))))]"

fun user_blocks :: "pylib \<Rightarrow> json list \<Rightarrow> json list \<Rightarrow> (pystr \<times> json) list list conv" where
  "user_blocks p text_parts [] = flush_text text_parts"
| "user_blocks p text_parts (block # blocks) =
     (let block_type = get_block_type block
      in if is_text block_type ''text''
         then user_blocks p (text_parts @ [get_block_attr block ''text'' (JStr [])]) blocks
         else if is_text block_type ''image'' then Inl UserImage
         else if is_text block_type ''tool_result''
         then conv_bind (flush_text text_parts) (\<lambda>flushed.
              conv_bind (user_blocks p [] blocks) (\<lambda>later. Inr (flushed @ tool_message p block # later)))
         else user_blocks p text_parts blocks)"

definition convert_user_message :: "pylib \<Rightarrow> json list \<Rightarrow> (pystr \<times> json) list list conv" where
  "convert_user_message p content = user_blocks p [] content"

text \<open>The same loop while assistant text is pending: each tool result is ticked off, and whenever none
  is missing after a tool result the deferred text is emitted.\<close>

fun injected_blocks ::
  "pylib \<Rightarrow> json list \<Rightarrow> bool \<Rightarrow> json list \<Rightarrow> pending_after_tools
   \<Rightarrow> ((pystr \<times> json) list list \<times> bool \<times> pending_after_tools) conv" where
  "injected_blocks p text_parts cleared [] pnd =
     conv_bind (flush_text text_parts) (\<lambda>flushed. Inr (flushed, cleared, pnd))"
| "injected_blocks p text_parts cleared (block # blocks) pnd =
     (let block_type = get_block_type block
      in if is_text block_type ''text''
         then injected_blocks p (text_parts @ [get_block_attr block ''text'' (JStr [])]) cleared blocks pnd
         else if is_text block_type ''image'' then Inl UserImage
         else if is_text block_type ''tool_result''
         then conv_bind (flush_text text_parts) (\<lambda>flushed.
                (let tuid = get_block_attr block ''tool_use_id'' JNull;
                     tuid_s = (if tuid = JNull then [] else py_str p tuid);
                     pnd1 = pnd\<lparr>pt_remaining_tool_ids :=
                       filter (\<lambda>i. i \<noteq> tuid_s) (pt_remaining_tool_ids pnd)\<rparr>
                 in if pt_remaining_tool_ids pnd1 = []
                    then conv_bind (deferred_post_tool_to_messages p pnd1) (\<lambda>deferred.
                         conv_bind (injected_blocks p [] True blocks (pnd1\<lparr>pt_deferred_emitted := True\<rparr>))
                           (\<lambda>(later, c, pnd2). Inr (flushed @ tool_message p block # deferred @ later, c, pnd2)))
                    else conv_bind (injected_blocks p [] cleared blocks pnd1)
                           (\<lambda>(later, c, pnd2). Inr (flushed @ tool_message p block # later, c, pnd2))))
         else injected_blocks p text_parts cleared blocks pnd)"

definition convert_user_message_with_injection ::
  "pylib \<Rightarrow> json list \<Rightarrow> pending_after_tools \<Rightarrow> ((pystr \<times> json) list list \<times> bool \<times> pending_after_tools) conv" where
  "convert_user_message_with_injection p content pnd =
     (if \<not> needs_deferred pnd \<or> pt_remaining_tool_ids pnd = []
      then conv_bind (convert_user_message p content) (\<lambda>ms. Inr (ms, False, pnd))
      else injected_blocks p [] False content pnd)"

section \<open>Conversations\<close>

record message =
  mg_role :: pystr
  mg_content :: json
  mg_reasoning_content :: json

fun assert_blocks :: "json list \<Rightarrow> unit conv" where
  "assert_blocks [] = Inr ()"
| "assert_blocks (block # blocks) =
     conv_bind (assert_no_forbidden_assistant_block block) (\<lambda>_. assert_blocks blocks)"

text \<open>Emitting what is pending, when it is.\<close>

definition emit_pending ::
  "pylib \<Rightarrow> bool \<Rightarrow> pending_after_tools option \<Rightarrow> ((pystr \<times> json) list list \<times> pending_after_tools option) conv" where
  "emit_pending p when_asked pending =
     (case pending of
        None \<Rightarrow> Inr ([], None)
      | Some pnd \<Rightarrow>
          if when_asked \<and> needs_deferred pnd
          then conv_bind (deferred_post_tool_to_messages p pnd) (\<lambda>ms. Inr (ms, None))
          else Inr ([], pending))"

definition convert_string_message ::
  "replay_mode \<Rightarrow> pystr \<Rightarrow> pystr \<Rightarrow> pystr option \<Rightarrow> (pystr \<times> json) list" where
  "convert_string_message replay role content reasoning =
     (let converted = [(u ''role'', JStr role), (u ''content'', JStr content)]
      in case reasoning of
           None \<Rightarrow> converted
         | Some r \<Rightarrow>
             if role = u ''assistant''
             then (if replay = REASONING_CONTENT then dset converted ''reasoning_content'' (JStr r)
                   else if replay = THINK_TAGS
                   then dset converted ''content''
                          (JStr (join (u (nl @ nl)) (think_tag_content r # (if content \<noteq> [] then [content] else []))))
                   else converted)
             else converted)"

text \<open>One round of the loop: the messages it adds, and what is pending afterwards.\<close>

definition convert_message ::
  "pylib \<Rightarrow> replay_mode \<Rightarrow> message \<Rightarrow> pending_after_tools option
   \<Rightarrow> ((pystr \<times> json) list list \<times> pending_after_tools option) conv" where
  "convert_message p replay msg pending =
     (let role = mg_role msg;
          reasoning = clean_reasoning_content (mg_reasoning_content msg)
      in case mg_content msg of
           JList content \<Rightarrow>
             if role = u ''assistant''
             then conv_bind (emit_pending p True pending) (\<lambda>(orphan, pending1).
                    (case index_first_tool_use content of
                       Some first_i \<Rightarrow>
                         conv_bind (assert_blocks (filter (\<lambda>b. \<not> is_tool_use b) content)) (\<lambda>_.
                         conv_bind (convert_assistant_message_with_split p content first_i reasoning replay)
                           (\<lambda>(m, new_pending).
                              Inr (orphan @ [m], if new_pending \<noteq> None then new_pending else pending1)))
                     | None \<Rightarrow>
                         conv_bind (assert_blocks content) (\<lambda>_.
                         conv_bind (convert_assistant_message p reasoning replay content)
                           (\<lambda>m. Inr (orphan @ [m], pending1)))))
             else if role = u ''user''
             then (case pending of
                     Some pnd \<Rightarrow>
                       if needs_deferred pnd
                       then (if pt_remaining_tool_ids pnd = []
                             then conv_bind (deferred_post_tool_to_messages p pnd) (\<lambda>deferred.
                                  conv_bind (convert_user_message p content) (\<lambda>ms.
                                    Inr (deferred @ ms, None)))
                             else conv_bind (convert_user_message_with_injection p content pnd)
                                    (\<lambda>(ms, cleared, pnd1). Inr (ms, if cleared then None else Some pnd1)))
                       else conv_bind (convert_user_message p content) (\<lambda>ms. Inr (ms, pending))
                   | None \<Rightarrow> conv_bind (convert_user_message p content) (\<lambda>ms. Inr (ms, pending)))
             else Inr ([], pending)
         | JStr content \<Rightarrow>
             conv_bind (emit_pending p (role = u ''user'') pending) (\<lambda>(deferred, pending1).
               Inr (deferred @ [convert_string_message replay role content reasoning], pending1))
         | content \<Rightarrow>
             conv_bind (emit_pending p (role = u ''user'') pending) (\<lambda>(deferred, pending1).
               Inr (deferred @ [[(u ''role'', JStr role), (u ''content'', JStr (py_str p content))]], pending1)))"

fun convert_from ::
  "pylib \<Rightarrow> replay_mode \<Rightarrow> message list \<Rightarrow> pending_after_tools option \<Rightarrow> (pystr \<times> json) list list conv" where
  "convert_from p replay [] pending = conv_bind (emit_pending p True pending) (\<lambda>(ms, _). Inr ms)"
| "convert_from p replay (msg # msgs) pending =
     conv_bind (convert_message p replay msg pending) (\<lambda>(ms, pending1).
     conv_bind (convert_from p replay msgs pending1) (\<lambda>later. Inr (ms @ later)))"

definition convert_messages :: "pylib \<Rightarrow> replay_mode \<Rightarrow> message list \<Rightarrow> (pystr \<times> json) list list conv" where
  "convert_messages p replay messages = convert_from p replay messages None"

section \<open>Tools, system prompt and the request body\<close>

definition convert_tools :: "tool list \<Rightarrow> json list" where
  "convert_tools tools =
     map (\<lambda>t. JObj [(u ''type'', JStr (u ''function'')),
                    (u ''function'', JObj
                       [(u ''name'', tl_name t),
                        (u ''description'', if truthy (tl_description t) then tl_description t else JStr []),
                        (u ''parameters'', tool_input_schema t)])]) tools"

definition convert_tool_choice :: "json \<Rightarrow> json" where
  "convert_tool_choice tool_choice =
     (case tool_choice of
        JObj d \<Rightarrow>
          (let choice_type = dget d ''type''; name = dget d ''name''
           in if is_text choice_type ''tool'' \<and> truthy name
              then JObj [(u ''type'', JStr (u ''function'')), (u ''function'', JObj [(u ''name'', name)])]
              else if is_text choice_type ''any'' then JStr (u ''required'')
              else if is_text choice_type ''auto'' \<or> is_text choice_type ''none'' \<or> is_text choice_type ''required''
              then choice_type
              else tool_choice)
      | _ \<Rightarrow> tool_choice)"

definition convert_system_prompt :: "json \<Rightarrow> (pystr \<times> json) list option conv" where
  "convert_system_prompt system =
     (case system of
        JStr s \<Rightarrow> Inr (Some [(u ''role'', JStr (u ''system'')), (u ''content'', JStr s)])
      | JList blocks \<Rightarrow>
          (let text_parts = map (\<lambda>b. get_block_attr b ''text'' (JStr []))
                 (filter (\<lambda>b. is_text (get_block_type b) ''text'') blocks)
           in if text_parts = [] then Inr None
              else conv_bind (join_parts (nl @ nl) text_parts) (\<lambda>s.
                     Inr (Some [(u ''role'', JStr (u ''system'')), (u ''content'', JStr (strip s))])))
      | _ \<Rightarrow> Inr None)"

record request_data =
  rd_model :: json
  rd_messages :: "message list"
  rd_system :: json
  rd_max_tokens :: json
  rd_temperature :: json
  rd_top_p :: json
  rd_stop_sequences :: json
  rd_tools :: "tool list"
  rd_tool_choice :: json
  rd_extra :: "pystr list"

definition build_base_request_body ::
  "pylib \<Rightarrow> json \<Rightarrow> replay_mode \<Rightarrow> request_data \<Rightarrow> (pystr \<times> json) list conv" where
  "build_base_request_body p default_max_tokens replay rd =
     conv_bind (reject_native_only_fields (rd_extra rd)) (\<lambda>_.
     conv_bind (convert_messages p replay (rd_messages rd)) (\<lambda>messages.
     conv_bind (if truthy (rd_system rd) then convert_system_prompt (rd_system rd) else Inr None) (\<lambda>system_msg.
       (let messages = (case system_msg of None \<Rightarrow> messages | Some m \<Rightarrow> m # messages);
            body = [(u ''model'', rd_model rd), (u ''messages'', JList (map JObj messages))];
            body = set_if_not_none body ''max_tokens''
              (if truthy (rd_max_tokens rd) then rd_max_tokens rd else default_max_tokens);
            body = set_if_not_none body ''temperature'' (rd_temperature rd);
            body = set_if_not_none body ''top_p'' (rd_top_p rd);
            body = (if truthy (rd_stop_sequences rd) then dset body ''stop'' (rd_stop_sequences rd) else body);
            body = (if rd_tools rd \<noteq> [] then dset body ''tools'' (JList (convert_tools (rd_tools rd))) else body);
            body = (if truthy (rd_tool_choice rd)
                    then dset body ''tool_choice'' (convert_tool_choice (rd_tool_choice rd)) else body)
        in Inr body))))"

section \<open>Tool results answer tool calls\<close>

text \<open>What an OpenAI chat transcript must satisfy: after a message with tool calls come the tool messages
  that answer exactly these calls, before any other message.\<close>

definition is_tool_message :: "(pystr \<times> json) list \<Rightarrow> bool" where
  "is_tool_message m \<longleftrightarrow> is_text (dget m ''role'') ''tool''"

definition call_ids :: "(pystr \<times> json) list \<Rightarrow> json list" where
  "call_ids m = (case dget m ''tool_calls'' of JList tcs \<Rightarrow> map (\<lambda>tc. dget (obj_of tc) ''id'') tcs | _ \<Rightarrow> [])"

fun pairs_ok :: "json list \<Rightarrow> (pystr \<times> json) list list \<Rightarrow> bool" where
  "pairs_ok unanswered [] \<longleftrightarrow> unanswered = []"
| "pairs_ok unanswered (m # ms) \<longleftrightarrow>
     (if is_tool_message m
      then dget m ''tool_call_id'' \<in> set unanswered \<and> pairs_ok (remove1 (dget m ''tool_call_id'') unanswered) ms
      else unanswered = [] \<and> pairs_ok (call_ids m) ms)"

definition is_tool_result :: "json \<Rightarrow> bool" where
  "is_tool_result b = is_text (get_block_type b) ''tool_result''"

definition use_id :: "json \<Rightarrow> json" where
  "use_id b = get_block_attr b ''id'' JNull"

definition result_id :: "json \<Rightarrow> json" where
  "result_id b = get_block_attr b ''tool_use_id'' JNull"

definition proper_id :: "json \<Rightarrow> bool" where
  "proper_id v \<longleftrightarrow> (case v of JStr s \<Rightarrow> strip s \<noteq> [] | _ \<Rightarrow> False)"

text \<open>A conversation as clients send it: messages of the user or the assistant without tools, and
  assistant messages with tool calls (whose ids are distinct and not blank) followed by a user
  message that starts with their results, in any order.\<close>

definition plain :: "message \<Rightarrow> bool" where
  "plain m \<longleftrightarrow> mg_role m \<in> {u ''user'', u ''assistant''} \<and>
     (case mg_content m of
        JList c \<Rightarrow> if mg_role m = u ''assistant'' then \<not> list_ex is_tool_use c else \<not> list_ex is_tool_result c
      | _ \<Rightarrow> True)"

definition tool_exchange :: "message \<Rightarrow> message \<Rightarrow> bool" where
  "tool_exchange m r \<longleftrightarrow> mg_role m = u ''assistant'' \<and> mg_role r = u ''user'' \<and>
     (case (mg_content m, mg_content r) of
        (JList c, JList d) \<Rightarrow>
          (let ids = map use_id (filter is_tool_use c); rs = takeWhile is_tool_result d
           in ids \<noteq> [] \<and> distinct ids \<and> list_all proper_id ids
              \<and> mset (map result_id rs) = mset ids \<and> \<not> list_ex is_tool_result (dropWhile is_tool_result d))
      | _ \<Rightarrow> False)"

fun well_turned :: "message list \<Rightarrow> bool" where
  "well_turned [] \<longleftrightarrow> True"
| "well_turned [m] \<longleftrightarrow> plain m"
| "well_turned (m # r # ms) \<longleftrightarrow> (plain m \<and> well_turned (r # ms)) \<or> (tool_exchange m r \<and> well_turned ms)"

definition simple_messages :: "(pystr \<times> json) list list \<Rightarrow> bool" where
  "simple_messages ms = list_all (\<lambda>m. \<not> is_tool_message m \<and> call_ids m = []) ms"

lemma simple_Nil [simp]: "simple_messages []"
  by (simp add: simple_messages_def)

lemma simple_append [simp]: "simple_messages (xs @ ys) \<longleftrightarrow> simple_messages xs \<and> simple_messages ys"
  by (simp add: simple_messages_def)

lemma pairs_ok_simple: "simple_messages xs \<Longrightarrow> pairs_ok [] (xs @ ys) \<longleftrightarrow> pairs_ok [] ys"
  by (induction xs) (auto simp: simple_messages_def)

lemma simple_user [simp]: "simple_messages [user_message s]"
  by (simp add: simple_messages_def user_message_def is_tool_message_def call_ids_def)

lemma simple_flush: "flush_text ps = Inr ms \<Longrightarrow> simple_messages ms"
  by (auto simp: flush_text_def conv_bind_Inr split: if_splits)

lemma block_type_cases: "is_text (get_block_type b) s \<Longrightarrow> is_text (get_block_type b) t \<longleftrightarrow> s = t"
  by (auto simp: is_text_def)

lemma assistant_parts_calls:
  "assistant_parts p r replay c = Inr (cs, ts, tcs) \<Longrightarrow> tcs = map (tool_call p) (filter is_tool_use c)"
proof (induction p r replay c arbitrary: cs ts tcs rule: assistant_parts.induct)
  case (2 p r replay b bs)
  consider "is_text (get_block_type b) ''text''" | "is_text (get_block_type b) ''thinking''"
    | "is_text (get_block_type b) ''redacted_thinking''" | "is_tool_use b"
    | (other) "\<not> is_text (get_block_type b) ''text''" "\<not> is_text (get_block_type b) ''thinking''"
      "\<not> is_text (get_block_type b) ''redacted_thinking''" "\<not> is_tool_use b"
    by blast
  then show ?case
  proof cases
    case 1
    then have "\<not> is_tool_use b" by (simp add: is_tool_use_def block_type_cases [OF 1])
    with 1 2(1) [OF refl 1] 2(7) show ?thesis by (auto simp: Let_def conv_bind_Inr)
  next
    case b: 2
    then have nt: "\<not> is_text (get_block_type b) ''text''" "\<not> is_tool_use b"
      by (simp_all add: is_tool_use_def block_type_cases [OF b])
    show ?thesis
    proof (cases "replay = DISABLED")
      case True
      with b nt 2(2) [OF refl nt(1) b True] 2(7) show ?thesis by (simp add: Let_def)
    next
      case False
      with b nt 2(7) obtain cs' ts' where "assistant_parts p r replay bs = Inr (cs', ts', tcs)"
        by (auto simp: Let_def conv_bind_Inr split: if_splits)
      with 2(3) [OF refl nt(1) b False refl] nt show ?thesis by simp
    qed
  next
    case b: 3
    then have nt: "\<not> is_text (get_block_type b) ''text''" "\<not> is_text (get_block_type b) ''thinking''" "\<not> is_tool_use b"
      by (simp_all add: is_tool_use_def block_type_cases [OF b])
    with b 2(4) [OF refl nt(1,2) b] 2(7) show ?thesis by (simp add: Let_def)
  next
    case b: 4
    then have b': "is_text (get_block_type b) ''tool_use''" by (simp add: is_tool_use_def)
    then have nt: "\<not> is_text (get_block_type b) ''text''" "\<not> is_text (get_block_type b) ''thinking''"
      "\<not> is_text (get_block_type b) ''redacted_thinking''"
      by (simp_all add: block_type_cases [OF b'])
    with b b' 2(5) [OF refl nt b'] 2(7) show ?thesis by (auto simp: Let_def conv_bind_Inr)
  next
    case other
    then have b': "\<not> is_text (get_block_type b) ''tool_use''" by (simp add: is_tool_use_def)
    with other 2(6) [OF refl other(1,2,3) b'] 2(7) show ?thesis by (auto simp: Let_def conv_bind_Inr)
  qed
qed simp

lemma tool_call_id [simp]: "dget (obj_of (tool_call p b)) ''id'' = use_id b"
  by (simp add: tool_call_def use_id_def Let_def)

lemma assistant_message_role:
  "convert_assistant_message p r replay c = Inr m \<Longrightarrow> dget m ''role'' = JStr (u ''assistant'')"
  by (auto simp: convert_assistant_message_def conv_bind_Inr Let_def split: if_splits option.splits)

lemma assistant_message_calls:
  assumes "convert_assistant_message p r replay c = Inr m"
  shows "\<not> is_tool_message m" and "call_ids m = map use_id (filter is_tool_use c)"
proof -
  obtain cs ts tcs where parts: "assistant_parts p r replay c = Inr (cs, ts, tcs)"
    using assms by (auto simp: convert_assistant_message_def conv_bind_Inr)
  have tcs: "tcs = map (tool_call p) (filter is_tool_use c)" by (rule assistant_parts_calls [OF parts])
  have "dget m ''role'' = JStr (u ''assistant'') \<and> dget m ''tool_calls'' = (if tcs = [] then JNull else JList tcs)"
    using assms parts
    by (auto simp: convert_assistant_message_def conv_bind_Inr Let_def split: if_splits option.splits)
  then show "\<not> is_tool_message m" and "call_ids m = map use_id (filter is_tool_use c)"
    by (auto simp: is_tool_message_def call_ids_def tcs comp_def split: if_splits)
qed

lemma user_blocks_simple:
  "user_blocks p ps bs = Inr ms \<Longrightarrow> \<not> list_ex is_tool_result bs \<Longrightarrow> simple_messages ms"
proof (induction p ps bs arbitrary: ms rule: user_blocks.induct)
  case (1 p ps)
  then show ?case by (simp add: simple_flush)
next
  case (2 p ps b bs)
  then show ?case by (auto simp: Let_def is_tool_result_def split: if_splits)
qed

lemma user_result_step:
  assumes "is_tool_result b" and "user_blocks p ps (b # bs) = Inr ms"
  obtains flushed later where "flush_text ps = Inr flushed" "user_blocks p [] bs = Inr later"
    "ms = flushed @ tool_message p b # later"
proof -
  have "is_text (get_block_type b) ''tool_result''" using assms(1) by (simp add: is_tool_result_def)
  then have "\<not> is_text (get_block_type b) ''text''" "\<not> is_text (get_block_type b) ''image''"
    "is_text (get_block_type b) ''tool_result''"
    by (simp_all add: block_type_cases)
  with assms(2) that show thesis by (auto simp: Let_def conv_bind_Inr)
qed

lemma user_results:
  "list_all is_tool_result rs \<Longrightarrow> user_blocks p [] (rs @ ys) = Inr ms \<Longrightarrow>
   \<exists>later. user_blocks p [] ys = Inr later \<and> ms = map (tool_message p) rs @ later"
proof (induction rs arbitrary: ms)
  case (Cons r rs)
  from Cons.prems obtain flushed later where "flush_text [] = Inr flushed"
    "user_blocks p [] (rs @ ys) = Inr later" "ms = flushed @ tool_message p r # later"
    by (auto elim: user_result_step)
  with Cons.IH [of later] Cons.prems(1) show ?case by (auto simp: flush_text_def)
qed simp

lemma injected_simple:
  "injected_blocks p ps cleared bs pnd = Inr (ms, c, pnd') \<Longrightarrow> \<not> list_ex is_tool_result bs
   \<Longrightarrow> simple_messages ms \<and> c = cleared"
proof (induction p ps cleared bs pnd arbitrary: ms c pnd' rule: injected_blocks.induct)
  case (1 p ps cleared pnd)
  then show ?case by (auto simp: conv_bind_Inr simple_flush)
next
  case (2 p ps cleared b bs pnd)
  then show ?case by (auto simp: Let_def is_tool_result_def split: if_splits)
qed

lemma deferred_simple:
  assumes "deferred_post_tool_to_messages p pnd = Inr ms" and "\<not> list_ex is_tool_use (pt_deferred_blocks pnd)"
  shows "simple_messages ms"
  using assms assistant_message_calls [of p "pt_top_level_reasoning pnd" "pt_reasoning_replay pnd" "pt_deferred_blocks pnd"]
  by (auto simp: deferred_post_tool_to_messages_def conv_bind_Inr simple_messages_def list_ex_iff filter_empty_conv
      split: if_splits)

lemma proper_idD: "proper_id v \<Longrightarrow> \<exists>s. v = JStr s \<and> strip s \<noteq> []"
  by (cases v) (simp_all add: proper_id_def)

lemma injected_results:
  assumes "list_all is_tool_result rs" and "rs \<noteq> []" and "distinct (map result_id rs)"
    and "list_all (\<lambda>b. proper_id (result_id b)) rs"
    and "set (pt_remaining_tool_ids pnd) = (\<lambda>b. py_str p (result_id b)) ` set rs"
    and "\<not> list_ex is_tool_use (pt_deferred_blocks pnd)" and "\<not> list_ex is_tool_result ys"
    and "injected_blocks p [] cleared (rs @ ys) pnd = Inr (ms, c, pnd')"
  shows "\<exists>later. simple_messages later \<and> ms = map (tool_message p) rs @ later \<and> c"
  using assms
proof (induction rs arbitrary: pnd cleared ms)
  case (Cons r rs)
  have t: "is_text (get_block_type r) ''tool_result''" using Cons.prems(1) by (simp add: is_tool_result_def)
  have nt: "\<not> is_text (get_block_type r) ''text''" "\<not> is_text (get_block_type r) ''image''"
    by (simp_all add: block_type_cases [OF t])
  have "proper_id (result_id r)" using Cons.prems(4) by simp
  then obtain s where s: "result_id r = JStr s" using proper_idD by blast
  then have sid: "py_str p (result_id r) = s" by (simp add: py_str_def)
  let ?pnd = "pnd\<lparr>pt_remaining_tool_ids := filter (\<lambda>i. i \<noteq> s) (pt_remaining_tool_ids pnd)\<rparr>"
  have strs: "py_str p (result_id b) \<noteq> s" if "b \<in> set rs" for b
  proof -
    have "proper_id (result_id b)" using Cons.prems(4) that by (simp add: list_all_iff)
    then obtain s' where "result_id b = JStr s'" using proper_idD by blast
    with s that Cons.prems(3) show ?thesis by (auto simp: py_str_def image_iff)
  qed
  have rem: "set (pt_remaining_tool_ids ?pnd) = (\<lambda>b. py_str p (result_id b)) ` set rs"
    using Cons.prems(5) strs sid by auto
  have run: "injected_blocks p [] cleared ((r # rs) @ ys) pnd =
      (if pt_remaining_tool_ids ?pnd = []
       then conv_bind (deferred_post_tool_to_messages p ?pnd) (\<lambda>deferred.
            conv_bind (injected_blocks p [] True (rs @ ys) (?pnd\<lparr>pt_deferred_emitted := True\<rparr>))
              (\<lambda>(later, c, pnd2). Inr (tool_message p r # deferred @ later, c, pnd2)))
       else conv_bind (injected_blocks p [] cleared (rs @ ys) ?pnd)
              (\<lambda>(later, c, pnd2). Inr (tool_message p r # later, c, pnd2)))"
    using t nt s unfolding result_id_def
    by (simp add: Let_def flush_text_def py_str_def)
  show ?case
  proof (cases "rs = []")
    case True
    with rem have "pt_remaining_tool_ids ?pnd = []" by simp
    with run Cons.prems(8) True obtain deferred later pnd2 where d: "deferred_post_tool_to_messages p ?pnd = Inr deferred"
      and l: "injected_blocks p [] True ys (?pnd\<lparr>pt_deferred_emitted := True\<rparr>) = Inr (later, c, pnd2)"
      and ms: "ms = tool_message p r # deferred @ later"
      by (auto simp: conv_bind_Inr)
    from injected_simple [OF l Cons.prems(7)] deferred_simple [OF d] Cons.prems(6) ms True show ?thesis
      by (intro exI [of _ "deferred @ later"]) simp
  next
    case False
    with rem have "pt_remaining_tool_ids ?pnd \<noteq> []" by (metis image_is_empty set_empty)
    with run Cons.prems(8) obtain later where
      l: "injected_blocks p [] cleared (rs @ ys) ?pnd = Inr (later, c, pnd')" and ms: "ms = tool_message p r # later"
      by (auto simp: conv_bind_Inr)
    have "\<exists>later'. simple_messages later' \<and> later = map (tool_message p) rs @ later' \<and> c"
      by (rule Cons.IH [OF _ False _ _ rem _ Cons.prems(7) l]) (use Cons.prems in simp_all)
    with ms show ?thesis by auto
  qed
qed simp

lemma pairs_ok_results:
  "mset (map result_id rs) = mset ids \<Longrightarrow> pairs_ok ids (map (tool_message p) rs @ ms) \<longleftrightarrow> pairs_ok [] ms"
proof (induction rs arbitrary: ids)
  case (Cons r rs)
  have m: "is_tool_message (tool_message p r)" "dget (tool_message p r) ''tool_call_id'' = result_id r"
    by (simp_all add: is_tool_message_def tool_message_def result_id_def)
  have "result_id r \<in> set ids" using Cons.prems by (metis list.set_intros(1) list.simps(9) set_mset_mset)
  moreover have "mset (map result_id rs) = mset (remove1 (result_id r) ids)" using Cons.prems by (simp flip: Cons.prems)
  ultimately show ?case using m Cons.IH by simp
qed simp

lemma index_first_filter: "index_first_tool_use c = None \<longleftrightarrow> filter is_tool_use c = []"
  by (induction c) auto

lemma split_message:
  assumes "convert_assistant_message_with_split p c i r replay = Inr (m, pnd)" and "index_first_tool_use c = Some i"
  shows "\<not> is_tool_message m" and "call_ids m = map use_id (filter is_tool_use c)"
    and "pnd = (if deferred_post_tool_blocks c i = [] then None
      else Some \<lparr>pt_remaining_tool_ids = pending_ids p (iter_tool_uses_in_order p c),
             pt_deferred_blocks = deferred_post_tool_blocks c i, pt_top_level_reasoning = r,
             pt_reasoning_replay = replay, pt_deferred_emitted = False\<rparr>)"
proof -
  have tcs: "iter_tool_uses_in_order p c \<noteq> []"
    using assms(2) index_first_filter [of c] by (auto simp: iter_tool_uses_in_order_def)
  define pre_r where "pre_r = (if take i c = []
      then (let m = [(u ''role'', JStr (u ''assistant'')), (u ''content'', JStr [])]
            in Inr (case r of
                      Some r \<Rightarrow> if replay = REASONING_CONTENT \<and> r \<noteq> []
                                then dset m ''reasoning_content'' (JStr r) else m
                    | None \<Rightarrow> m))
      else convert_assistant_message p r replay (take i c))"
  define finish where "finish = (\<lambda>pre_msg. let m1 = dset pre_msg ''tool_calls'' (JList (iter_tool_uses_in_order p c))
      in if is_text (dget m1 ''content'') '' '' then dset m1 ''content'' (JStr []) else m1)"
  define X where "X = (if deferred_post_tool_blocks c i = [] then None
      else Some \<lparr>pt_remaining_tool_ids = pending_ids p (iter_tool_uses_in_order p c),
             pt_deferred_blocks = deferred_post_tool_blocks c i, pt_top_level_reasoning = r,
             pt_reasoning_replay = replay, pt_deferred_emitted = False\<rparr>)"
  have "convert_assistant_message_with_split p c i r replay = conv_bind pre_r (\<lambda>pre_msg. Inr (finish pre_msg, X))"
    using tcs by (simp add: convert_assistant_message_with_split_def Let_def pre_r_def finish_def X_def)
  with assms(1) obtain pre where pr: "pre_r = Inr pre" and m': "m = finish pre" and pnd: "pnd = X"
    by (auto simp: conv_bind_Inr)
  have pre: "dget pre ''role'' = JStr (u ''assistant'')"
  proof (cases "take i c = []")
    case True
    with pr show ?thesis by (auto simp: pre_r_def Let_def split: option.splits if_splits)
  next
    case False
    with pr have "convert_assistant_message p r replay (take i c) = Inr pre" by (simp add: pre_r_def)
    then show ?thesis by (rule assistant_message_role)
  qed
  have m: "dget m ''role'' = dget pre ''role''" "dget m ''tool_calls'' = JList (iter_tool_uses_in_order p c)"
    by (simp_all add: m' finish_def Let_def)
  show "\<not> is_tool_message m" using pre m by (simp add: is_tool_message_def)
  show "call_ids m = map use_id (filter is_tool_use c)"
    using m by (simp add: call_ids_def iter_tool_uses_in_order_def comp_def)
  show "pnd = (if deferred_post_tool_blocks c i = [] then None
      else Some \<lparr>pt_remaining_tool_ids = pending_ids p (iter_tool_uses_in_order p c),
             pt_deferred_blocks = deferred_post_tool_blocks c i, pt_top_level_reasoning = r,
             pt_reasoning_replay = replay, pt_deferred_emitted = False\<rparr>)"
    using pnd by (simp add: X_def)
qed

lemma emit_None [simp]: "emit_pending p b None = Inr ([], None)"
  by (simp add: emit_pending_def)

lemma plain_message:
  assumes pl: "plain m" and run: "convert_message p replay m None = Inr (ms, pnd)"
  shows "simple_messages ms" and "pnd = None"
proof -
  have role: "mg_role m \<noteq> u ''tool''" using pl by (auto simp: plain_def)
  have "simple_messages ms \<and> pnd = None"
  proof (cases "mg_content m")
    case (JStr s)
    have "simple_messages [convert_string_message replay (mg_role m) s x]" for x
      using role by (auto simp: simple_messages_def convert_string_message_def is_tool_message_def call_ids_def Let_def
          split: option.split)
    with run JStr show ?thesis by (auto simp: convert_message_def Let_def)
  next
    case (JList c)
    show ?thesis
    proof (cases "mg_role m = u ''assistant''")
      case True
      with pl JList have no: "filter is_tool_use c = []" by (simp add: plain_def list_ex_iff filter_empty_conv)
      then have "index_first_tool_use c = None" by (simp add: index_first_filter)
      with run JList True obtain m' where m': "convert_assistant_message p (clean_reasoning_content (mg_reasoning_content m)) replay c = Inr m'"
        "ms = [m']" "pnd = None"
        by (auto simp: convert_message_def Let_def conv_bind_Inr)
      from assistant_message_calls [OF m'(1)] no m'(2,3) show ?thesis by (simp add: simple_messages_def)
    next
      case False
      with pl JList have "mg_role m = u ''user''" "\<not> list_ex is_tool_result c" by (auto simp: plain_def)
      with run JList user_blocks_simple [of p "[]" c ms] show ?thesis
        by (auto simp: convert_message_def Let_def conv_bind_Inr convert_user_message_def)
    qed
  qed (use run role in \<open>auto simp: convert_message_def Let_def simple_messages_def is_tool_message_def call_ids_def\<close>)
  then show "simple_messages ms" and "pnd = None" by blast+
qed

lemma pending_ids_proper:
  assumes "list_all proper_id (map use_id bs)"
  shows "pending_ids p (map (tool_call p) bs) = map (\<lambda>b. py_str p (use_id b)) bs"
  using assms
proof (induction bs)
  case (Cons b bs)
  then obtain s where "use_id b = JStr s" "strip s \<noteq> []" using proper_idD by auto
  with Cons show ?case by (simp add: pending_ids_def py_str_def)
qed (simp add: pending_ids_def)

lemma deferred_no_calls: "\<not> list_ex is_tool_use (deferred_post_tool_blocks c i)"
  by (simp add: deferred_post_tool_blocks_def list_ex_iff)

lemma exchange_messages:
  assumes ex: "tool_exchange m r" and one: "convert_message p replay m None = Inr (ms1, pnd1)"
    and two: "convert_message p replay r pnd1 = Inr (ms2, pnd2)"
  shows "pairs_ok [] (ms1 @ ms2 @ later) \<longleftrightarrow> pairs_ok [] later" and "pnd2 = None"
proof -
  obtain c d where c: "mg_content m = JList c" and d: "mg_content r = JList d"
    using ex by (auto simp: tool_exchange_def split: json.splits)
  define ids where "ids = map use_id (filter is_tool_use c)"
  define rs where "rs = takeWhile is_tool_result d"
  define tl' where "tl' = dropWhile is_tool_result d"
  have roles: "mg_role m = u ''assistant''" "mg_role r = u ''user''" using ex by (auto simp: tool_exchange_def)
  have shape: "ids \<noteq> []" "distinct ids" "list_all proper_id ids" "mset (map result_id rs) = mset ids"
    "\<not> list_ex is_tool_result tl'"
    using ex c d by (simp_all add: tool_exchange_def ids_def rs_def tl'_def Let_def)
  have dd: "d = rs @ tl'" by (simp add: rs_def tl'_def)
  have all: "list_all is_tool_result rs" by (auto simp: rs_def list_all_iff dest: set_takeWhileD)
  have set_ids: "result_id ` set rs = set ids" using shape(4) by (metis list.set_map set_mset_mset)
  have rs: "rs \<noteq> []" using shape(1,4) by auto
  have drs: "distinct (map result_id rs)" using shape(2,4) by (metis mset_eq_imp_distinct_iff)
  have prs: "list_all (\<lambda>b. proper_id (result_id b)) rs" using shape(3) set_ids by (force simp: list_all_iff)
  obtain i where i: "index_first_tool_use c = Some i"
    using shape(1) index_first_filter [of c] by (cases "index_first_tool_use c") (auto simp: ids_def)
  let ?rc = "clean_reasoning_content (mg_reasoning_content m)"
  obtain m1 where split: "convert_assistant_message_with_split p c i ?rc replay = Inr (m1, pnd1)" and ms1: "ms1 = [m1]"
    using one c roles i by (auto simp: convert_message_def Let_def conv_bind_Inr split: if_splits)
  note sm = split_message [OF split i]
  have pend: "pending_ids p (iter_tool_uses_in_order p c) = map (\<lambda>b. py_str p (use_id b)) (filter is_tool_use c)"
    unfolding iter_tool_uses_in_order_def by (rule pending_ids_proper) (use shape(3) in \<open>simp add: ids_def\<close>)
  have "\<exists>later'. simple_messages later' \<and> ms2 = map (tool_message p) rs @ later' \<and> pnd2 = None"
  proof (cases pnd1)
    case None
    with two d roles have "user_blocks p [] (rs @ tl') = Inr ms2" "pnd2 = None"
      by (auto simp: convert_message_def Let_def conv_bind_Inr convert_user_message_def dd)
    with user_results [OF all] user_blocks_simple [OF _ shape(5)] show ?thesis by blast
  next
    case (Some pnd)
    from sm(3) Some have pnd: "pt_remaining_tool_ids pnd = pending_ids p (iter_tool_uses_in_order p c)"
      "pt_deferred_blocks pnd = deferred_post_tool_blocks c i" "needs_deferred pnd"
      by (auto simp: needs_deferred_def split: if_splits)
    have ne: "pt_remaining_tool_ids pnd \<noteq> []" using shape(1) by (simp add: pnd pend ids_def)
    with two d roles Some pnd(3) obtain cl pnd3 where
      inj: "injected_blocks p [] False (rs @ tl') pnd = Inr (ms2, cl, pnd3)" and p2: "pnd2 = (if cl then None else Some pnd3)"
      by (auto simp: convert_message_def Let_def conv_bind_Inr convert_user_message_with_injection_def dd)
    have "set (pt_remaining_tool_ids pnd) = py_str p ` set ids"
      by (simp add: pnd pend ids_def image_image)
    also have "\<dots> = (\<lambda>b. py_str p (result_id b)) ` set rs" by (simp flip: set_ids add: image_image)
    finally have "set (pt_remaining_tool_ids pnd) = (\<lambda>b. py_str p (result_id b)) ` set rs" .
    from injected_results [OF all rs drs prs this _ shape(5) inj] deferred_no_calls p2 pnd(2) show ?thesis by auto
  qed
  then obtain later' where l: "simple_messages later'" "ms2 = map (tool_message p) rs @ later'" "pnd2 = None" by blast
  show "pnd2 = None" by (rule l(3))
  have "pairs_ok ids (map (tool_message p) rs @ later' @ later) \<longleftrightarrow> pairs_ok [] later"
    by (simp only: pairs_ok_results [OF shape(4)] pairs_ok_simple [OF l(1)])
  then show "pairs_ok [] (ms1 @ ms2 @ later) \<longleftrightarrow> pairs_ok [] later"
    using sm(1,2) ms1 l(2) by (simp add: ids_def)
qed

lemma well_turned_pairs:
  "well_turned msgs \<Longrightarrow> convert_from p replay msgs None = Inr out \<Longrightarrow> pairs_ok [] out"
proof (induction msgs arbitrary: out rule: well_turned.induct)
  case (2 m)
  then obtain ms pnd where one: "convert_message p replay m None = Inr (ms, pnd)"
    by (auto simp: conv_bind_Inr)
  from plain_message [OF _ one] 2 one show ?case
    using pairs_ok_simple [of ms "[]"] by (auto simp: conv_bind_Inr)
next
  case (3 m r ms)
  from 3(4) obtain ms1 pnd1 later where one: "convert_message p replay m None = Inr (ms1, pnd1)"
    and rest: "convert_from p replay (r # ms) pnd1 = Inr later" and out: "out = ms1 @ later"
    by (auto simp: conv_bind_Inr)
  show ?case
  proof (cases "plain m \<and> well_turned (r # ms)")
    case True
    with plain_message [OF _ one] rest 3(1) [OF _ ] have "pairs_ok [] later" "simple_messages ms1" by auto
    with out show ?thesis by (simp add: pairs_ok_simple)
  next
    case False
    with 3(3) have ex: "tool_exchange m r" and wt: "well_turned ms" by auto
    from rest obtain ms2 pnd2 later2 where two: "convert_message p replay r pnd1 = Inr (ms2, pnd2)"
      and rest2: "convert_from p replay ms pnd2 = Inr later2" and later: "later = ms2 @ later2"
      by (auto simp: conv_bind_Inr)
    from exchange_messages [OF ex one two] rest2 3(2) [OF wt] out later show ?thesis by simp
  qed
qed simp

text \<open>Claim C11: the converted transcript pairs tool calls with their results. For every conversation in
  which each assistant message with tool calls is followed by a user message that starts with
  their results, in any order, the transcript has after each message with tool calls the tool
  messages that answer exactly these calls, before anything else: assistant text that came
  after a tool call is moved behind the results.\<close>

theorem tool_results_follow_calls:
  assumes "well_turned msgs" and "convert_messages p replay msgs = Inr out"
  shows "pairs_ok [] out"
  using assms(2) by (intro well_turned_pairs [OF assms(1)]) (simp add: convert_messages_def)

section \<open>What is rejected\<close>

text \<open>Requests are validated before they are converted: texts are strings.\<close>

definition typed_block :: "json \<Rightarrow> bool" where
  "typed_block b \<longleftrightarrow>
     (if is_text (get_block_type b) ''text'' then is_str (get_block_attr b ''text'' (JStr []))
      else if is_text (get_block_type b) ''thinking'' then is_str (get_block_attr b ''thinking'' (JStr []))
      else True)"

definition typed_message :: "message \<Rightarrow> bool" where
  "typed_message m = (case mg_content m of JList c \<Rightarrow> list_all typed_block c | _ \<Rightarrow> True)"

definition forbidden_block :: "json \<Rightarrow> bool" where
  "forbidden_block b \<longleftrightarrow> list_ex (is_text (get_block_type b))
     [''image'', ''server_tool_use'', ''web_search_tool_result'', ''web_fetch_tool_result'']"

definition image_block :: "json \<Rightarrow> bool" where
  "image_block b = is_text (get_block_type b) ''image''"

definition rejected_message :: "message \<Rightarrow> bool" where
  "rejected_message m \<longleftrightarrow>
     (case mg_content m of
        JList c \<Rightarrow> (mg_role m = u ''assistant'' \<and> list_ex forbidden_block c)
                 \<or> (mg_role m = u ''user'' \<and> list_ex image_block c)
      | _ \<Rightarrow> False)"

lemma isl_bind: "isl (conv_bind r f) \<longleftrightarrow> isl r \<or> (\<exists>a. r = Inr a \<and> isl (f a))"
  by (cases r) auto

lemma assert_forbidden: "isl (assert_no_forbidden_assistant_block b) \<longleftrightarrow> forbidden_block b"
  by (auto simp: assert_no_forbidden_assistant_block_def forbidden_block_def Let_def)

lemma assert_blocks_forbidden: "isl (assert_blocks bs) \<longleftrightarrow> list_ex forbidden_block bs"
proof (induction bs)
  case (Cons b bs)
  show ?case
  proof (cases "assert_no_forbidden_assistant_block b")
    case (Inl e)
    with assert_forbidden [of b] show ?thesis by simp
  next
    case (Inr x)
    with assert_forbidden [of b] Cons.IH show ?thesis by simp
  qed
qed simp

definition all_strings :: "json list \<Rightarrow> bool" where
  "all_strings vs = list_all is_str vs"

lemma strings_of_isl: "isl (strings_of vs) \<longleftrightarrow> \<not> all_strings vs"
proof (induction vs)
  case (Cons v vs)
  then show ?case by (cases v) (auto simp: all_strings_def isl_bind)
qed (simp add: all_strings_def)

lemma join_parts_isl: "isl (join_parts sep vs) \<longleftrightarrow> \<not> all_strings vs"
  using strings_of_isl [of vs] by (auto simp: join_parts_def isl_bind)

lemma assistant_parts_result:
  "if list_ex forbidden_block c then isl (assistant_parts p r replay c)
   else (\<exists>cs ts tcs. assistant_parts p r replay c = Inr (cs, ts, tcs)
     \<and> (list_all typed_block c \<longrightarrow> all_strings cs \<and> all_strings ts))"
proof (induction c)
  case (Cons b c)
  let ?T = "get_block_type b"
  consider (tx) "is_text ?T ''text''" | (think) "is_text ?T ''thinking''"
    | (redacted) "is_text ?T ''redacted_thinking''" | (use) "is_text ?T ''tool_use''"
    | (other) "\<not> is_text ?T ''text''" "\<not> is_text ?T ''thinking''"
      "\<not> is_text ?T ''redacted_thinking''" "\<not> is_text ?T ''tool_use''"
    by blast
  then show ?case
  proof cases
    case tx
    then have nt: "\<not> forbidden_block b" "typed_block b \<longleftrightarrow> is_str (get_block_attr b ''text'' (JStr []))"
      by (simp_all add: forbidden_block_def typed_block_def block_type_cases [OF tx])
    show ?thesis
    proof (cases "list_ex forbidden_block c")
      case True
      with Cons.IH nt tx show ?thesis by (auto simp: Let_def isl_bind)
    next
      case False
      with Cons.IH obtain cs ts tcs where "assistant_parts p r replay c = Inr (cs, ts, tcs)"
        "list_all typed_block c \<longrightarrow> all_strings cs \<and> all_strings ts" by auto
      with False nt tx show ?thesis by (auto simp: Let_def all_strings_def)
    qed
  next
    case think
    then have nt: "\<not> forbidden_block b" "\<not> is_text ?T ''text''"
      "typed_block b \<longleftrightarrow> is_str (get_block_attr b ''thinking'' (JStr []))"
      by (simp_all add: forbidden_block_def typed_block_def block_type_cases [OF think])
    show ?thesis
    proof (cases "list_ex forbidden_block c")
      case True
      with Cons.IH nt think show ?thesis by (auto simp: Let_def isl_bind)
    next
      case False
      with Cons.IH obtain cs ts tcs where "assistant_parts p r replay c = Inr (cs, ts, tcs)"
        "list_all typed_block c \<longrightarrow> all_strings cs \<and> all_strings ts" by auto
      with False nt think show ?thesis by (auto simp: Let_def all_strings_def)
    qed
  next
    case redacted
    then have "\<not> forbidden_block b" "\<not> is_text ?T ''text''" "\<not> is_text ?T ''thinking''"
      by (simp_all add: forbidden_block_def block_type_cases [OF redacted])
    with redacted Cons.IH show ?thesis by (auto simp: Let_def split: if_splits)
  next
    case use
    then have "\<not> forbidden_block b" "\<not> is_text ?T ''text''" "\<not> is_text ?T ''thinking''"
      "\<not> is_text ?T ''redacted_thinking''"
      by (simp_all add: forbidden_block_def block_type_cases [OF use])
    with use Cons.IH show ?thesis by (auto simp: Let_def isl_bind split: if_splits)
  next
    case other
    show ?thesis
    proof (cases "assert_no_forbidden_assistant_block b")
      case (Inl e)
      with other assert_forbidden [of b] show ?thesis by (auto simp: Let_def)
    next
      case (Inr x)
      with other assert_forbidden [of b] Cons.IH show ?thesis by (auto simp: Let_def split: if_splits)
    qed
  qed
qed (simp add: all_strings_def)

lemma convert_assistant_isl:
  assumes "list_all typed_block c"
  shows "isl (convert_assistant_message p r replay c) \<longleftrightarrow> list_ex forbidden_block c"
proof (cases "list_ex forbidden_block c")
  case True
  with assistant_parts_result [of c p r replay] show ?thesis
    by (auto simp: convert_assistant_message_def isl_bind)
next
  case False
  with assistant_parts_result [of c p r replay] assms obtain cs ts tcs where
    parts: "assistant_parts p r replay c = Inr (cs, ts, tcs)" and strs: "all_strings cs" "all_strings ts"
    by auto
  obtain j1 j2 where "join_parts (nl @ nl) cs = Inr j1" "join_parts nl ts = Inr j2"
    using strs join_parts_isl [of "nl @ nl" cs] join_parts_isl [of nl ts]
    by (cases "join_parts (nl @ nl) cs"; cases "join_parts nl ts") auto
  with parts False show ?thesis
    by (simp add: convert_assistant_message_def Let_def split: option.split)
qed

lemma flush_isl: "all_strings ps \<Longrightarrow> \<not> isl (flush_text ps)"
  using join_parts_isl [of nl ps] by (auto simp: flush_text_def isl_bind)

lemma user_blocks_isl:
  "all_strings ps \<Longrightarrow> list_all typed_block bs \<Longrightarrow> isl (user_blocks p ps bs) \<longleftrightarrow> list_ex image_block bs"
proof (induction p ps bs rule: user_blocks.induct)
  case (1 p ps)
  then show ?case by (simp add: flush_isl)
next
  case (2 p ps b bs)
  let ?T = "get_block_type b"
  consider (tx) "is_text ?T ''text''" | (image) "is_text ?T ''image''" | (res) "is_text ?T ''tool_result''"
    | (other) "\<not> is_text ?T ''text''" "\<not> is_text ?T ''image''" "\<not> is_text ?T ''tool_result''"
    by blast
  then show ?case
  proof cases
    case tx
    have "all_strings (ps @ [get_block_attr b ''text'' (JStr [])])"
      using 2(4,5) tx by (simp add: all_strings_def typed_block_def)
    moreover have "\<not> image_block b" by (simp add: image_block_def block_type_cases [OF tx])
    ultimately show ?thesis using 2(1) [OF refl tx] 2(5) tx by simp
  next
    case image
    then show ?thesis by (simp add: Let_def image_block_def block_type_cases [OF image])
  next
    case res
    obtain fl where fl: "flush_text ps = Inr fl" using flush_isl [OF 2(4)] by (cases "flush_text ps") auto
    have nt: "\<not> is_text ?T ''text''" "\<not> is_text ?T ''image''" by (simp_all add: block_type_cases [OF res])
    have "isl (user_blocks p [] bs) \<longleftrightarrow> list_ex image_block bs"
      using 2(2) [OF refl nt res] 2(5) by (simp add: all_strings_def)
    moreover have "\<not> image_block b" using nt by (simp add: image_block_def)
    ultimately show ?thesis using fl nt res by (auto simp: Let_def isl_bind)
  next
    case other
    then have "\<not> image_block b" by (simp add: image_block_def)
    with other 2(3) [OF refl other] 2(4,5) show ?thesis by (simp add: Let_def)
  qed
qed

text \<open>Pending blocks come from an assistant message that was accepted.\<close>

definition pending_fine :: "pending_after_tools \<Rightarrow> bool" where
  "pending_fine pnd \<longleftrightarrow> list_all typed_block (pt_deferred_blocks pnd) \<and> \<not> list_ex forbidden_block (pt_deferred_blocks pnd)"

lemma deferred_isl: "pending_fine pnd \<Longrightarrow> \<not> isl (deferred_post_tool_to_messages p pnd)"
  using convert_assistant_isl [of "pt_deferred_blocks pnd" p "pt_top_level_reasoning pnd" "pt_reasoning_replay pnd"]
  by (auto simp: deferred_post_tool_to_messages_def pending_fine_def isl_bind)

lemma pending_fine_upd [simp]:
  "pending_fine (pnd\<lparr>pt_remaining_tool_ids := ids\<rparr>) = pending_fine pnd"
  "pending_fine (pnd\<lparr>pt_deferred_emitted := e\<rparr>) = pending_fine pnd"
  by (simp_all add: pending_fine_def)

lemma injected_isl:
  "all_strings ps \<Longrightarrow> list_all typed_block bs \<Longrightarrow> pending_fine pnd \<Longrightarrow>
   (isl (injected_blocks p ps cleared bs pnd) \<longleftrightarrow> list_ex image_block bs)
   \<and> (\<forall>ms c pnd'. injected_blocks p ps cleared bs pnd = Inr (ms, c, pnd') \<longrightarrow> pending_fine pnd')"
proof (induction bs arbitrary: ps cleared pnd)
  case Nil
  then show ?case using flush_isl [of ps] by (auto simp: isl_bind conv_bind_Inr)
next
  case (Cons b bs)
  let ?T = "get_block_type b"
  consider (tx) "is_text ?T ''text''" | (image) "is_text ?T ''image''" | (res) "is_text ?T ''tool_result''"
    | (other) "\<not> is_text ?T ''text''" "\<not> is_text ?T ''image''" "\<not> is_text ?T ''tool_result''"
    by blast
  then show ?case
  proof cases
    case tx
    have "all_strings (ps @ [get_block_attr b ''text'' (JStr [])])"
      using Cons.prems tx by (simp add: all_strings_def typed_block_def)
    moreover have tx_image: "\<not> image_block b" by (simp add: image_block_def block_type_cases [OF tx])
    ultimately show ?thesis using Cons.IH [of "ps @ [get_block_attr b ''text'' (JStr [])]" pnd cleared] Cons.prems tx
      by (simp add: tx_image)
  next
    case image
    then show ?thesis by (simp add: Let_def image_block_def block_type_cases [OF image])
  next
    case res
    obtain fl where fl: "flush_text ps = Inr fl" using flush_isl [of ps] Cons.prems(1) by (cases "flush_text ps") auto
    have nt: "\<not> is_text ?T ''text''" "\<not> is_text ?T ''image''" by (simp_all add: block_type_cases [OF res])
    define ids where "ids = filter (\<lambda>i. i \<noteq> (if get_block_attr b ''tool_use_id'' JNull = JNull then []
        else py_str p (get_block_attr b ''tool_use_id'' JNull))) (pt_remaining_tool_ids pnd)"
    obtain df where df: "deferred_post_tool_to_messages p (pnd\<lparr>pt_remaining_tool_ids := ids\<rparr>) = Inr df"
      using deferred_isl [of "pnd\<lparr>pt_remaining_tool_ids := ids\<rparr>" p] Cons.prems(3)
      by (cases "deferred_post_tool_to_messages p (pnd\<lparr>pt_remaining_tool_ids := ids\<rparr>)") auto
    have run: "injected_blocks p ps cleared (b # bs) pnd =
       (if ids = []
        then conv_bind (injected_blocks p [] True bs (pnd\<lparr>pt_remaining_tool_ids := ids, pt_deferred_emitted := True\<rparr>))
               (\<lambda>(later, c, pnd2). Inr (fl @ tool_message p b # df @ later, c, pnd2))
        else conv_bind (injected_blocks p [] cleared bs (pnd\<lparr>pt_remaining_tool_ids := ids\<rparr>))
               (\<lambda>(later, c, pnd2). Inr (fl @ tool_message p b # later, c, pnd2)))"
      unfolding injected_blocks.simps Let_def ids_def [symmetric]
      using nt res fl df by (cases "ids = []") simp_all
    have ni: "\<not> image_block b" using nt by (simp add: image_block_def)
    have e: "all_strings []" by (simp add: all_strings_def)
    have tb: "list_all typed_block bs" using Cons.prems(2) by simp
    show ?thesis
    proof (cases "ids = []")
      case True
      from Cons.IH [OF e tb, of "pnd\<lparr>pt_remaining_tool_ids := ids, pt_deferred_emitted := True\<rparr>" True] Cons.prems(3) ni
      show ?thesis unfolding run using True by (auto simp: isl_bind conv_bind_Inr)
    next
      case False
      from Cons.IH [OF e tb, of "pnd\<lparr>pt_remaining_tool_ids := ids\<rparr>" cleared] Cons.prems(3) ni
      show ?thesis unfolding run using False by (auto simp: isl_bind conv_bind_Inr)
    qed
  next
    case other
    then have "\<not> image_block b" by (simp add: image_block_def)
    with other Cons.IH [of ps pnd cleared] Cons.prems show ?thesis by (simp add: Let_def)
  qed
qed

definition pending_fine_opt :: "pending_after_tools option \<Rightarrow> bool" where
  "pending_fine_opt pending = (case pending of None \<Rightarrow> True | Some pnd \<Rightarrow> pending_fine pnd)"

lemma emit_pending_fine:
  assumes "pending_fine_opt pending"
  obtains ms pending1 where "emit_pending p b pending = Inr (ms, pending1)" "pending_fine_opt pending1"
proof (cases "pending = None")
  case True
  then show thesis using that [of "[]" None] by (simp add: pending_fine_opt_def)
next
  case False
  then obtain pnd where pnd: "pending = Some pnd" by auto
  with assms have "\<not> isl (deferred_post_tool_to_messages p pnd)"
    by (intro deferred_isl) (simp add: pending_fine_opt_def)
  then obtain ms where "deferred_post_tool_to_messages p pnd = Inr ms"
    by (cases "deferred_post_tool_to_messages p pnd") auto
  with pnd assms that show thesis
    by (cases "b \<and> needs_deferred pnd") (auto simp: emit_pending_def pending_fine_opt_def)
qed

lemma split_fine:
  assumes typed: "list_all typed_block c" and fine: "\<not> list_ex forbidden_block (filter (\<lambda>b. \<not> is_tool_use b) c)"
    and i: "index_first_tool_use c = Some i"
  shows "\<exists>m pnd. convert_assistant_message_with_split p c i r replay = Inr (m, pnd) \<and> pending_fine_opt pnd"
proof -
  have tcs: "iter_tool_uses_in_order p c \<noteq> []"
    using i index_first_filter [of c] by (auto simp: iter_tool_uses_in_order_def)
  have use: "\<not> forbidden_block b" if "is_tool_use b" for b
    using that by (auto simp: is_tool_use_def forbidden_block_def is_text_def)
  then have nf: "\<not> list_ex forbidden_block c" using fine by (auto simp: list_ex_iff)
  then have "\<not> list_ex forbidden_block (take i c)" by (auto simp: list_ex_iff dest: in_set_takeD)
  moreover have "list_all typed_block (take i c)" using typed by (auto simp: list_all_iff dest: in_set_takeD)
  ultimately have "\<not> isl (convert_assistant_message p r replay (take i c))" by (simp add: convert_assistant_isl)
  then obtain m where m: "convert_assistant_message p r replay (take i c) = Inr m"
    by (cases "convert_assistant_message p r replay (take i c)") auto
  have "list_all typed_block (deferred_post_tool_blocks c i) \<and> \<not> list_ex forbidden_block (deferred_post_tool_blocks c i)"
    using typed nf by (auto simp: deferred_post_tool_blocks_def list_all_iff list_ex_iff dest: in_set_dropD)
  with tcs m show ?thesis
    by (auto simp: convert_assistant_message_with_split_def Let_def pending_fine_opt_def pending_fine_def)
qed

lemma convert_message_isl:
  assumes fine: "pending_fine_opt pending" and typed: "typed_message m"
  shows "if rejected_message m then isl (convert_message p replay m pending)
     else (\<exists>ms pending1. convert_message p replay m pending = Inr (ms, pending1) \<and> pending_fine_opt pending1)"
proof -
  obtain ms0 pending0 where em: "emit_pending p (mg_role m = u ''user'') pending = Inr (ms0, pending0)"
    "pending_fine_opt pending0"
    using emit_pending_fine [OF fine] by blast
  show ?thesis
proof (cases "mg_content m")
  case (JList c)
  have tc: "list_all typed_block c" using typed JList by (simp add: typed_message_def)
  let ?rc = "clean_reasoning_content (mg_reasoning_content m)"
  consider (a) "mg_role m = u ''assistant''" | (u) "mg_role m = u ''user''"
    | (o) "mg_role m \<noteq> u ''assistant''" "mg_role m \<noteq> u ''user''" by blast
  then show ?thesis
  proof cases
    case a
    obtain orphan pending1 where e: "emit_pending p True pending = Inr (orphan, pending1)" "pending_fine_opt pending1"
      using emit_pending_fine [OF fine] by blast
    have rej: "rejected_message m \<longleftrightarrow> list_ex forbidden_block c" using JList a by (auto simp: rejected_message_def)
    have use: "\<not> forbidden_block b" if "is_tool_use b" for b
      using that by (auto simp: is_tool_use_def forbidden_block_def is_text_def)
    show ?thesis
    proof (cases "index_first_tool_use c")
      case None
      have ab: "isl (assert_blocks c) \<longleftrightarrow> list_ex forbidden_block c" by (rule assert_blocks_forbidden)
      show ?thesis
      proof (cases "list_ex forbidden_block c")
        case True
        with ab JList a e None rej show ?thesis by (simp add: convert_message_def Let_def isl_bind)
      next
        case False
        with ab obtain x where "assert_blocks c = Inr x" by (cases "assert_blocks c") auto
        moreover obtain m' where "convert_assistant_message p ?rc replay c = Inr m'"
          using convert_assistant_isl [OF tc, of p ?rc replay] False
          by (cases "convert_assistant_message p ?rc replay c") auto
        ultimately show ?thesis using False JList a e None rej by (simp add: convert_message_def Let_def)
      qed
    next
      case (Some i)
      let ?rest = "filter (\<lambda>b. \<not> is_tool_use b) c"
      have ab: "isl (assert_blocks ?rest) \<longleftrightarrow> list_ex forbidden_block c"
        using use by (auto simp: assert_blocks_forbidden list_ex_iff)
      show ?thesis
      proof (cases "list_ex forbidden_block c")
        case True
        with ab JList a e Some rej show ?thesis by (simp add: convert_message_def Let_def isl_bind)
      next
        case False
        with ab obtain x where x: "assert_blocks ?rest = Inr x" by (cases "assert_blocks ?rest") auto
        have "\<not> list_ex forbidden_block ?rest" using False by (auto simp: list_ex_iff)
        from split_fine [OF tc this Some, of p ?rc replay] obtain m' pnd where
          "convert_assistant_message_with_split p c i ?rc replay = Inr (m', pnd)" "pending_fine_opt pnd" by blast
        with x False JList a e Some rej show ?thesis
          by (auto simp: convert_message_def Let_def)
      qed
    qed
  next
    case u
    have rej: "rejected_message m \<longleftrightarrow> list_ex image_block c" using JList u by (auto simp: rejected_message_def)
    have um: "isl (convert_user_message p c) \<longleftrightarrow> list_ex image_block c"
      unfolding convert_user_message_def by (rule user_blocks_isl [OF _ tc]) (simp add: all_strings_def)
    show ?thesis
    proof (cases "\<exists>pnd. pending = Some pnd \<and> needs_deferred pnd")
      case False
      then have "convert_message p replay m pending = conv_bind (convert_user_message p c) (\<lambda>ms. Inr (ms, pending))"
        using JList u by (auto simp: convert_message_def Let_def split: option.split)
      with um rej fine show ?thesis by (cases "convert_user_message p c") auto
    next
      case True
      then obtain pnd where pnd: "pending = Some pnd" "needs_deferred pnd" by blast
      then have pf: "pending_fine pnd" using fine by (simp add: pending_fine_opt_def)
      show ?thesis
      proof (cases "pt_remaining_tool_ids pnd = []")
        case True
        obtain df where "deferred_post_tool_to_messages p pnd = Inr df"
          using deferred_isl [OF pf, of p] by (cases "deferred_post_tool_to_messages p pnd") auto
        with True pnd JList u have "convert_message p replay m pending
            = conv_bind (convert_user_message p c) (\<lambda>ms. Inr (df @ ms, None))"
          by (simp add: convert_message_def Let_def)
        with um rej show ?thesis by (cases "convert_user_message p c") (auto simp: pending_fine_opt_def)
      next
        case False
        with pnd JList u have run: "convert_message p replay m pending
            = conv_bind (injected_blocks p [] False c pnd) (\<lambda>(ms, cleared, pnd1). Inr (ms, if cleared then None else Some pnd1))"
          by (simp add: convert_message_def Let_def convert_user_message_with_injection_def)
        have "all_strings []" by (simp add: all_strings_def)
        from injected_isl [OF this tc pf, of p False] rej show ?thesis
          unfolding run by (cases "injected_blocks p [] False c pnd") (auto simp: pending_fine_opt_def)
      qed
    qed
  next
    case o
    with JList fine show ?thesis by (auto simp: convert_message_def Let_def rejected_message_def)
  qed
next
  case (JStr s)
  with em show ?thesis by (simp add: convert_message_def Let_def rejected_message_def)
qed (use em in \<open>simp_all add: convert_message_def Let_def rejected_message_def\<close>)
qed

lemma convert_from_isl:
  "list_all typed_message msgs \<Longrightarrow> pending_fine_opt pending \<Longrightarrow>
   isl (convert_from p replay msgs pending) \<longleftrightarrow> list_ex rejected_message msgs"
proof (induction msgs arbitrary: pending)
  case Nil
  then obtain ms pending1 where "emit_pending p True pending = Inr (ms, pending1)" using emit_pending_fine by blast
  then show ?case by simp
next
  case (Cons m msgs)
  have "typed_message m" using Cons.prems(1) by simp
  note step = convert_message_isl [OF Cons.prems(2) this, of p replay]
  show ?case
  proof (cases "rejected_message m")
    case True
    with step show ?thesis by (simp add: isl_bind)
  next
    case False
    with step obtain ms pending1 where "convert_message p replay m pending = Inr (ms, pending1)"
      "pending_fine_opt pending1" by auto
    with Cons.IH [of pending1] Cons.prems(1) False show ?thesis by (simp add: isl_bind)
  qed
qed

text \<open>Claim C13: conversion refuses exactly what it cannot express. For messages whose texts are strings it
  fails if and only if an assistant message holds an image or a server tool block, or a user
  message an image; everything else is converted.\<close>

theorem conversion_rejects_exactly:
  assumes "list_all typed_message msgs"
  shows "isl (convert_messages p replay msgs) \<longleftrightarrow> list_ex rejected_message msgs"
  unfolding convert_messages_def
  by (rule convert_from_isl [OF assms]) (simp add: pending_fine_opt_def)

section \<open>What reasoning reaches the provider\<close>

text \<open>Replacing the secret fields: the data of redacted thinking always, thinking and its signature when
  replay is disabled.\<close>

definition hide_block :: "replay_mode \<Rightarrow> json \<Rightarrow> json" where
  "hide_block replay b =
     (case b of
        JObj d \<Rightarrow>
          if is_text (get_block_type b) ''redacted_thinking'' then JObj (dset d ''data'' JNull)
          else if is_text (get_block_type b) ''thinking'' \<and> replay = DISABLED
          then JObj (dset (dset d ''thinking'' JNull) ''signature'' JNull)
          else b
      | _ \<Rightarrow> b)"

definition hide_message :: "replay_mode \<Rightarrow> message \<Rightarrow> message" where
  "hide_message replay m =
     m\<lparr>mg_content := (case mg_content m of JList c \<Rightarrow> JList (map (hide_block replay) c) | c \<Rightarrow> c),
       mg_reasoning_content := (if replay = DISABLED then JNull else mg_reasoning_content m)\<rparr>"

lemma hide_keeps_type [simp]: "get_block_type (hide_block replay b) = get_block_type b"
proof (cases b)
  case (JObj d)
  have "dget_or (dset d k v) ''type'' x = dget_or d ''type'' x" if "k \<noteq> ''type''" for d k v x
    using that by (simp add: dget_or_def dset_def)
  with JObj show ?thesis by (simp add: hide_block_def get_block_type_def get_block_attr_def)
qed (simp_all add: hide_block_def)

lemma hide_other:
  "\<not> is_text (get_block_type b) ''redacted_thinking'' \<Longrightarrow>
   \<not> (is_text (get_block_type b) ''thinking'' \<and> replay = DISABLED) \<Longrightarrow> hide_block replay b = b"
  by (cases b) (auto simp: hide_block_def)

lemma hide_use [simp]: "is_tool_use (hide_block replay b) = is_tool_use b"
  by (simp add: is_tool_use_def)

lemma hide_as: "is_text (get_block_type b) s \<Longrightarrow> s \<noteq> ''redacted_thinking'' \<Longrightarrow> s \<noteq> ''thinking'' \<Longrightarrow> hide_block replay b = b"
  by (rule hide_other) (simp_all add: block_type_cases)

definition hide_reasoning :: "replay_mode \<Rightarrow> pystr option \<Rightarrow> pystr option" where
  "hide_reasoning replay r = (if replay = DISABLED then None else r)"

lemma assert_hide [simp]:
  "assert_no_forbidden_assistant_block (hide_block replay b) = assert_no_forbidden_assistant_block b"
  by (simp add: assert_no_forbidden_assistant_block_def)

lemma assert_blocks_hide [simp]: "assert_blocks (map (hide_block replay) bs) = assert_blocks bs"
  by (induction bs) simp_all

lemma assistant_parts_hide:
  "assistant_parts p (hide_reasoning replay r) replay (map (hide_block replay) c) = assistant_parts p r replay c"
proof (induction c)
  case (Cons b c)
  let ?T = "get_block_type b"
  have other: "hide_block replay b = b" if "is_text ?T ''text'' \<or> is_text ?T ''tool_use''"
    using that hide_as by blast
  show ?case
  proof (cases "is_text ?T ''thinking'' \<and> replay = DISABLED \<or> is_text ?T ''redacted_thinking''")
    case True
    then have "\<not> is_text ?T ''text''" by (auto simp: is_text_def)
    with True Cons.IH show ?thesis by (auto simp: Let_def is_text_def)
  next
    case False
    then have "hide_block replay b = b" by (intro hide_other) auto
    with False Cons.IH show ?thesis by (auto simp: Let_def hide_reasoning_def)
  qed
qed simp

lemma convert_assistant_hide:
  "convert_assistant_message p (hide_reasoning replay r) replay (map (hide_block replay) c)
     = convert_assistant_message p r replay c"
  unfolding convert_assistant_message_def assistant_parts_hide by (cases replay) (simp_all add: hide_reasoning_def)

lemma filter_hide: "filter (\<lambda>b. P (is_tool_use b)) (map (hide_block replay) c)
    = map (hide_block replay) (filter (\<lambda>b. P (is_tool_use b)) c)"
  by (simp add: filter_map comp_def)

lemma iter_hide [simp]: "iter_tool_uses_in_order p (map (hide_block replay) c) = iter_tool_uses_in_order p c"
proof (induction c)
  case (Cons b c)
  have "hide_block replay b = b" if "is_tool_use b"
    using that hide_as [of b "''tool_use''"] by (simp add: is_tool_use_def)
  with Cons show ?case by (simp add: iter_tool_uses_in_order_def)
qed (simp add: iter_tool_uses_in_order_def)

definition hide_pending :: "replay_mode \<Rightarrow> pending_after_tools \<Rightarrow> pending_after_tools" where
  "hide_pending replay pnd = pnd\<lparr>pt_deferred_blocks := map (hide_block replay) (pt_deferred_blocks pnd),
     pt_top_level_reasoning := hide_reasoning replay (pt_top_level_reasoning pnd)\<rparr>"

lemma hide_pending_fields [simp]:
  "pt_remaining_tool_ids (hide_pending replay pnd) = pt_remaining_tool_ids pnd"
  "pt_reasoning_replay (hide_pending replay pnd) = pt_reasoning_replay pnd"
  "pt_deferred_emitted (hide_pending replay pnd) = pt_deferred_emitted pnd"
  "needs_deferred (hide_pending replay pnd) = needs_deferred pnd"
  "(hide_pending replay pnd)\<lparr>pt_remaining_tool_ids := ids\<rparr> = hide_pending replay (pnd\<lparr>pt_remaining_tool_ids := ids\<rparr>)"
  "(hide_pending replay pnd)\<lparr>pt_deferred_emitted := e\<rparr> = hide_pending replay (pnd\<lparr>pt_deferred_emitted := e\<rparr>)"
  by (simp_all add: hide_pending_def needs_deferred_def)

lemma deferred_hide:
  "pt_reasoning_replay pnd = replay \<Longrightarrow>
   deferred_post_tool_to_messages p (hide_pending replay pnd) = deferred_post_tool_to_messages p pnd"
  by (simp add: deferred_post_tool_to_messages_def hide_pending_def convert_assistant_hide)

definition hide_step ::
  "replay_mode \<Rightarrow> ('m \<times> pending_after_tools option) conv \<Rightarrow> ('m \<times> pending_after_tools option) conv" where
  "hide_step replay r = (case r of Inl e \<Rightarrow> Inl e | Inr (m, pnd) \<Rightarrow> Inr (m, map_option (hide_pending replay) pnd))"

lemma hide_step_simps [simp]:
  "hide_step replay (Inl e) = Inl e"
  "hide_step replay (Inr (m, pnd)) = Inr (m, map_option (hide_pending replay) pnd)"
  by (simp_all add: hide_step_def)

lemma split_hide:
  "convert_assistant_message_with_split p (map (hide_block replay) c) i (hide_reasoning replay r) replay
     = hide_step replay (convert_assistant_message_with_split p c i r replay)"
proof -
  have dp: "deferred_post_tool_blocks (map (hide_block replay) c) i = map (hide_block replay) (deferred_post_tool_blocks c i)"
    using filter_hide [of Not replay "drop (Suc i) c"] by (simp add: deferred_post_tool_blocks_def drop_map)
  have pre: "(case hide_reasoning replay r of
        Some r \<Rightarrow> if replay = REASONING_CONTENT \<and> r \<noteq> [] then dset m ''reasoning_content'' (JStr r) else m | None \<Rightarrow> m)
     = (case r of
        Some r \<Rightarrow> if replay = REASONING_CONTENT \<and> r \<noteq> [] then dset m ''reasoning_content'' (JStr r) else m | None \<Rightarrow> m)" for m
    by (auto simp: hide_reasoning_def split: option.split)
  have sum: "conv_bind x (\<lambda>m. Inr (F m, map_option (hide_pending replay) X))
      = hide_step replay (conv_bind x (\<lambda>m. Inr (F m, X)))" for x F X
    by (cases x) simp_all
  show ?thesis
    unfolding convert_assistant_message_with_split_def Let_def iter_hide dp pre take_map convert_assistant_hide
    by (auto simp: hide_pending_def simp flip: sum)
qed

lemma user_blocks_hide [simp]: "user_blocks p ps (map (hide_block replay) bs) = user_blocks p ps bs"
proof (induction bs arbitrary: ps)
  case (Cons b bs)
  have "hide_block replay b = b" if "is_text (get_block_type b) ''text'' \<or> is_text (get_block_type b) ''tool_result''"
    using that hide_as by blast
  with Cons show ?case by (simp add: Let_def)
qed simp

definition hide_injected ::
  "replay_mode \<Rightarrow> ('m \<times> bool \<times> pending_after_tools) conv \<Rightarrow> ('m \<times> bool \<times> pending_after_tools) conv" where
  "hide_injected replay r = (case r of Inl e \<Rightarrow> Inl e | Inr (ms, c, pnd) \<Rightarrow> Inr (ms, c, hide_pending replay pnd))"

lemma hide_injected_simps [simp]:
  "hide_injected replay (Inl e) = Inl e"
  "hide_injected replay (Inr (ms, c, pnd)) = Inr (ms, c, hide_pending replay pnd)"
  by (simp_all add: hide_injected_def)

lemma hide_injected_bind [simp]:
  "conv_bind (hide_injected replay x) (\<lambda>(later, c, pnd2). Inr (f later, c, pnd2))
     = hide_injected replay (conv_bind x (\<lambda>(later, c, pnd2). Inr (f later, c, pnd2)))"
  by (cases x) auto

lemma injected_hide:
  "pt_reasoning_replay pnd = replay \<Longrightarrow>
   injected_blocks p ps cleared (map (hide_block replay) bs) (hide_pending replay pnd)
     = hide_injected replay (injected_blocks p ps cleared bs pnd)"
proof (induction bs arbitrary: ps cleared pnd)
  case Nil
  show ?case by (cases "flush_text ps") simp_all
next
  case (Cons b bs)
  let ?T = "get_block_type b"
  show ?case
  proof (cases "is_text ?T ''tool_result''")
    case True
    have b: "hide_block replay b = b" by (rule hide_as [OF True]) simp_all
    have nt: "\<not> is_text ?T ''text''" "\<not> is_text ?T ''image''" by (simp_all add: block_type_cases [OF True])
    show ?thesis
    proof (cases "flush_text ps")
      case (Inl e)
      with True b nt show ?thesis by (simp add: Let_def)
    next
      case (Inr fl)
      define ids where "ids = filter (\<lambda>i. i \<noteq> (if get_block_attr b ''tool_use_id'' JNull = JNull then []
        else py_str p (get_block_attr b ''tool_use_id'' JNull))) (pt_remaining_tool_ids pnd)"
      note IH = Cons.IH [of "pnd\<lparr>pt_remaining_tool_ids := ids, pt_deferred_emitted := True\<rparr>" "[]" True]
        Cons.IH [of "pnd\<lparr>pt_remaining_tool_ids := ids\<rparr>" "[]" cleared]
      show ?thesis
      proof (cases "ids = []")
        case True
        have d: "deferred_post_tool_to_messages p (hide_pending replay (pnd\<lparr>pt_remaining_tool_ids := ids\<rparr>))
            = deferred_post_tool_to_messages p (pnd\<lparr>pt_remaining_tool_ids := ids\<rparr>)"
          by (rule deferred_hide) (simp add: Cons.prems)
        show ?thesis
          unfolding list.map injected_blocks.simps Let_def b hide_pending_fields ids_def [symmetric]
          unfolding d using Inr nt \<open>is_text ?T ''tool_result''\<close> True Cons.prems IH(1)
          by (cases "deferred_post_tool_to_messages p (pnd\<lparr>pt_remaining_tool_ids := ids\<rparr>)") simp_all
      next
        case False
        show ?thesis
          unfolding list.map injected_blocks.simps Let_def b hide_pending_fields ids_def [symmetric]
          using Inr nt \<open>is_text ?T ''tool_result''\<close> False Cons.prems IH(2) by simp
      qed
    qed
  next
    case False
    have "hide_block replay b = b" if "is_text ?T ''text''" using hide_as [OF that] by simp
    with False Cons.IH [OF Cons.prems] show ?thesis by (simp add: Let_def)
  qed
qed

text \<open>What is pending was put there in the same mode.\<close>

definition pending_mode :: "replay_mode \<Rightarrow> pending_after_tools option \<Rightarrow> bool" where
  "pending_mode replay pending = (case pending of None \<Rightarrow> True | Some pnd \<Rightarrow> pt_reasoning_replay pnd = replay)"

lemma pending_mode_simps [simp]:
  "pending_mode replay None" "pending_mode replay (Some pnd) \<longleftrightarrow> pt_reasoning_replay pnd = replay"
  by (simp_all add: pending_mode_def)

lemma injected_mode:
  "injected_blocks p ps cleared bs pnd = Inr (ms, c, pnd') \<Longrightarrow> pt_reasoning_replay pnd' = pt_reasoning_replay pnd"
proof (induction bs arbitrary: ps cleared pnd ms)
  case (Cons b bs)
  then show ?case
    by (auto simp: Let_def conv_bind_Inr split: if_splits dest!: Cons.IH)
qed (auto simp: conv_bind_Inr)

lemma emit_hide:
  assumes "pending_mode replay pending"
  shows "emit_pending p b (map_option (hide_pending replay) pending) = hide_step replay (emit_pending p b pending)"
proof (cases pending)
  case (Some pnd)
  have d: "deferred_post_tool_to_messages p (hide_pending replay pnd) = deferred_post_tool_to_messages p pnd"
    by (rule deferred_hide) (use assms Some in simp)
  show ?thesis using Some by (cases "deferred_post_tool_to_messages p pnd") (simp_all add: emit_pending_def d)
qed simp

lemma clean_hide [simp]:
  "clean_reasoning_content (mg_reasoning_content (hide_message replay m))
     = hide_reasoning replay (clean_reasoning_content (mg_reasoning_content m))"
  by (simp add: hide_message_def hide_reasoning_def clean_reasoning_content_def)

lemma hide_message_fields [simp]: "mg_role (hide_message replay m) = mg_role m"
  by (simp add: hide_message_def)

lemma index_hide [simp]: "index_first_tool_use (map (hide_block replay) c) = index_first_tool_use c"
  by (induction c) simp_all

lemma convert_string_hide:
  "convert_string_message replay role s (hide_reasoning replay r) = convert_string_message replay role s r"
  by (auto simp: convert_string_message_def hide_reasoning_def Let_def split: option.split)

lemma hide_step_bind:
  assumes "\<And>m pnd. x = Inr (m, pnd) \<Longrightarrow> f (m, map_option (hide_pending replay) pnd) = hide_step replay (g (m, pnd))"
  shows "conv_bind (hide_step replay x) f = hide_step replay (conv_bind x g)"
  using assms by (cases x) auto

lemma convert_message_hide:
  assumes mode: "pending_mode replay pending"
  shows "convert_message p replay (hide_message replay m) (map_option (hide_pending replay) pending)
    = hide_step replay (convert_message p replay m pending)"
proof (cases "mg_content m")
  case (JList c)
  then have c: "mg_content (hide_message replay m) = JList (map (hide_block replay) c)" by (simp add: hide_message_def)
  let ?rc = "clean_reasoning_content (mg_reasoning_content m)"
  consider (a) "mg_role m = u ''assistant''" | (u) "mg_role m \<noteq> u ''assistant''" "mg_role m = u ''user''"
    | (o) "mg_role m \<noteq> u ''assistant''" "mg_role m \<noteq> u ''user''" by blast
  then show ?thesis
  proof cases
    case a
    have filt: "filter (\<lambda>b. \<not> is_tool_use b) (map (hide_block replay) c) = map (hide_block replay) (filter (\<lambda>b. \<not> is_tool_use b) c)"
      by (rule filter_hide)
    show ?thesis
    proof (cases "index_first_tool_use c")
      case None
      show ?thesis
        unfolding convert_message_def Let_def c JList json.case hide_message_fields clean_hide
        using a None
        by (simp add: emit_hide [OF mode] convert_assistant_hide, intro hide_step_bind)
          (auto simp: conv_bind_def split: sum.split)
    next
      case (Some i)
      show ?thesis
        unfolding convert_message_def Let_def c JList json.case hide_message_fields clean_hide
        using a Some
        by (simp add: emit_hide [OF mode] split_hide filt, intro hide_step_bind)
          (auto simp: conv_bind_def hide_step_def split: sum.split)
    qed
  next
    case u
    have um: "convert_user_message p (map (hide_block replay) c) = convert_user_message p c"
      by (simp add: convert_user_message_def)
    show ?thesis
    proof (cases "\<exists>pnd. pending = Some pnd \<and> needs_deferred pnd")
      case False
      then have "convert_message p replay m pending = conv_bind (convert_user_message p c) (\<lambda>ms. Inr (ms, pending))"
        "convert_message p replay (hide_message replay m) (map_option (hide_pending replay) pending)
          = conv_bind (convert_user_message p c) (\<lambda>ms. Inr (ms, map_option (hide_pending replay) pending))"
        using JList c u um by (auto simp: convert_message_def Let_def split: option.split)
      then show ?thesis by (cases "convert_user_message p c") simp_all
    next
      case True
      then obtain pnd where pnd: "pending = Some pnd" "needs_deferred pnd" by blast
      have d: "deferred_post_tool_to_messages p (hide_pending replay pnd) = deferred_post_tool_to_messages p pnd"
        by (rule deferred_hide) (use mode pnd in simp)
      show ?thesis
      proof (cases "pt_remaining_tool_ids pnd = []")
        case True
        with pnd JList c u show ?thesis
          by (cases "deferred_post_tool_to_messages p pnd"; cases "convert_user_message p c")
            (simp_all add: convert_message_def Let_def d um)
      next
        case False
        have i: "injected_blocks p [] False (map (hide_block replay) c) (hide_pending replay pnd)
            = hide_injected replay (injected_blocks p [] False c pnd)"
          by (rule injected_hide) (use mode pnd in simp)
        from False pnd JList c u show ?thesis
          by (cases "injected_blocks p [] False c pnd")
            (auto simp: convert_message_def Let_def convert_user_message_with_injection_def i)
      qed
    qed
  next
    case o
    with JList c show ?thesis by (simp add: convert_message_def Let_def)
  qed
next
  case (JStr s)
  then have "mg_content (hide_message replay m) = JStr s" by (simp add: hide_message_def)
  with JStr show ?thesis
    unfolding convert_message_def Let_def
    by (simp add: emit_hide [OF mode] convert_string_hide, intro hide_step_bind) simp
qed (simp add: convert_message_def Let_def hide_message_def emit_hide [OF mode], intro hide_step_bind, simp)+

lemma convert_message_mode:
  assumes mode: "pending_mode replay pending" and run: "convert_message p replay m pending = Inr (ms, pending1)"
  shows "pending_mode replay pending1"
proof -
  have emit: "pending_mode replay q" if "emit_pending p b pending = Inr (x, q)" for b x q
    using that mode by (cases pending) (auto simp: emit_pending_def conv_bind_Inr split: if_splits)
  show ?thesis
  proof (cases "mg_content m")
    case (JList c)
    consider (a) "mg_role m = u ''assistant''" | (u) "mg_role m \<noteq> u ''assistant''" "mg_role m = u ''user''"
      | (o) "mg_role m \<noteq> u ''assistant''" "mg_role m \<noteq> u ''user''" by blast
    then show ?thesis
    proof cases
      case a
      show ?thesis
      proof (cases "index_first_tool_use c")
        case None
        with run JList a emit show ?thesis by (auto simp: convert_message_def Let_def conv_bind_Inr)
      next
        case (Some i)
        with run JList a obtain x q m' np where q: "emit_pending p True pending = Inr (x, q)"
          and np: "convert_assistant_message_with_split p c i (clean_reasoning_content (mg_reasoning_content m)) replay = Inr (m', np)"
          and p1: "pending1 = (if np \<noteq> None then np else q)"
          by (auto simp: convert_message_def Let_def conv_bind_Inr)
        have "pending_mode replay np" using split_message(3) [OF np Some] by simp
        with emit [OF q] p1 show ?thesis by simp
      qed
    next
      case u
      with run JList mode show ?thesis
        by (auto simp: convert_message_def Let_def conv_bind_Inr convert_user_message_with_injection_def
            split: option.splits if_splits dest!: injected_mode)
    next
      case o
      with run JList mode show ?thesis by (simp add: convert_message_def Let_def)
    qed
  qed (use run emit in \<open>auto simp: convert_message_def Let_def conv_bind_Inr\<close>)
qed

lemma convert_from_hide:
  "pending_mode replay pending \<Longrightarrow>
   convert_from p replay (map (hide_message replay) msgs) (map_option (hide_pending replay) pending)
     = convert_from p replay msgs pending"
proof (induction msgs arbitrary: pending)
  case Nil
  show ?case
    by (cases "emit_pending p True pending") (auto simp: emit_hide [OF Nil])
next
  case (Cons m msgs)
  note h = convert_message_hide [OF Cons.prems, of p m]
  show ?case
  proof (cases "convert_message p replay m pending")
    case (Inl e)
    with h show ?thesis by simp
  next
    case (Inr r)
    obtain ms pending1 where r: "r = (ms, pending1)" by (cases r)
    with Inr convert_message_mode [OF Cons.prems] have "pending_mode replay pending1" by blast
    from Cons.IH [OF this] h Inr r show ?thesis by simp
  qed
qed

text \<open>Claim C12: hidden reasoning does not leak. The converted transcript, and whether conversion fails, do
  not depend on the data of redacted thinking; and when replay is disabled they do not depend on
  the text or signature of any thinking block, nor on \<open>reasoning_content\<close>.\<close>

theorem hidden_reasoning_never_leaks:
  "convert_messages p replay (map (hide_message replay) msgs) = convert_messages p replay msgs"
  using convert_from_hide [of replay None p msgs] by (simp add: convert_messages_def)

section \<open>Concrete conversations\<close>

definition example_lib :: pylib where
  "example_lib = \<lparr>py_dumps = (\<lambda>_. u ''{}''), py_dumps_unicode = (\<lambda>_. u ''{}''), py_str_value = (\<lambda>_. u ''?'')\<rparr>"

definition text_block :: "string \<Rightarrow> json" where
  "text_block t = JObj [(u ''type'', JStr (u ''text'')), (u ''text'', JStr (u t))]"

definition use_block :: "string \<Rightarrow> json" where
  "use_block i = JObj [(u ''type'', JStr (u ''tool_use'')), (u ''id'', JStr (u i)), (u ''name'', JStr (u ''f'')), (u ''input'', JObj [])]"

definition result_block :: "string \<Rightarrow> json" where
  "result_block i = JObj [(u ''type'', JStr (u ''tool_result'')), (u ''tool_use_id'', JStr (u i)), (u ''content'', JStr (u ''r''))]"

definition assistant :: "json list \<Rightarrow> message" where
  "assistant c = \<lparr>mg_role = u ''assistant'', mg_content = JList c, mg_reasoning_content = JNull\<rparr>"

definition user :: "json list \<Rightarrow> message" where
  "user c = \<lparr>mg_role = u ''user'', mg_content = JList c, mg_reasoning_content = JNull\<rparr>"

definition outline :: "(pystr \<times> json) list list conv \<Rightarrow> (json \<times> json) list option" where
  "outline r = (case r of Inl e \<Rightarrow> None | Inr ms \<Rightarrow> Some (map (\<lambda>m. (dget m ''role'', dget m ''content'')) ms))"

definition example_chat :: "message list" where
  "example_chat = [user [text_block ''q''], assistant [use_block ''1'', use_block ''2'', text_block ''z''],
     user [result_block ''2'', result_block ''1'', text_block ''p'']]"

lemma example_chat_result:
  "outline (convert_messages example_lib THINK_TAGS example_chat) = Some
     [(JStr (u ''user''), JStr (u ''q'')), (JStr (u ''assistant''), JStr []),
      (JStr (u ''tool''), JStr (u ''r'')), (JStr (u ''tool''), JStr (u ''r'')),
      (JStr (u ''assistant''), JStr (u ''z'')), (JStr (u ''user''), JStr (u ''p''))]"
  by code_simp

theorem tool_results_follow_calls_witness:
  "\<exists>out. convert_messages example_lib THINK_TAGS example_chat = Inr out \<and> pairs_ok [] out"
proof -
  have w: "well_turned example_chat" by code_simp
  have "isl (convert_messages example_lib THINK_TAGS example_chat) = False" by code_simp
  then obtain out where out: "convert_messages example_lib THINK_TAGS example_chat = Inr out"
    by (cases "convert_messages example_lib THINK_TAGS example_chat") simp_all
  show ?thesis by (rule exI [of _ out], rule conjI [OF out tool_results_follow_calls [OF w out]])
qed

theorem conversion_rejects_exactly_witness:
  "isl (convert_messages example_lib DISABLED
     [user [JObj [(u ''type'', JStr (u ''image''))]]]) = list_ex rejected_message [user [JObj [(u ''type'', JStr (u ''image''))]]]
   \<and> list_ex rejected_message [user [JObj [(u ''type'', JStr (u ''image''))]]]"
proof
  have "list_all typed_message [user [JObj [(u ''type'', JStr (u ''image''))]]]" by code_simp
  then show "isl (convert_messages example_lib DISABLED
     [user [JObj [(u ''type'', JStr (u ''image''))]]]) = list_ex rejected_message [user [JObj [(u ''type'', JStr (u ''image''))]]]"
    by (rule conversion_rejects_exactly)
  show "list_ex rejected_message [user [JObj [(u ''type'', JStr (u ''image''))]]]" by code_simp
qed

text \<open>When a tool result follows that no pending call waits for, the deferred text is emitted again: the
  loop asks whether calls are missing, not whether the text was emitted.\<close>

theorem deferred_text_is_repeated:
  "outline (convert_messages example_lib THINK_TAGS
     [assistant [use_block ''1'', text_block ''z''], user [result_block ''1'', result_block ''9'']])
   = Some [(JStr (u ''assistant''), JStr []), (JStr (u ''tool''), JStr (u ''r'')), (JStr (u ''assistant''), JStr (u ''z'')),
           (JStr (u ''tool''), JStr (u ''r'')), (JStr (u ''assistant''), JStr (u ''z''))]"
  by code_simp

text \<open>With replay disabled, thinking after a tool call still leaves a message of a single blank.\<close>

theorem hidden_thinking_leaves_blank_message:
  "outline (convert_messages example_lib DISABLED
     [assistant [use_block ''1'', JObj [(u ''type'', JStr (u ''thinking'')), (u ''thinking'', JStr (u ''t''))]],
      user [result_block ''1'']])
   = Some [(JStr (u ''assistant''), JStr []), (JStr (u ''tool''), JStr (u ''r'')), (JStr (u ''assistant''), JStr (u '' ''))]"
  by code_simp

end
