(* ===== verification/Native_Policy.thy ===== *)
theory Native_Policy
  imports Stream_Contract
begin

text \<open>
  The policy for native Anthropic streams (\<open>core/anthropic/native_sse_block_policy.py\<close>): hide
  thinking blocks, give the content blocks indexes of the proxy's own, and repair blocks that
  overlap. The policy works on the text of one event; what it decides is a function on the parsed
  event, \<open>native_block_event\<close>, which leaves the event unchanged, drops it or replaces it by frames.
\<close>

section \<open>State\<close>

record upstream_block =
  ub_block_type :: pystr
  ub_down_index :: int
  ub_open :: bool
  ub_last_start_block :: "(pystr \<times> json) list option"

record policy =
  np_next_index :: int
  np_by_upstream :: "(int, upstream_block) dict"
  np_dropped_indexes :: "int set"
  np_pending_suppressed_stops :: "int set"
  np_message_stopped :: bool

definition policy_init :: policy where
  "policy_init = \<lparr>np_next_index = 0, np_by_upstream = [], np_dropped_indexes = {},
     np_pending_suppressed_stops = {}, np_message_stopped = False\<rparr>"

section \<open>Event text\<close>

definition format_native_sse_event :: "pystr option \<Rightarrow> pystr \<Rightarrow> pystr" where
  "format_native_sse_event event_name data_text =
     (let name_line = (case event_name of
                         None \<Rightarrow> []
                       | Some n \<Rightarrow> if n = [] then [] else [u ''event: '' @ n])
      in join [10] (name_line @ map (\<lambda>line. u ''data: '' @ line) (splitlines data_text)) @ [10, 10])"

fun parse_native_lines :: "pystr list \<Rightarrow> pystr option \<Rightarrow> pystr list \<Rightarrow> pystr option \<times> pystr list" where
  "parse_native_lines [] event_name data_lines = (event_name, data_lines)"
| "parse_native_lines (line # lines) event_name data_lines =
     (if startswith line (u ''event:'') then parse_native_lines lines (Some (strip (drop 6 line))) data_lines
      else if startswith line (u ''data:'')
      then parse_native_lines lines event_name (data_lines @ [lstrip (drop 5 line)])
      else parse_native_lines lines event_name data_lines)"

definition parse_native_sse_event :: "pystr \<Rightarrow> pystr option \<times> pystr" where
  "parse_native_sse_event event =
     (case parse_native_lines (splitlines (strip event)) None [] of
        (event_name, data_lines) \<Rightarrow> (event_name, join [10] data_lines))"

definition is_terminal_openrouter_done_event :: "(pystr \<Rightarrow> pystr) \<Rightarrow> pystr option \<Rightarrow> pystr \<Rightarrow> bool" where
  "is_terminal_openrouter_done_event upper event_name data_text =
     ((case event_name of None \<Rightarrow> True | Some n \<Rightarrow> n \<in> {u ''data'', u ''done''})
      \<and> upper (strip data_text) = u ''[DONE]'')"

section \<open>Decisions\<close>

definition delta_type_to_block_kind :: "json \<Rightarrow> pystr option" where
  "delta_type_to_block_kind delta_type =
     (case delta_type of
        JStr t \<Rightarrow>
          if t \<in> {u ''thinking_delta'', u ''signature_delta''} then Some (u ''thinking'')
          else if t = u ''text_delta'' then Some (u ''text'')
          else if t = u ''input_json_delta'' then Some (u ''tool_use'')
          else None
      | _ \<Rightarrow> None)"

text \<open>\<open>toolu_or_\<close> and the index as the upstream wrote it; \<open>py_str\<close> is its text.\<close>

definition synthetic_tool_id :: "(json \<Rightarrow> pystr) \<Rightarrow> json \<Rightarrow> pystr" where
  "synthetic_tool_id py_str upstream_index = u ''toolu_or_'' @ py_str upstream_index"

definition synthetic_start_content_block ::
  "(json \<Rightarrow> pystr) \<Rightarrow> pystr \<Rightarrow> json \<Rightarrow> (pystr \<times> json) list option \<Rightarrow> (pystr \<times> json) list" where
  "synthetic_start_content_block py_str block_kind upstream_index stored_tool_block =
     (if block_kind = u ''tool_use''
      then (case stored_tool_block of
              Some stored \<Rightarrow>
                if is_text (dget stored ''type'') ''tool_use''
                then [(u ''type'', JStr (u ''tool_use'')),
                      (u ''id'', case dget stored ''id'' of
                         JStr tool_id \<Rightarrow> if tool_id \<noteq> [] then JStr tool_id
                                        else JStr (synthetic_tool_id py_str upstream_index)
                       | _ \<Rightarrow> JStr (synthetic_tool_id py_str upstream_index)),
                      (u ''name'', case dget stored ''name'' of JStr n \<Rightarrow> JStr n | _ \<Rightarrow> JStr []),
                      (u ''input'', case dget stored ''input'' of JObj inp \<Rightarrow> JObj inp | _ \<Rightarrow> JObj [])]
                else [(u ''type'', JStr (u ''tool_use'')),
                      (u ''id'', JStr (synthetic_tool_id py_str upstream_index)),
                      (u ''name'', JStr []), (u ''input'', JObj [])]
            | None \<Rightarrow> [(u ''type'', JStr (u ''tool_use'')),
                      (u ''id'', JStr (synthetic_tool_id py_str upstream_index)),
                      (u ''name'', JStr []), (u ''input'', JObj [])])
      else if block_kind = u ''thinking''
      then [(u ''type'', JStr (u ''thinking'')), (u ''thinking'', JStr [])]
      else [(u ''type'', JStr (u ''text'')), (u ''text'', JStr [])])"

definition should_drop_block_type :: "json \<Rightarrow> bool \<Rightarrow> bool" where
  "should_drop_block_type block_type thinking_enabled =
     (case block_type of
        JStr t \<Rightarrow>
          if startswith t (u ''redacted_thinking'') then \<not> thinking_enabled
          else \<not> thinking_enabled \<and> contains t (u ''thinking'')
      | _ \<Rightarrow> False)"

text \<open>The loop over a copy of the items.\<close>

fun close_segments ::
  "(int \<times> upstream_block) list \<Rightarrow> int \<Rightarrow> policy \<Rightarrow> sse_event list \<times> policy" where
  "close_segments [] current_upstream st = ([], st)"
| "close_segments ((upstream, seg) # items) current_upstream st =
     (if upstream = current_upstream \<or> \<not> ub_open seg then close_segments items current_upstream st
      else
        (case close_segments items current_upstream
                (st\<lparr>np_by_upstream := AList.update upstream (seg\<lparr>ub_open := False\<rparr>) (np_by_upstream st),
                   np_pending_suppressed_stops := insert upstream (np_pending_suppressed_stops st)\<rparr>) of
           (out, st') \<Rightarrow> (content_block_stop (ub_down_index seg) # out, st')))"

definition synthetic_close_other_open_blocks :: "int \<Rightarrow> policy \<Rightarrow> sse_event list \<times> policy" where
  "synthetic_close_other_open_blocks current_upstream st =
     close_segments (np_by_upstream st) current_upstream st"

definition allocate_new_segment ::
  "int \<Rightarrow> pystr \<Rightarrow> (pystr \<times> json) list option \<Rightarrow> policy \<Rightarrow> int \<times> policy" where
  "allocate_new_segment upstream_index block_type last_start_block st =
     (np_next_index st,
      st\<lparr>np_next_index := np_next_index st + 1,
        np_by_upstream := AList.update upstream_index
          \<lparr>ub_block_type = block_type, ub_down_index = np_next_index st, ub_open = True,
           ub_last_start_block = last_start_block\<rparr> (np_by_upstream st)\<rparr>)"

section \<open>One event\<close>

datatype native_out = Unchanged | Dropped | Frames "sse_event list"

text \<open>The payload with its index replaced.\<close>

definition reindexed :: "string \<Rightarrow> (pystr \<times> json) list \<Rightarrow> int \<Rightarrow> sse_event" where
  "reindexed event_name payload index = SseEvent (u event_name) (dset payload ''index'' (JInt index))"

definition native_block_start :: "bool \<Rightarrow> (pystr \<times> json) list \<Rightarrow> policy \<Rightarrow> native_out \<times> policy" where
  "native_block_start thinking_enabled payload st =
     (case dget payload ''content_block'' of
        JObj block \<Rightarrow>
          (let block_type = dget block ''type''
           in case int_of (dget payload ''index'') of
                None \<Rightarrow> (Unchanged, st)
              | Some upstream_index \<Rightarrow>
                  if should_drop_block_type block_type thinking_enabled
                  then (Dropped, st\<lparr>np_dropped_indexes := insert upstream_index (np_dropped_indexes st)\<rparr>)
                  else
                    (case block_type of
                       JStr bt \<Rightarrow>
                         (case synthetic_close_other_open_blocks upstream_index st of
                            (closed, st1) \<Rightarrow>
                              (case allocate_new_segment upstream_index bt (Some block) st1 of
                                 (new_idx, st2) \<Rightarrow>
                                   (Frames (closed @ [reindexed ''content_block_start'' payload new_idx]), st2)))
                     | _ \<Rightarrow> (Unchanged, st)))
      | _ \<Rightarrow> (Unchanged, st))"

text \<open>A delta of a block that is not open: a synthetic start comes first.\<close>

definition synthetic_start :: "int \<Rightarrow> (pystr \<times> json) list \<Rightarrow> sse_event" where
  "synthetic_start new_idx content_block =
     SseEvent (u ''content_block_start'')
       [(u ''type'', JStr (u ''content_block_start'')), (u ''index'', JInt new_idx),
        (u ''content_block'', JObj content_block)]"

definition native_block_delta ::
  "(json \<Rightarrow> pystr) \<Rightarrow> bool \<Rightarrow> (pystr \<times> json) list \<Rightarrow> policy \<Rightarrow> native_out \<times> policy" where
  "native_block_delta py_str thinking_enabled payload st =
     (case dget payload ''delta'' of
        JObj delta \<Rightarrow>
          (let delta_type = dget delta ''type''; idx = dget payload ''index''
           in case int_of idx of
                None \<Rightarrow> (Unchanged, st)
              | Some upstream_index \<Rightarrow>
                  if upstream_index \<in> np_dropped_indexes st then (Dropped, st)
                  else if should_drop_block_type delta_type thinking_enabled then (Dropped, st)
                  else
                    (case delta_type_to_block_kind delta_type of
                       None \<Rightarrow> (Unchanged, st)
                     | Some block_kind \<Rightarrow>
                         (case map_of (np_by_upstream st) upstream_index of
                            Some seg \<Rightarrow>
                              if ub_open seg
                              then (Frames [reindexed ''content_block_delta'' payload (ub_down_index seg)], st)
                              else
                                (let st1 = st\<lparr>np_pending_suppressed_stops :=
                                             np_pending_suppressed_stops st - {upstream_index}\<rparr>;
                                     carry = ub_last_start_block seg;
                                     stored_tool = (case carry of
                                         None \<Rightarrow> None
                                       | Some b \<Rightarrow> if is_text (dget b ''type'') ''tool_use'' then Some b else None)
                                 in case allocate_new_segment upstream_index block_kind carry st1 of
                                      (new_idx, st2) \<Rightarrow>
                                        (Frames
                                          [synthetic_start new_idx
                                             (synthetic_start_content_block py_str block_kind idx stored_tool),
                                           reindexed ''content_block_delta'' payload new_idx], st2))
                          | None \<Rightarrow>
                              if block_kind \<in> {u ''text'', u ''tool_use''}
                              then
                                (let synthetic_block = synthetic_start_content_block py_str block_kind idx None
                                 in case allocate_new_segment upstream_index block_kind
                                           (Some synthetic_block) st of
                                      (new_idx, st2) \<Rightarrow>
                                        (Frames [synthetic_start new_idx synthetic_block,
                                                 reindexed ''content_block_delta'' payload new_idx], st2))
                              else (Unchanged, st))))
      | _ \<Rightarrow> (Unchanged, st))"

definition native_block_stop :: "bool \<Rightarrow> (pystr \<times> json) list \<Rightarrow> policy \<Rightarrow> native_out \<times> policy" where
  "native_block_stop thinking_enabled payload st =
     (case int_of (dget payload ''index'') of
        None \<Rightarrow> (Unchanged, st)
      | Some upstream_index \<Rightarrow>
          if upstream_index \<in> np_dropped_indexes st then (Dropped, st)
          else if upstream_index \<in> np_pending_suppressed_stops st
          then (Dropped, st\<lparr>np_pending_suppressed_stops :=
                           np_pending_suppressed_stops st - {upstream_index}\<rparr>)
          else
            (case map_of (np_by_upstream st) upstream_index of
               Some seg \<Rightarrow>
                 if ub_open seg
                 then (Frames [reindexed ''content_block_stop'' payload (ub_down_index seg)],
                       st\<lparr>np_by_upstream :=
                         AList.update upstream_index (seg\<lparr>ub_open := False\<rparr>) (np_by_upstream st)\<rparr>)
                 else (Dropped, st)
             | None \<Rightarrow> (if \<not> thinking_enabled then Dropped else Unchanged, st)))"

definition is_block_event :: "pystr \<Rightarrow> bool" where
  "is_block_event name =
     (name \<in> {u ''content_block_start'', u ''content_block_delta'', u ''content_block_stop''})"

definition native_block_event ::
  "(json \<Rightarrow> pystr) \<Rightarrow> bool \<Rightarrow> pystr \<Rightarrow> (pystr \<times> json) list \<Rightarrow> policy \<Rightarrow> native_out \<times> policy" where
  "native_block_event py_str thinking_enabled name payload st =
     (if name = u ''content_block_start'' then native_block_start thinking_enabled payload st
      else if name = u ''content_block_delta'' then native_block_delta py_str thinking_enabled payload st
      else if name = u ''content_block_stop'' then native_block_stop thinking_enabled payload st
      else (Unchanged, st))"

definition frame_text :: "(json \<Rightarrow> pystr) \<Rightarrow> sse_event \<Rightarrow> pystr" where
  "frame_text dumps ev = format_native_sse_event (Some (ev_name ev)) (dumps (JObj (ev_data ev)))"

text \<open>\<open>payload.get\<close> on a payload that is no object raises \<open>AttributeError\<close>.\<close>

definition transform_native_sse_block_event ::
  "(pystr \<Rightarrow> json option) \<Rightarrow> (json \<Rightarrow> pystr) \<Rightarrow> (json \<Rightarrow> pystr) \<Rightarrow> bool \<Rightarrow> pystr \<Rightarrow> policy
   \<Rightarrow> (py_error + pystr option) \<times> policy" where
  "transform_native_sse_block_event loads dumps py_str thinking_enabled event st =
     (case parse_native_sse_event event of
        (event_name, data_text) \<Rightarrow>
          (case event_name of
             None \<Rightarrow> (Inr (Some event), st)
           | Some name \<Rightarrow>
               if name = [] \<or> data_text = [] then (Inr (Some event), st)
               else
                 (case loads data_text of
                    None \<Rightarrow> (Inr (Some event), st)
                  | Some payload \<Rightarrow>
                      if \<not> is_block_event name then (Inr (Some event), st)
                      else
                        (case payload of
                           JObj d \<Rightarrow>
                             (case native_block_event py_str thinking_enabled name d st of
                                (Unchanged, st') \<Rightarrow> (Inr (Some event), st')
                              | (Dropped, st') \<Rightarrow> (Inr None, st')
                              | (Frames fs, st') \<Rightarrow> (Inr (Some (concat (map (frame_text dumps) fs))), st'))
                         | _ \<Rightarrow> (Inl AttributeError, st)))))"

section \<open>Streams\<close>

text \<open>The policy on a stream of parsed events.\<close>

definition policy_step ::
  "(json \<Rightarrow> pystr) \<Rightarrow> bool \<Rightarrow> sse_event \<Rightarrow> policy \<Rightarrow> sse_event list \<times> policy" where
  "policy_step py_str te ev st =
     (case native_block_event py_str te (ev_name ev) (ev_data ev) st of
        (Unchanged, st') \<Rightarrow> ([ev], st')
      | (Dropped, st') \<Rightarrow> ([], st')
      | (Frames fs, st') \<Rightarrow> (fs, st'))"

fun policy_run ::
  "(json \<Rightarrow> pystr) \<Rightarrow> bool \<Rightarrow> sse_event list \<Rightarrow> policy \<Rightarrow> sse_event list \<times> policy" where
  "policy_run py_str te [] st = ([], st)"
| "policy_run py_str te (ev # evs) st =
     (case policy_step py_str te ev st of
        (fs, st1) \<Rightarrow> (case policy_run py_str te evs st1 of (gs, st2) \<Rightarrow> (fs @ gs, st2)))"

section \<open>The contract on reindexed events\<close>

lemma dget_or_dset [simp]: "dget_or (dset d k v) k' v0 = (if k' = k then v else dget_or d k' v0)"
  by (simp add: dget_or_def dset_def)

lemma event_index_reindexed [simp]: "event_index (reindexed n d i) = Inr i"
  by (simp add: event_index_def reindexed_def)

lemma reindexed_sel [simp]: "ev_name (reindexed n d i) = u n" "ev_data (reindexed n d i) = dset d ''index'' (JInt i)"
  by (simp_all add: reindexed_def)

text \<open>What the automaton asks of an event beside its index: the kind a start opens, and whether a
  delta fits an open block of a kind.\<close>

definition start_kind :: "(pystr \<times> json) list \<Rightarrow> pystr option" where
  "start_kind d =
     (case dget_or d ''content_block'' (JObj []) of
        JObj block \<Rightarrow>
          (case type_name block of
             None \<Rightarrow> None
           | Some bt \<Rightarrow>
               if bt \<notin> set allowed_block_start_types then None
               else Some (if bt = u ''text'' \<and> text_not_blank (dget_or block ''text'' (JStr []))
                          then u ''text_eager'' else bt))
      | _ \<Rightarrow> None)"

definition delta_fits :: "pystr \<Rightarrow> (pystr \<times> json) list \<Rightarrow> bool" where
  "delta_fits kind d \<longleftrightarrow>
     kind \<notin> set no_delta_block_kinds
     \<and> (case dget_or d ''delta'' (JObj []) of
          JObj delta \<Rightarrow>
            if kind = u ''thinking''
            then type_name delta \<in> {Some (u ''thinking_delta''), Some (u ''signature_delta'')}
            else type_name delta = Some (if kind = u ''text'' then u ''text_delta'' else u ''input_json_delta'')
        | _ \<Rightarrow> False)"

lemma start_kind_index [simp]: "start_kind (dset d ''index'' v) = start_kind d"
  by (simp add: start_kind_def)

lemma delta_fits_index [simp]: "delta_fits k (dset d ''index'' v) = delta_fits k d"
  by (simp add: delta_fits_def)

definition open_block :: "int \<Rightarrow> pystr \<Rightarrow> contract_state \<Rightarrow> contract_state" where
  "open_block i k c = \<lparr>cs_open_blocks = AList.update i k (cs_open_blocks c),
                       cs_seen_blocks = insert i (cs_seen_blocks c)\<rparr>"

definition close_block :: "int \<Rightarrow> contract_state \<Rightarrow> contract_state" where
  "close_block i c = c\<lparr>cs_open_blocks := AList.delete i (cs_open_blocks c)\<rparr>"

lemma contract_start_iff:
  "contract_step ae c (SseEvent (u ''content_block_start'') d) = Inr c' \<longleftrightarrow>
     (\<exists>i k. int_of (dget d ''index'') = Some i \<and> start_kind d = Some k
        \<and> \<not> has_key (cs_open_blocks c) i \<and> i \<notin> cs_seen_blocks c \<and> c' = open_block i k c)"
  by (auto simp: contract_step_def event_index_def start_kind_def open_block_def Let_def
      split: option.splits json.splits if_splits)

lemma contract_delta_iff:
  "contract_step ae c (SseEvent (u ''content_block_delta'') d) = Inr c' \<longleftrightarrow>
     (\<exists>i k. int_of (dget d ''index'') = Some i \<and> map_of (cs_open_blocks c) i = Some k
        \<and> delta_fits k d \<and> c' = c)"
proof (cases "int_of (dget d ''index'')")
  case (Some i)
  then show ?thesis
    by (cases "map_of (cs_open_blocks c) i")
      (auto simp: contract_step_def event_index_def delta_fits_def Let_def split: json.splits)
qed (simp add: contract_step_def event_index_def)

lemma contract_stop_iff:
  "contract_step ae c (SseEvent (u ''content_block_stop'') d) = Inr c' \<longleftrightarrow>
     (\<exists>i. int_of (dget d ''index'') = Some i \<and> has_key (cs_open_blocks c) i \<and> c' = close_block i c)"
  by (auto simp: contract_step_def event_index_def close_block_def split: option.splits)

lemma contract_other:
  "\<not> is_block_event (ev_name ev) \<Longrightarrow>
     contract_step ae c ev = (if ev_name ev = u ''error'' \<and> \<not> ae then Inl UnexpectedError else Inr c)"
  by (simp add: contract_step_def is_block_event_def)

lemma contract_run_append:
  "contract_run ae c (xs @ ys) =
     (case contract_run ae c xs of Inl v \<Rightarrow> Inl v | Inr c' \<Rightarrow> contract_run ae c' ys)"
  by (induction xs arbitrary: c) (auto split: sum.splits)

section \<open>What the policy keeps\<close>

text \<open>\<open>tracks te cu s cd\<close>: the upstream stream has brought the contract automaton to \<open>cu\<close>, the
  proxy's stream has brought it to \<open>cd\<close>, and the segments of \<open>s\<close> link their blocks. A segment is
  good when it is open on both sides, or closed on the proxy's side with its stop awaited exactly
  when upstream has it open still.\<close>

definition good_segment ::
  "(int \<Rightarrow> pystr option) \<Rightarrow> (int \<Rightarrow> pystr option) \<Rightarrow> int set \<Rightarrow> int \<Rightarrow> upstream_block \<Rightarrow> bool" where
  "good_segment up down pending i seg \<longleftrightarrow>
     (if ub_open seg then up i \<noteq> None \<and> down (ub_down_index seg) = up i \<and> i \<notin> pending
      else up i \<noteq> None \<longleftrightarrow> i \<in> pending)"

definition linked ::
  "(int \<Rightarrow> pystr option) \<Rightarrow> (int \<Rightarrow> pystr option) \<Rightarrow> int set \<Rightarrow> int \<Rightarrow> (int \<Rightarrow> upstream_block option) \<Rightarrow> bool" where
  "linked up down pending next_index segs \<longleftrightarrow>
     (\<forall>i seg. segs i = Some seg \<longrightarrow> good_segment up down pending i seg \<and> ub_down_index seg < next_index)
     \<and> (\<forall>i i' seg seg'. segs i = Some seg \<longrightarrow> segs i' = Some seg'
          \<longrightarrow> ub_down_index seg = ub_down_index seg' \<longrightarrow> i = i')
     \<and> (\<forall>j. down j \<noteq> None \<longrightarrow> (\<exists>i seg. segs i = Some seg \<and> ub_open seg \<and> ub_down_index seg = j))
     \<and> pending \<subseteq> {i. segs i \<noteq> None}"

text \<open>What upstream has open, with its kind, and what is hidden of it.\<close>

definition block_kinds :: "pystr set" where
  "block_kinds = insert (u ''text_eager'') (set allowed_block_start_types)"

definition hidden_kind :: "bool \<Rightarrow> pystr \<Rightarrow> bool" where
  "hidden_kind te k \<longleftrightarrow> \<not> te \<and> k \<in> {u ''thinking'', u ''redacted_thinking''}"

definition upstream_ok ::
  "bool \<Rightarrow> (int \<Rightarrow> pystr option) \<Rightarrow> int set \<Rightarrow> int set \<Rightarrow> int set \<Rightarrow> bool" where
  "upstream_ok te up seen dropped keys \<longleftrightarrow>
     (\<forall>i k. up i = Some k \<longrightarrow> i \<in> seen \<and> k \<in> block_kinds
        \<and> (i \<in> keys \<longleftrightarrow> i \<notin> dropped) \<and> (i \<in> dropped \<longleftrightarrow> hidden_kind te k))
     \<and> dropped \<subseteq> seen \<and> keys \<subseteq> seen \<and> keys \<inter> dropped = {}"

definition tracks :: "bool \<Rightarrow> contract_state \<Rightarrow> policy \<Rightarrow> contract_state \<Rightarrow> bool" where
  "tracks te cu s cd \<longleftrightarrow>
     distinct (map fst (np_by_upstream s))
     \<and> 0 \<le> np_next_index s \<and> cs_seen_blocks cd = {0..<np_next_index s}
     \<and> (te \<longrightarrow> cs_seen_blocks cu \<noteq> {} \<longrightarrow> 0 < np_next_index s)
     \<and> linked (map_of (cs_open_blocks cu)) (map_of (cs_open_blocks cd)) (np_pending_suppressed_stops s)
         (np_next_index s) (map_of (np_by_upstream s))
     \<and> upstream_ok te (map_of (cs_open_blocks cu)) (cs_seen_blocks cu) (np_dropped_indexes s)
         (dom (map_of (np_by_upstream s)))"

lemma tracks_init: "tracks te contract_init policy_init contract_init"
  by (simp add: tracks_def linked_def upstream_ok_def contract_init_def policy_init_def)

lemma linked_nothing: "linked (\<lambda>_. None) down pending n segs \<Longrightarrow> down j = None"
  unfolding linked_def good_segment_def by (metis not_None_eq)

lemma tracks_closed: "tracks te cu s cd \<Longrightarrow> cs_open_blocks cu = [] \<Longrightarrow> cs_open_blocks cd = []"
  by (rule map_of_all_None, rule linked_nothing) (auto simp: tracks_def)

subsection \<open>Closing on the proxy's side\<close>

lemma linked_force_close:
  assumes l: "linked up down pending n segs" and i: "segs i = Some seg" "ub_open seg"
  shows "linked up (down(ub_down_index seg := None)) (insert i pending) n (segs(i \<mapsto> seg\<lparr>ub_open := False\<rparr>))"
proof -
  have other: "ub_down_index seg' \<noteq> ub_down_index seg" if "segs i' = Some seg'" "i' \<noteq> i" for i' seg'
    using l i(1) that unfolding linked_def by metis
  have up: "up i \<noteq> None" and "down (ub_down_index seg) \<noteq> None"
    using l i unfolding linked_def good_segment_def by metis+
  have "\<exists>i' seg'. (segs(i \<mapsto> seg\<lparr>ub_open := False\<rparr>)) i' = Some seg' \<and> ub_open seg' \<and> ub_down_index seg' = j"
    if "(down(ub_down_index seg := None)) j \<noteq> None" for j
  proof -
    from that have j: "j \<noteq> ub_down_index seg" "down j \<noteq> None" by (auto split: if_splits)
    then obtain i' seg' where "segs i' = Some seg'" "ub_open seg'" "ub_down_index seg' = j"
      using l unfolding linked_def by blast
    with j i show ?thesis by (metis fun_upd_other option.inject)
  qed
  moreover have "good_segment up (down(ub_down_index seg := None)) (insert i pending) i' seg'"
    if "(segs(i \<mapsto> seg\<lparr>ub_open := False\<rparr>)) i' = Some seg'" for i' seg'
    using that l up other [of i' seg'] unfolding linked_def good_segment_def by (auto split: if_splits)
  ultimately show ?thesis
    using l i unfolding linked_def by (auto split: if_splits)
qed

lemma tracks_force_close:
  assumes t: "tracks te cu s cd" and i: "map_of (np_by_upstream s) i = Some seg" "ub_open seg"
  shows "contract_step ae cd (content_block_stop (ub_down_index seg)) = Inr (close_block (ub_down_index seg) cd)
    \<and> tracks te cu (s\<lparr>np_by_upstream := AList.update i (seg\<lparr>ub_open := False\<rparr>) (np_by_upstream s),
        np_pending_suppressed_stops := insert i (np_pending_suppressed_stops s)\<rparr>)
        (close_block (ub_down_index seg) cd)"
proof -
  have l: "linked (map_of (cs_open_blocks cu)) (map_of (cs_open_blocks cd)) (np_pending_suppressed_stops s)
         (np_next_index s) (map_of (np_by_upstream s))"
    using t by (simp add: tracks_def)
  have "has_key (cs_open_blocks cd) (ub_down_index seg)"
    using l i unfolding linked_def good_segment_def has_key_def by metis
  moreover have "insert i (dom (map_of (np_by_upstream s))) = dom (map_of (np_by_upstream s))"
    using i by (auto simp: insert_absorb)
  ultimately show ?thesis
    using t linked_force_close [OF l i] by (simp add: tracks_def contract_stop close_block_def)
qed

lemma close_segments_tracks:
  assumes "tracks te cu s cd" and "distinct (map fst items)"
    and "\<forall>(i, seg) \<in> set items. map_of (np_by_upstream s) i = Some seg"
    and "close_segments items cur s = (out, s')"
  shows "\<exists>cd'. contract_run ae cd out = Inr cd' \<and> tracks te cu s' cd' \<and> np_next_index s' = np_next_index s
    \<and> dom (map_of (np_by_upstream s')) = dom (map_of (np_by_upstream s))
    \<and> np_dropped_indexes s' = np_dropped_indexes s"
  using assms
proof (induction items cur s arbitrary: cd out rule: close_segments.induct)
  case (1 cur st)
  then show ?case by simp
next
  case (2 i seg items cur st)
  show ?case
  proof (cases "i = cur \<or> \<not> ub_open seg")
    case True
    with 2 show ?thesis by auto
  next
    case False
    let ?st = "st\<lparr>np_by_upstream := AList.update i (seg\<lparr>ub_open := False\<rparr>) (np_by_upstream st),
        np_pending_suppressed_stops := insert i (np_pending_suppressed_stops st)\<rparr>"
    obtain out' where r: "close_segments items cur ?st = (out', s')"
      and out: "out = content_block_stop (ub_down_index seg) # out'"
      using 2 False by (auto split: prod.splits)
    have i: "map_of (np_by_upstream st) i = Some seg" using 2 by auto
    have keep: "\<forall>(j, sg) \<in> set items. map_of (np_by_upstream ?st) j = Some sg"
      using 2(4,5) by (auto simp: rev_image_eqI)
    from tracks_force_close [OF 2(3) i] False
    have c: "contract_step ae cd (content_block_stop (ub_down_index seg)) = Inr (close_block (ub_down_index seg) cd)"
      and t: "tracks te cu ?st (close_block (ub_down_index seg) cd)" by blast+
    have d: "distinct (map fst items)" using 2(4) by simp
    have dm: "dom (map_of (np_by_upstream ?st)) = dom (map_of (np_by_upstream st))" using i by auto
    from 2(2) [OF False t d keep r] obtain cd'
      where run: "contract_run ae (close_block (ub_down_index seg) cd) out' = Inr cd'"
        and t': "tracks te cu s' cd'" and rest: "np_next_index s' = np_next_index ?st"
          "dom (map_of (np_by_upstream s')) = dom (map_of (np_by_upstream ?st))"
          "np_dropped_indexes s' = np_dropped_indexes ?st" by blast
    from c run out have "contract_run ae cd out = Inr cd'" by simp
    with t' rest(1,3) trans [OF rest(2) dm] show ?thesis by auto
  qed
qed


subsection \<open>Opening\<close>

lemma linked_allocate:
  assumes l: "linked up down pending n segs" and seg: "ub_down_index seg = n" "ub_open seg"
    and k: "up' = up(i \<mapsto> k)" and free: "\<And>s. segs i = Some s \<Longrightarrow> \<not> ub_open s"
  shows "linked up' (down(n \<mapsto> k)) (pending - {i}) (n + 1) (segs(i \<mapsto> seg))"
proof -
  have low: "ub_down_index seg' < n" if "segs i' = Some seg'" for i' seg'
    using l that unfolding linked_def by blast
  have "\<exists>i' seg'. (segs(i \<mapsto> seg)) i' = Some seg' \<and> ub_open seg' \<and> ub_down_index seg' = j"
    if j: "(down(n \<mapsto> k)) j \<noteq> None" for j
  proof (cases "j = n")
    case True
    with seg show ?thesis by (intro exI [of _ i] exI [of _ seg]) simp
  next
    case False
    with j l obtain i' seg' where s: "segs i' = Some seg'" "ub_open seg'" "ub_down_index seg' = j"
      unfolding linked_def by auto
    with free have "i' \<noteq> i" by blast
    with s show ?thesis by (metis fun_upd_other)
  qed
  moreover have "good_segment up' (down(n \<mapsto> k)) (pending - {i}) i' seg'"
    if "(segs(i \<mapsto> seg)) i' = Some seg'" for i' seg'
  proof (cases "i' = i")
    case True
    with that seg show ?thesis by (simp add: good_segment_def k)
  next
    case False
    with that have s: "segs i' = Some seg'" by simp
    with l have "good_segment up down pending i' seg'" unfolding linked_def by blast
    with low [OF s] False show ?thesis by (auto simp: good_segment_def k)
  qed
  moreover have "ub_down_index seg' < n + 1" if "(segs(i \<mapsto> seg)) i' = Some seg'" for i' seg'
    using that seg(1) low [of i' seg'] by (cases "i' = i") auto
  moreover have "i1 = i2" if "(segs(i \<mapsto> seg)) i1 = Some s1" "(segs(i \<mapsto> seg)) i2 = Some s2"
    "ub_down_index s1 = ub_down_index s2" for i1 i2 s1 s2
  proof -
    have "segs i1 = Some s1 \<Longrightarrow> segs i2 = Some s2 \<Longrightarrow> i1 = i2"
      using l that(3) unfolding linked_def by blast
    with that seg(1) low [of i1 s1] low [of i2 s2] show ?thesis
      by (cases "i1 = i"; cases "i2 = i") auto
  qed
  moreover have "pending - {i} \<subseteq> {j. (segs(i \<mapsto> seg)) j \<noteq> None}"
    using l unfolding linked_def by auto
  ultimately show ?thesis unfolding linked_def by blast
qed

lemma tracks_allocate:
  assumes t: "tracks te cu s cd"
    and free: "\<And>seg. map_of (np_by_upstream s) i = Some seg \<Longrightarrow> \<not> ub_open seg"
    and cu': "map_of (cs_open_blocks cu') = (map_of (cs_open_blocks cu))(i \<mapsto> k)"
      "cs_seen_blocks cu' = insert i (cs_seen_blocks cu)"
    and dr: "i \<notin> np_dropped_indexes s" "k \<in> block_kinds" "\<not> hidden_kind te k"
    and a: "allocate_new_segment i bt b (s\<lparr>np_pending_suppressed_stops := np_pending_suppressed_stops s - {i}\<rparr>) = (n, s')"
  shows "n = np_next_index s \<and> \<not> has_key (cs_open_blocks cd) n \<and> n \<notin> cs_seen_blocks cd
    \<and> tracks te cu' s' (open_block n k cd)"
proof -
  have l: "linked (map_of (cs_open_blocks cu)) (map_of (cs_open_blocks cd)) (np_pending_suppressed_stops s)
         (np_next_index s) (map_of (np_by_upstream s))"
    using t by (simp add: tracks_def)
  have n: "n = np_next_index s" using a by (simp add: allocate_new_segment_def)
  have "map_of (cs_open_blocks cd) n = None"
    using l unfolding linked_def n by (metis less_irrefl not_None_eq)
  moreover have "n \<notin> cs_seen_blocks cd" using t n by (simp add: tracks_def)
  moreover have "upstream_ok te (map_of (cs_open_blocks cu')) (cs_seen_blocks cu') (np_dropped_indexes s)
      (insert i (dom (map_of (np_by_upstream s))))"
    using t dr unfolding tracks_def upstream_ok_def cu' by (auto split: if_splits)
  moreover have "tracks te cu' s' (open_block n k cd) \<longleftrightarrow>
      upstream_ok te (map_of (cs_open_blocks cu')) (cs_seen_blocks cu') (np_dropped_indexes s)
        (insert i (dom (map_of (np_by_upstream s))))"
    using a t linked_allocate [OF l _ _ cu'(1) free, of "\<lparr>ub_block_type = bt, ub_down_index = n, ub_open = True,
           ub_last_start_block = b\<rparr>"] n
    by (auto simp: tracks_def allocate_new_segment_def open_block_def)
  ultimately show ?thesis using n by (simp add: has_key_def)
qed


lemma good_other: "i \<noteq> j \<Longrightarrow> good_segment (up(i := x)) down pending j seg = good_segment up down pending j seg"
  by (simp add: good_segment_def)

lemma linked_other:
  assumes "linked up down pending n segs" and i: "segs i = None"
  shows "linked (up(i := x)) down pending n segs"
proof -
  have "good_segment (up(i := x)) down pending j seg = good_segment up down pending j seg"
    if "segs j = Some seg" for j seg
    using that i by (intro good_other) auto
  with assms show ?thesis unfolding linked_def by simp
qed

subsection \<open>Stopping\<close>

lemma linked_finish:
  assumes l: "linked up down pending n segs" and i: "segs i = Some seg" "\<not> ub_open seg"
  shows "linked (up(i := None)) down (pending - {i}) n segs"
proof -
  have "good_segment (up(i := None)) down (pending - {i}) j sg"
    if "segs j = Some sg" "good_segment up down pending j sg" for j sg
    using that i by (cases "j = i") (auto simp: good_segment_def)
  with l show ?thesis unfolding linked_def by blast
qed

lemma upstream_ok_stop:
  "upstream_ok te up seen dropped keys \<Longrightarrow> upstream_ok te (up(i := None)) seen dropped keys"
  unfolding upstream_ok_def by (auto split: if_splits)

lemma close_block_sel [simp]:
  "map_of (cs_open_blocks (close_block i c)) = (map_of (cs_open_blocks c))(i := None)"
  "cs_seen_blocks (close_block i c) = cs_seen_blocks c"
  by (simp_all add: close_block_def)

lemma tracksD:
  assumes "tracks te cu s cd"
  shows "distinct (map fst (np_by_upstream s))" "0 \<le> np_next_index s"
    "cs_seen_blocks cd = {0..<np_next_index s}"
    "linked (map_of (cs_open_blocks cu)) (map_of (cs_open_blocks cd)) (np_pending_suppressed_stops s)
         (np_next_index s) (map_of (np_by_upstream s))"
    "upstream_ok te (map_of (cs_open_blocks cu)) (cs_seen_blocks cu) (np_dropped_indexes s)
         (dom (map_of (np_by_upstream s)))"
    "te \<longrightarrow> cs_seen_blocks cu \<noteq> {} \<longrightarrow> 0 < np_next_index s"
  using assms by (simp_all add: tracks_def)

lemmas native_event_defs = policy_step_def native_block_event_def

lemma native_stop_tracks:
  assumes t: "tracks te cu s cd" and i: "int_of (dget d ''index'') = Some i" "has_key (cs_open_blocks cu) i"
    and r: "policy_step py te (SseEvent (u ''content_block_stop'') d) s = (fs, s')"
  shows "\<exists>cd'. contract_run ae cd fs = Inr cd' \<and> tracks te (close_block i cu) s' cd'"
proof -
  note l = tracksD(4) [OF t] and o' = upstream_ok_stop [OF tracksD(5) [OF t], of i]
  show ?thesis
  proof (cases "i \<in> np_dropped_indexes s")
    case True
    with tracksD(5) [OF t] have "map_of (np_by_upstream s) i = None" unfolding upstream_ok_def by blast
    from linked_other [OF l this, of None] o' tracksD(1-3,6) [OF t]
    have "tracks te (close_block i cu) s cd" by (simp add: tracks_def)
    moreover have "fs = []" "s' = s"
      using r i True by (simp_all add: native_event_defs native_block_stop_def)
    ultimately show ?thesis by simp
  next
    case nd: False
    with tracksD(5) [OF t] i(2) obtain seg where seg: "map_of (np_by_upstream s) i = Some seg"
      unfolding upstream_ok_def has_key_def by blast
    show ?thesis
    proof (cases "ub_open seg")
      case False
      with l seg i have "i \<in> np_pending_suppressed_stops s"
        unfolding linked_def good_segment_def has_key_def by metis
      with r i nd have "fs = []"
        "s' = s\<lparr>np_pending_suppressed_stops := np_pending_suppressed_stops s - {i}\<rparr>"
        by (simp_all add: native_event_defs native_block_stop_def)
      moreover from linked_finish [OF l seg False] o' tracksD(1-3,6) [OF t]
      have "tracks te (close_block i cu)
          (s\<lparr>np_pending_suppressed_stops := np_pending_suppressed_stops s - {i}\<rparr>) cd"
        by (simp add: tracks_def)
      ultimately show ?thesis by simp
    next
      case True
      with l seg have np: "i \<notin> np_pending_suppressed_stops s"
        and hk: "has_key (cs_open_blocks cd) (ub_down_index seg)"
        unfolding linked_def good_segment_def has_key_def by metis+
      let ?s = "s\<lparr>np_by_upstream := AList.update i (seg\<lparr>ub_open := False\<rparr>) (np_by_upstream s)\<rparr>"
      from r i nd np seg True have "fs = [reindexed ''content_block_stop'' d (ub_down_index seg)]" "s' = ?s"
        by (simp_all add: native_event_defs native_block_stop_def)
      moreover have "contract_step ae cd (reindexed ''content_block_stop'' d (ub_down_index seg))
          = Inr (close_block (ub_down_index seg) cd)"
        using hk by (simp add: reindexed_def contract_stop_iff)
      moreover have "insert i (dom (map_of (np_by_upstream s))) = dom (map_of (np_by_upstream s))"
        using seg by (auto simp: insert_absorb)
      with linked_finish [OF linked_force_close [OF l seg True], of i "seg\<lparr>ub_open := False\<rparr>"] np o' tracksD(1-3,6) [OF t]
      have "tracks te (close_block i cu) ?s (close_block (ub_down_index seg) cd)"
        by (simp add: tracks_def)
      ultimately show ?thesis by simp
    qed
  qed
qed

subsection \<open>Starts and deltas\<close>

lemma str_of_Some [simp]: "str_of v = Some s \<longleftrightarrow> v = JStr s"
  by (cases v) auto

lemma start_kindD:
  assumes "start_kind d = Some k"
  obtains block bt where "dget d ''content_block'' = JObj block" "dget block ''type'' = JStr bt"
    "bt \<in> set allowed_block_start_types" "k \<in> block_kinds" "k = bt \<or> (bt = u ''text'' \<and> k = u ''text_eager'')"
proof -
  have "[] \<notin> set allowed_block_start_types" by code_simp
  with assms that show ?thesis
    unfolding start_kind_def type_name_def dget_or_def dget_def block_kinds_def
    by (auto split: json.splits option.splits if_splits)
qed

lemma dropped_kind:
  assumes "bt \<in> set allowed_block_start_types"
  shows "should_drop_block_type (JStr bt) te \<longleftrightarrow> hidden_kind te bt"
proof -
  have "list_all (\<lambda>bt. should_drop_block_type (JStr bt) True = hidden_kind True bt) allowed_block_start_types"
    and "list_all (\<lambda>bt. should_drop_block_type (JStr bt) False = hidden_kind False bt) allowed_block_start_types"
    by code_simp+
  with assms show ?thesis by (cases te) (auto simp: list_all_iff)
qed

lemma tracks_drop:
  assumes t: "tracks te cu s cd" and i: "i \<notin> cs_seen_blocks cu" and k: "hidden_kind te k" "k \<in> block_kinds"
  shows "tracks te (open_block i k cu) (s\<lparr>np_dropped_indexes := insert i (np_dropped_indexes s)\<rparr>) cd"
proof -
  note o = tracksD(5) [OF t]
  with i have n: "map_of (np_by_upstream s) i = None" unfolding upstream_ok_def by auto
  from o i k n have "upstream_ok te ((map_of (cs_open_blocks cu))(i \<mapsto> k)) (insert i (cs_seen_blocks cu))
     (insert i (np_dropped_indexes s)) (dom (map_of (np_by_upstream s)))"
    unfolding upstream_ok_def by (auto split: if_splits)
  with linked_other [OF tracksD(4) [OF t] n, of "Some k"] tracksD(1-3) [OF t] k(1)
  show ?thesis by (simp add: tracks_def open_block_def hidden_kind_def)
qed

lemma synthetic_closeD:
  assumes "tracks te cu s cd" and "synthetic_close_other_open_blocks i s = (out, s')"
  obtains cd' where "contract_run ae cd out = Inr cd'" "tracks te cu s' cd'"
    "dom (map_of (np_by_upstream s')) = dom (map_of (np_by_upstream s))"
    "np_dropped_indexes s' = np_dropped_indexes s"
proof -
  have d: "distinct (map fst (np_by_upstream s))" using assms(1) by (rule tracksD)
  then have "\<forall>(i, seg) \<in> set (np_by_upstream s). map_of (np_by_upstream s) i = Some seg" by auto
  from close_segments_tracks [OF assms(1) d this assms(2) [unfolded synthetic_close_other_open_blocks_def]]
  show ?thesis using that by blast
qed

lemma native_start_tracks:
  assumes t: "tracks te cu s cd" and i: "int_of (dget d ''index'') = Some i" "i \<notin> cs_seen_blocks cu"
    and k: "start_kind d = Some k"
    and r: "policy_step py te (SseEvent (u ''content_block_start'') d) s = (fs, s')"
  shows "\<exists>cd'. contract_run ae cd fs = Inr cd' \<and> tracks te (open_block i k cu) s' cd'"
proof -
  obtain block bt where b: "dget d ''content_block'' = JObj block" "dget block ''type'' = JStr bt"
    and bt: "bt \<in> set allowed_block_start_types" "k \<in> block_kinds"
    and kb: "k = bt \<or> (bt = u ''text'' \<and> k = u ''text_eager'')"
    using k by (rule start_kindD)
  have hk: "hidden_kind te bt = hidden_kind te k" using kb by (auto simp: hidden_kind_def)
  show ?thesis
  proof (cases "hidden_kind te k")
    case True
    with r i(1) b bt hk have "fs = []"
      "s' = s\<lparr>np_dropped_indexes := insert i (np_dropped_indexes s)\<rparr>"
      by (simp_all add: native_event_defs native_block_start_def dropped_kind)
    with tracks_drop [OF t i(2) True bt(2)] show ?thesis by simp
  next
    case False
    obtain closed s1 where c: "synthetic_close_other_open_blocks i s = (closed, s1)" by fastforce
    obtain n s2 where a: "allocate_new_segment i bt (Some block) s1 = (n, s2)" by fastforce
    from r i(1) b bt hk False c a
    have fs: "fs = closed @ [reindexed ''content_block_start'' d n]" and s': "s' = s2"
      by (simp_all add: native_event_defs native_block_start_def dropped_kind)
    obtain cd1 where run: "contract_run ae cd closed = Inr cd1" and t1: "tracks te cu s1 cd1"
      and dm: "dom (map_of (np_by_upstream s1)) = dom (map_of (np_by_upstream s))"
      and dr: "np_dropped_indexes s1 = np_dropped_indexes s"
      using synthetic_closeD [OF t c] by blast
    have ni: "map_of (np_by_upstream s1) i = None" and nd: "i \<notin> np_dropped_indexes s1"
      using tracksD(5) [OF t] i(2) dm dr unfolding upstream_ok_def by blast+
    have np: "i \<notin> np_pending_suppressed_stops s1"
      using tracksD(4) [OF t1] ni unfolding linked_def by blast
    then have "np_pending_suppressed_stops s1 - {i} = np_pending_suppressed_stops s1" by simp
    then have a': "allocate_new_segment i bt (Some block)
        (s1\<lparr>np_pending_suppressed_stops := np_pending_suppressed_stops s1 - {i}\<rparr>) = (n, s2)"
      using a by simp
    have o: "map_of (cs_open_blocks (open_block i k cu)) = (map_of (cs_open_blocks cu))(i \<mapsto> k)"
      "cs_seen_blocks (open_block i k cu) = insert i (cs_seen_blocks cu)"
      by (simp_all add: open_block_def)
    have "n = np_next_index s1 \<and> \<not> has_key (cs_open_blocks cd1) n \<and> n \<notin> cs_seen_blocks cd1
        \<and> tracks te (open_block i k cu) s2 (open_block n k cd1)"
      by (rule tracks_allocate [OF t1 _ o nd bt(2) False a']) (simp add: ni)
    then have "\<not> has_key (cs_open_blocks cd1) n" "n \<notin> cs_seen_blocks cd1"
      and tr: "tracks te (open_block i k cu) s2 (open_block n k cd1)" by blast+
    with k have "contract_step ae cd1 (reindexed ''content_block_start'' d n) = Inr (open_block n k cd1)"
      by (simp add: reindexed_def contract_start_iff)
    with tr run fs s' show ?thesis by (simp add: contract_run_append)
  qed
qed

lemma delta_fitsD:
  assumes "delta_fits k d" and k: "k \<in> block_kinds"
  obtains delta t where "dget d ''delta'' = JObj delta" "dget delta ''type'' = JStr t"
    "delta_type_to_block_kind (JStr t) = Some k" "should_drop_block_type (JStr t) te \<Longrightarrow> hidden_kind te k"
    "k \<in> {u ''text'', u ''thinking'', u ''tool_use''}"
proof -
  have "[] \<notin> set [u ''thinking_delta'', u ''signature_delta'', u ''text_delta'', u ''input_json_delta'']"
    by simp
  then obtain delta t where d: "dget d ''delta'' = JObj delta" "dget delta ''type'' = JStr t"
    and t: "if k = u ''thinking'' then t \<in> {u ''thinking_delta'', u ''signature_delta''}
        else t = (if k = u ''text'' then u ''text_delta'' else u ''input_json_delta'')"
    and nk: "k \<notin> set no_delta_block_kinds"
    using assms(1) unfolding delta_fits_def type_name_def dget_or_def dget_def
    by (auto split: json.splits option.splits if_splits)
  have "\<forall>k \<in> block_kinds. k \<notin> set no_delta_block_kinds \<longrightarrow> k \<in> {u ''text'', u ''thinking'', u ''tool_use''}"
    by (simp add: block_kinds_def allowed_block_start_types_def no_delta_block_kinds_def)
  with k nk have k3: "k \<in> {u ''text'', u ''thinking'', u ''tool_use''}" by blast
  with t have tk: "delta_type_to_block_kind (JStr t) = Some k"
    by (auto simp: delta_type_to_block_kind_def split: if_splits)
  have sd: "\<not> should_drop_block_type (JStr (u ''text_delta'')) False"
    "\<not> should_drop_block_type (JStr (u ''input_json_delta'')) False"
    by code_simp+
  have te: "\<not> should_drop_block_type b True" for b
    by (cases b) (simp_all add: should_drop_block_type_def)
  from t k3 sd te have "should_drop_block_type (JStr t) te \<Longrightarrow> hidden_kind te k"
    by (cases te) (auto simp: hidden_kind_def split: if_splits)
  with that d tk k3 show ?thesis by blast
qed

lemma block_types_allowed:
  "u ''text'' \<in> set allowed_block_start_types" "u ''thinking'' \<in> set allowed_block_start_types"
  "u ''tool_use'' \<in> set allowed_block_start_types"
  by (simp_all add: allowed_block_start_types_def)

lemma synthetic_start_kind:
  assumes "k \<in> {u ''text'', u ''thinking'', u ''tool_use''}"
  shows "start_kind (ev_data (synthetic_start n (synthetic_start_content_block py_str k idx stored))) = Some k"
    and "dget (ev_data (synthetic_start n b)) ''index'' = JInt n"
    and "ev_name (synthetic_start n b) = u ''content_block_start''"
  using assms
  by (auto simp: synthetic_start_def synthetic_start_content_block_def start_kind_def type_name_def
      text_not_blank_def block_types_allowed split: option.splits)

lemma native_delta_tracks:
  assumes t: "tracks te cu s cd" and i: "int_of (dget d ''index'') = Some i"
    and k: "map_of (cs_open_blocks cu) i = Some k" "delta_fits k d"
    and r: "policy_step py te (SseEvent (u ''content_block_delta'') d) s = (fs, s')"
  shows "\<exists>cd'. contract_run ae cd fs = Inr cd' \<and> tracks te cu s' cd'"
proof (cases "i \<in> np_dropped_indexes s")
  case True
  from k(2) r i True have "fs = [] \<and> s' = s"
    by (auto simp: native_event_defs native_block_delta_def delta_fits_def dget_or_def dget_def Let_def
        type_name_def split: json.splits option.splits if_splits)
  with t show ?thesis by simp
next
  case nd: False
  note o = tracksD(5) [OF t] and l = tracksD(4) [OF t]
  from o k(1) nd have kk: "k \<in> block_kinds" and nh: "\<not> hidden_kind te k"
    and "i \<in> dom (map_of (np_by_upstream s))" and seen: "i \<in> cs_seen_blocks cu"
    unfolding upstream_ok_def by blast+
  then obtain seg where seg: "map_of (np_by_upstream s) i = Some seg" by blast
  obtain delta dt where d: "dget d ''delta'' = JObj delta" "dget delta ''type'' = JStr dt"
    and kind: "delta_type_to_block_kind (JStr dt) = Some k"
    and sd: "should_drop_block_type (JStr dt) te \<Longrightarrow> hidden_kind te k"
    and k3: "k \<in> {u ''text'', u ''thinking'', u ''tool_use''}"
    using delta_fitsD [OF k(2) kk, of te] by metis
  from sd nh have nsd: "\<not> should_drop_block_type (JStr dt) te" by blast
  show ?thesis
  proof (cases "ub_open seg")
    case True
    with l seg k(1) have "map_of (cs_open_blocks cd) (ub_down_index seg) = Some k"
      unfolding linked_def good_segment_def by metis
    with k(2) have "contract_step ae cd (reindexed ''content_block_delta'' d (ub_down_index seg)) = Inr cd"
      by (simp add: reindexed_def contract_delta_iff)
    moreover from r i d nd nsd kind seg True
    have "fs = [reindexed ''content_block_delta'' d (ub_down_index seg)]" "s' = s"
      by (simp_all add: native_event_defs native_block_delta_def)
    ultimately show ?thesis using t by simp
  next
    case False
    let ?s = "s\<lparr>np_pending_suppressed_stops := np_pending_suppressed_stops s - {i}\<rparr>"
    obtain n s2 where a: "allocate_new_segment i k (ub_last_start_block seg) ?s = (n, s2)" by fastforce
    from r i d nd nsd kind seg False a obtain b where
      fs: "fs = [synthetic_start n (synthetic_start_content_block py k (dget d ''index'') b),
                 reindexed ''content_block_delta'' d n]" and s': "s' = s2"
      by (auto simp: native_event_defs native_block_delta_def)
    let ?cd = "open_block n k cd"
    have cu: "map_of (cs_open_blocks cu) = (map_of (cs_open_blocks cu))(i \<mapsto> k)"
      "cs_seen_blocks cu = insert i (cs_seen_blocks cu)"
      using k(1) seen by auto
    have "n = np_next_index s \<and> \<not> has_key (cs_open_blocks cd) n \<and> n \<notin> cs_seen_blocks cd
        \<and> tracks te cu s2 ?cd"
      by (rule tracks_allocate [OF t _ cu nd kk nh a]) (simp add: seg False)
    then have n: "\<not> has_key (cs_open_blocks cd) n" "n \<notin> cs_seen_blocks cd" and t2: "tracks te cu s2 ?cd"
      by blast+
    have "contract_step ae cd (synthetic_start n (synthetic_start_content_block py k (dget d ''index'') b)) = Inr ?cd"
      using n synthetic_start_kind(1,2) [OF k3, of n]
      by (simp add: synthetic_start_def contract_start_iff)
    moreover have "contract_step ae ?cd (reindexed ''content_block_delta'' d n) = Inr ?cd"
      using k(2) by (simp add: reindexed_def contract_delta_iff open_block_def)
    ultimately show ?thesis using fs s' t2 by simp
  qed
qed

subsection \<open>Runs\<close>

lemma contract_stepD:
  assumes "contract_step ae c ev = Inr c'" and "\<not> is_block_event (ev_name ev)"
  shows "c' = c" "contract_step ae cd ev = Inr cd"
  using assms by (auto simp: contract_other split: if_splits)

lemma policy_step_other: "\<not> is_block_event (ev_name ev) \<Longrightarrow> policy_step py te ev s = ([ev], s)"
  by (simp add: native_event_defs is_block_event_def)

lemma policy_step_tracks:
  assumes t: "tracks te cu s cd" and c: "contract_step ae cu ev = Inr cu'"
    and r: "policy_step py te ev s = (fs, s')"
  shows "\<exists>cd'. contract_run ae cd fs = Inr cd' \<and> tracks te cu' s' cd'"
proof (cases "is_block_event (ev_name ev)")
  case False
  from contract_stepD [OF c False] policy_step_other [OF False] r t show ?thesis by auto
next
  case True
  obtain n d where ev: "ev = SseEvent n d" by (cases ev)
  consider "n = u ''content_block_start''" | "n = u ''content_block_delta''" | "n = u ''content_block_stop''"
    using True ev by (auto simp: is_block_event_def)
  then show ?thesis
  proof cases
    case 1
    with c ev show ?thesis using native_start_tracks [OF t] r by (auto simp: contract_start_iff)
  next
    case 2
    with c ev show ?thesis using native_delta_tracks [OF t] r by (auto simp: contract_delta_iff)
  next
    case 3
    with c ev show ?thesis using native_stop_tracks [OF t] r by (auto simp: contract_stop_iff)
  qed
qed

lemma policy_run_tracks:
  "tracks te cu s cd \<Longrightarrow> contract_run ae cu evs = Inr cu' \<Longrightarrow> policy_run py te evs s = (out, s')
   \<Longrightarrow> \<exists>cd'. contract_run ae cd out = Inr cd' \<and> tracks te cu' s' cd'"
proof (induction evs arbitrary: cu s cd out)
  case Nil
  then show ?case by simp
next
  case (Cons ev evs)
  obtain fs s1 where st: "policy_step py te ev s = (fs, s1)" by fastforce
  obtain gs where gs: "policy_run py te evs s1 = (gs, s')" and out: "out = fs @ gs"
    using Cons.prems(3) st by (auto split: prod.splits)
  obtain cu1 where c1: "contract_step ae cu ev = Inr cu1" and c2: "contract_run ae cu1 evs = Inr cu'"
    using Cons.prems(2) by (auto split: sum.splits)
  from policy_step_tracks [OF Cons.prems(1) c1 st]
  obtain cd1 where r1: "contract_run ae cd fs = Inr cd1" and t1: "tracks te cu1 s1 cd1" by blast
  from Cons.IH [OF t1 c2 gs] r1 out show ?case by (auto simp: contract_run_append)
qed

lemma policy_run_keeps_other:
  assumes "policy_run py te evs s = (out, s')" and "ev \<in> set evs" and "\<not> is_block_event (ev_name ev)"
  shows "ev \<in> set out"
  using assms
proof (induction evs arbitrary: s out)
  case Nil
  then show ?case by simp
next
  case (Cons e evs)
  obtain fs s1 where st: "policy_step py te e s = (fs, s1)" by fastforce
  obtain gs where gs: "policy_run py te evs s1 = (gs, s')" and out: "out = fs @ gs"
    using Cons.prems(1) st by (auto split: prod.splits)
  show ?case
  proof (cases "ev = e")
    case True
    with st policy_step_other [OF Cons.prems(3)] out show ?thesis by auto
  next
    case False
    with Cons gs out show ?thesis by auto
  qed
qed

lemma policy_run_last:
  assumes "policy_run py te evs s = (out, s')" and "evs \<noteq> []" and "\<not> is_block_event (ev_name (last evs))"
  shows "out \<noteq> [] \<and> last out = last evs"
  using assms
proof (induction evs arbitrary: s out)
  case Nil
  then show ?case by simp
next
  case (Cons e evs)
  obtain fs s1 where st: "policy_step py te e s = (fs, s1)" by fastforce
  obtain gs where gs: "policy_run py te evs s1 = (gs, s')" and out: "out = fs @ gs"
    using Cons.prems(1) st by (auto split: prod.splits)
  show ?case
  proof (cases "evs = []")
    case True
    with Cons.prems(3) st gs out show ?thesis by (auto simp: policy_step_other)
  next
    case False
    with Cons.IH [OF gs] Cons.prems(3) out show ?thesis by simp
  qed
qed

text \<open>Claim C5: when a native upstream stream satisfies the Anthropic stream contract (blocks may
  overlap), so does what the policy makes of it: every start has a fresh index, every delta and stop
  belongs to an open block of its kind, and all blocks end closed. Only when thinking is hidden may
  nothing be left to show.\<close>

theorem native_policy_keeps_contract:
  assumes "assert_anthropic_stream_contract evs ae = Inr ()"
  shows "assert_anthropic_stream_contract (fst (policy_run py te evs policy_init)) ae = Inr ()
    \<or> \<not> te \<and> assert_anthropic_stream_contract (fst (policy_run py te evs policy_init)) ae = Inl NoContentBlocks"
proof -
  obtain out s where r: "policy_run py te evs policy_init = (out, s)" by fastforce
  from assms obtain cu where ne: "evs \<noteq> []" and ms: "u ''message_start'' \<in> ev_name ` set evs"
    and la: "ev_name (last evs) = u ''message_stop''"
    and run: "contract_run ae contract_init evs = Inr cu"
    and closed: "cs_open_blocks cu = []" and seen: "cs_seen_blocks cu \<noteq> {}"
    by (auto simp: assert_anthropic_stream_contract_def last_map split: if_splits sum.splits)
  from policy_run_tracks [OF tracks_init run r]
  obtain cd where rd: "contract_run ae contract_init out = Inr cd" and t: "tracks te cu s cd" by blast
  from tracks_closed [OF t closed] have cl: "cs_open_blocks cd = []" .
  from tracksD(3,6) [OF t] seen have se: "te \<Longrightarrow> cs_seen_blocks cd \<noteq> {}" by auto
  from la have "\<not> is_block_event (ev_name (last evs))" by (simp add: is_block_event_def)
  from policy_run_last [OF r ne this] la have lo: "out \<noteq> []" "last (map ev_name out) = u ''message_stop''"
    by (auto simp: last_map)
  from ms obtain ev where ev: "ev \<in> set evs" "ev_name ev = u ''message_start''" by auto
  from policy_run_keeps_other [OF r ev(1)] ev(2) have "u ''message_start'' \<in> set (map ev_name out)"
    by (force simp: is_block_event_def)
  with lo rd cl r have "assert_anthropic_stream_contract out ae
      = (if cs_seen_blocks cd = {} then Inl NoContentBlocks else Inr ())"
    by (simp add: assert_anthropic_stream_contract_def)
  with se r show ?thesis by auto
qed

definition example_upstream :: "sse_event list" where
  "example_upstream =
     [SseEvent (u ''message_start'') [],
      content_block_start 7 (u ''text'') [], content_block_start 9 (u ''thinking'') [],
      content_block_delta 9 (u ''thinking_delta'') (u ''hm''),
      content_block_start 3 (u ''tool_use'') [],
      content_block_delta 7 (u ''text_delta'') (u ''late''),
      content_block_stop 9, content_block_stop 3, content_block_stop 7, message_stop]"

theorem native_policy_keeps_contract_witness:
  "assert_anthropic_stream_contract (fst (policy_run (\<lambda>_. []) False example_upstream policy_init)) False = Inr ()"
proof -
  have "assert_anthropic_stream_contract example_upstream False = Inr ()" by code_simp
  from native_policy_keeps_contract [OF this, of "\<lambda>_. []" False]
  have "assert_anthropic_stream_contract (fst (policy_run (\<lambda>_. []) False example_upstream policy_init)) False
      \<in> {Inr (), Inl NoContentBlocks}" by blast
  moreover have "assert_anthropic_stream_contract (fst (policy_run (\<lambda>_. []) False example_upstream policy_init)) False
      \<noteq> Inl NoContentBlocks" by code_simp
  ultimately show ?thesis by (elim insertE emptyE) simp_all
qed

section \<open>Hidden thinking\<close>

definition thinking_type :: "json \<Rightarrow> bool" where
  "thinking_type v \<longleftrightarrow> (case v of JStr t \<Rightarrow> contains t (u ''thinking'') | _ \<Rightarrow> False)"

text \<open>An event that shows thinking: a delta or the start of a block of a thinking type.\<close>

definition shows_thinking :: "sse_event \<Rightarrow> bool" where
  "shows_thinking ev \<longleftrightarrow>
     (ev_name ev = u ''content_block_delta''
        \<and> thinking_type (dget (obj_of (dget (ev_data ev) ''delta'')) ''type''))
     \<or> (ev_name ev = u ''content_block_start''
        \<and> thinking_type (dget (obj_of (dget (ev_data ev) ''content_block'')) ''type''))"


definition empty_thinking_start :: "sse_event \<Rightarrow> bool" where
  "empty_thinking_start ev \<longleftrightarrow>
     (case int_of (dget (ev_data ev) ''index'') of
        None \<Rightarrow> False
      | Some i \<Rightarrow> ev = synthetic_start i [(u ''type'', JStr (u ''thinking'')), (u ''thinking'', JStr [])])"



lemma no_thinking_types [simp]:
  "\<not> thinking_type (JStr (u ''text''))" "\<not> thinking_type (JStr (u ''tool_use''))" "\<not> thinking_type JNull"
  by code_simp+


lemma reindexed_shows [simp]:
  "shows_thinking (reindexed n d i) = shows_thinking (SseEvent (u n) d)"
  by (simp add: shows_thinking_def)



text \<open>Both cases occur.\<close>

definition unindexed_thinking :: sse_event where
  "unindexed_thinking = SseEvent (u ''content_block_delta'')
     [(u ''type'', JStr (u ''content_block_delta'')), (u ''index'', JStr (u ''0'')),
      (u ''delta'', JObj [(u ''type'', JStr (u ''thinking_delta'')), (u ''thinking'', JStr (u ''why''))])]"


lemma unindexed_thinking_is_shown:
  "shows_thinking unindexed_thinking \<and> fst (policy_run (\<lambda>_. []) False [unindexed_thinking] policy_init) = [unindexed_thinking]"
  by code_simp

lemma signature_opens_thinking:
  "list_ex empty_thinking_start (fst (policy_run (\<lambda>_. []) False
     [content_block_start 0 (u ''text'') [], content_block_start 1 (u ''tool_use'') [],
      content_block_delta 0 (u ''signature_delta'') (u ''s'')] policy_init))"
  by code_simp

section \<open>Event text and what a client reads\<close>

text \<open>A text that survives as one line: not empty, no white space at its ends, no line break. The
  output of \<open>json.dumps\<close> on an object is such a text.\<close>

definition clean_text :: "pystr \<Rightarrow> bool" where
  "clean_text s \<longleftrightarrow> s \<noteq> [] \<and> \<not> is_space (hd s) \<and> \<not> is_space (last s) \<and> list_all (\<lambda>c. \<not> is_linebreak c) s"

lemma lstrip_id: "s \<noteq> [] \<Longrightarrow> \<not> is_space (hd s) \<Longrightarrow> lstrip s = s"
  by (cases s) (simp_all add: lstrip_def)

lemma rstrip_id: "s \<noteq> [] \<Longrightarrow> \<not> is_space (last s) \<Longrightarrow> rstrip s = s"
  by (cases s rule: rev_cases) (simp_all add: rstrip_def)

lemma lstrip_space: "is_space c \<Longrightarrow> lstrip (c # s) = lstrip s"
  by (simp add: lstrip_def)

lemma rstrip_space: "is_space c \<Longrightarrow> rstrip (s @ [c]) = rstrip s"
  by (simp add: rstrip_def)

lemma space_codes [simp]: "is_space 32" "is_space 10" "is_linebreak 10" "is_linebreak 13" "\<not> is_linebreak 32"
  by (simp_all add: is_space_def is_linebreak_def)

lemma clean_strip: "clean_text s \<Longrightarrow> strip s = s" "clean_text s \<Longrightarrow> lstrip s = s"
  by (simp_all add: clean_text_def strip_def lstrip_id rstrip_id)

lemma splitlines_acc_line:
  "list_all (\<lambda>c. \<not> is_linebreak c) l \<Longrightarrow>
     splitlines_acc acc (l @ 10 # rest) = (rev acc @ l) # splitlines_acc [] rest"
  by (induction l arbitrary: acc) (auto split: list.splits)

lemma splitlines_line:
  "list_all (\<lambda>c. \<not> is_linebreak c) l \<Longrightarrow> splitlines (l @ 10 # rest) = l # splitlines rest"
  by (simp add: splitlines_def splitlines_acc_line)

lemma splitlines_acc_single:
  "list_all (\<lambda>c. \<not> is_linebreak c) l \<Longrightarrow> l \<noteq> [] \<or> acc \<noteq> [] \<Longrightarrow> splitlines_acc acc l = [rev acc @ l]"
  by (induction l arbitrary: acc) auto

lemma splitlines_single: "list_all (\<lambda>c. \<not> is_linebreak c) l \<Longrightarrow> l \<noteq> [] \<Longrightarrow> splitlines l = [l]"
  by (simp add: splitlines_def splitlines_acc_single)

lemma format_native_clean:
  assumes "clean_text name" and "clean_text data"
  shows "format_native_sse_event (Some name) data
    = (u ''event: '' @ name) @ 10 # (u ''data: '' @ data) @ [10, 10]"
  using assms by (simp add: format_native_sse_event_def clean_text_def splitlines_single)

lemma line_heads:
  "list_all (\<lambda>c. \<not> is_linebreak c) (u ''event: '')" "list_all (\<lambda>c. \<not> is_linebreak c) (u ''data: '')"
  by code_simp+

lemma event_line_parts:
  "drop 6 (u ''event: '') = [32]" "drop 5 (u ''data: '') = [32]"
  "startswith (u ''event: '' @ name) (u ''event:'')" "startswith (u ''data: '' @ data) (u ''data:'')"
  "\<not> startswith (u ''data: '' @ data) (u ''event:'')"
  by (simp_all add: u_def startswith_def)

lemma native_round:
  assumes n: "clean_text name" and d: "clean_text data"
  shows "parse_native_sse_event (format_native_sse_event (Some name) data) = (Some name, data)"
proof -
  let ?e = "u ''event: '' @ name" and ?d = "u ''data: '' @ data"
  have hd: "hd ?e = 101" "?e \<noteq> []" by (simp_all add: u_def)
  have la: "last ?d = last data" using d by (simp add: clean_text_def)
  have "strip ((?e @ 10 # ?d) @ [10] @ [10]) = ?e @ 10 # ?d"
  proof -
    have "lstrip ((?e @ 10 # ?d) @ [10] @ [10]) = (?e @ 10 # ?d @ [10]) @ [10]"
      using hd by (subst lstrip_id) (simp_all add: is_space_def u_def)
    moreover have "rstrip ((?e @ 10 # ?d @ [10]) @ [10]) = rstrip (?e @ 10 # ?d)"
      using rstrip_space [of 10 "?e @ 10 # ?d @ [10]"] rstrip_space [of 10 "?e @ 10 # ?d"] by simp
    moreover have "rstrip (?e @ 10 # ?d) = ?e @ 10 # ?d"
      using d la by (intro rstrip_id) (auto simp: clean_text_def)
    ultimately show ?thesis by (simp add: strip_def)
  qed
  then have "strip (format_native_sse_event (Some name) data) = ?e @ 10 # ?d"
    by (simp add: format_native_clean [OF n d])
  moreover have "splitlines (?e @ 10 # ?d) = [?e, ?d]"
    using n d line_heads by (subst splitlines_line) (auto simp: clean_text_def splitlines_single)
  moreover have "strip (32 # name) = name" "lstrip (32 # data) = data"
    using clean_strip [OF n] clean_strip [OF d] by (simp_all add: strip_def lstrip_space)
  ultimately show ?thesis
    by (simp add: parse_native_sse_event_def event_line_parts)
qed

text \<open>An event written by the policy is read back with its name and its data.\<close>

theorem native_event_roundtrip:
  assumes n: "clean_text name" and d: "clean_text data"
  shows "parse_native_sse_event (format_native_sse_event (Some name) data) = (Some name, data)"
  by (rule native_round [OF n d])

theorem native_event_roundtrip_witness:
  "parse_native_sse_event (format_native_sse_event (Some (u ''ping'')) (u ''{ 1 }'')) = (Some (u ''ping''), u ''{ 1 }'')"
proof -
  have "clean_text (u ''ping'')" "clean_text (u ''{ 1 }'')" by code_simp+
  then show ?thesis by (rule native_event_roundtrip)
qed

section \<open>What a client reads\<close>

text \<open>A frame whose name and whose data, as dumped, are clean and read back.\<close>

definition readable :: "(pystr \<Rightarrow> json option) \<Rightarrow> (json \<Rightarrow> pystr) \<Rightarrow> sse_event \<Rightarrow> bool" where
  "readable loads dumps ev \<longleftrightarrow>
     clean_text (ev_name ev) \<and> clean_text (dumps (JObj (ev_data ev)))
     \<and> loads (dumps (JObj (ev_data ev))) = Some (JObj (ev_data ev))"

lemma rstrip_crlf_clean: "l \<noteq> [] \<Longrightarrow> \<not> is_space (last l) \<Longrightarrow> rstrip_crlf l = l"
  by (cases l rule: rev_cases) (auto simp: rstrip_crlf_def is_space_def)

lemma after_colon_parts:
  "clean_text name \<Longrightarrow> after_colon (u ''event: '' @ name) = name"
  "clean_text data \<Longrightarrow> after_colon (u ''data: '' @ data) = data"
proof -
  have p: "partition_at (u ''event: '' @ name) (u '':'') = (u ''event'', u '':'', 32 # name)"
    "partition_at (u ''data: '' @ data) (u '':'') = (u ''data'', u '':'', 32 # data)"
    by (simp_all add: partition_at_def u_def)
  show "clean_text name \<Longrightarrow> after_colon (u ''event: '' @ name) = name"
    using clean_strip [of name] by (simp add: after_colon_def p strip_def lstrip_space)
  show "clean_text data \<Longrightarrow> after_colon (u ''data: '' @ data) = data"
    using clean_strip [of data] by (simp add: after_colon_def p strip_def lstrip_space)
qed

lemma parse_frame:
  assumes r: "readable loads dumps ev"
  shows "\<exists>raw. parse_sse_lines_loop loads (splitlines (frame_text dumps ev @ rest)) evs [] [] []
    = parse_sse_lines_loop loads (splitlines rest) (evs @ [(ev, raw)]) [] [] []"
proof -
  let ?n = "ev_name ev" and ?d = "dumps (JObj (ev_data ev))"
  from r have c: "clean_text ?n" "clean_text ?d" and l: "loads ?d = Some (JObj (ev_data ev))"
    by (simp_all add: readable_def)
  let ?en = "u ''event: '' @ ?n" and ?dn = "u ''data: '' @ ?d"
  have ft: "frame_text dumps ev @ rest = ?en @ 10 # (?dn @ 10 # ([] @ 10 # rest))"
    by (simp add: frame_text_def format_native_clean [OF c])
  have lb: "list_all (\<lambda>c. \<not> is_linebreak c) ?en" "list_all (\<lambda>c. \<not> is_linebreak c) ?dn"
    using c line_heads by (simp_all add: clean_text_def)
  have sl: "splitlines (frame_text dumps ev @ rest) = [?en, ?dn, []] @ splitlines rest"
    by (simp add: ft splitlines_line [OF lb(1)] splitlines_line [OF lb(2)] splitlines_line [of "[]", simplified]
        del: append_assoc append_Cons)
  have rs: "rstrip_crlf ?en = ?en" "rstrip_crlf ?dn = ?dn" "?en \<noteq> []" "?dn \<noteq> []"
    using c by (auto intro!: rstrip_crlf_clean simp: clean_text_def)
  have "rstrip_crlf [] = []" by (simp add: rstrip_crlf_def)
  with sl rs c l after_colon_parts(1) [OF c(1)] after_colon_parts(2) [OF c(2)] show ?thesis
    by (auto simp: event_line_parts append_event_def Let_def clean_text_def simp del: append_assoc)
qed

lemma parse_frames:
  "list_all (readable loads dumps) fs \<Longrightarrow>
     map fst (parse_sse_lines_loop loads (splitlines (concat (map (frame_text dumps) fs))) evs [] [] [])
     = map fst evs @ fs"
proof (induction fs arbitrary: evs)
  case Nil
  then show ?case by (simp add: splitlines_def append_event_def)
next
  case (Cons f fs)
  then have "readable loads dumps f" by simp
  from parse_frame [OF this, of "concat (map (frame_text dumps) fs)" evs] obtain raw
    where "parse_sse_lines_loop loads (splitlines (frame_text dumps f @ concat (map (frame_text dumps) fs))) evs [] [] []
      = parse_sse_lines_loop loads (splitlines (concat (map (frame_text dumps) fs))) (evs @ [(f, raw)]) [] [] []"
    by blast
  with Cons show ?case by simp
qed

lemma transform_text:
  assumes r: "readable loads dumps ev"
  shows "\<exists>out. transform_native_sse_block_event loads dumps py te (frame_text dumps ev) s
        = (Inr out, snd (policy_step py te ev s))
      \<and> (out = None \<and> fst (policy_step py te ev s) = []
         \<or> out = Some (concat (map (frame_text dumps) (fst (policy_step py te ev s)))))"
proof -
  let ?n = "ev_name ev" and ?d = "dumps (JObj (ev_data ev))"
  from r have c: "clean_text ?n" "clean_text ?d" and l: "loads ?d = Some (JObj (ev_data ev))"
    by (simp_all add: readable_def)
  have p: "parse_native_sse_event (frame_text dumps ev) = (Some ?n, ?d)"
    unfolding frame_text_def by (rule native_round [OF c])
  have ne: "?n \<noteq> []" "?d \<noteq> []" using c by (simp_all add: clean_text_def)
  obtain o' s' where st: "native_block_event py te ?n (ev_data ev) s = (o', s')" by fastforce
  define out where "out = (case o' of Unchanged \<Rightarrow> Some (frame_text dumps ev) | Dropped \<Rightarrow> None
      | Frames fs \<Rightarrow> Some (concat (map (frame_text dumps) fs)))"
  have other: "o' = Unchanged \<and> s' = s" if "\<not> is_block_event ?n"
    using that st by (auto simp: native_block_event_def is_block_event_def)
  have "transform_native_sse_block_event loads dumps py te (frame_text dumps ev) s = (Inr out, s')"
    using other by (auto simp: transform_native_sse_block_event_def p ne l st out_def split: native_out.splits)
  moreover have "s' = snd (policy_step py te ev s)"
    by (simp add: policy_step_def st split: native_out.splits)
  moreover have "out = None \<and> fst (policy_step py te ev s) = []
      \<or> out = Some (concat (map (frame_text dumps) (fst (policy_step py te ev s))))"
    by (cases o') (simp_all add: out_def policy_step_def st)
  ultimately show ?thesis by blast
qed

lemma parse_sse_frames:
  "list_all (readable loads dumps) fs \<Longrightarrow>
     map fst (parse_sse_text loads (concat (map (frame_text dumps) fs))) = fs"
  using parse_frames [of loads dumps fs "[]"] by (simp add: parse_sse_text_def parse_sse_lines_def)

text \<open>Claim C7: the transformation of an event's text does to the text what the policy does to the
  event: a client that parses the text let through reads the events of the policy step.\<close>

theorem transform_text_refines_step:
  assumes r: "readable loads dumps ev" and rs: "list_all (readable loads dumps) (fst (policy_step py te ev s))"
  shows "\<exists>out. transform_native_sse_block_event loads dumps py te (frame_text dumps ev) s
        = (Inr out, snd (policy_step py te ev s))
      \<and> map fst (parse_sse_text loads (case out of None \<Rightarrow> [] | Some t \<Rightarrow> t)) = fst (policy_step py te ev s)"
proof -
  from transform_text [OF r] obtain out
    where "transform_native_sse_block_event loads dumps py te (frame_text dumps ev) s
        = (Inr out, snd (policy_step py te ev s))"
      and "out = None \<and> fst (policy_step py te ev s) = []
         \<or> out = Some (concat (map (frame_text dumps) (fst (policy_step py te ev s))))" by blast
  with parse_sse_frames [OF rs] parse_sse_frames [of loads dumps "[]"] show ?thesis by auto
qed

theorem transform_text_refines_step_witness:
  "let ev = content_block_start 7 (u ''text'') [];
       dumps = (\<lambda>v. if v = JObj (ev_data ev) then u ''{7}'' else u ''{0}'');
       loads = (\<lambda>t. Some (JObj (ev_data (if t = u ''{7}'' then ev else content_block_start 0 (u ''text'') []))))
   in \<exists>t. transform_native_sse_block_event loads dumps (\<lambda>_. []) True (frame_text dumps ev) policy_init
          = (Inr t, snd (policy_step (\<lambda>_. []) True ev policy_init))
        \<and> map fst (parse_sse_text loads (case t of None \<Rightarrow> [] | Some t \<Rightarrow> t))
          = [content_block_start 0 (u ''text'') []]"
proof -
  define ev where "ev = content_block_start 7 (u ''text'') []"
  define dumps where "dumps = (\<lambda>v. if v = JObj (ev_data ev) then u ''{7}'' else u ''{0}'')"
  define loads where "loads = (\<lambda>t. Some (JObj (ev_data (if t = u ''{7}'' then ev else content_block_start 0 (u ''text'') []))))"
  have fs: "fst (policy_step (\<lambda>_. []) True ev policy_init) = [content_block_start 0 (u ''text'') []]"
    unfolding ev_def by code_simp
  have "readable loads dumps ev" unfolding loads_def dumps_def ev_def by code_simp
  moreover have "list_all (readable loads dumps) (fst (policy_step (\<lambda>_. []) True ev policy_init))"
    unfolding loads_def dumps_def ev_def by code_simp
  ultimately have "\<exists>t. transform_native_sse_block_event loads dumps (\<lambda>_. []) True (frame_text dumps ev) policy_init
        = (Inr t, snd (policy_step (\<lambda>_. []) True ev policy_init))
      \<and> map fst (parse_sse_text loads (case t of None \<Rightarrow> [] | Some t \<Rightarrow> t)) = [content_block_start 0 (u ''text'') []]"
    unfolding fs [symmetric] by (rule transform_text_refines_step)
  then show ?thesis unfolding Let_def loads_def dumps_def ev_def .
qed

end
