(* ===== verification/Native_Transport.thy ===== *)
theory Native_Transport
  imports Native_Policy
begin

text \<open>
  The transport of providers with a native Messages interface (\<open>providers/anthropic_messages.py\<close>,
  \<open>providers/open_router/client.py\<close>): upstream lines are grouped into events, transformed by the
  policy and passed on, and a tracker (\<open>core/anthropic/emitted_sse_tracker.py\<close>) reads what was passed
  on, so that a failure in the middle of a stream can close the open blocks and end the message. The
  upstream is an argument: the exception of the request, or the lines of the response and the
  exception it may break off with.
\<close>

section \<open>The tracker\<close>

text \<open>The last element of the stack is its top.\<close>

record tracker =
  tr_buf :: pystr
  tr_open_stack :: "int list"
  tr_max_index :: int
  tr_message_id :: "pystr option"
  tr_model :: pystr

definition tracker_init :: tracker where
  "tracker_init = \<lparr>tr_buf = [], tr_open_stack = [], tr_max_index = -1, tr_message_id = None, tr_model = []\<rparr>"

text \<open>\<open>event_index\<close> asserts that the index is an integer.\<close>

definition tracker_observe :: "sse_event \<Rightarrow> tracker \<Rightarrow> py_error + tracker" where
  "tracker_observe ev t =
     (if ev_name ev = u ''message_start'' then
        (case dget (ev_data ev) ''message'' of
           JObj message \<Rightarrow>
             (let t1 = (case dget message ''id'' of
                          JStr mid \<Rightarrow> if mid \<noteq> [] then t\<lparr>tr_message_id := Some mid\<rparr> else t
                        | _ \<Rightarrow> t)
              in Inr (case dget message ''model'' of
                        JStr model \<Rightarrow> if model \<noteq> [] then t1\<lparr>tr_model := model\<rparr> else t1
                      | _ \<Rightarrow> t1))
         | _ \<Rightarrow> Inr t)
      else if ev_name ev = u ''content_block_start'' then
        (case event_index ev of
           Inl _ \<Rightarrow> Inl AssertionError
         | Inr idx \<Rightarrow> Inr (t\<lparr>tr_max_index := max (tr_max_index t) idx,
                             tr_open_stack := tr_open_stack t @ [idx]\<rparr>))
      else if ev_name ev = u ''content_block_stop'' then
        (case event_index ev of
           Inl _ \<Rightarrow> Inl AssertionError
         | Inr idx \<Rightarrow>
             (if tr_open_stack t \<noteq> [] \<and> last (tr_open_stack t) = idx
              then Inr (t\<lparr>tr_open_stack := butlast (tr_open_stack t)\<rparr>)
              else Inr (t\<lparr>tr_open_stack := remove1 idx (tr_open_stack t)\<rparr>)))
      else Inr t)"

fun observe_all :: "sse_event list \<Rightarrow> tracker \<Rightarrow> py_error option \<times> tracker" where
  "observe_all [] t = (None, t)"
| "observe_all (ev # evs) t =
     (case tracker_observe ev t of
        Inl e \<Rightarrow> (Some e, t)
      | Inr t' \<Rightarrow> observe_all evs t')"

lemma tracker_observe_buf: "tracker_observe ev t = Inr t' \<Longrightarrow> tr_buf t' = tr_buf t"
  by (auto simp: tracker_observe_def Let_def split: json.splits sum.splits if_splits)

lemma observe_all_buf: "tr_buf (snd (observe_all evs t)) = tr_buf t"
  by (induction evs arbitrary: t) (auto simp: tracker_observe_buf split: sum.splits)

text \<open>The loop of \<open>feed\<close>: take the frames that are complete. The exception of an observation leaves
  the frame taken and the rest in the buffer.\<close>

definition frame_events :: "(pystr \<Rightarrow> json option) \<Rightarrow> pystr \<Rightarrow> sse_event list" where
  "frame_events loads frame = map fst (parse_sse_lines loads (splitlines frame))"

function feed_frames :: "(pystr \<Rightarrow> json option) \<Rightarrow> tracker \<Rightarrow> py_error option \<times> tracker" where
  "feed_frames loads t =
     (case find_sub [10, 10] (tr_buf t) of
        None \<Rightarrow> (None, t)
      | Some sep \<Rightarrow>
          (let frame = take sep (tr_buf t);
               t1 = t\<lparr>tr_buf := drop (sep + 2) (tr_buf t)\<rparr>
           in if strip frame = [] then feed_frames loads t1
              else (case observe_all (frame_events loads frame) t1 of
                      (Some e, t2) \<Rightarrow> (Some e, t2)
                    | (None, t2) \<Rightarrow> feed_frames loads t2)))"
  by pat_completeness auto

lemma find_sub_pair_shorter: "find_sub [a, b] s = Some n \<Longrightarrow> length (drop (n + 2) s) < length s"
  using find_sub_Some_split(2) [of "[a, b]" s n] by auto

termination feed_frames
proof (relation "measure (\<lambda>(loads, t). length (tr_buf t))", goal_cases)
  case 1
  then show ?case by simp
next
  case (2 loads t sep frame t1)
  then show ?case using find_sub_pair_shorter [of 10 10 "tr_buf t" sep] by simp
next
  case (3 loads t sep frame t1 o' t2)
  from 3(5,6) have "t2 = snd (observe_all (frame_events loads frame) t1)" by (metis snd_conv)
  then have "tr_buf t2 = tr_buf t1" by (simp only: observe_all_buf)
  with 3 show ?case using find_sub_pair_shorter [of 10 10 "tr_buf t" sep] by simp
qed

declare feed_frames.simps [simp del]

definition tracker_feed :: "(pystr \<Rightarrow> json option) \<Rightarrow> pystr \<Rightarrow> tracker \<Rightarrow> py_error option \<times> tracker" where
  "tracker_feed loads chunk t = feed_frames loads (t\<lparr>tr_buf := tr_buf t @ chunk\<rparr>)"

definition next_content_index :: "tracker \<Rightarrow> int" where
  "next_content_index t = tr_max_index t + 1"

text \<open>The stops of the blocks left open, the top of the stack first.\<close>

definition iter_close_unclosed_blocks :: "tracker \<Rightarrow> sse_event list \<times> tracker" where
  "iter_close_unclosed_blocks t =
     (map content_block_stop (rev (tr_open_stack t)), t\<lparr>tr_open_stack := []\<rparr>)"

text \<open>An error in a text block of its own, then the end of the message.\<close>

definition error_message_end :: "pystr \<Rightarrow> sse_builder \<Rightarrow> sse_event list" where
  "error_message_end error_message sb =
     (case emit_error error_message sb of
        (events, _, sb') \<Rightarrow> events @ [message_delta sb' (u ''end_turn'') (JInt 1), message_stop])"

definition iter_midstream_error_tail :: "pystr \<Rightarrow> pystr \<Rightarrow> pystr \<Rightarrow> json \<Rightarrow> tracker \<Rightarrow> sse_event list" where
  "iter_midstream_error_tail new_id error_message request_model input_tokens t =
     (let mid = (case tr_message_id t of None \<Rightarrow> new_id | Some m \<Rightarrow> m);
          model = (if tr_model t \<noteq> [] then tr_model t else request_model);
          sb = sse_builder_init mid model input_tokens
      in error_message_end error_message
           (upd_blocks (\<lambda>b. b\<lparr>bm_next_index := next_content_index t\<rparr>) sb))"

definition iter_provider_stream_error_sse_events ::
  "pystr \<Rightarrow> pystr \<Rightarrow> pystr \<Rightarrow> json \<Rightarrow> bool \<Rightarrow> sse_event list" where
  "iter_provider_stream_error_sse_events mid error_message request_model input_tokens sent_any_event =
     (let sb = sse_builder_init mid request_model input_tokens
      in (if \<not> sent_any_event then [message_start sb] else []) @ error_message_end error_message sb)"

section \<open>Lines, events and chunks\<close>

text \<open>\<open>complete\<close> tells whether the response ended; when it breaks off, the lines of an unfinished
  event are lost.\<close>

fun iter_sse_events :: "pystr list \<Rightarrow> pystr list \<Rightarrow> bool \<Rightarrow> pystr list" where
  "iter_sse_events [] event_lines complete =
     (if complete \<and> event_lines \<noteq> [] then [join [10] event_lines @ [10, 10]] else [])"
| "iter_sse_events (line # lines) event_lines complete =
     (if line \<noteq> [] then iter_sse_events lines (event_lines @ [line]) complete
      else if event_lines \<noteq> []
      then (join [10] event_lines @ [10, 10]) # iter_sse_events lines [] complete
      else iter_sse_events lines [] complete)"

text \<open>\<open>s.splitlines(keepends=True)\<close>.\<close>

fun keep_lines :: "pystr \<Rightarrow> pystr \<Rightarrow> pystr list" where
  "keep_lines acc [] = (if acc = [] then [] else [rev acc])"
| "keep_lines acc (c # cs) =
     (if is_linebreak c then
        (case cs of
           [] \<Rightarrow> [rev (c # acc)]
         | d # ds \<Rightarrow> if c = 13 \<and> d = 10 then rev (d # c # acc) # keep_lines [] ds
                    else rev (c # acc) # keep_lines [] (d # ds))
      else keep_lines (c # acc) cs)"

lemma concat_keep_lines: "concat (keep_lines acc s) = rev acc @ s"
  by (induction acc s rule: keep_lines.induct) (auto split: list.splits)

text \<open>The two transports: the line-mode base class and OpenRouter's subclass.\<close>

datatype native_kind = LineMode | OpenRouter

record native_env =
  nv_kind :: native_kind
  nv_loads :: "pystr \<Rightarrow> json option"
  nv_dumps :: "json \<Rightarrow> pystr"
  nv_py_str :: "json \<Rightarrow> pystr"
  nv_upper :: "pystr \<Rightarrow> pystr"
  nv_lower :: "pystr \<Rightarrow> pystr"
  nv_text_of :: "py_error \<Rightarrow> pystr"
  nv_thinking_enabled :: bool
  nv_provider_name :: pystr
  nv_read_timeout :: "pystr option"
  nv_request_id :: "pystr option"
  nv_model :: pystr
  nv_input_tokens :: json
  nv_new_id :: pystr

definition openrouter_transform ::
  "native_env \<Rightarrow> pystr \<Rightarrow> policy \<Rightarrow> (py_error + pystr option) \<times> policy" where
  "openrouter_transform en event st =
     (case parse_native_sse_event event of
        (event_name, data_text) \<Rightarrow>
          if np_message_stopped st \<or> is_terminal_openrouter_done_event (nv_upper en) event_name data_text
          then (Inr None, st)
          else transform_native_sse_block_event (nv_loads en) (nv_dumps en) (nv_py_str en)
                 (nv_thinking_enabled en) event
                 (if event_name = Some (u ''message_stop'') then st\<lparr>np_message_stopped := True\<rparr> else st))"

definition transform_stream_event ::
  "native_env \<Rightarrow> pystr \<Rightarrow> policy \<Rightarrow> (py_error + pystr option) \<times> policy" where
  "transform_stream_event en event st =
     (case nv_kind en of
        LineMode \<Rightarrow> transform_native_sse_block_event (nv_loads en) (nv_dumps en) (nv_py_str en)
                      (nv_thinking_enabled en) event st
      | OpenRouter \<Rightarrow> openrouter_transform en event st)"

definition chunks_of :: "native_kind \<Rightarrow> pystr \<Rightarrow> pystr list" where
  "chunks_of kind output_event =
     (case kind of LineMode \<Rightarrow> keep_lines [] output_event | OpenRouter \<Rightarrow> [output_event])"

definition format_error_message :: "native_kind \<Rightarrow> pystr \<Rightarrow> pystr option \<Rightarrow> pystr" where
  "format_error_message kind base_message request_id =
     (case kind of
        LineMode \<Rightarrow>
          (case request_id of
             None \<Rightarrow> base_message
           | Some r \<Rightarrow> if r = [] then base_message else base_message @ [10] @ u ''Request ID: '' @ r)
      | OpenRouter \<Rightarrow> append_request_id base_message request_id)"

definition native_error_message :: "native_env \<Rightarrow> py_error \<Rightarrow> pystr" where
  "native_error_message en e =
     format_error_message (nv_kind en)
       (user_visible_message_for_mapped_provider_error
          (fst (map_error (nv_lower en) (exn_of (nv_text_of en) e)))
          (nv_provider_name en) (nv_read_timeout en))
       (nv_request_id en)"

section \<open>The stream\<close>

record native_stream =
  ns_policy :: policy
  ns_tracker :: tracker
  ns_sent_any_event :: bool

definition native_stream_init :: native_stream where
  "native_stream_init = \<lparr>ns_policy = policy_init, ns_tracker = tracker_init, ns_sent_any_event = False\<rparr>"

definition feed_chunk :: "native_env \<Rightarrow> pystr \<Rightarrow> (pystr, native_stream, unit) gen" where
  "feed_chunk en chunk s =
     (case tracker_feed (nv_loads en) chunk (ns_tracker s) of
        (None, t) \<Rightarrow> ([], Inr (), s\<lparr>ns_tracker := t\<rparr>)
      | (Some e, t) \<Rightarrow> ([], Inl e, s\<lparr>ns_tracker := t\<rparr>))"

definition emit_chunk :: "native_env \<Rightarrow> pystr \<Rightarrow> (pystr, native_stream, unit) gen" where
  "emit_chunk en chunk =
     gseq (gmod (\<lambda>s. s\<lparr>ns_sent_any_event := True\<rparr>))
       (gseq (feed_chunk en chunk) (gyield (\<lambda>s. (chunk, s))))"

definition transform_event :: "native_env \<Rightarrow> pystr \<Rightarrow> (pystr, native_stream, pystr option) gen" where
  "transform_event en event s =
     (case transform_stream_event en event (ns_policy s) of
        (r, st) \<Rightarrow> ([], r, s\<lparr>ns_policy := st\<rparr>))"

definition emit_event :: "native_env \<Rightarrow> pystr \<Rightarrow> (pystr, native_stream, unit) gen" where
  "emit_event en event =
     gbind (transform_event en event) (\<lambda>out.
       case out of
         None \<Rightarrow> gret ()
       | Some output_event \<Rightarrow> gfor (chunks_of (nv_kind en) output_event) (emit_chunk en))"

type_synonym native_upstream = "exn + pystr list \<times> exn option"

definition native_body :: "native_env \<Rightarrow> native_upstream \<Rightarrow> (pystr, native_stream, unit) gen" where
  "native_body en up =
     (case up of
        Inl e \<Rightarrow> graise (Upstream e)
      | Inr (lines, broke) \<Rightarrow>
          gseq (gfor (iter_sse_events lines [] (broke = None)) (emit_event en))
            (case broke of None \<Rightarrow> gret () | Some e \<Rightarrow> graise (Upstream e)))"

text \<open>What the handler yields, as events.\<close>

definition native_error_events :: "native_env \<Rightarrow> pystr \<Rightarrow> native_stream \<Rightarrow> sse_event list" where
  "native_error_events en error_message s =
     (if ns_sent_any_event s
      then fst (iter_close_unclosed_blocks (ns_tracker s))
           @ iter_midstream_error_tail (nv_new_id en) error_message (nv_model en) (nv_input_tokens en)
               (snd (iter_close_unclosed_blocks (ns_tracker s)))
      else iter_provider_stream_error_sse_events (nv_new_id en) error_message (nv_model en)
             (nv_input_tokens en) False)"

definition native_error_path :: "native_env \<Rightarrow> py_error \<Rightarrow> (pystr, native_stream, unit) gen" where
  "native_error_path en e s =
     (map (format_sse_event (nv_dumps en)) (native_error_events en (native_error_message en e) s), Inr (),
      s\<lparr>ns_tracker := snd (iter_close_unclosed_blocks (ns_tracker s))\<rparr>)"

definition native_stream_response ::
  "native_env \<Rightarrow> native_upstream \<Rightarrow> pystr list \<times> (py_error + unit) \<times> native_stream" where
  "native_stream_response en up = gtry (native_body en up) (native_error_path en) native_stream_init"

section \<open>What the tracker knows\<close>

text \<open>The stack holds the blocks the contract automaton has open, and no index seen is greater than
  the maximum.\<close>

definition tracker_ok :: "tracker \<Rightarrow> contract_state \<Rightarrow> bool" where
  "tracker_ok t c \<longleftrightarrow>
     distinct (tr_open_stack t) \<and> set (tr_open_stack t) = dom (map_of (cs_open_blocks c))
     \<and> dom (map_of (cs_open_blocks c)) \<subseteq> cs_seen_blocks c
     \<and> (\<forall>i \<in> cs_seen_blocks c. i \<le> tr_max_index t)"

lemma tracker_ok_init: "tracker_ok tracker_init contract_init"
  by (simp add: tracker_ok_def tracker_init_def contract_init_def)

lemma set_pop: "distinct xs \<Longrightarrow> xs \<noteq> [] \<Longrightarrow> set (butlast xs) = set xs - {last xs}"
  by (cases xs rule: rev_cases) auto

lemma tracker_observe_ok:
  assumes t: "tracker_ok t c" and c: "contract_step ae c ev = Inr c'"
  shows "\<exists>t'. tracker_observe ev t = Inr t' \<and> tracker_ok t' c'"
proof -
  obtain n d where ev: "ev = SseEvent n d" by (cases ev)
  consider "n = u ''content_block_start''" | "n = u ''content_block_stop''"
    | "n = u ''content_block_delta''" | "\<not> is_block_event n"
    by (auto simp: is_block_event_def)
  then show ?thesis
  proof cases
    case 1
    with c ev obtain i k where i: "int_of (dget d ''index'') = Some i" "i \<notin> cs_seen_blocks c"
      and c': "c' = open_block i k c" by (auto simp: contract_start_iff)
    then have "i \<notin> set (tr_open_stack t)" using t by (auto simp: tracker_ok_def)
    with 1 ev i t c' show ?thesis
      by (auto simp: tracker_observe_def event_index_def tracker_ok_def open_block_def)
  next
    case 2
    with c ev obtain i where i: "int_of (dget d ''index'') = Some i" and c': "c' = close_block i c"
      by (auto simp: contract_stop_iff)
    with 2 ev i t c' show ?thesis
      by (auto simp: tracker_observe_def event_index_def tracker_ok_def close_block_def set_pop
          distinct_butlast)
  next
    case 3
    with c ev have "c' = c" by (auto simp: contract_delta_iff)
    with 3 ev t show ?thesis by (simp add: tracker_observe_def)
  next
    case 4
    then have nb: "\<not> is_block_event (ev_name ev)" using ev by simp
    from contract_stepD(1) [OF c nb] have c': "c' = c" .
    show ?thesis
    proof (cases "n = u ''message_start''")
      case True
      with ev t c' show ?thesis
        by (auto simp: tracker_observe_def tracker_ok_def Let_def split: json.splits)
    next
      case False
      with 4 ev t c' show ?thesis by (auto simp: tracker_observe_def is_block_event_def)
    qed
  qed
qed

lemma observe_all_ok:
  "tracker_ok t c \<Longrightarrow> contract_run ae c evs = Inr c' \<Longrightarrow>
     \<exists>t'. observe_all evs t = (None, t') \<and> tracker_ok t' c'"
proof (induction evs arbitrary: t c)
  case Nil
  then show ?case by simp
next
  case (Cons ev evs)
  then obtain c1 where "contract_step ae c ev = Inr c1" and r: "contract_run ae c1 evs = Inr c'"
    by (auto split: sum.splits)
  with tracker_observe_ok [OF Cons.prems(1)] obtain t1 where "tracker_observe ev t = Inr t1" "tracker_ok t1 c1"
    by blast
  with Cons.IH [OF _ r] show ?case by auto
qed

section \<open>Ending a broken stream\<close>

lemma close_all_open:
  "distinct xs \<Longrightarrow> set xs = dom (map_of (cs_open_blocks c)) \<Longrightarrow>
     \<exists>c'. contract_run ae c (map content_block_stop xs) = Inr c' \<and> cs_open_blocks c' = []
       \<and> cs_seen_blocks c' = cs_seen_blocks c"
proof (induction xs arbitrary: c)
  case Nil
  then have "cs_open_blocks c = []" by (intro map_of_all_None) auto
  then show ?case by simp
next
  case (Cons x xs)
  then have "x \<in> dom (map_of (cs_open_blocks c))" by (metis list.set_intros(1))
  then have "has_key (cs_open_blocks c) x" by (auto simp: has_key_def)
  then have st: "contract_step ae c (content_block_stop x) = Inr (close_block x c)"
    by (simp add: contract_stop close_block_def)
  have "set xs = dom (map_of (cs_open_blocks (close_block x c)))"
    using Cons.prems by (auto simp: close_block_def)
  with Cons.prems(1) obtain c' where "contract_run ae (close_block x c) (map content_block_stop xs) = Inr c'"
    "cs_open_blocks c' = []" "cs_seen_blocks c' = cs_seen_blocks (close_block x c)"
    using Cons.IH [of "close_block x c"] by (metis distinct.simps(2))
  with st show ?case by simp
qed

lemma error_message_end_run:
  assumes "cs_open_blocks c = []" and "bm_next_index (sb_blocks sb) \<notin> cs_seen_blocks c"
  shows "\<exists>c'. contract_run True c (error_message_end msg sb) = Inr c' \<and> cs_open_blocks c' = []
    \<and> cs_seen_blocks c' \<noteq> {}"
  using assms
  by (auto simp: error_message_end_def emit_error_def allocate_index_def event_simps has_key_def
      no_delta_block_kinds_def server_tool_use_def web_search_tool_result_def web_fetch_tool_result_def
      split: prod.splits)

lemma error_message_end_last: "error_message_end msg sb \<noteq> []" "last (error_message_end msg sb) = message_stop"
  by (simp_all add: error_message_end_def split: prod.splits)

text \<open>The events of the error path after events the automaton accepted.\<close>

lemma midstream_end_run:
  assumes t: "tracker_ok t c"
  shows "\<exists>c'. contract_run True c (fst (iter_close_unclosed_blocks t)
        @ iter_midstream_error_tail new_id msg model toks (snd (iter_close_unclosed_blocks t))) = Inr c'
      \<and> cs_open_blocks c' = [] \<and> cs_seen_blocks c' \<noteq> {}"
proof -
  obtain c1 where c1: "contract_run True c (map content_block_stop (rev (tr_open_stack t))) = Inr c1"
    "cs_open_blocks c1 = []" "cs_seen_blocks c1 = cs_seen_blocks c"
    using close_all_open [of "rev (tr_open_stack t)" c True] t by (auto simp: tracker_ok_def)
  have "next_content_index t \<notin> cs_seen_blocks c"
    using t by (force simp: tracker_ok_def next_content_index_def)
  with c1 error_message_end_run [OF c1(2)] show ?thesis
    by (simp add: iter_close_unclosed_blocks_def iter_midstream_error_tail_def Let_def upd_blocks_def
        contract_run_append next_content_index_def)
qed

section \<open>Feeding text\<close>

lemma find_sub_append: "find_sub p x = Some n \<Longrightarrow> find_sub p (x @ y) = Some n"
proof (induction x arbitrary: n)
  case Nil
  then show ?case by (cases y) (auto split: if_splits)
next
  case (Cons a x)
  show ?case
  proof (cases "prefix p (a # x)")
    case True
    then have "prefix p ((a # x) @ y)" by (rule prefix_prefix)
    with True Cons.prems show ?thesis by simp
  next
    case False
    with Cons.prems obtain m where m: "find_sub p x = Some m" "n = Suc m" by auto
    from find_sub_Some_split(2) [OF m(1)] have "length p \<le> length (a # x)" by simp
    with False have "\<not> prefix p ((a # x) @ y)" by (meson prefixI prefix_length_prefix)
    with m Cons.IH show ?thesis by simp
  qed
qed

text \<open>Feeding in pieces is feeding at once: text added behind the buffer does not change the frames
  already complete.\<close>

lemma tracker_eta [simp]: "(t::tracker)\<lparr>tr_buf := tr_buf t\<rparr> = t"
  by simp

lemma observe_buf_irrelevant:
  "tracker_observe ev (t\<lparr>tr_buf := b\<rparr>) = map_sum id (\<lambda>t. t\<lparr>tr_buf := b\<rparr>) (tracker_observe ev t)"
  by (simp add: tracker_observe_def Let_def split: json.splits sum.splits)

lemma observe_all_buf_irrelevant:
  "observe_all evs (t\<lparr>tr_buf := b\<rparr>) = map_prod id (\<lambda>t. t\<lparr>tr_buf := b\<rparr>) (observe_all evs t)"
  by (induction evs arbitrary: t) (auto simp: observe_buf_irrelevant split: sum.splits)

lemma feed_frames_append:
  "feed_frames loads (t\<lparr>tr_buf := tr_buf t @ y\<rparr>) =
     (case feed_frames loads t of
        (Some e, t1) \<Rightarrow> (Some e, t1\<lparr>tr_buf := tr_buf t1 @ y\<rparr>)
      | (None, t1) \<Rightarrow> feed_frames loads (t1\<lparr>tr_buf := tr_buf t1 @ y\<rparr>))"
proof (induction loads t rule: feed_frames.induct)
  case (1 loads t)
  show ?case
  proof (cases "find_sub [10, 10] (tr_buf t)")
    case None
    then show ?thesis by (simp add: feed_frames.simps [of loads t])
  next
    case (Some sep)
    let ?frame = "take sep (tr_buf t)" and ?t1 = "t\<lparr>tr_buf := drop (sep + 2) (tr_buf t)\<rparr>"
    have sep: "sep + 2 \<le> length (tr_buf t)" using find_sub_Some_split(2) [OF Some] by simp
    have big: "find_sub [10, 10] (tr_buf t @ y) = Some sep" by (rule find_sub_append [OF Some])
    have drop: "drop (sep + 2) (tr_buf t @ y) = drop (sep + 2) (tr_buf t) @ y"
      and take: "take sep (tr_buf t @ y) = ?frame"
      and le: "sep - length (tr_buf t) = 0" "Suc (Suc sep) - length (tr_buf t) = 0"
      using sep by simp_all
    show ?thesis
    proof (cases "strip ?frame = []")
      case True
      with 1(1) [OF Some refl refl True] show ?thesis
        using Some big drop take le
        by (simp add: feed_frames.simps [of loads t] feed_frames.simps [of loads "t\<lparr>tr_buf := tr_buf t @ y\<rparr>"] Let_def)
    next
      case False
      obtain r t2 where o: "observe_all (frame_events loads ?frame) ?t1 = (r, t2)" by fastforce
      have b2: "tr_buf t2 = tr_buf ?t1" using observe_all_buf [of "frame_events loads ?frame" ?t1] o by simp
      have o': "observe_all (frame_events loads ?frame) (t\<lparr>tr_buf := drop (sep + 2) (tr_buf t) @ y\<rparr>)
          = (r, t2\<lparr>tr_buf := tr_buf t2 @ y\<rparr>)"
        using observe_all_buf_irrelevant [where evs = "frame_events loads ?frame" and t = ?t1
            and b = "drop (sep + 2) (tr_buf t) @ y"] o b2
        by simp
      show ?thesis
      proof (cases r)
        case None
        from o None have on: "observe_all (frame_events loads ?frame) ?t1 = (None, t2)" by simp
        have ih: "feed_frames loads (t2\<lparr>tr_buf := tr_buf t2 @ y\<rparr>) =
            (case feed_frames loads t2 of
               (Some e, t1) \<Rightarrow> (Some e, t1\<lparr>tr_buf := tr_buf t1 @ y\<rparr>)
             | (None, t1) \<Rightarrow> feed_frames loads (t1\<lparr>tr_buf := tr_buf t1 @ y\<rparr>))"
          by (rule 1(2) [OF Some refl refl False]) (use on in simp_all)
        show ?thesis using ih Some big drop take le False o o' None
          by (simp add: feed_frames.simps [of loads t] feed_frames.simps [of loads "t\<lparr>tr_buf := tr_buf t @ y\<rparr>"] Let_def)
      next
        case (Some e)
        with \<open>find_sub [10, 10] (tr_buf t) = Some sep\<close> big drop take le False o o' show ?thesis
          by (simp add: feed_frames.simps [of loads t] feed_frames.simps [of loads "t\<lparr>tr_buf := tr_buf t @ y\<rparr>"] Let_def)
      qed
    qed
  qed
qed

lemma tracker_feed_append:
  "tracker_feed loads (x @ y) t =
     (case tracker_feed loads x t of
        (Some e, t1) \<Rightarrow> (Some e, t1\<lparr>tr_buf := tr_buf t1 @ y\<rparr>)
      | (None, t1) \<Rightarrow> tracker_feed loads y t1)"
  using feed_frames_append [of loads "t\<lparr>tr_buf := tr_buf t @ x\<rparr>" y]
  by (simp add: tracker_feed_def split: prod.splits option.splits)

section \<open>The tracker on the text of events\<close>

lemma find_pair_skip:
  "10 \<notin> set xs \<Longrightarrow> find_sub [10, 10] (xs @ ys) = map_option (\<lambda>n. length xs + n) (find_sub [10, 10] ys)"
proof (induction xs)
  case Nil
  then show ?case by (simp add: option.map_ident)
next
  case (Cons x xs)
  then show ?case by (simp add: option.map_comp comp_def)
qed

lemma clean_no_newline: "clean_text s \<Longrightarrow> 10 \<notin> set s"
  by (auto simp: clean_text_def list_all_iff)

text \<open>The two lines of an event's text.\<close>

definition name_line :: "sse_event \<Rightarrow> pystr" where
  "name_line ev = u ''event: '' @ ev_name ev"

definition data_line :: "(json \<Rightarrow> pystr) \<Rightarrow> sse_event \<Rightarrow> pystr" where
  "data_line dumps ev = u ''data: '' @ dumps (JObj (ev_data ev))"

lemma readable_clean: "readable loads dumps ev \<Longrightarrow> clean_text (ev_name ev)"
  "readable loads dumps ev \<Longrightarrow> clean_text (dumps (JObj (ev_data ev)))"
  by (simp_all add: readable_def)

lemma frame_text_lines:
  assumes "readable loads dumps ev"
  shows "frame_text dumps ev = (name_line ev @ 10 # data_line dumps ev) @ [10, 10]"
    and "10 \<notin> set (name_line ev)" and "10 \<notin> set (data_line dumps ev)"
    and "list_all (\<lambda>c. \<not> is_linebreak c) (name_line ev)"
    and "list_all (\<lambda>c. \<not> is_linebreak c) (data_line dumps ev)"
    and "name_line ev \<noteq> []" and "data_line dumps ev \<noteq> []" and "hd (data_line dumps ev) = 100"
  using readable_clean [OF assms] clean_no_newline line_heads
  by (simp_all add: frame_text_def format_native_clean name_line_def data_line_def clean_text_def u_def)

lemma frame_format:
  assumes "readable loads dumps ev"
  shows "format_sse_event dumps ev = frame_text dumps ev"
  using frame_text_lines(1) [OF assms] by (simp add: format_sse_event_def name_line_def data_line_def)

lemma frame_events_frame:
  assumes r: "readable loads dumps ev"
  shows "frame_events loads (name_line ev @ 10 # data_line dumps ev) = [ev]"
proof -
  note f = frame_text_lines [OF r] and c = readable_clean [OF r]
  have l: "loads (dumps (JObj (ev_data ev))) = Some (JObj (ev_data ev))" using r by (simp add: readable_def)
  have "splitlines (name_line ev @ 10 # data_line dumps ev) = [name_line ev, data_line dumps ev]"
    using f by (simp add: splitlines_line splitlines_single)
  moreover have "rstrip_crlf (name_line ev) = name_line ev" "rstrip_crlf (data_line dumps ev) = data_line dumps ev"
    using c f by (auto intro!: rstrip_crlf_clean simp: clean_text_def name_line_def data_line_def)
  ultimately show ?thesis
    using f(6,7) c l after_colon_parts(1) [OF c(1)] after_colon_parts(2) [OF c(2)]
    by (simp add: frame_events_def parse_sse_lines_def name_line_def data_line_def event_line_parts
        append_event_def Let_def clean_text_def)
qed

lemma feed_frame:
  assumes r: "readable loads dumps ev" and b: "tr_buf t = []" and o: "tracker_observe ev t = Inr t'"
  shows "tracker_feed loads (frame_text dumps ev) t = (None, t') \<and> tr_buf t' = []"
proof -
  note f = frame_text_lines [OF r]
  let ?f = "name_line ev @ 10 # data_line dumps ev"
  have b': "tr_buf t' = []" using tracker_observe_buf [OF o] b by simp
  obtain d ds where d: "data_line dumps ev = d # ds" "d \<noteq> 10"
    using f(7,8) by (cases "data_line dumps ev") auto
  have "find_sub [10, 10] (data_line dumps ev @ [10, 10]) = Some (length (data_line dumps ev))"
    using find_pair_skip [OF f(3), of "[10, 10]"] by simp
  then have "find_sub [10, 10] (10 # data_line dumps ev @ [10, 10]) = Some (Suc (length (data_line dumps ev)))"
    using d by simp
  then have fs: "find_sub [10, 10] (?f @ [10, 10]) = Some (length ?f)"
    using find_pair_skip [OF f(2), of "10 # data_line dumps ev @ [10, 10]"] by simp
  have "\<not> is_space (hd ?f)" "?f \<noteq> []" by (simp_all add: name_line_def u_def is_space_def)
  then have ns: "strip ?f \<noteq> []"
    by (simp add: strip_def lstrip_id) (auto simp: rstrip_def dropWhile_eq_Nil_conv name_line_def u_def is_space_def)
  have t0: "t\<lparr>tr_buf := []\<rparr> = t" using b by (metis tracker_eta)
  have ft: "t\<lparr>tr_buf := tr_buf t @ frame_text dumps ev\<rparr> = t\<lparr>tr_buf := ?f @ [10, 10]\<rparr>" using b f(1) by simp
  have fe: "find_sub [10, 10] (tr_buf t') = None" by (simp add: b')
  have "feed_frames loads (t\<lparr>tr_buf := ?f @ [10, 10]\<rparr>) = (None, t')"
    using fs ns t0 o fe frame_events_frame [OF r]
    by (subst feed_frames.simps) (simp add: Let_def feed_frames.simps [of loads t'] del: append_assoc append_Cons)
  with b' ft show ?thesis by (simp add: tracker_feed_def)
qed

lemma feed_frames_text:
  "list_all (readable loads dumps) fs \<Longrightarrow> tr_buf t = [] \<Longrightarrow> observe_all fs t = (None, t') \<Longrightarrow>
     tracker_feed loads (concat (map (frame_text dumps) fs)) t = (None, t') \<and> tr_buf t' = []"
proof (induction fs arbitrary: t)
  case Nil
  then have "t\<lparr>tr_buf := []\<rparr> = t" by (metis tracker_eta)
  with Nil show ?case by (simp add: tracker_feed_def feed_frames.simps)
next
  case (Cons f fs)
  then obtain t1 where o: "tracker_observe f t = Inr t1" "observe_all fs t1 = (None, t')"
    by (auto split: sum.splits)
  with feed_frame [of loads dumps f t t1] Cons.prems
  have f: "tracker_feed loads (frame_text dumps f) t = (None, t1)" "tr_buf t1 = []" by auto
  from Cons.IH [OF _ f(2) o(2)] Cons.prems(1) f(1) show ?case by (simp add: tracker_feed_append)
qed

section \<open>The stream\<close>

text \<open>No complete frame waits in the buffer.\<close>

definition idle :: "tracker \<Rightarrow> bool" where
  "idle t \<longleftrightarrow> find_sub [10, 10] (tr_buf t) = None"

lemma feed_frames_idle: "feed_frames loads t = (None, t') \<Longrightarrow> idle t'"
proof (induction loads t rule: feed_frames.induct)
  case (1 loads t)
  show ?case
  proof (cases "find_sub [10, 10] (tr_buf t)")
    case None
    with 1(3) show ?thesis by (simp add: idle_def feed_frames.simps [of loads t])
  next
    case (Some sep)
    with 1 show ?thesis
      by (auto simp: feed_frames.simps [of loads t] Let_def split: if_splits prod.splits option.splits)
  qed
qed

lemma feed_idle: "idle t \<Longrightarrow> tracker_feed loads [] t = (None, t)"
  by (simp add: tracker_feed_def feed_frames.simps idle_def)

lemma emit_chunks_run:
  "idle (ns_tracker s) \<Longrightarrow> tracker_feed (nv_loads en) (concat chunks) (ns_tracker s) = (None, t) \<Longrightarrow>
     gfor chunks (emit_chunk en) s
     = (chunks, Inr (), s\<lparr>ns_tracker := t, ns_sent_any_event := ns_sent_any_event s \<or> chunks \<noteq> []\<rparr>)"
proof (induction chunks arbitrary: s)
  case Nil
  then show ?case by (simp add: gret_def feed_idle)
next
  case (Cons c cs)
  then obtain t1 where f: "tracker_feed (nv_loads en) c (ns_tracker s) = (None, t1)"
    "tracker_feed (nv_loads en) (concat cs) t1 = (None, t)"
    by (auto simp: tracker_feed_append split: prod.splits option.splits)
  have i: "idle t1" using f(1) feed_frames_idle by (auto simp: tracker_feed_def)
  let ?s = "s\<lparr>ns_sent_any_event := True, ns_tracker := t1\<rparr>"
  have "emit_chunk en c s = ([c], Inr (), ?s)"
    using f(1) by (simp add: emit_chunk_def gen_unfold feed_chunk_def)
  moreover have "gfor cs (emit_chunk en) ?s = (cs, Inr (), ?s\<lparr>ns_tracker := t\<rparr>)"
    using Cons.IH [of ?s] f(2) i by simp
  ultimately show ?case by (simp add: gseq_def gbind_def)
qed

lemma keep_lines_Nil: "keep_lines [] s = [] \<longleftrightarrow> s = []"
proof
  assume "keep_lines [] s = []"
  then have "concat (keep_lines [] s) = []" by simp
  then show "s = []" by (simp add: concat_keep_lines)
qed simp

lemma observe_all_append:
  "observe_all (xs @ ys) t = (None, t') \<longleftrightarrow> (\<exists>t1. observe_all xs t = (None, t1) \<and> observe_all ys t1 = (None, t'))"
  by (induction xs arbitrary: t) (auto split: sum.splits)

lemma idle_Nil: "tr_buf t = [] \<Longrightarrow> idle t"
  by (simp add: idle_def)

lemma frames_empty: "list_all (readable loads dumps) fs \<Longrightarrow> concat (map (frame_text dumps) fs) = [] \<longleftrightarrow> fs = []"
  by (cases fs) (auto simp: frame_text_lines(1))

text \<open>The events a transport hears: OpenRouter drops its \<open>[DONE]\<close> noise and everything behind the
  first \<open>message_stop\<close>. \<open>stopped\<close> tells whether that came already.\<close>

definition skipped :: "native_env \<Rightarrow> bool \<Rightarrow> sse_event \<Rightarrow> bool" where
  "skipped en stopped ev \<longleftrightarrow> nv_kind en = OpenRouter
     \<and> (stopped \<or> is_terminal_openrouter_done_event (nv_upper en) (Some (ev_name ev))
                     (nv_dumps en (JObj (ev_data ev))))"

definition now_stopped :: "native_env \<Rightarrow> bool \<Rightarrow> sse_event \<Rightarrow> bool" where
  "now_stopped en stopped ev \<longleftrightarrow> stopped \<or> nv_kind en = OpenRouter \<and> ev_name ev = u ''message_stop''"

fun heard :: "native_env \<Rightarrow> bool \<Rightarrow> sse_event list \<Rightarrow> sse_event list" where
  "heard en stopped [] = []"
| "heard en stopped (ev # evs) =
     (if skipped en stopped ev then heard en stopped evs
      else ev # heard en (now_stopped en stopped ev) evs)"

lemma heard_line_mode: "nv_kind en = LineMode \<Longrightarrow> heard en b evs = evs"
  by (induction en b evs rule: heard.induct) (auto simp: skipped_def)

lemma flag_last:
  "(s\<lparr>np_message_stopped := b\<rparr>)\<lparr>np_by_upstream := x\<rparr> = s\<lparr>np_by_upstream := x\<rparr>\<lparr>np_message_stopped := b\<rparr>"
  "(s\<lparr>np_message_stopped := b\<rparr>)\<lparr>np_next_index := n\<rparr> = s\<lparr>np_next_index := n\<rparr>\<lparr>np_message_stopped := b\<rparr>"
  "(s\<lparr>np_message_stopped := b\<rparr>)\<lparr>np_dropped_indexes := d\<rparr> = s\<lparr>np_dropped_indexes := d\<rparr>\<lparr>np_message_stopped := b\<rparr>"
  "(s\<lparr>np_message_stopped := b\<rparr>)\<lparr>np_pending_suppressed_stops := d\<rparr>
     = s\<lparr>np_pending_suppressed_stops := d\<rparr>\<lparr>np_message_stopped := b\<rparr>"
  by (cases s; simp)+

lemma close_segments_flag:
  "close_segments items cur (s\<lparr>np_message_stopped := b\<rparr>) =
     map_prod id (\<lambda>s. s\<lparr>np_message_stopped := b\<rparr>) (close_segments items cur s)"
  by (induction items cur s rule: close_segments.induct) (auto simp: flag_last split: prod.splits)

text \<open>The policy does not look at the flag, and leaves it.\<close>

lemma native_block_start_flag:
  "native_block_start te d (s\<lparr>np_message_stopped := b\<rparr>) =
     map_prod id (\<lambda>s. s\<lparr>np_message_stopped := b\<rparr>) (native_block_start te d s)"
  by (simp add: native_block_start_def Let_def synthetic_close_other_open_blocks_def close_segments_flag
      allocate_new_segment_def flag_last split: json.splits option.splits prod.splits)

lemma native_block_delta_flag:
  "native_block_delta py te d (s\<lparr>np_message_stopped := b\<rparr>) =
     map_prod id (\<lambda>s. s\<lparr>np_message_stopped := b\<rparr>) (native_block_delta py te d s)"
proof (cases "dget d ''delta''")
  case (JObj delta)
  show ?thesis
  proof (cases "int_of (dget d ''index'')")
    case (Some i)
    show ?thesis
    proof (cases "delta_type_to_block_kind (dget delta ''type'')")
      case (Some k)
      with JObj \<open>int_of (dget d ''index'') = Some i\<close> show ?thesis
        by (simp add: native_block_delta_def Let_def allocate_new_segment_def flag_last split: option.split)
    qed (simp add: native_block_delta_def JObj Some Let_def)
  qed (simp add: native_block_delta_def JObj Let_def)
qed (simp_all add: native_block_delta_def)

lemma native_block_stop_flag:
  "native_block_stop te d (s\<lparr>np_message_stopped := b\<rparr>) =
     map_prod id (\<lambda>s. s\<lparr>np_message_stopped := b\<rparr>) (native_block_stop te d s)"
  by (simp add: native_block_stop_def flag_last split: option.split)

lemma native_block_event_flag:
  "native_block_event py te n d (s\<lparr>np_message_stopped := b\<rparr>) =
     map_prod id (\<lambda>s. s\<lparr>np_message_stopped := b\<rparr>) (native_block_event py te n d s)"
  by (simp add: native_block_event_def native_block_start_flag native_block_delta_flag native_block_stop_flag)

lemma policy_step_flag:
  "policy_step py te ev (s\<lparr>np_message_stopped := b\<rparr>) =
     map_prod id (\<lambda>s. s\<lparr>np_message_stopped := b\<rparr>) (policy_step py te ev s)"
  by (simp add: policy_step_def native_block_event_flag split: prod.splits native_out.splits)

lemma native_block_event_frames: "native_block_event py te n d s = (Frames fs, s') \<Longrightarrow> fs \<noteq> []"
  by (auto simp: native_block_event_def native_block_start_def native_block_delta_def native_block_stop_def
      Let_def split: json.splits option.splits if_splits prod.splits)

lemma transform_text_exact:
  assumes r: "readable loads dumps ev" and st: "policy_step py te ev s = (fs, s')"
  shows "transform_native_sse_block_event loads dumps py te (frame_text dumps ev) s
     = (Inr (if fs = [] then None else Some (concat (map (frame_text dumps) fs))), s')"
proof -
  let ?n = "ev_name ev" and ?d = "dumps (JObj (ev_data ev))"
  from r have c: "clean_text ?n" "clean_text ?d" and l: "loads ?d = Some (JObj (ev_data ev))"
    by (simp_all add: readable_def)
  have p: "parse_native_sse_event (frame_text dumps ev) = (Some ?n, ?d)"
    unfolding frame_text_def by (rule native_round [OF c])
  have ne: "?n \<noteq> []" "?d \<noteq> []" using c by (simp_all add: clean_text_def)
  have fr: "fs' \<noteq> []" if "native_block_event py te ?n (ev_data ev) s = (Frames fs', x)" for fs' x
    using that by (rule native_block_event_frames)
  have other: "native_block_event py te ?n (ev_data ev) s = (Unchanged, s)" if "\<not> is_block_event ?n"
    using that by (auto simp: native_block_event_def is_block_event_def)
  show ?thesis
    using st other fr
    by (auto simp: transform_native_sse_block_event_def p ne l policy_step_def
        split: native_out.splits prod.splits)
qed

lemma transform_stream_text:
  assumes r: "readable (nv_loads en) (nv_dumps en) ev" and n: "\<not> skipped en b ev"
    and st: "policy_step (nv_py_str en) (nv_thinking_enabled en) ev ps = (fs, st)"
  shows "transform_stream_event en (frame_text (nv_dumps en) ev) (ps\<lparr>np_message_stopped := b\<rparr>)
     = (Inr (if fs = [] then None else Some (concat (map (frame_text (nv_dumps en)) fs))),
        st\<lparr>np_message_stopped := now_stopped en b ev\<rparr>)"
proof -
  from r have c: "clean_text (ev_name ev)" "clean_text (nv_dumps en (JObj (ev_data ev)))"
    by (simp_all add: readable_def)
  have p: "parse_native_sse_event (frame_text (nv_dumps en) ev) = (Some (ev_name ev), nv_dumps en (JObj (ev_data ev)))"
    unfolding frame_text_def by (rule native_round [OF c])
  have t: "transform_native_sse_block_event (nv_loads en) (nv_dumps en) (nv_py_str en) (nv_thinking_enabled en)
      (frame_text (nv_dumps en) ev) (ps\<lparr>np_message_stopped := x\<rparr>)
    = (Inr (if fs = [] then None else Some (concat (map (frame_text (nv_dumps en)) fs))),
       st\<lparr>np_message_stopped := x\<rparr>)" for x
    by (rule transform_text_exact [OF r]) (simp add: policy_step_flag st)
  show ?thesis
  proof (cases "nv_kind en")
    case LineMode
    then show ?thesis by (simp add: transform_stream_event_def t now_stopped_def)
  next
    case OpenRouter
    with n show ?thesis using t [of True] t [of b]
      by (auto simp: transform_stream_event_def openrouter_transform_def p skipped_def now_stopped_def)
  qed
qed

lemma concat_chunks_of: "concat (chunks_of k tx) = tx"
  by (cases k) (simp_all add: chunks_of_def concat_keep_lines)

lemma chunks_of_Nil: "tx \<noteq> [] \<Longrightarrow> chunks_of k tx \<noteq> []"
  by (cases k) (simp_all add: chunks_of_def keep_lines_Nil)

lemma emit_event_skips:
  assumes r: "readable (nv_loads en) (nv_dumps en) ev" and n: "skipped en (np_message_stopped (ns_policy s)) ev"
  shows "emit_event en (frame_text (nv_dumps en) ev) s = ([], Inr (), s)"
proof -
  from r have c: "clean_text (ev_name ev)" "clean_text (nv_dumps en (JObj (ev_data ev)))"
    by (simp_all add: readable_def)
  have p: "parse_native_sse_event (frame_text (nv_dumps en) ev) = (Some (ev_name ev), nv_dumps en (JObj (ev_data ev)))"
    unfolding frame_text_def by (rule native_round [OF c])
  have "transform_event en (frame_text (nv_dumps en) ev) s = ([], Inr None, s)"
    using n by (auto simp: transform_event_def transform_stream_event_def openrouter_transform_def p skipped_def)
  then show ?thesis by (simp add: emit_event_def gbind_def gret_def)
qed

lemma emit_event_run:
  assumes r: "readable (nv_loads en) (nv_dumps en) ev"
    and ps: "ns_policy s = ps\<lparr>np_message_stopped := b\<rparr>" and n: "\<not> skipped en b ev"
    and st: "policy_step (nv_py_str en) (nv_thinking_enabled en) ev ps = (fs, st)"
    and rs: "list_all (readable (nv_loads en) (nv_dumps en)) fs"
    and b: "tr_buf (ns_tracker s) = []" and o: "observe_all fs (ns_tracker s) = (None, t)"
  shows "\<exists>chunks. emit_event en (frame_text (nv_dumps en) ev) s
      = (chunks, Inr (), s\<lparr>ns_policy := st\<lparr>np_message_stopped := now_stopped en b ev\<rparr>, ns_tracker := t,
           ns_sent_any_event := ns_sent_any_event s \<or> fs \<noteq> []\<rparr>)
    \<and> concat chunks = concat (map (frame_text (nv_dumps en)) fs)"
proof -
  let ?s = "s\<lparr>ns_policy := st\<lparr>np_message_stopped := now_stopped en b ev\<rparr>\<rparr>"
    and ?tx = "concat (map (frame_text (nv_dumps en)) fs)"
  have te: "transform_event en (frame_text (nv_dumps en) ev) s = ([], Inr (if fs = [] then None else Some ?tx), ?s)"
    using transform_stream_text [OF r n st] by (simp add: transform_event_def ps)
  from feed_frames_text [OF rs b o] have feed: "tracker_feed (nv_loads en) ?tx (ns_tracker s) = (None, t)" by blast
  show ?thesis
  proof (cases "fs = []")
    case True
    with o have "t = ns_tracker s" by simp
    with te True show ?thesis by (simp add: emit_event_def gbind_def gret_def)
  next
    case False
    let ?cs = "chunks_of (nv_kind en) ?tx"
    have cc: "concat ?cs = ?tx" by (rule concat_chunks_of)
    have ne: "?cs \<noteq> []" using frames_empty [OF rs] False by (intro chunks_of_Nil) simp
    have "gfor ?cs (emit_chunk en) ?s = (?cs, Inr (), ?s\<lparr>ns_tracker := t, ns_sent_any_event := ns_sent_any_event s \<or> ?cs \<noteq> []\<rparr>)"
      using emit_chunks_run [of ?s en ?cs t] feed b by (simp add: idle_Nil cc)
    then show ?thesis using te cc ne False
      by (intro exI [of _ ?cs]) (simp add: emit_event_def gbind_def)
  qed
qed

lemma emit_events_run:
  "list_all (readable (nv_loads en) (nv_dumps en)) ups
    \<Longrightarrow> ns_policy s = ps\<lparr>np_message_stopped := b\<rparr>
    \<Longrightarrow> policy_run (nv_py_str en) (nv_thinking_enabled en) (heard en b ups) ps = (outs, st)
    \<Longrightarrow> list_all (readable (nv_loads en) (nv_dumps en)) outs
    \<Longrightarrow> tr_buf (ns_tracker s) = [] \<Longrightarrow> observe_all outs (ns_tracker s) = (None, t)
    \<Longrightarrow> \<exists>chunks st'. gfor (map (frame_text (nv_dumps en)) ups) (emit_event en) s
      = (chunks, Inr (), s\<lparr>ns_policy := st', ns_tracker := t, ns_sent_any_event := ns_sent_any_event s \<or> outs \<noteq> []\<rparr>)
    \<and> concat chunks = concat (map (frame_text (nv_dumps en)) outs)"
proof (induction ups arbitrary: s ps b outs)
  case Nil
  have "s = s\<lparr>ns_policy := ns_policy s, ns_tracker := t, ns_sent_any_event := ns_sent_any_event s \<or> outs \<noteq> []\<rparr>"
    using Nil by simp
  moreover have "gfor (map (frame_text (nv_dumps en)) []) (emit_event en) s = ([], Inr (), s)" by (simp add: gret_def)
  moreover have "outs = []" using Nil by simp
  ultimately show ?case by (metis concat.simps(1) list.simps(8))
next
  case (Cons ev ups)
  have re: "readable (nv_loads en) (nv_dumps en) ev" and ru: "list_all (readable (nv_loads en) (nv_dumps en)) ups"
    using Cons.prems(1) by simp_all
  show ?case
  proof (cases "skipped en b ev")
    case True
    with emit_event_skips [OF re, of s] Cons.prems(2)
    have "emit_event en (frame_text (nv_dumps en) ev) s = ([], Inr (), s)" by simp
    moreover have "policy_run (nv_py_str en) (nv_thinking_enabled en) (heard en b ups) ps = (outs, st)"
      using Cons.prems(3) True by simp
    ultimately show ?thesis
      using Cons.IH [OF ru Cons.prems(2) _ Cons.prems(4-6)] by (simp add: gseq_def gbind_def)
  next
    case False
    let ?b = "now_stopped en b ev"
    obtain fs s1 where st: "policy_step (nv_py_str en) (nv_thinking_enabled en) ev ps = (fs, s1)" by fastforce
    obtain gs where gs: "policy_run (nv_py_str en) (nv_thinking_enabled en) (heard en ?b ups) s1 = (gs, st)"
      and outs: "outs = fs @ gs"
      using Cons.prems(3) st False by (auto split: prod.splits)
    obtain t1 where o1: "observe_all fs (ns_tracker s) = (None, t1)" and o2: "observe_all gs t1 = (None, t)"
      using Cons.prems(6) outs observe_all_append by (metis (no_types, lifting))
    have rf: "list_all (readable (nv_loads en) (nv_dumps en)) fs" and rg: "list_all (readable (nv_loads en) (nv_dumps en)) gs"
      using Cons.prems(4) outs by simp_all
    let ?s = "s\<lparr>ns_policy := s1\<lparr>np_message_stopped := ?b\<rparr>, ns_tracker := t1,
                ns_sent_any_event := ns_sent_any_event s \<or> fs \<noteq> []\<rparr>"
    obtain c1 where c1: "emit_event en (frame_text (nv_dumps en) ev) s = (c1, Inr (), ?s)"
      "concat c1 = concat (map (frame_text (nv_dumps en)) fs)"
      using emit_event_run [OF re Cons.prems(2) False st rf Cons.prems(5) o1] by blast
    have b1: "tr_buf (ns_tracker ?s) = []"
      using feed_frames_text [OF rf Cons.prems(5) o1] by simp
    have p1: "ns_policy ?s = s1\<lparr>np_message_stopped := ?b\<rparr>" by simp
    have o2': "observe_all gs (ns_tracker ?s) = (None, t)" using o2 by simp
    from Cons.IH [OF ru p1 gs rg b1 o2'] obtain c2 st' where c2: "gfor (map (frame_text (nv_dumps en)) ups) (emit_event en) ?s
        = (c2, Inr (), ?s\<lparr>ns_policy := st', ns_tracker := t, ns_sent_any_event := ns_sent_any_event ?s \<or> gs \<noteq> []\<rparr>)"
      "concat c2 = concat (map (frame_text (nv_dumps en)) gs)"
      by blast
    from c1 c2 show ?thesis
      by (intro exI [of _ "c1 @ c2"] exI [of _ st']) (simp add: gseq_def gbind_def outs)
  qed
qed

text \<open>The lines in which a response carries an event.\<close>

definition event_lines :: "(json \<Rightarrow> pystr) \<Rightarrow> sse_event \<Rightarrow> pystr list" where
  "event_lines dumps ev = [name_line ev, data_line dumps ev, []]"

lemma iter_partial: "list_all (\<lambda>l. l \<noteq> []) partial \<Longrightarrow> iter_sse_events partial ls False = []"
  by (induction partial arbitrary: ls) auto

lemma iter_event_lines:
  "list_all (readable loads dumps) ups \<Longrightarrow> iter_sse_events rest [] b = out \<Longrightarrow>
     iter_sse_events (concat (map (event_lines dumps) ups) @ rest) [] b = map (frame_text dumps) ups @ out"
proof (induction ups)
  case Nil
  then show ?case by simp
next
  case (Cons ev ups)
  then have r: "readable loads dumps ev" by simp
  from Cons frame_text_lines [OF r] show ?case by (simp add: event_lines_def)
qed

lemma contract_holdsI:
  assumes "u ''message_start'' \<in> ev_name ` set evs" and "last evs = message_stop"
    and "contract_run ae contract_init evs = Inr c" "cs_open_blocks c = []" "cs_seen_blocks c \<noteq> {}"
  shows "assert_anthropic_stream_contract evs ae = Inr ()"
  using assms by (cases evs rule: rev_cases) (auto simp: assert_anthropic_stream_contract_def event_simps)

lemma ending_satisfies_contract:
  assumes cd: "contract_run True contract_init outs = Inr cd" and t: "tracker_ok t cd"
    and start: "outs = [] \<or> u ''message_start'' \<in> ev_name ` set outs"
  shows "assert_anthropic_stream_contract
    (outs @ native_error_events en msg \<lparr>ns_policy = st, ns_tracker = t, ns_sent_any_event = outs \<noteq> []\<rparr>) True = Inr ()"
proof (cases "outs = []")
  case True
  let ?sb = "sse_builder_init (nv_new_id en) (nv_model en) (nv_input_tokens en)"
  obtain c' where "contract_run True contract_init (error_message_end msg ?sb) = Inr c'" "cs_open_blocks c' = []"
    "cs_seen_blocks c' \<noteq> {}"
    using error_message_end_run [of contract_init ?sb msg] by (auto simp: contract_init_def)
  then show ?thesis
    using True error_message_end_last [of msg ?sb]
    by (intro contract_holdsI [where c = c']) (simp_all add: native_error_events_def
        iter_provider_stream_error_sse_events_def event_simps Let_def)
next
  case False
  let ?e = "native_error_events en msg \<lparr>ns_policy = st, ns_tracker = t, ns_sent_any_event = outs \<noteq> []\<rparr>"
  obtain c' where "contract_run True cd ?e = Inr c'" "cs_open_blocks c' = []" "cs_seen_blocks c' \<noteq> {}"
    using midstream_end_run [OF t, of "nv_new_id en" msg "nv_model en" "nv_input_tokens en"] False
    by (auto simp: native_error_events_def)
  moreover have "?e \<noteq> []" "last ?e = message_stop"
    using False error_message_end_last
    by (simp_all add: native_error_events_def iter_midstream_error_tail_def Let_def)
  moreover have "u ''message_start'' \<in> ev_name ` set (outs @ ?e)" using start False by auto
  ultimately show ?thesis using cd
    by (intro contract_holdsI [where c = c']) (simp_all add: contract_run_append)
qed

section \<open>The ending, told from the events sent\<close>

text \<open>The indexes of the blocks started and stopped, in order, and those left open.\<close>

definition index_of :: "sse_event \<Rightarrow> int" where
  "index_of ev = (case int_of (dget (ev_data ev) ''index'') of Some i \<Rightarrow> i | None \<Rightarrow> 0)"

definition started_blocks :: "sse_event list \<Rightarrow> int list" where
  "started_blocks evs = map index_of (filter (\<lambda>ev. ev_name ev = u ''content_block_start'') evs)"

definition stopped_blocks :: "sse_event list \<Rightarrow> int list" where
  "stopped_blocks evs = map index_of (filter (\<lambda>ev. ev_name ev = u ''content_block_stop'') evs)"

definition left_open :: "sse_event list \<Rightarrow> int list" where
  "left_open evs = filter (\<lambda>i. i \<notin> set (stopped_blocks evs)) (started_blocks evs)"

definition fresh_index :: "sse_event list \<Rightarrow> int" where
  "fresh_index evs = fold max (started_blocks evs) (-1) + 1"

text \<open>The events that follow the events \<open>sent\<close> when the upstream breaks off: the open blocks are
  stopped, the last one first; the message \<open>msg\<close> is shown in a text block with a fresh index; the
  message ends. When nothing was sent, the message is started first.\<close>

definition broken_ending :: "native_env \<Rightarrow> pystr \<Rightarrow> sse_event list \<Rightarrow> sse_event list" where
  "broken_ending en msg sent =
     (let sb = sse_builder_init (nv_new_id en) (nv_model en) (nv_input_tokens en); n = fresh_index sent
      in (if sent = [] then [message_start sb] else map content_block_stop (rev (left_open sent)))
         @ [content_block_start n (u ''text'') [], content_block_delta n (u ''text_delta'') msg,
            content_block_stop n, message_delta sb (u ''end_turn'') (JInt 1), message_stop])"

lemma remove_last: "distinct xs \<Longrightarrow> xs \<noteq> [] \<Longrightarrow> last xs = i \<Longrightarrow> butlast xs = filter (\<lambda>j. j \<noteq> i) xs"
  by (cases xs rule: rev_cases) (auto intro!: filter_True [symmetric])

lemma remove1_filter: "distinct xs \<Longrightarrow> remove1 i xs = filter (\<lambda>j. j \<noteq> i) xs"
  by (simp add: distinct_remove1_removeAll removeAll_filter_not_eq neq_commute)

text \<open>What the tracker and the automaton know after accepted events.\<close>

definition tracker_of :: "sse_event list \<Rightarrow> tracker \<Rightarrow> contract_state \<Rightarrow> bool" where
  "tracker_of evs t c \<longleftrightarrow> distinct (started_blocks evs) \<and> set (stopped_blocks evs) \<subseteq> set (started_blocks evs)
     \<and> cs_seen_blocks c = set (started_blocks evs)
     \<and> dom (map_of (cs_open_blocks c)) = set (started_blocks evs) - set (stopped_blocks evs)
     \<and> tr_open_stack t = left_open evs \<and> tr_max_index t + 1 = fresh_index evs"

lemma tracker_of_step:
  assumes t: "tracker_of evs t c" and c: "contract_step ae c ev = Inr c'" and o: "tracker_observe ev t = Inr t'"
  shows "tracker_of (evs @ [ev]) t' c'"
proof -
  obtain n d where ev: "ev = SseEvent n d" by (cases ev)
  consider "n = u ''content_block_start''" | "n = u ''content_block_stop''"
    | "n = u ''content_block_delta''" | "\<not> is_block_event n"
    by (auto simp: is_block_event_def)
  then show ?thesis
  proof cases
    case 1
    with c ev obtain i k where i: "int_of (dget d ''index'') = Some i" "i \<notin> cs_seen_blocks c"
      and c': "c' = open_block i k c" by (auto simp: contract_start_iff)
    have "started_blocks (evs @ [ev]) = started_blocks evs @ [i]" "stopped_blocks (evs @ [ev]) = stopped_blocks evs"
      using 1 ev i by (simp_all add: started_blocks_def stopped_blocks_def index_of_def)
    moreover have "t' = t\<lparr>tr_max_index := max (tr_max_index t) i, tr_open_stack := tr_open_stack t @ [i]\<rparr>"
      using o 1 ev i by (simp add: tracker_observe_def event_index_def)
    ultimately show ?thesis using t i c'
      by (auto simp: tracker_of_def left_open_def fresh_index_def open_block_def max.commute)
  next
    case 2
    with c ev obtain i where i: "int_of (dget d ''index'') = Some i" "i \<in> dom (map_of (cs_open_blocks c))"
      and c': "c' = close_block i c" by (auto simp: contract_stop_iff has_key_def)
    have st: "started_blocks (evs @ [ev]) = started_blocks evs" "stopped_blocks (evs @ [ev]) = stopped_blocks evs @ [i]"
      using 2 ev i by (simp_all add: started_blocks_def stopped_blocks_def index_of_def)
    have d: "distinct (tr_open_stack t)" using t by (simp add: tracker_of_def left_open_def)
    have "left_open (evs @ [ev]) = filter (\<lambda>j. j \<noteq> i) (left_open evs)"
      unfolding left_open_def st by (auto intro!: filter_cong)
    moreover have "t' = t\<lparr>tr_open_stack := filter (\<lambda>j. j \<noteq> i) (tr_open_stack t)\<rparr>"
      using o 2 ev i remove_last [OF d] remove1_filter [OF d]
      by (auto simp: tracker_observe_def event_index_def split: if_splits)
    ultimately show ?thesis using t i c' st
      by (auto simp: tracker_of_def fresh_index_def close_block_def)
  next
    case 3
    with c ev have "c' = c" by (auto simp: contract_delta_iff)
    moreover have "t' = t" using 3 o ev by (simp add: tracker_observe_def)
    ultimately show ?thesis using t 3 ev
      by (simp add: tracker_of_def left_open_def fresh_index_def started_blocks_def stopped_blocks_def)
  next
    case 4
    then have nb: "\<not> is_block_event (ev_name ev)" using ev by simp
    from contract_stepD(1) [OF c nb] have c': "c' = c" .
    have "tr_open_stack t' = tr_open_stack t" "tr_max_index t' = tr_max_index t"
      using o nb by (auto simp: tracker_observe_def is_block_event_def Let_def split: json.splits if_splits)
    then show ?thesis using t c' nb
      by (simp add: tracker_of_def left_open_def fresh_index_def started_blocks_def stopped_blocks_def is_block_event_def)
  qed
qed

lemma observe_step: "observe_all [ev] t = (None, t') \<longleftrightarrow> tracker_observe ev t = Inr t'"
  by (cases "tracker_observe ev t") simp_all

lemma tracker_of_run:
  "contract_run ae contract_init evs = Inr c \<Longrightarrow> observe_all evs tracker_init = (None, t) \<Longrightarrow> tracker_of evs t c"
proof (induction evs arbitrary: c t rule: rev_induct)
  case Nil
  then show ?case
    by (auto simp: tracker_of_def started_blocks_def stopped_blocks_def left_open_def fresh_index_def tracker_init_def contract_init_def)
next
  case (snoc ev evs)
  obtain c1 where c1: "contract_run ae contract_init evs = Inr c1" "contract_step ae c1 ev = Inr c"
    using snoc.prems(1) by (auto simp: contract_run_append split: sum.splits)
  obtain t1 where t1: "observe_all evs tracker_init = (None, t1)" "tracker_observe ev t1 = Inr t"
    using snoc.prems(2) observe_all_append [of evs "[ev]" tracker_init t]
    by (metis observe_step)
  from tracker_of_step [OF snoc.IH [OF c1(1) t1(1)] c1(2) t1(2)] show ?case .
qed

lemma native_ending:
  assumes "tracker_of outs t c"
  shows "native_error_events en msg \<lparr>ns_policy = st, ns_tracker = t, ns_sent_any_event = outs \<noteq> []\<rparr>
     = broken_ending en msg outs"
proof -
  have "started_blocks [] = []" by (simp add: started_blocks_def)
  with assms show ?thesis
    by (auto simp: native_error_events_def broken_ending_def tracker_of_def Let_def
        iter_close_unclosed_blocks_def iter_midstream_error_tail_def iter_provider_stream_error_sse_events_def
        error_message_end_def emit_error_def allocate_index_def upd_blocks_def next_content_index_def
        sse_builder_init_def block_manager_init_def message_delta_def fresh_index_def)
qed

text \<open>Claim C8: for both native transports and whatever exception a response breaks off with: when the
  events it carried whole and the transport heard (OpenRouter hears nothing behind a \<open>message_stop\<close>
  and no \<open>[DONE]\<close>) are accepted by the contract, start the message, and their texts can be read back,
  the text sent is that of what the policy made of them, then of exactly the stops of the open blocks,
  the last one first, a text block of a fresh index with the message of the error, and the end of the
  message (the message is started first when nothing was sent); together they satisfy the contract.
  The lines of an unfinished event are lost.\<close>

theorem native_broken_stream_ends_well:
  assumes run: "contract_run True contract_init (heard en False ups) = Inr cu"
    and start: "heard en False ups = [] \<or> u ''message_start'' \<in> ev_name ` set (heard en False ups)"
    and outs: "outs = fst (policy_run (nv_py_str en) (nv_thinking_enabled en) (heard en False ups) policy_init)"
    and r: "list_all (readable (nv_loads en) (nv_dumps en)) (ups @ outs)"
    and p: "list_all (\<lambda>l. l \<noteq> []) partial"
    and ending: "ending = broken_ending en (native_error_message en (Upstream e)) outs"
  shows "\<exists>chunks s. native_stream_response en
          (Inr (concat (map (event_lines (nv_dumps en)) ups) @ partial, Some e)) = (chunks, Inr (), s)
      \<and> concat chunks = concat (map (format_sse_event (nv_dumps en)) (outs @ ending))
      \<and> assert_anthropic_stream_contract (outs @ ending) True = Inr ()"
proof -
  obtain st where pr: "policy_run (nv_py_str en) (nv_thinking_enabled en) (heard en False ups) policy_init = (outs, st)"
    using outs by (metis prod.collapse)
  from policy_run_tracks [OF tracks_init run pr] obtain cd where cd: "contract_run True contract_init outs = Inr cd"
    by blast
  obtain t where t: "observe_all outs tracker_init = (None, t)" "tracker_ok t cd"
    using observe_all_ok [OF tracker_ok_init cd] by blast
  have pi: "ns_policy native_stream_init = policy_init\<lparr>np_message_stopped := False\<rparr>"
    by (simp add: native_stream_init_def policy_init_def)
  obtain c1 st' where c1: "gfor (map (frame_text (nv_dumps en)) ups) (emit_event en) native_stream_init
      = (c1, Inr (), \<lparr>ns_policy = st', ns_tracker = t, ns_sent_any_event = outs \<noteq> []\<rparr>)"
    "concat c1 = concat (map (frame_text (nv_dumps en)) outs)"
    using emit_events_run [OF _ pi pr, of t] r t(1)
    by (auto simp: native_stream_init_def tracker_init_def)
  let ?s = "\<lparr>ns_policy = st', ns_tracker = t, ns_sent_any_event = outs \<noteq> []\<rparr>"
  have e: "native_error_events en (native_error_message en (Upstream e)) ?s = ending"
    unfolding ending by (rule native_ending [OF tracker_of_run [OF cd t(1)]])
  have it: "iter_sse_events (concat (map (event_lines (nv_dumps en)) ups) @ partial) [] False
      = map (frame_text (nv_dumps en)) ups"
    using iter_event_lines [of "nv_loads en" "nv_dumps en" ups partial False] r iter_partial [OF p] by simp
  have res: "native_stream_response en (Inr (concat (map (event_lines (nv_dumps en)) ups) @ partial, Some e))
      = (c1 @ map (format_sse_event (nv_dumps en)) ending, Inr (),
         ?s\<lparr>ns_tracker := snd (iter_close_unclosed_blocks t)\<rparr>)"
    using e by (simp add: native_stream_response_def native_body_def gen_unfold it c1(1) native_error_path_def)
  have "map (frame_text (nv_dumps en)) outs = map (format_sse_event (nv_dumps en)) outs"
    using r frame_format [of "nv_loads en" "nv_dumps en"] by (simp add: list_all_iff)
  with c1(2) have tx: "concat (c1 @ map (format_sse_event (nv_dumps en)) ending)
      = concat (map (format_sse_event (nv_dumps en)) (outs @ ending))" by simp
  have so: "outs = [] \<or> u ''message_start'' \<in> ev_name ` set outs"
  proof (rule disjCI)
    assume "u ''message_start'' \<notin> ev_name ` set outs"
    with policy_run_keeps_other [OF pr] have "u ''message_start'' \<notin> ev_name ` set (heard en False ups)"
      by (force simp: is_block_event_def)
    with start pr show "outs = []" by simp
  qed
  have "assert_anthropic_stream_contract (outs @ ending) True = Inr ()"
    using ending_satisfies_contract [OF cd t(2) so] e by metis
  with res tx show ?thesis by blast
qed

text \<open>An encoding of the values of a list, for the examples: a value is written by its place.\<close>

definition table_dumps :: "json list \<Rightarrow> json \<Rightarrow> pystr" where
  "table_dumps table v = u ''{'' @ replicate (length (takeWhile (\<lambda>w. w \<noteq> v) table)) 49 @ u ''}''"

definition table_loads :: "json list \<Rightarrow> pystr \<Rightarrow> json option" where
  "table_loads table t = (if length t - 2 < length table then Some (table ! (length t - 2)) else None)"

definition example_begun :: "sse_event list" where
  "example_begun =
     [SseEvent (u ''message_start'') [(u ''message'', JObj [(u ''id'', JStr (u ''m1'')), (u ''model'', JStr (u ''x''))])],
      content_block_start 7 (u ''text'') [], content_block_delta 7 (u ''text_delta'') (u ''hi''),
      content_block_start 9 (u ''tool_use'') []]"

definition example_values :: "json list" where
  "example_values =
     map (\<lambda>ev. JObj (ev_data ev))
       (example_begun @ fst (policy_run (\<lambda>_. []) False example_begun policy_init))"

definition example_native_env :: native_env where
  "example_native_env =
     \<lparr>nv_kind = LineMode, nv_loads = table_loads example_values, nv_dumps = table_dumps example_values,
      nv_py_str = (\<lambda>_. []), nv_upper = id, nv_lower = id, nv_text_of = (\<lambda>_. u ''failed''),
      nv_thinking_enabled = False, nv_provider_name = u ''LMSTUDIO'', nv_read_timeout = None,
      nv_request_id = None, nv_model = u ''claude'', nv_input_tokens = JInt 3, nv_new_id = u ''msg_0''\<rparr>"

definition example_break :: exn where
  "example_break = exn_of (\<lambda>_. u ''gone'') KeyError"

definition example_ending :: "sse_event list" where
  "example_ending =
     (let sb = sse_builder_init (u ''msg_0'') (u ''claude'') (JInt 3)
      in [content_block_stop 1, content_block_start 2 (u ''text'') [],
          content_block_delta 2 (u ''text_delta'') (native_error_message example_native_env (Upstream example_break)),
          content_block_stop 2, message_delta sb (u ''end_turn'') (JInt 1), message_stop])"

theorem native_broken_stream_ends_well_witness:
  "\<exists>chunks s. native_stream_response example_native_env
        (Inr (concat (map (event_lines (table_dumps example_values)) example_begun) @ [u ''event: ping''],
              Some example_break)) = (chunks, Inr (), s)
      \<and> concat chunks = concat (map (format_sse_event (table_dumps example_values))
          (fst (policy_run (\<lambda>_. []) False example_begun policy_init) @ example_ending))
      \<and> assert_anthropic_stream_contract
          (fst (policy_run (\<lambda>_. []) False example_begun policy_init) @ example_ending) True = Inr ()"
proof -
  have "\<not> isl (contract_run True contract_init example_begun)" by code_simp
  then obtain cu where run: "contract_run True contract_init example_begun = Inr cu"
    by (cases "contract_run True contract_init example_begun") auto
  have "list_all (readable (table_loads example_values) (table_dumps example_values))
     (example_begun @ fst (policy_run (\<lambda>_. []) False example_begun policy_init))"
    by code_simp
  moreover have "u ''message_start'' \<in> ev_name ` set example_begun" by code_simp
  moreover have "list_all (\<lambda>l. l \<noteq> []) [u ''event: ping'']" by simp
  moreover have lm: "heard example_native_env False example_begun = example_begun"
    by (rule heard_line_mode) (simp add: example_native_env_def)
  moreover have en: "nv_loads example_native_env = table_loads example_values"
    "nv_dumps example_native_env = table_dumps example_values" "nv_py_str example_native_env = (\<lambda>_. [])"
    "nv_thinking_enabled example_native_env = False"
    by (simp_all add: example_native_env_def)
  moreover have "left_open (fst (policy_run (\<lambda>_. []) False example_begun policy_init)) = [1]"
    "fresh_index (fst (policy_run (\<lambda>_. []) False example_begun policy_init)) = 2"
    "fst (policy_run (\<lambda>_. []) False example_begun policy_init) \<noteq> []"
    by code_simp+
  then have "example_ending = broken_ending example_native_env (native_error_message example_native_env (Upstream example_break))
      (fst (policy_run (\<lambda>_. []) False example_begun policy_init))"
    by (simp add: example_ending_def broken_ending_def Let_def example_native_env_def)
  ultimately show ?thesis
    using native_broken_stream_ends_well [where en = example_native_env and ups = example_begun
        and partial = "[u ''event: ping'']" and e = example_break and ending = example_ending
        and outs = "fst (policy_run (\<lambda>_. []) False example_begun policy_init)"] run
    by simp
qed

end
