(* ===== verification/Model_Routing.thy ===== *)
theory Model_Routing
  imports Json Complex_Main
begin

text \<open>
  How a model name of a request becomes a provider and one of its models: the provider catalog
  (\<open>config/provider_catalog.py\<close>), the routing settings (\<open>config/settings.py\<close>), the ids under which
  the proxy advertises models (\<open>api/gateway_model_ids.py\<close>) and the router
  (\<open>api/model_router.py\<close>). Argument of the model: \<open>lower\<close>, Python's \<open>str.lower\<close>. A request is
  the dictionary of its fields.
\<close>

section \<open>Slashes\<close>

text \<open>\<open>s.split("/", 1)\<close>.\<close>

definition split_slash :: "pystr \<Rightarrow> pystr list" where
  "split_slash s = (case partition_at s (u ''/'') of
      (h, sep, t) \<Rightarrow> if sep = [] then [h] else [h, t])"

lemma u_slash [simp]: "u ''/'' = [47]"
  by (simp add: u_def)

lemma partition_slash [pystr_simps]:
  "47 \<notin> set p \<Longrightarrow> partition_at (p @ 47 # t) [47] = (p, [47], t)"
  by (rule partition_at_char)

lemma partition_slash_cases:
  obtains (sep) p t where "s = p @ 47 # t" "47 \<notin> set p" "partition_at s [47] = (p, [47], t)"
  | (no_sep) "47 \<notin> set s" "partition_at s [47] = (s, [], [])"
proof (cases "47 \<in> set s")
  case True
  obtain p t where st: "s = p @ 47 # t" "47 \<notin> set p"
    using split_list_first [OF True] by blast
  show ?thesis by (rule sep [OF st]) (simp add: st partition_slash)
next
  case False
  show ?thesis by (rule no_sep [OF False partition_at_char_notin [OF False]])
qed

section \<open>The provider catalog\<close>

datatype transport_type = OpenaiChat | AnthropicMessages

record provider_descriptor =
  pd_provider_id :: pystr
  pd_transport_type :: transport_type
  pd_capabilities :: "pystr list"
  pd_credential_env :: "pystr option"
  pd_credential_url :: "pystr option"
  pd_credential_attr :: "pystr option"
  pd_static_credential :: "pystr option"
  pd_default_base_url :: "pystr option"
  pd_base_url_attr :: "pystr option"
  pd_proxy_attr :: "pystr option"

definition provider_catalog :: "(pystr, provider_descriptor) dict" where
  "provider_catalog = [
    (u ''nvidia_nim'', \<lparr>pd_provider_id = u ''nvidia_nim'', pd_transport_type = OpenaiChat,
       pd_capabilities = map u [''chat'', ''streaming'', ''tools'', ''thinking'', ''rate_limit''],
       pd_credential_env = Some (u ''NVIDIA_NIM_API_KEY''),
       pd_credential_url = Some (u ''https://build.nvidia.com/settings/api-keys''),
       pd_credential_attr = Some (u ''nvidia_nim_api_key''), pd_static_credential = None,
       pd_default_base_url = Some (u ''https://integrate.api.nvidia.com/v1''),
       pd_base_url_attr = None, pd_proxy_attr = Some (u ''nvidia_nim_proxy'')\<rparr>),
    (u ''open_router'', \<lparr>pd_provider_id = u ''open_router'', pd_transport_type = AnthropicMessages,
       pd_capabilities = map u [''chat'', ''streaming'', ''tools'', ''thinking'', ''native_anthropic''],
       pd_credential_env = Some (u ''OPENROUTER_API_KEY''),
       pd_credential_url = Some (u ''https://openrouter.ai/keys''),
       pd_credential_attr = Some (u ''open_router_api_key''), pd_static_credential = None,
       pd_default_base_url = Some (u ''https://openrouter.ai/api/v1''),
       pd_base_url_attr = None, pd_proxy_attr = Some (u ''open_router_proxy'')\<rparr>),
    (u ''deepseek'', \<lparr>pd_provider_id = u ''deepseek'', pd_transport_type = AnthropicMessages,
       pd_capabilities = map u [''chat'', ''streaming'', ''tools'', ''thinking'', ''native_anthropic''],
       pd_credential_env = Some (u ''DEEPSEEK_API_KEY''),
       pd_credential_url = Some (u ''https://platform.deepseek.com/api_keys''),
       pd_credential_attr = Some (u ''deepseek_api_key''), pd_static_credential = None,
       pd_default_base_url = Some (u ''https://api.deepseek.com/anthropic''),
       pd_base_url_attr = None, pd_proxy_attr = None\<rparr>),
    (u ''lmstudio'', \<lparr>pd_provider_id = u ''lmstudio'', pd_transport_type = AnthropicMessages,
       pd_capabilities = map u [''chat'', ''streaming'', ''tools'', ''native_anthropic'', ''local''],
       pd_credential_env = None, pd_credential_url = None, pd_credential_attr = None,
       pd_static_credential = Some (u ''lm-studio''),
       pd_default_base_url = Some (u ''http://localhost:1234/v1''),
       pd_base_url_attr = Some (u ''lm_studio_base_url''), pd_proxy_attr = Some (u ''lmstudio_proxy'')\<rparr>),
    (u ''llamacpp'', \<lparr>pd_provider_id = u ''llamacpp'', pd_transport_type = AnthropicMessages,
       pd_capabilities = map u [''chat'', ''streaming'', ''tools'', ''native_anthropic'', ''local''],
       pd_credential_env = None, pd_credential_url = None, pd_credential_attr = None,
       pd_static_credential = Some (u ''llamacpp''),
       pd_default_base_url = Some (u ''http://localhost:8080/v1''),
       pd_base_url_attr = Some (u ''llamacpp_base_url''), pd_proxy_attr = Some (u ''llamacpp_proxy'')\<rparr>),
    (u ''ollama'', \<lparr>pd_provider_id = u ''ollama'', pd_transport_type = AnthropicMessages,
       pd_capabilities = map u [''chat'', ''streaming'', ''tools'', ''thinking'', ''native_anthropic'', ''local''],
       pd_credential_env = None, pd_credential_url = None, pd_credential_attr = None,
       pd_static_credential = Some (u ''ollama''),
       pd_default_base_url = Some (u ''http://localhost:11434''),
       pd_base_url_attr = Some (u ''ollama_base_url''), pd_proxy_attr = None\<rparr>)]"

definition supported_provider_ids :: "pystr list" where
  "supported_provider_ids = map fst provider_catalog"

lemma supported_ids_eq:
  "supported_provider_ids = map u [''nvidia_nim'', ''open_router'', ''deepseek'', ''lmstudio'',
     ''llamacpp'', ''ollama'']"
  by (simp add: supported_provider_ids_def provider_catalog_def)

lemma supported_ids_distinct: "distinct supported_provider_ids"
  by (simp add: supported_ids_eq)

lemma supported_no_slash: "p \<in> set supported_provider_ids \<Longrightarrow> 47 \<notin> set p \<and> p \<noteq> []"
  unfolding supported_ids_eq by (auto simp: u_def)

section \<open>Routing settings\<close>

text \<open>The settings the router and the registry read; the string-valued attributes that the
  catalog names are kept by name.\<close>

record settings =
  st_model :: pystr
  st_model_opus :: "pystr option"
  st_model_sonnet :: "pystr option"
  st_model_haiku :: "pystr option"
  enable_model_thinking :: bool
  enable_opus_thinking :: "bool option"
  enable_sonnet_thinking :: "bool option"
  enable_haiku_thinking :: "bool option"
  st_strings :: "(pystr, pystr) dict"
  st_provider_rate_limit :: int
  st_provider_rate_window :: int
  st_provider_max_concurrency :: int
  st_http_read_timeout :: rat
  st_http_write_timeout :: rat
  st_http_connect_timeout :: rat
  st_log_raw_sse_events :: bool
  st_log_api_error_tracebacks :: bool

datatype settings_error = ValueError | IndexError

definition validate_model_format :: "pystr option \<Rightarrow> settings_error + pystr option" where
  "validate_model_format v =
     (case v of
        None \<Rightarrow> Inr None
      | Some m \<Rightarrow>
          if \<not> contains m (u ''/'') then Inl ValueError
          else if split_slash m ! 0 \<notin> set supported_provider_ids then Inl ValueError
          else Inr (Some m))"

definition parse_provider_type :: "pystr \<Rightarrow> pystr" where
  "parse_provider_type model_string = split_slash model_string ! 0"

definition parse_model_name :: "pystr \<Rightarrow> settings_error + pystr" where
  "parse_model_name model_string =
     (let parts = split_slash model_string
      in if length parts \<le> 1 then Inl IndexError else Inr (parts ! 1))"

definition resolve_model :: "(pystr \<Rightarrow> pystr) \<Rightarrow> settings \<Rightarrow> pystr \<Rightarrow> pystr" where
  "resolve_model lower st claude_model_name =
     (let name_lower = lower claude_model_name
      in if contains name_lower (u ''opus'') \<and> st_model_opus st \<noteq> None then the (st_model_opus st)
         else if contains name_lower (u ''haiku'') \<and> st_model_haiku st \<noteq> None then the (st_model_haiku st)
         else if contains name_lower (u ''sonnet'') \<and> st_model_sonnet st \<noteq> None then the (st_model_sonnet st)
         else st_model st)"

definition resolve_thinking :: "(pystr \<Rightarrow> pystr) \<Rightarrow> settings \<Rightarrow> pystr \<Rightarrow> bool" where
  "resolve_thinking lower st claude_model_name =
     (let name_lower = lower claude_model_name
      in if contains name_lower (u ''opus'') \<and> enable_opus_thinking st \<noteq> None
         then the (enable_opus_thinking st)
         else if contains name_lower (u ''haiku'') \<and> enable_haiku_thinking st \<noteq> None
         then the (enable_haiku_thinking st)
         else if contains name_lower (u ''sonnet'') \<and> enable_sonnet_thinking st \<noteq> None
         then the (enable_sonnet_thinking st)
         else enable_model_thinking st)"

text \<open>The distinct configured references, each with the keys that set it.\<close>

record configured_chat_model_ref =
  cr_model_ref :: pystr
  cr_provider_id :: pystr
  cr_model_id :: pystr
  cr_sources :: "pystr list"

fun sources_by_ref :: "(pystr \<times> pystr option) list \<Rightarrow> (pystr, pystr list) dict
    \<Rightarrow> (pystr, pystr list) dict" where
  "sources_by_ref [] d = d"
| "sources_by_ref ((source, None) # cs) d = sources_by_ref cs d"
| "sources_by_ref ((source, Some r) # cs) d =
     sources_by_ref cs (AList.update r (get_or d r [] @ [source]) d)"

fun chat_model_refs :: "(pystr, pystr list) dict
    \<Rightarrow> settings_error + configured_chat_model_ref list" where
  "chat_model_refs [] = Inr []"
| "chat_model_refs ((r, sources) # d) =
     (case parse_model_name r of
        Inl e \<Rightarrow> Inl e
      | Inr m \<Rightarrow> map_sum id (Cons \<lparr>cr_model_ref = r, cr_provider_id = parse_provider_type r,
                                  cr_model_id = m, cr_sources = sources\<rparr>) (chat_model_refs d))"

definition model_candidates :: "settings \<Rightarrow> (pystr \<times> pystr option) list" where
  "model_candidates st =
     [(u ''MODEL'', Some (st_model st)), (u ''MODEL_OPUS'', st_model_opus st),
      (u ''MODEL_SONNET'', st_model_sonnet st), (u ''MODEL_HAIKU'', st_model_haiku st)]"

definition configured_chat_model_refs ::
  "settings \<Rightarrow> settings_error + configured_chat_model_ref list" where
  "configured_chat_model_refs st = chat_model_refs (sources_by_ref (model_candidates st) [])"

text \<open>Settings that the field validators let through.\<close>

definition settings_valid :: "settings \<Rightarrow> bool" where
  "settings_valid st =
     list_all (\<lambda>(source, v). validate_model_format v = Inr v) (model_candidates st)"

section \<open>Advertised ids\<close>

definition gateway_model_id_prefix :: pystr where
  "gateway_model_id_prefix = u ''anthropic''"

definition no_thinking_gateway_model_id_prefix :: pystr where
  "no_thinking_gateway_model_id_prefix = u ''claude-3-freecc-no-thinking''"

record decoded_gateway_model_id =
  dg_provider_id :: pystr
  dg_provider_model :: pystr
  dg_force_thinking_enabled :: "bool option"

definition gateway_model_id :: "pystr \<Rightarrow> pystr" where
  "gateway_model_id provider_model_ref = gateway_model_id_prefix @ u ''/'' @ provider_model_ref"

definition no_thinking_gateway_model_id :: "pystr \<Rightarrow> pystr" where
  "no_thinking_gateway_model_id provider_model_ref =
     no_thinking_gateway_model_id_prefix @ u ''/'' @ provider_model_ref"

definition decode_gateway_model_id :: "pystr \<Rightarrow> decoded_gateway_model_id option" where
  "decode_gateway_model_id model_name =
     (case partition_at model_name (u ''/'') of (prefix_part, separator, remainder) \<Rightarrow>
        if separator = [] then None
        else
          (case (if prefix_part = gateway_model_id_prefix then Some None
                 else if prefix_part = no_thinking_gateway_model_id_prefix then Some (Some False)
                 else None) of
             None \<Rightarrow> None
           | Some force \<Rightarrow>
               (case partition_at remainder (u ''/'') of (provider_id, provider_separator, provider_model) \<Rightarrow>
                  if provider_separator = [] \<or> provider_model = [] then None
                  else Some \<lparr>dg_provider_id = provider_id, dg_provider_model = provider_model,
                             dg_force_thinking_enabled = force\<rparr>)))"

section \<open>The router\<close>

record resolved_model =
  rm_original_model :: pystr
  rm_provider_id :: pystr
  rm_provider_model :: pystr
  rm_provider_model_ref :: pystr
  rm_thinking_enabled :: bool

definition direct_provider_model :: "pystr \<Rightarrow> pystr option \<times> pystr option \<times> bool option" where
  "direct_provider_model model_name =
     (case decode_gateway_model_id model_name of
        Some decoded \<Rightarrow>
          if dg_provider_id decoded \<notin> set supported_provider_ids then (None, None, None)
          else (Some (dg_provider_id decoded), Some (dg_provider_model decoded),
                dg_force_thinking_enabled decoded)
      | None \<Rightarrow>
          (case partition_at model_name (u ''/'') of (provider_id, separator, provider_model) \<Rightarrow>
             if separator = [] then (None, None, None)
             else if provider_id \<notin> set supported_provider_ids then (None, None, None)
             else if provider_model = [] then (None, None, None)
             else (Some provider_id, Some provider_model, None)))"

definition resolve_name ::
  "(pystr \<Rightarrow> pystr) \<Rightarrow> settings \<Rightarrow> pystr \<Rightarrow> settings_error + resolved_model" where
  "resolve_name lower st name =
     (case direct_provider_model name of
        (Some pid, Some pmodel, force_thinking_enabled) \<Rightarrow>
          Inr \<lparr>rm_original_model = name, rm_provider_id = pid,
               rm_provider_model = pmodel, rm_provider_model_ref = name,
               rm_thinking_enabled =
                 (case force_thinking_enabled of
                    Some b \<Rightarrow> b | None \<Rightarrow> resolve_thinking lower st pmodel)\<rparr>
      | _ \<Rightarrow>
          (let provider_model_ref = resolve_model lower st name;
               thinking_enabled = resolve_thinking lower st name
           in map_sum id (\<lambda>m. \<lparr>rm_original_model = name,
                rm_provider_id = parse_provider_type provider_model_ref, rm_provider_model = m,
                rm_provider_model_ref = provider_model_ref, rm_thinking_enabled = thinking_enabled\<rparr>)
              (parse_model_name provider_model_ref)))"

text \<open>A routed request: a copy whose model is the provider's, and what it was resolved to.\<close>

definition resolve_messages_request ::
  "(pystr \<Rightarrow> pystr) \<Rightarrow> settings \<Rightarrow> (pystr \<times> json) list
   \<Rightarrow> settings_error + ((pystr \<times> json) list \<times> resolved_model)" where
  "resolve_messages_request lower st request =
     map_sum id (\<lambda>resolved. (dset request ''model'' (JStr (rm_provider_model resolved)), resolved))
       (resolve_name lower st (case dget request ''model'' of JStr name \<Rightarrow> name | _ \<Rightarrow> []))"

definition resolve_token_count_request ::
  "(pystr \<Rightarrow> pystr) \<Rightarrow> settings \<Rightarrow> (pystr \<times> json) list
   \<Rightarrow> settings_error + ((pystr \<times> json) list \<times> resolved_model)" where
  "resolve_token_count_request lower st request =
     map_sum id (\<lambda>resolved. (dset request ''model'' (JStr (rm_provider_model resolved)), resolved))
       (resolve_name lower st (case dget request ''model'' of JStr name \<Rightarrow> name | _ \<Rightarrow> []))"

section \<open>What validation gives\<close>

lemma split_slash_simps [pystr_simps]:
  "47 \<notin> set p \<Longrightarrow> split_slash (p @ 47 # t) = [p, t]"
  "47 \<notin> set p \<Longrightarrow> split_slash p = [p]"
  by (simp_all add: split_slash_def partition_slash partition_at_char_notin)

lemma contains_slash: "contains s [47] \<longleftrightarrow> 47 \<in> set s"
  by (simp add: contains_def find_sub_char_None)

text \<open>A validated reference is a supported provider, a slash and a model.\<close>

lemma valid_ref:
  "validate_model_format (Some r) = Inr (Some r)
   \<longleftrightarrow> (\<exists>p t. p \<in> set supported_provider_ids \<and> r = p @ 47 # t)"
proof
  assume valid: "validate_model_format (Some r) = Inr (Some r)"
  then have slash: "47 \<in> set r"
    by (auto simp: validate_model_format_def contains_slash split: if_splits)
  then obtain p t where r: "r = p @ 47 # t" "47 \<notin> set p"
    using split_list_first [OF slash] by blast
  with valid show "\<exists>p t. p \<in> set supported_provider_ids \<and> r = p @ 47 # t"
    by (auto simp: validate_model_format_def split_slash_simps split: if_splits)
next
  assume "\<exists>p t. p \<in> set supported_provider_ids \<and> r = p @ 47 # t"
  then obtain p t where "p \<in> set supported_provider_ids" "r = p @ 47 # t" by blast
  then show "validate_model_format (Some r) = Inr (Some r)"
    using supported_no_slash [of p]
    by (simp add: validate_model_format_def contains_slash split_slash_simps)
qed

lemma parse_ref [simp]:
  assumes "p \<in> set supported_provider_ids"
  shows "parse_provider_type (p @ 47 # t) = p" "parse_model_name (p @ 47 # t) = Inr t"
  using supported_no_slash [OF assms]
  by (simp_all add: parse_provider_type_def parse_model_name_def split_slash_simps)

lemma settings_valid_ref:
  assumes "settings_valid st" "(source, Some r) \<in> set (model_candidates st)"
  obtains p t where "p \<in> set supported_provider_ids" "r = p @ 47 # t"
  using assms valid_ref [of r] unfolding settings_valid_def list_all_iff by blast

lemma resolve_model_candidate:
  "\<exists>source. (source, Some (resolve_model lower st name)) \<in> set (model_candidates st)"
proof -
  have "resolve_model lower st name = st_model st
      \<or> st_model_opus st = Some (resolve_model lower st name)
      \<or> st_model_sonnet st = Some (resolve_model lower st name)
      \<or> st_model_haiku st = Some (resolve_model lower st name)"
    unfolding resolve_model_def Let_def by simp
  then show ?thesis unfolding model_candidates_def by (metis list.set_intros)
qed

lemma sources_by_ref_keys:
  "fst ` set (sources_by_ref cs d) = fst ` set d \<union> {r. Some r \<in> snd ` set cs}"
proof (induction cs d rule: sources_by_ref.induct)
  case (3 source r cs d)
  have "fst ` set (AList.update r v d) = insert r (fst ` set d)" for v
    by (metis dom_map_of_conv_image_fst dom_fun_upd map_of_update option.distinct(1))
  with 3 show ?case by auto
qed auto

lemma sources_by_ref_distinct: "distinct (map fst d) \<Longrightarrow> distinct (map fst (sources_by_ref cs d))"
  by (induction cs d rule: sources_by_ref.induct) (auto simp: distinct_keys_update)

lemma chat_model_refs_ok:
  assumes "\<forall>r \<in> fst ` set d. \<exists>p t. p \<in> set supported_provider_ids \<and> r = p @ 47 # t"
  shows "\<exists>refs. chat_model_refs d = Inr refs \<and> map cr_model_ref refs = map fst d
    \<and> (\<forall>ref \<in> set refs. cr_provider_id ref \<in> set supported_provider_ids
         \<and> cr_model_ref ref = cr_provider_id ref @ 47 # cr_model_id ref)"
  using assms
proof (induction d)
  case Nil
  then show ?case by simp
next
  case (Cons x d)
  obtain r sources where x: "x = (r, sources)" by force
  from Cons.prems x obtain p t where p: "p \<in> set supported_provider_ids" "r = p @ 47 # t" by auto
  from Cons obtain refs where "chat_model_refs d = Inr refs" "map cr_model_ref refs = map fst d"
    "\<forall>ref \<in> set refs. cr_provider_id ref \<in> set supported_provider_ids
       \<and> cr_model_ref ref = cr_provider_id ref @ 47 # cr_model_id ref"
    by auto
  with p x show ?case by simp
qed

text \<open>With validated settings the configured references are the distinct configured values, each
  split into its provider and model.\<close>

lemma configured_refs:
  assumes "settings_valid st"
  obtains refs where "configured_chat_model_refs st = Inr refs" "distinct (map cr_model_ref refs)"
    "cr_model_ref ` set refs = {r. \<exists>source. (source, Some r) \<in> set (model_candidates st)}"
    "\<And>ref. ref \<in> set refs \<Longrightarrow> cr_provider_id ref \<in> set supported_provider_ids
       \<and> cr_model_ref ref = cr_provider_id ref @ 47 # cr_model_id ref"
proof -
  let ?d = "sources_by_ref (model_candidates st) []"
  have keys: "fst ` set ?d = {r. \<exists>source. (source, Some r) \<in> set (model_candidates st)}"
    unfolding sources_by_ref_keys by force
  have all_ok: "\<forall>r \<in> fst ` set ?d. \<exists>p t. p \<in> set supported_provider_ids \<and> r = p @ 47 # t"
    unfolding keys using settings_valid_ref [OF assms] by blast
  obtain refs where refs: "chat_model_refs ?d = Inr refs" "map cr_model_ref refs = map fst ?d"
    "\<forall>ref \<in> set refs. cr_provider_id ref \<in> set supported_provider_ids
       \<and> cr_model_ref ref = cr_provider_id ref @ 47 # cr_model_id ref"
    using chat_model_refs_ok [OF all_ok] by blast
  have "cr_model_ref ` set refs = fst ` set ?d"
    using refs(2) by (metis list.set_map)
  then have "cr_model_ref ` set refs = {r. \<exists>source. (source, Some r) \<in> set (model_candidates st)}"
    unfolding keys .
  moreover have "distinct (map cr_model_ref refs)"
    unfolding refs(2) by (rule sources_by_ref_distinct) simp
  moreover have "configured_chat_model_refs st = Inr refs"
    unfolding configured_chat_model_refs_def by (rule refs(1))
  ultimately show ?thesis using that refs(3) by blast
qed

section \<open>Advertised ids come back\<close>

lemma gateway_prefixes_no_slash:
  "47 \<notin> set gateway_model_id_prefix" "47 \<notin> set no_thinking_gateway_model_id_prefix"
  by (simp_all add: gateway_model_id_prefix_def no_thinking_gateway_model_id_prefix_def u_def)

lemma gateway_prefixes_differ: "no_thinking_gateway_model_id_prefix \<noteq> gateway_model_id_prefix"
  by (simp add: gateway_model_id_prefix_def no_thinking_gateway_model_id_prefix_def)

lemma decode_gateway:
  assumes "47 \<notin> set p" "m \<noteq> []"
  shows "decode_gateway_model_id (gateway_model_id (p @ 47 # m))
           = Some \<lparr>dg_provider_id = p, dg_provider_model = m, dg_force_thinking_enabled = None\<rparr>"
    and "decode_gateway_model_id (no_thinking_gateway_model_id (p @ 47 # m))
           = Some \<lparr>dg_provider_id = p, dg_provider_model = m, dg_force_thinking_enabled = Some False\<rparr>"
  using assms gateway_prefixes_no_slash gateway_prefixes_differ
  by (simp_all add: decode_gateway_model_id_def gateway_model_id_def
      no_thinking_gateway_model_id_def partition_slash)

lemma resolve_gateway:
  assumes "p \<in> set supported_provider_ids" "m \<noteq> []"
  shows "resolve_name lower st (gateway_model_id (p @ 47 # m))
           = Inr \<lparr>rm_original_model = gateway_model_id (p @ 47 # m), rm_provider_id = p,
                  rm_provider_model = m, rm_provider_model_ref = gateway_model_id (p @ 47 # m),
                  rm_thinking_enabled = resolve_thinking lower st m\<rparr>"
    and "resolve_name lower st (no_thinking_gateway_model_id (p @ 47 # m))
           = Inr \<lparr>rm_original_model = no_thinking_gateway_model_id (p @ 47 # m), rm_provider_id = p,
                  rm_provider_model = m,
                  rm_provider_model_ref = no_thinking_gateway_model_id (p @ 47 # m),
                  rm_thinking_enabled = False\<rparr>"
  using assms supported_no_slash [OF assms(1)]
  by (simp_all add: resolve_name_def direct_provider_model_def decode_gateway)

text \<open>A name without a slash is mapped by the settings.\<close>

lemma resolve_plain_name:
  assumes "settings_valid st" "47 \<notin> set name"
  shows "\<exists>p m. p \<in> set supported_provider_ids \<and> resolve_model lower st name = p @ 47 # m
    \<and> resolve_name lower st name
        = Inr \<lparr>rm_original_model = name, rm_provider_id = p, rm_provider_model = m,
               rm_provider_model_ref = p @ 47 # m,
               rm_thinking_enabled = resolve_thinking lower st name\<rparr>"
proof -
  obtain source where "(source, Some (resolve_model lower st name)) \<in> set (model_candidates st)"
    using resolve_model_candidate by blast
  then obtain p m where p: "p \<in> set supported_provider_ids" "resolve_model lower st name = p @ 47 # m"
    using settings_valid_ref [OF assms(1)] by blast
  have "direct_provider_model name = (None, None, None)"
    using assms(2) by (simp add: direct_provider_model_def decode_gateway_model_id_def
        partition_at_char_notin)
  with p show ?thesis by (simp add: resolve_name_def)
qed

text \<open>Claim C24: with validated settings the router never raises: every name a client can send is
  resolved to a supported provider, and to a model that is the tail of the name itself or of a
  configured reference of that provider.\<close>

theorem routing_is_total:
  assumes "settings_valid st"
  shows "\<exists>rm. resolve_name lower st name = Inr rm
    \<and> rm_original_model rm = name
    \<and> rm_provider_id rm \<in> set supported_provider_ids
    \<and> (suffix (rm_provider_id rm @ u ''/'' @ rm_provider_model rm) name \<and> rm_provider_model rm \<noteq> []
       \<or> rm_provider_id rm @ u ''/'' @ rm_provider_model rm = resolve_model lower st name
         \<and> (\<exists>source. (source, Some (resolve_model lower st name)) \<in> set (model_candidates st)))"
proof -
  obtain source where cand: "(source, Some (resolve_model lower st name)) \<in> set (model_candidates st)"
    using resolve_model_candidate by blast
  then obtain p m where p: "p \<in> set supported_provider_ids" "resolve_model lower st name = p @ 47 # m"
    using settings_valid_ref [OF assms(1)] by blast
  have mapped: "\<exists>rm. resolve_name lower st name = Inr rm \<and> rm_original_model rm = name
      \<and> rm_provider_id rm = p \<and> rm_provider_model rm = m"
    if "direct_provider_model name = (None, None, None)"
    using p that by (simp add: resolve_name_def)
  have "direct_provider_model name = (None, None, None)
      \<or> (\<exists>q t f. direct_provider_model name = (Some q, Some t, f) \<and> q \<in> set supported_provider_ids
           \<and> t \<noteq> [] \<and> suffix (q @ 47 # t) name)"
  proof (cases name rule: partition_slash_cases)
    case no_sep
    then show ?thesis by (simp add: direct_provider_model_def decode_gateway_model_id_def)
  next
    case (sep h r)
    show ?thesis
    proof (cases r rule: partition_slash_cases)
      case (sep q t)
      have "suffix (q @ 47 # t) name" "suffix r r"
        using \<open>name = h @ 47 # r\<close> sep by (auto simp: suffix_def intro: exI [of _ "h @ [47]"])
      with sep \<open>partition_at name [47] = (h, [47], r)\<close> \<open>name = h @ 47 # r\<close> show ?thesis
        by (auto simp: direct_provider_model_def decode_gateway_model_id_def)
    next
      case no_sep
      with sep show ?thesis
        by (auto simp: direct_provider_model_def decode_gateway_model_id_def)
    qed
  qed
  then show ?thesis
  proof
    assume "direct_provider_model name = (None, None, None)"
    with mapped p cand show ?thesis by fastforce
  next
    assume "\<exists>q t f. direct_provider_model name = (Some q, Some t, f) \<and> q \<in> set supported_provider_ids
           \<and> t \<noteq> [] \<and> suffix (q @ 47 # t) name"
    then show ?thesis by (auto simp: resolve_name_def)
  qed
qed

definition example_settings :: settings where
  "example_settings =
     \<lparr>st_model = u ''nvidia_nim/z-ai/glm4.7'', st_model_opus = Some (u ''open_router/x/opus''),
      st_model_sonnet = None, st_model_haiku = Some (u ''ollama/''),
      enable_model_thinking = True, enable_opus_thinking = Some False,
      enable_sonnet_thinking = None, enable_haiku_thinking = None,
      st_strings = [(u ''nvidia_nim_api_key'', u ''key'')], st_provider_rate_limit = 40,
      st_provider_rate_window = 60, st_provider_max_concurrency = 5, st_http_read_timeout = 300,
      st_http_write_timeout = 10, st_http_connect_timeout = 10, st_log_raw_sse_events = False,
      st_log_api_error_tracebacks = False\<rparr>"

lemma example_settings_valid: "settings_valid example_settings"
  by code_simp

theorem routing_is_total_witness:
  "rm_provider_id (projr (resolve_name id example_settings (u ''claude-3-opus''))) = u ''open_router''
   \<and> rm_provider_id (projr (resolve_name id example_settings (u ''claude-3-opus'')))
       \<in> set supported_provider_ids"
proof -
  have "rm_provider_id (projr (resolve_name id example_settings (u ''claude-3-opus''))) = u ''open_router''"
    by code_simp
  then show ?thesis
    using routing_is_total [OF example_settings_valid, of id "u ''claude-3-opus''"] by auto
qed

text \<open>An empty model name passes the settings validation. Its advertised id does not decode, so a
  request for it goes to the default model, and the thinking variant that the id promised to switch
  off is decided by the settings again.\<close>

lemma empty_model_name_is_misrouted:
  "validate_model_format (Some (u ''ollama/'')) = Inr (Some (u ''ollama/''))
   \<and> decode_gateway_model_id (no_thinking_gateway_model_id (u ''ollama/'')) = None
   \<and> resolve_name id example_settings (no_thinking_gateway_model_id (u ''ollama/''))
       = Inr \<lparr>rm_original_model = no_thinking_gateway_model_id (u ''ollama/''),
              rm_provider_id = u ''nvidia_nim'', rm_provider_model = u ''z-ai/glm4.7'',
              rm_provider_model_ref = u ''nvidia_nim/z-ai/glm4.7'', rm_thinking_enabled = True\<rparr>"
  by code_simp

end
