(* ===== verification/Provider_Registry.thy ===== *)
theory Provider_Registry
  imports Errors Model_Routing "HOL-Library.List_Lexorder"
begin

text \<open>
  The registry of providers and their models (\<open>providers/registry.py\<close>,
  \<open>providers/model_listing.py\<close>) and the model list it feeds (\<open>api/routes.py\<close>). A provider object
  is a value of any type; \<open>factory\<close>, the constructors behind \<open>PROVIDER_FACTORIES\<close>, and the outcome of
  each provider's model list request are arguments. A frozen set that is iterated arrives as the
  list of its elements in the order of the iteration, whatever that is.
\<close>

section \<open>Model lists of the providers\<close>

record provider_model_info =
  pi_model_id :: pystr
  pi_supports_thinking :: "bool option"

definition model_infos_from_ids :: "pystr set \<Rightarrow> bool option \<Rightarrow> provider_model_info set" where
  "model_infos_from_ids model_ids supports_thinking =
     (\<lambda>i. \<lparr>pi_model_id = i, pi_supports_thinking = supports_thinking\<rparr>)
       ` Set.filter (\<lambda>i. strip i \<noteq> []) model_ids"

definition field :: "json \<Rightarrow> string \<Rightarrow> json" where
  "field item name = (case item of JObj d \<Rightarrow> dget d name | _ \<Rightarrow> JNull)"

definition service_unavailable_error :: "pystr \<Rightarrow> exn" where
  "service_unavailable_error message =
     provider_error ''ServiceUnavailableError'' message 503 ''api_error''"

definition malformed :: "pystr \<Rightarrow> string \<Rightarrow> exn" where
  "malformed provider_name reason =
     provider_error ''ModelListResponseError''
       (provider_name @ u '' model-list response is malformed: '' @ u reason) 503 ''api_error''"

text \<open>\<open>isinstance(v, str) and v.strip()\<close>.\<close>

definition usable_id :: "json \<Rightarrow> bool" where
  "usable_id v = (case v of JStr s \<Rightarrow> strip s \<noteq> [] | _ \<Rightarrow> False)"

fun openai_ids :: "pystr \<Rightarrow> json list \<Rightarrow> pystr set \<Rightarrow> exn + pystr set" where
  "openai_ids provider_name [] model_ids = Inr model_ids"
| "openai_ids provider_name (item # data) model_ids =
     (let model_id = field item ''id''
      in if \<not> usable_id model_id
         then Inl (malformed provider_name ''expected every data item to include id'')
         else openai_ids provider_name data (insert (the (str_of model_id)) model_ids))"

definition extract_openai_model_ids :: "json \<Rightarrow> pystr \<Rightarrow> exn + pystr set" where
  "extract_openai_model_ids payload provider_name =
     (case field payload ''data'' of
        JList data \<Rightarrow>
          (case openai_ids provider_name data {} of
             Inl e \<Rightarrow> Inl e
           | Inr model_ids \<Rightarrow>
               if model_ids = {}
               then Inl (malformed provider_name ''response did not include any model ids'')
               else Inr model_ids)
      | _ \<Rightarrow> Inl (malformed provider_name ''expected top-level data array''))"

fun param_names :: "json list \<Rightarrow> pystr set" where
  "param_names [] = {}"
| "param_names (JStr s # ps) = insert s (param_names ps)"
| "param_names (_ # ps) = param_names ps"

fun openrouter_infos :: "pystr \<Rightarrow> json list \<Rightarrow> provider_model_info set
    \<Rightarrow> exn + provider_model_info set" where
  "openrouter_infos provider_name [] infos = Inr infos"
| "openrouter_infos provider_name (item # data) infos =
     (let model_id = field item ''id''
      in if \<not> usable_id model_id
         then Inl (malformed provider_name ''expected every data item to include id'')
         else
           (case field item ''supported_parameters'' of
              JList params \<Rightarrow>
                (let names = param_names params
                 in if u ''tools'' \<notin> names \<and> u ''tool_choice'' \<notin> names
                    then openrouter_infos provider_name data infos
                    else openrouter_infos provider_name data
                           (insert \<lparr>pi_model_id = the (str_of model_id),
                                    pi_supports_thinking = Some (u ''reasoning'' \<in> names)\<rparr> infos))
            | _ \<Rightarrow> openrouter_infos provider_name data infos))"

definition extract_openrouter_tool_model_infos ::
  "json \<Rightarrow> pystr \<Rightarrow> exn + provider_model_info set" where
  "extract_openrouter_tool_model_infos payload provider_name =
     (case field payload ''data'' of
        JList data \<Rightarrow> openrouter_infos provider_name data {}
      | _ \<Rightarrow> Inl (malformed provider_name ''expected top-level data array''))"

definition extract_openrouter_tool_model_ids :: "json \<Rightarrow> pystr \<Rightarrow> exn + pystr set" where
  "extract_openrouter_tool_model_ids payload provider_name =
     map_sum id (image pi_model_id) (extract_openrouter_tool_model_infos payload provider_name)"

fun ollama_ids :: "pystr \<Rightarrow> json list \<Rightarrow> pystr set \<Rightarrow> exn + pystr set" where
  "ollama_ids provider_name [] model_ids = Inr model_ids"
| "ollama_ids provider_name (item # data) model_ids =
     (let item_ids = map (\<lambda>v. the (str_of v))
            (filter usable_id (map (field item) [''model'', ''name'']))
      in if item_ids = []
         then Inl (malformed provider_name ''expected every models item to include model or name'')
         else ollama_ids provider_name data (model_ids \<union> set item_ids))"

definition extract_ollama_model_ids :: "json \<Rightarrow> pystr \<Rightarrow> exn + pystr set" where
  "extract_ollama_model_ids payload provider_name =
     (case field payload ''models'' of
        JList data \<Rightarrow>
          (case ollama_ids provider_name data {} of
             Inl e \<Rightarrow> Inl e
           | Inr model_ids \<Rightarrow>
               if model_ids = {}
               then Inl (malformed provider_name ''response did not include any model ids'')
               else Inr model_ids)
      | _ \<Rightarrow> Inl (malformed provider_name ''expected top-level models array''))"

section \<open>Configuration of a provider\<close>

record provider_config =
  pc_api_key :: pystr
  pc_base_url :: "pystr option"
  pc_rate_limit :: int
  pc_rate_window :: int
  pc_max_concurrency :: int
  pc_http_read_timeout :: rat
  pc_http_write_timeout :: rat
  pc_http_connect_timeout :: rat
  pc_enable_thinking :: bool
  pc_proxy :: pystr
  pc_log_raw_sse_events :: bool
  pc_log_api_error_tracebacks :: bool

definition string_attr :: "settings \<Rightarrow> pystr option \<Rightarrow> pystr \<Rightarrow> pystr" where
  "string_attr st attr_name dflt =
     (case attr_name of None \<Rightarrow> dflt | Some a \<Rightarrow> get_or (st_strings st) a dflt)"

definition credential_for :: "provider_descriptor \<Rightarrow> settings \<Rightarrow> pystr" where
  "credential_for descriptor st =
     (case pd_static_credential descriptor of
        Some c \<Rightarrow> c
      | None \<Rightarrow>
          if pd_credential_attr descriptor \<noteq> None \<and> pd_credential_attr descriptor \<noteq> Some []
          then string_attr st (pd_credential_attr descriptor) []
          else [])"

definition require_credential :: "provider_descriptor \<Rightarrow> pystr \<Rightarrow> exn option" where
  "require_credential descriptor credential =
     (case pd_credential_env descriptor of
        None \<Rightarrow> None
      | Some env \<Rightarrow>
          if credential \<noteq> [] \<and> strip credential \<noteq> [] then None
          else
            (let message = env @ u '' is not set. Add it to your .env file.''
             in Some (authentication_error
                  (if pd_credential_url descriptor \<noteq> None \<and> pd_credential_url descriptor \<noteq> Some []
                   then message @ u '' Get a key at '' @ the (pd_credential_url descriptor)
                   else message))))"

definition build_provider_config :: "provider_descriptor \<Rightarrow> settings \<Rightarrow> exn + provider_config" where
  "build_provider_config descriptor st =
     (let credential = credential_for descriptor st
      in case require_credential descriptor credential of
           Some e \<Rightarrow> Inl e
         | None \<Rightarrow>
             (let base_url = string_attr st (pd_base_url_attr descriptor)
                    (case pd_default_base_url descriptor of Some b \<Rightarrow> b | None \<Rightarrow> []);
                  proxy = string_attr st (pd_proxy_attr descriptor) []
              in Inr \<lparr>pc_api_key = credential,
                   pc_base_url = (if base_url \<noteq> [] then Some base_url
                                  else pd_default_base_url descriptor),
                   pc_rate_limit = st_provider_rate_limit st,
                   pc_rate_window = st_provider_rate_window st,
                   pc_max_concurrency = st_provider_max_concurrency st,
                   pc_http_read_timeout = st_http_read_timeout st,
                   pc_http_write_timeout = st_http_write_timeout st,
                   pc_http_connect_timeout = st_http_connect_timeout st,
                   pc_enable_thinking = enable_model_thinking st, pc_proxy = proxy,
                   pc_log_raw_sse_events = st_log_raw_sse_events st,
                   pc_log_api_error_tracebacks = st_log_api_error_tracebacks st\<rparr>))"

type_synonym 'p provider_factory = "pystr \<Rightarrow> provider_config \<Rightarrow> settings \<Rightarrow> exn + 'p"

definition create_provider :: "'p provider_factory \<Rightarrow> pystr \<Rightarrow> settings \<Rightarrow> exn + 'p" where
  "create_provider factory provider_id st =
     (case map_of provider_catalog provider_id of
        None \<Rightarrow>
          Inl (provider_error ''UnknownProviderTypeError''
            (u ''Unknown provider_type: '' @ [39] @ provider_id @ [39] @ u ''. Supported: '' @ [39]
             @ join ([39] @ u '', '' @ [39]) (map fst provider_catalog) @ [39])
            400 ''invalid_request_error'')
      | Some descriptor \<Rightarrow>
          (case build_provider_config descriptor st of
             Inl e \<Rightarrow> Inl e
           | Inr config \<Rightarrow> factory provider_id config st))"

section \<open>The registry\<close>

record 'p registry =
  rg_providers :: "(pystr, 'p) dict"
  rg_model_ids :: "(pystr, pystr set) dict"
  rg_model_infos :: "(pystr, (pystr, provider_model_info) dict) dict"
  rg_refresh_task :: "(pystr list \<times> bool) option"

definition registry_init :: "'p registry" where
  "registry_init = \<lparr>rg_providers = [], rg_model_ids = [], rg_model_infos = [], rg_refresh_task = None\<rparr>"

definition is_cached :: "'p registry \<Rightarrow> pystr \<Rightarrow> bool" where
  "is_cached reg provider_id = has_key (rg_providers reg) provider_id"

definition registry_get ::
  "'p provider_factory \<Rightarrow> settings \<Rightarrow> pystr \<Rightarrow> 'p registry \<Rightarrow> (exn + 'p) \<times> 'p registry" where
  "registry_get factory st provider_id reg =
     (case map_of (rg_providers reg) provider_id of
        Some provider \<Rightarrow> (Inr provider, reg)
      | None \<Rightarrow>
          (case create_provider factory provider_id st of
             Inl e \<Rightarrow> (Inl e, reg)
           | Inr provider \<Rightarrow>
               (Inr provider,
                reg\<lparr>rg_providers := AList.update provider_id provider (rg_providers reg)\<rparr>)))"

fun clean_infos :: "provider_model_info list \<Rightarrow> (pystr, provider_model_info) dict
    \<Rightarrow> (pystr, provider_model_info) dict" where
  "clean_infos [] d = d"
| "clean_infos (info # infos) d =
     (if strip (pi_model_id info) \<noteq> []
      then clean_infos infos (AList.update (pi_model_id info) info d)
      else clean_infos infos d)"

definition cache_model_infos ::
  "pystr \<Rightarrow> provider_model_info list \<Rightarrow> 'p registry \<Rightarrow> 'p registry" where
  "cache_model_infos provider_id model_infos reg =
     (let infos = clean_infos model_infos []
      in reg\<lparr>rg_model_infos := AList.update provider_id infos (rg_model_infos reg),
             rg_model_ids := AList.update provider_id (fst ` set infos) (rg_model_ids reg)\<rparr>)"





section \<open>Discovery and validation\<close>

text \<open>How one awaited model list request ends.\<close>

datatype query_outcome =
    Infos "provider_model_info list"
  | QueryFailed exn
  | QueryCancelled

definition provider_query_failure_reason :: "exn \<Rightarrow> settings \<Rightarrow> pystr" where
  "provider_query_failure_reason e st =
     (if ex_name e = u ''ModelListResponseError''
      then u ''malformed model-list response: '' @ ex_str e
      else if ex_class e = HttpxStatusError
      then u ''query failure: HTTP '' @ int_text (ex_response_status e)
      else if ex_name e = u ''AuthenticationError'' \<and> ex_class e = ProviderErrorClass
      then u ''query failure: '' @ ex_str e
      else if ex_class e = ProviderErrorClass \<and> st_log_api_error_tracebacks st
      then u ''query failure: '' @ ex_str e
      else u ''query failure: '' @ ex_name e)"

definition format_model_validation_failure :: "configured_chat_model_ref \<Rightarrow> pystr \<Rightarrow> pystr" where
  "format_model_validation_failure ref problem =
     u ''sources='' @ join (u '','') (cr_sources ref) @ u '' provider='' @ cr_provider_id ref
     @ u '' model='' @ cr_model_id ref @ u '' problem='' @ problem"

definition format_provider_query_failures ::
  "configured_chat_model_ref list \<Rightarrow> exn \<Rightarrow> settings \<Rightarrow> pystr list" where
  "format_provider_query_failures refs e st =
     (let reason = provider_query_failure_reason e st
      in map (\<lambda>ref. format_model_validation_failure ref reason) refs)"

definition format_missing_model_failure :: "configured_chat_model_ref \<Rightarrow> pystr" where
  "format_missing_model_failure ref = format_model_validation_failure ref (u ''missing model'')"




text \<open>The loop that creates the providers and starts their requests: which requests run, and the
  exceptions of the providers that could not be created.\<close>

fun start_queries :: "'p provider_factory \<Rightarrow> settings \<Rightarrow> pystr list \<Rightarrow> 'p registry
    \<Rightarrow> pystr list \<times> (pystr \<times> exn) list \<times> 'p registry" where
  "start_queries factory st [] reg = ([], [], reg)"
| "start_queries factory st (p # ps) reg =
     (case registry_get factory st p reg of
        (Inl e, reg') \<Rightarrow>
          (case start_queries factory st ps reg' of (ts, fs, reg'') \<Rightarrow> (ts, (p, e) # fs, reg''))
      | (Inr _, reg') \<Rightarrow>
          (case start_queries factory st ps reg' of (ts, fs, reg'') \<Rightarrow> (p # ts, fs, reg'')))"







text \<open>References grouped by provider, in the order the providers first appear.\<close>

definition refs_by_provider :: "configured_chat_model_ref list
    \<Rightarrow> (pystr, configured_chat_model_ref list) dict" where
  "refs_by_provider refs =
     fold (\<lambda>ref d. AList.update (cr_provider_id ref) (get_or d (cr_provider_id ref) [] @ [ref]) d)
       refs []"

datatype validation_result =
    Validated
  | ValidationFailed exn
  | ValidationCancelled
  | ValidationRaised settings_error

fun validate_results :: "settings \<Rightarrow> (pystr, configured_chat_model_ref list) dict
    \<Rightarrow> (pystr \<times> query_outcome) list \<Rightarrow> 'p registry \<Rightarrow> pystr list option \<times> 'p registry" where
  "validate_results st by_provider [] reg = (Some [], reg)"
| "validate_results st by_provider ((p, QueryCancelled) # rs) reg = (None, reg)"
| "validate_results st by_provider ((p, QueryFailed e) # rs) reg =
     (case validate_results st by_provider rs reg of (fs, reg') \<Rightarrow>
        (map_option (\<lambda>fs. format_provider_query_failures (get_or by_provider p []) e st @ fs) fs, reg'))"
| "validate_results st by_provider ((p, Infos infos) # rs) reg =
     (let reg' = cache_model_infos p infos reg;
          model_ids = get_or (rg_model_ids reg') p {};
          missing = map format_missing_model_failure
            (filter (\<lambda>ref. cr_model_id ref \<notin> model_ids) (get_or by_provider p []))
      in case validate_results st by_provider rs reg' of (fs, reg'') \<Rightarrow>
           (map_option (\<lambda>fs. missing @ fs) fs, reg''))"

definition validate_configured_models ::
  "'p provider_factory \<Rightarrow> settings \<Rightarrow> (pystr \<Rightarrow> query_outcome) \<Rightarrow> 'p registry
   \<Rightarrow> validation_result \<times> 'p registry" where
  "validate_configured_models factory st outcome reg =
     (case configured_chat_model_refs st of
        Inl e \<Rightarrow> (ValidationRaised e, reg)
      | Inr refs \<Rightarrow>
          (let by_provider = refs_by_provider refs
           in case start_queries factory st (map fst by_provider) reg of (ts, not_created, reg') \<Rightarrow>
             (let creation_failures = concat (map (\<lambda>(p, e).
                    format_provider_query_failures (get_or by_provider p []) e st) not_created)
              in case validate_results st by_provider (map (\<lambda>p. (p, outcome p)) ts) reg' of
                   (None, reg'') \<Rightarrow> (ValidationCancelled, reg'')
                 | (Some fs, reg'') \<Rightarrow>
                     (let failures = creation_failures @ fs
                      in if failures \<noteq> []
                         then (ValidationFailed (service_unavailable_error
                                (u ''Configured model validation failed:'' @ [10]
                                 @ join [10] (map (\<lambda>f. u ''- '' @ f) failures))), reg'')
                         else (Validated, reg'')))))"

section \<open>Cleaning up\<close>





section \<open>The advertised model list\<close>









section \<open>What the cache holds\<close>

text \<open>Cached infos are kept under their own, non-blank, model id, and the id set is their keys.\<close>

definition infos_ok :: "(pystr, provider_model_info) dict \<Rightarrow> bool" where
  "infos_ok d = (distinct (map fst d) \<and> (\<forall>(k, info) \<in> set d. k = pi_model_id info \<and> strip k \<noteq> []))"

definition registry_ok :: "'p registry \<Rightarrow> bool" where
  "registry_ok reg =
     ((\<forall>(p, infos) \<in> set (rg_model_infos reg). infos_ok infos)
      \<and> map_of (rg_model_ids reg) = map_option (\<lambda>infos. fst ` set infos) \<circ> map_of (rg_model_infos reg))"


lemma clean_infos_keys:
  "fst ` set (clean_infos infos d) = fst ` set d \<union> {i \<in> pi_model_id ` set infos. strip i \<noteq> []}"
proof (induction infos d rule: clean_infos.induct)
  case (2 info infos d)
  have "fst ` set (AList.update (pi_model_id info) info d) = insert (pi_model_id info) (fst ` set d)"
    by (metis dom_map_of_conv_image_fst dom_fun_upd map_of_update option.distinct(1))
  with 2 show ?case by auto
qed simp










lemma registry_ok_task [simp]: "registry_ok (reg\<lparr>rg_refresh_task := t\<rparr>) = registry_ok reg"
  by (simp add: registry_ok_def)





section \<open>The advertised list\<close>











text \<open>No configured model name is empty (the field validators do not see to that).\<close>

definition models_named :: "settings \<Rightarrow> bool" where
  "models_named st = list_all (\<lambda>(source, v). \<forall>r \<in> set_option v. parse_model_name r \<noteq> Inr [])
     (model_candidates st)"






definition named_settings :: settings where
  "named_settings = example_settings\<lparr>st_model_haiku := None\<rparr>"


lemma named_settings_ok: "settings_valid named_settings" "models_named named_settings"
  by code_simp+



section \<open>Validation\<close>

text \<open>Asking for one provider does not change what asking for another one, or for it again, gives.\<close>

lemma get_stable:
  "fst (registry_get factory st p (snd (registry_get factory st q reg))) = fst (registry_get factory st p reg)"
  by (auto simp: registry_get_def split: option.splits sum.splits)

definition created :: "'p provider_factory \<Rightarrow> settings \<Rightarrow> 'p registry \<Rightarrow> pystr \<Rightarrow> bool" where
  "created factory st reg p = (\<not> isl (fst (registry_get factory st p reg)))"

lemma start_queries_result:
  "\<exists>reg'. start_queries factory st ps reg
     = (filter (created factory st reg) ps,
        map (\<lambda>p. (p, projl (fst (registry_get factory st p reg))))
          (filter (\<lambda>p. \<not> created factory st reg p) ps), reg')"
proof (induction ps arbitrary: reg)
  case (Cons p ps)
  obtain r reg1 where get: "registry_get factory st p reg = (r, reg1)" by force
  have same: "fst (registry_get factory st q reg1) = fst (registry_get factory st q reg)" for q
    using get_stable [of factory st q p reg] get by simp
  then have cr: "created factory st reg1 = created factory st reg"
    by (simp add: created_def fun_eq_iff)
  show ?case
    using Cons.IH [of reg1] get
    by (cases r) (auto simp: cr same created_def split: prod.splits)
qed simp

text \<open>Why a configured model cannot be used, if it cannot.\<close>

definition query_problem :: "settings \<Rightarrow> query_outcome \<Rightarrow> pystr \<Rightarrow> pystr option" where
  "query_problem st q model_id =
     (case q of
        QueryFailed e \<Rightarrow> Some (provider_query_failure_reason e st)
      | Infos infos \<Rightarrow>
          if model_id \<in> pi_model_id ` set infos \<and> strip model_id \<noteq> [] then None
          else Some (u ''missing model'')
      | QueryCancelled \<Rightarrow> None)"

definition model_problem :: "'p provider_factory \<Rightarrow> settings \<Rightarrow> (pystr \<Rightarrow> query_outcome)
    \<Rightarrow> 'p registry \<Rightarrow> configured_chat_model_ref \<Rightarrow> pystr option" where
  "model_problem factory st outcome reg ref =
     (case fst (registry_get factory st (cr_provider_id ref) reg) of
        Inl e \<Rightarrow> Some (provider_query_failure_reason e st)
      | Inr _ \<Rightarrow> query_problem st (outcome (cr_provider_id ref)) (cr_model_id ref))"

definition problem_lines :: "(configured_chat_model_ref \<Rightarrow> pystr option)
    \<Rightarrow> configured_chat_model_ref set \<Rightarrow> pystr set" where
  "problem_lines problem refs =
     (\<Union>ref \<in> refs. format_model_validation_failure ref ` set_option (problem ref))"

lemma problem_lines_empty: "problem_lines problem refs = {} \<longleftrightarrow> (\<forall>ref \<in> refs. problem ref = None)"
  unfolding problem_lines_def by (auto simp: set_empty_eq)

lemma get_or_refs_by_provider:
  "get_or (refs_by_provider refs) p [] = filter (\<lambda>ref. cr_provider_id ref = p) refs"
  "fst ` set (refs_by_provider refs) = cr_provider_id ` set refs"
proof -
  let ?f = "\<lambda>ref d. AList.update (cr_provider_id ref) (get_or d (cr_provider_id ref) [] @ [ref]) d"
  have "get_or (fold ?f refs d) p [] = get_or d p [] @ filter (\<lambda>ref. cr_provider_id ref = p) refs" for d
    by (induction refs arbitrary: d) (auto simp: get_or_def)
  from this [of "[]"] show "get_or (refs_by_provider refs) p [] = filter (\<lambda>ref. cr_provider_id ref = p) refs"
    by (simp add: refs_by_provider_def get_or_def)
  have keys: "fst ` set (AList.update k v d) = insert k (fst ` set d)" for k v and d :: "('a \<times> 'b) list"
    by (metis dom_map_of_conv_image_fst dom_fun_upd map_of_update option.distinct(1))
  have "fst ` set (fold ?f refs d) = fst ` set d \<union> cr_provider_id ` set refs" for d
    by (induction refs arbitrary: d) (auto simp: keys)
  then show "fst ` set (refs_by_provider refs) = cr_provider_id ` set refs"
    by (simp add: refs_by_provider_def)
qed

lemma cached_ids:
  "get_or (rg_model_ids (cache_model_infos p infos reg)) p {}
     = {i \<in> pi_model_id ` set infos. strip i \<noteq> []}"
  by (simp add: cache_model_infos_def Let_def get_or_def clean_infos_keys)

lemma cached_ids_other:
  "q \<noteq> p \<Longrightarrow> get_or (rg_model_ids (cache_model_infos p infos reg)) q {} = get_or (rg_model_ids reg) q {}"
  by (simp add: cache_model_infos_def Let_def get_or_def)

lemma if_pair_flip: "(if l \<noteq> [] then (f l, r) else (v, r)) = (if l = [] then v else f l, r)"
  by simp

lemma lines_of_provider:
  "outcome p = QueryFailed e \<Longrightarrow>
     problem_lines (\<lambda>ref. query_problem st (outcome (cr_provider_id ref)) (cr_model_id ref))
        {ref \<in> set refs. cr_provider_id ref = p}
     = set (format_provider_query_failures (get_or (refs_by_provider refs) p []) e st)"
  "outcome p = Infos infos \<Longrightarrow>
     problem_lines (\<lambda>ref. query_problem st (outcome (cr_provider_id ref)) (cr_model_id ref))
        {ref \<in> set refs. cr_provider_id ref = p}
     = set (map format_missing_model_failure
            (filter (\<lambda>ref. cr_model_id ref \<notin> get_or (rg_model_ids (cache_model_infos p infos reg)) p {})
              (get_or (refs_by_provider refs) p [])))"
  by (auto simp: problem_lines_def query_problem_def Let_def cached_ids get_or_refs_by_provider
      format_provider_query_failures_def format_missing_model_failure_def split: if_splits)

lemma problem_lines_Un: "problem_lines f (A \<union> B) = problem_lines f A \<union> problem_lines f B"
  by (simp add: problem_lines_def)

lemma problem_lines_cong:
  "(\<And>ref. ref \<in> refs \<Longrightarrow> f ref = g ref) \<Longrightarrow> problem_lines f refs = problem_lines g refs"
  by (simp add: problem_lines_def)

lemma validate_results_lines:
  assumes "\<forall>p \<in> set ps. outcome p \<noteq> QueryCancelled"
  shows "\<exists>fs reg'. validate_results st (refs_by_provider refs) (map (\<lambda>p. (p, outcome p)) ps) reg = (Some fs, reg')
    \<and> set fs = problem_lines (\<lambda>ref. query_problem st (outcome (cr_provider_id ref)) (cr_model_id ref))
                {ref \<in> set refs. cr_provider_id ref \<in> set ps}
    \<and> (\<forall>p infos. outcome p = Infos infos \<longrightarrow>
         get_or (rg_model_ids reg') p {} = (if p \<in> set ps then {i \<in> pi_model_id ` set infos. strip i \<noteq> []}
            else get_or (rg_model_ids reg) p {}))"
  using assms
proof (induction ps arbitrary: reg)
  case Nil
  then show ?case by (simp add: problem_lines_def)
next
  case (Cons p ps)
  let ?problem = "\<lambda>ref. query_problem st (outcome (cr_provider_id ref)) (cr_model_id ref)"
  have "{ref \<in> set refs. cr_provider_id ref \<in> set (p # ps)}
      = {ref \<in> set refs. cr_provider_id ref = p} \<union> {ref \<in> set refs. cr_provider_id ref \<in> set ps}"
    by auto
  note split = this problem_lines_Un
  have prems: "\<forall>p \<in> set ps. outcome p \<noteq> QueryCancelled" using Cons.prems by simp
  show ?case
  proof (cases "outcome p")
    case (QueryFailed e)
    from Cons.IH [OF prems, of reg] obtain fs reg' where IH: "validate_results st (refs_by_provider refs)
          (map (\<lambda>p. (p, outcome p)) ps) reg = (Some fs, reg')"
      "set fs = problem_lines ?problem {ref \<in> set refs. cr_provider_id ref \<in> set ps}"
      "\<forall>q infos. outcome q = Infos infos \<longrightarrow> get_or (rg_model_ids reg') q {}
         = (if q \<in> set ps then {i \<in> pi_model_id ` set infos. strip i \<noteq> []}
            else get_or (rg_model_ids reg) q {})"
      by (elim exE conjE)
    have "validate_results st (refs_by_provider refs) (map (\<lambda>p. (p, outcome p)) (p # ps)) reg
        = (Some (format_provider_query_failures (get_or (refs_by_provider refs) p []) e st @ fs), reg')"
      using QueryFailed IH(1) by simp
    moreover have "set (format_provider_query_failures (get_or (refs_by_provider refs) p []) e st @ fs)
        = problem_lines ?problem {ref \<in> set refs. cr_provider_id ref \<in> set (p # ps)}"
      unfolding split set_append IH(2) lines_of_provider(1) [where outcome = outcome, OF QueryFailed]
      by (rule refl)
    moreover have "get_or (rg_model_ids reg') q {}
         = (if q \<in> set (p # ps) then {i \<in> pi_model_id ` set infos'. strip i \<noteq> []}
            else get_or (rg_model_ids reg) q {})" if "outcome q = Infos infos'" for q infos'
      using IH(3) that QueryFailed by (cases "q = p") auto
    ultimately show ?thesis by blast
  next
    case (Infos infos)
    let ?reg = "cache_model_infos p infos reg"
    from Cons.IH [OF prems, of ?reg] obtain fs reg' where IH: "validate_results st (refs_by_provider refs)
          (map (\<lambda>p. (p, outcome p)) ps) ?reg = (Some fs, reg')"
      "set fs = problem_lines ?problem {ref \<in> set refs. cr_provider_id ref \<in> set ps}"
      "\<forall>q infos'. outcome q = Infos infos' \<longrightarrow> get_or (rg_model_ids reg') q {}
         = (if q \<in> set ps then {i \<in> pi_model_id ` set infos'. strip i \<noteq> []}
            else get_or (rg_model_ids ?reg) q {})"
      by (elim exE conjE)
    let ?missing = "map format_missing_model_failure
            (filter (\<lambda>ref. cr_model_id ref \<notin> get_or (rg_model_ids ?reg) p {})
              (get_or (refs_by_provider refs) p []))"
    have ids: "get_or (rg_model_ids reg') q {}
         = (if q \<in> set (p # ps) then {i \<in> pi_model_id ` set infos'. strip i \<noteq> []}
            else get_or (rg_model_ids reg) q {})" if "outcome q = Infos infos'" for q infos'
      using IH(3) that Infos by (cases "q = p") (auto simp: cached_ids cached_ids_other)
    have "validate_results st (refs_by_provider refs) (map (\<lambda>p. (p, outcome p)) (p # ps)) reg
        = (Some (?missing @ fs), reg')"
      using Infos IH(1) by (simp add: Let_def)
    moreover have "set (?missing @ fs)
        = problem_lines ?problem {ref \<in> set refs. cr_provider_id ref \<in> set (p # ps)}"
      unfolding split set_append IH(2) lines_of_provider(2) [where outcome = outcome and reg = reg, OF Infos]
      by (rule refl)
    ultimately show ?thesis using ids by blast
  next
    case QueryCancelled
    with Cons.prems show ?thesis by simp
  qed
qed

lemma creation_lines:
  "set (concat (map (\<lambda>(p, e). format_provider_query_failures (get_or (refs_by_provider refs) p []) e st)
      (map (\<lambda>p. (p, projl (fst (registry_get factory st p reg))))
        (filter (\<lambda>p. \<not> created factory st reg p) ps))))
   = problem_lines (model_problem factory st outcome reg)
       {ref \<in> set refs. cr_provider_id ref \<in> set (filter (\<lambda>p. \<not> created factory st reg p) ps)}"
proof -
  let ?err = "\<lambda>p. projl (fst (registry_get factory st p reg))"
  let ?ns = "filter (\<lambda>p. \<not> created factory st reg p) ps"
  have "problem_lines (model_problem factory st outcome reg) {ref \<in> set refs. cr_provider_id ref \<in> set ?ns}
    = problem_lines (\<lambda>ref. Some (provider_query_failure_reason (?err (cr_provider_id ref)) st))
        {ref \<in> set refs. cr_provider_id ref \<in> set ?ns}"
    by (rule problem_lines_cong) (auto simp: model_problem_def created_def split: sum.splits)
  also have "\<dots> = (\<Union>p \<in> set ?ns. \<Union>ref \<in> {ref \<in> set refs. cr_provider_id ref = p}.
      {format_model_validation_failure ref (provider_query_failure_reason (?err p) st)})"
    unfolding problem_lines_def by auto
  finally show ?thesis
    by (simp add: format_provider_query_failures_def Let_def get_or_refs_by_provider(1)
        UNION_singleton_eq_range)
qed

text \<open>Claim C26: unless a request is cancelled, validation reports exactly the configured models that
  cannot be used, each with its reason, succeeds if and only if there is none, and then has every
  configured model in the cache.\<close>

theorem validation_is_exact:
  assumes "configured_chat_model_refs st = Inr refs"
    and "\<forall>ref \<in> set refs. outcome (cr_provider_id ref) \<noteq> QueryCancelled"
  shows "\<exists>lines reg'. validate_configured_models factory st outcome reg =
      (if lines = [] then Validated
       else ValidationFailed (service_unavailable_error (u ''Configured model validation failed:'' @ [10]
              @ join [10] (map (\<lambda>f. u ''- '' @ f) lines))), reg')
    \<and> set lines = problem_lines (model_problem factory st outcome reg) (set refs)
    \<and> (lines = [] \<longrightarrow> (\<forall>ref \<in> set refs. cr_model_id ref \<in> get_or (rg_model_ids reg') (cr_provider_id ref) {}))"
proof -
  let ?by = "refs_by_provider refs" and ?ok = "created factory st reg"
  let ?err = "\<lambda>p. projl (fst (registry_get factory st p reg))"
  let ?ps = "filter ?ok (map fst ?by)" and ?ns = "filter (\<lambda>p. \<not> ?ok p) (map fst ?by)"
  obtain reg1 where start: "start_queries factory st (map fst ?by) reg
      = (?ps, map (\<lambda>p. (p, ?err p)) ?ns, reg1)"
    using start_queries_result by blast
  have providers: "set (map fst ?by) = cr_provider_id ` set refs"
    using get_or_refs_by_provider(2) [of refs] by simp
  have "\<forall>p \<in> set ?ps. outcome p \<noteq> QueryCancelled"
    using providers assms(2) by auto
  from validate_results_lines [OF this, of st refs reg1] obtain fs reg' where
    val: "validate_results st ?by (map (\<lambda>p. (p, outcome p)) ?ps) reg1 = (Some fs, reg')"
    and fs: "set fs = problem_lines (\<lambda>ref. query_problem st (outcome (cr_provider_id ref)) (cr_model_id ref))
                {ref \<in> set refs. cr_provider_id ref \<in> set ?ps}"
    and ids: "\<And>p infos. outcome p = Infos infos \<Longrightarrow> p \<in> set ?ps \<Longrightarrow>
         get_or (rg_model_ids reg') p {} = {i \<in> pi_model_id ` set infos. strip i \<noteq> []}"
    by auto
  define lines where "lines = concat (map (\<lambda>(p, e). format_provider_query_failures (get_or ?by p []) e st)
      (map (\<lambda>p. (p, ?err p)) ?ns)) @ fs"
  have "validate_configured_models factory st outcome reg =
      (if lines = [] then Validated
       else ValidationFailed (service_unavailable_error (u ''Configured model validation failed:'' @ [10]
              @ join [10] (map (\<lambda>f. u ''- '' @ f) lines))), reg')"
    unfolding validate_configured_models_def assms(1) Let_def sum.case start prod.case val lines_def
      option.case
    by (rule if_pair_flip)
  moreover have all_lines: "set lines = problem_lines (model_problem factory st outcome reg) (set refs)"
  proof -
    have "problem_lines (model_problem factory st outcome reg) (set refs)
      = problem_lines (model_problem factory st outcome reg) {ref \<in> set refs. cr_provider_id ref \<in> set ?ns}
        \<union> problem_lines (model_problem factory st outcome reg) {ref \<in> set refs. cr_provider_id ref \<in> set ?ps}"
      using providers by (auto simp: problem_lines_def)
    moreover have "problem_lines (model_problem factory st outcome reg) {ref \<in> set refs. cr_provider_id ref \<in> set ?ps}
        = set fs"
      unfolding fs by (rule problem_lines_cong) (auto simp: model_problem_def created_def split: sum.splits)
    ultimately show ?thesis unfolding lines_def set_append creation_lines [of refs st factory reg "map fst ?by" outcome]
      by simp
  qed
  moreover have "cr_model_id ref \<in> get_or (rg_model_ids reg') (cr_provider_id ref) {}"
    if "lines = []" "ref \<in> set refs" for ref
  proof -
    have none: "model_problem factory st outcome reg ref = None"
      using all_lines that problem_lines_empty by fastforce
    then have "?ok (cr_provider_id ref)"
      by (auto simp: model_problem_def created_def split: sum.splits)
    moreover from this none have "query_problem st (outcome (cr_provider_id ref)) (cr_model_id ref) = None"
      by (auto simp: model_problem_def created_def split: sum.splits)
    moreover have "cr_provider_id ref \<in> set (map fst ?by)" using providers that(2) by blast
    ultimately show ?thesis
      using ids [of "cr_provider_id ref"] assms(2) that(2)
      by (auto simp: query_problem_def split: query_outcome.splits if_splits)
  qed
  ultimately show ?thesis by blast
qed


text \<open>Only the NIM key is set and its list lacks the configured model: both references fail.\<close>

theorem validation_is_exact_witness:
  "fst (validate_configured_models (\<lambda>_ _ _. Inr (0::nat)) named_settings
      (\<lambda>_. Infos [\<lparr>pi_model_id = u ''other'', pi_supports_thinking = None\<rparr>]) registry_init) \<noteq> Validated"
proof -
  let ?q = "\<lambda>_. Infos [\<lparr>pi_model_id = u ''other'', pi_supports_thinking = None\<rparr>]"
  obtain refs where refs: "configured_chat_model_refs named_settings = Inr refs"
    using configured_refs [OF named_settings_ok(1)] by metis
  have "list_ex (\<lambda>ref. model_problem (\<lambda>_ _ _. Inr (0::nat)) named_settings ?q registry_init ref \<noteq> None)
      (projr (configured_chat_model_refs named_settings))"
    by code_simp
  then have "problem_lines (model_problem (\<lambda>_ _ _. Inr (0::nat)) named_settings ?q registry_init) (set refs) \<noteq> {}"
    using refs(1) unfolding problem_lines_empty list_ex_iff by simp
  moreover have "\<forall>ref \<in> set refs. ?q (cr_provider_id ref) \<noteq> QueryCancelled" by simp
  ultimately show ?thesis
    using validation_is_exact [OF refs(1), of ?q "\<lambda>_ _ _. Inr (0::nat)" registry_init]
    by (auto split: if_splits)
qed

end
