(* ===== verification/Event_Parser.thy ===== *)
theory Event_Parser
  imports Json
begin

text \<open>
  The events of the Claude Code command line as the messaging side sees them
  (\<open>messaging/event_parser.py\<close>, \<open>messaging/cli_event_constants.py\<close>): a raw JSON event becomes a
  list of flat events. \<open>str_of_value\<close> is the text \<open>str\<close> gives for a value that is not a string.
\<close>

section \<open>Text of values\<close>

definition to_text :: "(json \<Rightarrow> pystr) \<Rightarrow> json \<Rightarrow> pystr" where
  "to_text str_of_value v = (case v of JStr s \<Rightarrow> s | _ \<Rightarrow> str_of_value v)"

text \<open>\<open>str(v or dflt)\<close>.\<close>

definition text_or :: "(json \<Rightarrow> pystr) \<Rightarrow> json \<Rightarrow> pystr \<Rightarrow> pystr" where
  "text_or str_of_value v dflt = (if truthy v then to_text str_of_value v else dflt)"

lemma to_text_JStr [simp]: "to_text f (JStr s) = s"
  by (simp add: to_text_def)

text \<open>\<open>v == 0\<close> for an exit code: \<open>False\<close> and zero floats are equal to 0.\<close>

definition is_zero :: "json \<Rightarrow> bool" where
  "is_zero v = (case v of JInt i \<Rightarrow> i = 0 | JBool b \<Rightarrow> \<not> b | JFloat z _ \<Rightarrow> z | _ \<Rightarrow> False)"

type_synonym ev = "(pystr \<times> json) list"

definition mk_ev :: "string \<Rightarrow> (string \<times> json) list \<Rightarrow> ev" where
  "mk_ev t fields = (u ''type'', JStr (u t)) # map (\<lambda>(k, v). (u k, v)) fields"

section \<open>Full messages\<close>

text \<open>\<open>event.get("message")\<close> and its variants for \<open>result\<close> events.\<close>

definition message_of :: "ev \<Rightarrow> json" where
  "message_of event =
     (let etype = dget event ''type''
      in if is_text etype ''assistant'' \<or> is_text etype ''user'' then dget event ''message''
         else if is_text etype ''result''
         then
           (let m0 = (case dget event ''result'' of
                  JObj res \<Rightarrow>
                    (let m = dget res ''message''
                     in if \<not> truthy m \<and> is_list (dget res ''content'')
                        then JObj [(u ''content'', dget res ''content'')] else m)
                | _ \<Rightarrow> JNull);
                m1 = (if \<not> truthy m0 then dget event ''message'' else m0)
            in if \<not> truthy m1 \<and> is_list (dget event ''content'')
               then JObj [(u ''content'', dget event ''content'')] else m1)
         else JNull)"

definition parse_block :: "(json \<Rightarrow> pystr) \<Rightarrow> json \<Rightarrow> ev list" where
  "parse_block str_of_value c =
     (case c of
        JObj d \<Rightarrow>
          (let ctype = dget d ''type''
           in if is_text ctype ''text''
              then [mk_ev ''text_chunk'' [(''text'', dget_or d ''text'' (JStr []))]]
              else if is_text ctype ''thinking''
              then [mk_ev ''thinking_chunk'' [(''text'', dget_or d ''thinking'' (JStr []))]]
              else if is_text ctype ''tool_use''
              then [mk_ev ''tool_use''
                      [(''id'', JStr (strip (text_or str_of_value (dget_or d ''id'' (JStr [])) []))),
                       (''name'', dget_or d ''name'' (JStr [])), (''input'', dget d ''input'')]]
              else if is_text ctype ''tool_result''
              then [mk_ev ''tool_result''
                      [(''tool_use_id'', JStr (strip (text_or str_of_value (dget_or d ''tool_use_id'' (JStr [])) []))),
                       (''content'', dget d ''content''),
                       (''is_error'', JBool (truthy (dget_or d ''is_error'' (JBool False))))]]
              else [])
      | _ \<Rightarrow> [])"

definition message_events :: "(json \<Rightarrow> pystr) \<Rightarrow> json \<Rightarrow> ev list" where
  "message_events str_of_value msg_obj =
     (case msg_obj of
        JObj m \<Rightarrow>
          (if m = [] then []
           else (case dget_or m ''content'' (JList []) of
                   JList content \<Rightarrow> concat (map (parse_block str_of_value) content)
                 | _ \<Rightarrow> []))
      | _ \<Rightarrow> [])"

section \<open>Streaming events, errors and exit\<close>

definition delta_events :: "ev \<Rightarrow> ev list" where
  "delta_events event =
     (case dget_or event ''delta'' (JObj []) of
        JObj delta \<Rightarrow>
          (let index = dget_or event ''index'' (JInt (- 1)); dtype = dget delta ''type''
           in if is_text dtype ''text_delta''
              then [mk_ev ''text_delta'' [(''index'', index), (''text'', dget_or delta ''text'' (JStr []))]]
              else if is_text dtype ''thinking_delta''
              then [mk_ev ''thinking_delta''
                      [(''index'', index), (''text'', dget_or delta ''thinking'' (JStr []))]]
              else if is_text dtype ''input_json_delta''
              then [mk_ev ''tool_use_delta''
                      [(''index'', index), (''partial_json'', dget_or delta ''partial_json'' (JStr []))]]
              else [])
      | _ \<Rightarrow> [])"

definition start_events :: "(json \<Rightarrow> pystr) \<Rightarrow> ev \<Rightarrow> ev list" where
  "start_events str_of_value event =
     (case dget_or event ''content_block'' (JObj []) of
        JObj block \<Rightarrow>
          (let index = dget_or event ''index'' (JInt (- 1)); btype = dget block ''type''
           in if is_text btype ''thinking'' then [mk_ev ''thinking_start'' [(''index'', index)]]
              else if is_text btype ''text'' then [mk_ev ''text_start'' [(''index'', index)]]
              else if is_text btype ''tool_use''
              then [mk_ev ''tool_use_start''
                      [(''index'', index),
                       (''id'', JStr (strip (text_or str_of_value (dget_or block ''id'' (JStr [])) []))),
                       (''name'', dget_or block ''name'' (JStr [])), (''input'', dget block ''input'')]]
              else [])
      | _ \<Rightarrow> [])"

definition exit_events :: "(json \<Rightarrow> pystr) \<Rightarrow> ev \<Rightarrow> ev list" where
  "exit_events str_of_value event =
     (let code = dget_or event ''code'' (JInt 0); stderr = dget event ''stderr''
      in if is_zero code then [mk_ev ''complete'' [(''status'', JStr (u ''success''))]]
         else
           (let error_msg = (if truthy stderr then stderr
                  else JStr (u ''Process exited with code '' @ to_text str_of_value code))
            in [mk_ev ''error'' [(''message'', error_msg)],
                mk_ev ''complete'' [(''status'', JStr (u ''failed''))]]))"

definition error_events :: "(json \<Rightarrow> pystr) \<Rightarrow> ev \<Rightarrow> ev list" where
  "error_events str_of_value event =
     (let msg = (case dget event ''error'' of
            JObj err \<Rightarrow> dget err ''message''
          | err \<Rightarrow> JStr (to_text str_of_value err))
      in [mk_ev ''error'' [(''message'', msg)]])"

text \<open>\<open>parse_cli_event\<close>. A delta or start event of an unknown kind falls through to the end.\<close>

definition parse_cli_event :: "(json \<Rightarrow> pystr) \<Rightarrow> json \<Rightarrow> ev list" where
  "parse_cli_event str_of_value event_value =
     (case event_value of
        JObj event \<Rightarrow>
          (let etype = dget event ''type''
           in if is_text etype ''system'' then []
              else
                (let results = message_events str_of_value (message_of event)
                 in if results \<noteq> [] then results
                    else if is_text etype ''content_block_delta'' then delta_events event
                    else if is_text etype ''content_block_start'' then start_events str_of_value event
                    else if is_text etype ''content_block_stop''
                    then [mk_ev ''block_stop'' [(''index'', dget_or event ''index'' (JInt (- 1)))]]
                    else if is_text etype ''error'' then error_events str_of_value event
                    else if is_text etype ''exit'' then exit_events str_of_value event
                    else []))
      | _ \<Rightarrow> [])"

section \<open>Statuses\<close>

definition status_message_prefixes :: "pystr list" where
  "status_message_prefixes =
     [[9203], [128173], [128295], [9989], [10060], [128640], [129302], [128203], [128202], [128260]]"

definition transcript_event_types :: "pystr set" where
  "transcript_event_types = u ` {''thinking_start'', ''thinking_delta'', ''thinking_chunk'',
     ''thinking_stop'', ''text_start'', ''text_delta'', ''text_chunk'', ''text_stop'',
     ''tool_use_start'', ''tool_use_delta'', ''tool_use_stop'', ''tool_use'', ''tool_result'',
     ''block_stop'', ''error''}"

definition event_status_map :: "(pystr, pystr \<times> pystr) dict" where
  "event_status_map =
     map (\<lambda>(k, e, l). (u k, [e], u l))
       [(''thinking_start'', 129504, ''Claude is thinking...''),
        (''thinking_delta'', 129504, ''Claude is thinking...''),
        (''thinking_chunk'', 129504, ''Claude is thinking...''),
        (''text_start'', 129504, ''Claude is working...''),
        (''text_delta'', 129504, ''Claude is working...''),
        (''text_chunk'', 129504, ''Claude is working...''),
        (''tool_result'', 9203, ''Executing tools...'')]"

definition get_status_for_event :: "pystr \<Rightarrow> ev \<Rightarrow> (pystr \<Rightarrow> pystr \<Rightarrow> pystr) \<Rightarrow> pystr option" where
  "get_status_for_event ptype parsed format_status =
     (case map_of event_status_map ptype of
        Some (emoji, label) \<Rightarrow> Some (format_status emoji label)
      | None \<Rightarrow>
          if ptype \<in> u ` {''tool_use_start'', ''tool_use_delta'', ''tool_use''}
          then (if is_text (dget parsed ''name'') ''Task''
                then Some (format_status [129302] (u ''Subagent working...''))
                else Some (format_status [9203] (u ''Executing tools...'')))
          else None)"

end
