(* ===== verification/Transcript.thy ===== *)
theory Transcript
  imports Event_Parser "HOL-Library.List_Lexorder"
begin

text \<open>
  The transcript of a Claude Code run (\<open>messaging/transcript.py\<close>). Segments are mutable objects
  that the display list, the maps of open blocks, the subagent stack and the subagents themselves
  share, so they live in a store and are referred to by their place in it. Arguments of the model:
  \<open>str_of_value\<close> and \<open>int_of_value\<close> (\<open>str\<close> and \<open>int\<close> of values that are not a string or an
  integer; \<open>None\<close> when \<open>int\<close> raises), \<open>dumps\<close> (\<open>json.dumps\<close> with indentation), \<open>lower\<close>, and the
  functions of the render context.
\<close>

section \<open>Segments\<close>

datatype segment =
    ThinkingSegment "pystr list"
  | TextSegment "pystr list"
  | ToolCallSegment (tc_tool_use_id: pystr) (tc_name: pystr) (tc_closed: bool) (tc_indent: nat)
  | ToolResultSegment pystr "pystr option" pystr bool
  | SubagentSegment (sa_description: pystr) (sa_tool_calls: nat) (sa_tools_used: "pystr set")
      (sa_current_tool: "nat option")
  | ErrorSegment pystr

text \<open>\<open>append\<close> of a thinking or text segment.\<close>

definition seg_append :: "pystr \<Rightarrow> segment \<Rightarrow> segment" where
  "seg_append t seg =
     (if t = [] then seg
      else (case seg of
              ThinkingSegment parts \<Rightarrow> ThinkingSegment (parts @ [t])
            | TextSegment parts \<Rightarrow> TextSegment (parts @ [t])
            | _ \<Rightarrow> seg))"

definition seg_close :: "segment \<Rightarrow> segment" where
  "seg_close seg = (case seg of ToolCallSegment i n c k \<Rightarrow> ToolCallSegment i n True k | _ \<Rightarrow> seg)"

definition tool_call_segment :: "pystr \<Rightarrow> pystr \<Rightarrow> nat \<Rightarrow> segment" where
  "tool_call_segment tool_use_id name indent_level =
     ToolCallSegment tool_use_id (if name = [] then u ''tool'' else name) False indent_level"

definition tool_result_segment ::
  "(json \<Rightarrow> pystr) \<Rightarrow> pystr \<Rightarrow> json \<Rightarrow> pystr option \<Rightarrow> bool \<Rightarrow> segment" where
  "tool_result_segment dumps tool_use_id content name is_error =
     ToolResultSegment tool_use_id name
       (case content of JStr s \<Rightarrow> s | _ \<Rightarrow> dumps content) is_error"

definition subagent_segment :: "pystr \<Rightarrow> segment" where
  "subagent_segment description =
     SubagentSegment (if description = [] then u ''Subagent'' else description) 0 {} None"

definition error_segment :: "pystr \<Rightarrow> segment" where
  "error_segment message = ErrorSegment (if message = [] then u ''Unknown error'' else message)"

section \<open>The buffer\<close>

record transcript =
  tb_store :: "segment list"
  tb_segments :: "nat list"
  tb_open_thinking :: "int \<rightharpoonup> nat"
  tb_open_text :: "int \<rightharpoonup> nat"
  tb_open_tools :: "int \<rightharpoonup> nat"
  tb_tool_name_by_id :: "pystr \<rightharpoonup> pystr"
  tb_show_tool_results :: bool
  tb_subagent_stack :: "pystr list"
  tb_subagent_segments :: "nat list"

definition transcript_init :: "bool \<Rightarrow> transcript" where
  "transcript_init show_tool_results =
     \<lparr>tb_store = [], tb_segments = [], tb_open_thinking = Map.empty, tb_open_text = Map.empty,
      tb_open_tools = Map.empty, tb_tool_name_by_id = Map.empty,
      tb_show_tool_results = show_tool_results, tb_subagent_stack = [], tb_subagent_segments = []\<rparr>"

text \<open>A new object, and an object that is displayed too.\<close>

definition alloc :: "segment \<Rightarrow> transcript \<Rightarrow> nat \<times> transcript" where
  "alloc seg s = (length (tb_store s), s\<lparr>tb_store := tb_store s @ [seg]\<rparr>)"

definition alloc_shown :: "segment \<Rightarrow> transcript \<Rightarrow> nat \<times> transcript" where
  "alloc_shown seg s =
     (case alloc seg s of (a, s') \<Rightarrow> (a, s'\<lparr>tb_segments := tb_segments s' @ [a]\<rparr>))"

definition upd_seg :: "nat \<Rightarrow> (segment \<Rightarrow> segment) \<Rightarrow> transcript \<Rightarrow> transcript" where
  "upd_seg a f s = (if a < length (tb_store s) then s\<lparr>tb_store := (tb_store s)[a := f (tb_store s ! a)]\<rparr> else s)"

definition in_subagent :: "transcript \<Rightarrow> bool" where
  "in_subagent s = (tb_subagent_stack s \<noteq> [])"

definition subagent_current :: "transcript \<Rightarrow> nat option" where
  "subagent_current s =
     (if tb_subagent_segments s \<noteq> [] then Some (last (tb_subagent_segments s)) else None)"

text \<open>The tool call becomes the subagent's current tool; it is not displayed by itself.\<close>

definition set_current_tool_call :: "nat \<Rightarrow> pystr \<Rightarrow> pystr \<Rightarrow> transcript \<Rightarrow> nat \<times> transcript" where
  "set_current_tool_call parent tool_use_id name s =
     (let name' = (if name = [] then u ''tool'' else name)
      in case alloc (tool_call_segment tool_use_id name' 1) s of
           (a, s') \<Rightarrow>
             (a, upd_seg parent (\<lambda>seg. case seg of
                   SubagentSegment d n used cur \<Rightarrow> SubagentSegment d (n + 1) (insert name' used) (Some a)
                 | _ \<Rightarrow> seg) s'))"

definition task_heading_from_input :: "(json \<Rightarrow> pystr) \<Rightarrow> json \<Rightarrow> pystr" where
  "task_heading_from_input str_of_value inp =
     (case inp of
        JObj d \<Rightarrow>
          (let desc = strip (text_or str_of_value (dget_or d ''description'' (JStr [])) []);
               subagent_type = strip (text_or str_of_value (dget_or d ''subagent_type'' (JStr [])) []);
               typ = strip (text_or str_of_value (dget_or d ''type'' (JStr [])) [])
           in if desc \<noteq> [] then desc
              else if subagent_type \<noteq> [] then subagent_type
              else if typ \<noteq> [] then typ
              else u ''Subagent'')
      | _ \<Rightarrow> u ''Subagent'')"

section \<open>The subagent stack\<close>

definition subagent_push :: "pystr \<Rightarrow> nat \<Rightarrow> transcript \<Rightarrow> transcript" where
  "subagent_push tool_id seg s =
     (let tid = (if strip tool_id \<noteq> [] then strip tool_id
                 else u ''__task_'' @ nat_text (length (tb_subagent_stack s) + 1))
      in s\<lparr>tb_subagent_stack := tb_subagent_stack s @ [tid],
           tb_subagent_segments := tb_subagent_segments s @ [seg]\<rparr>)"

definition ids_roughly_match :: "pystr \<Rightarrow> pystr \<Rightarrow> bool" where
  "ids_roughly_match stack_id result_id =
     (stack_id \<noteq> [] \<and> result_id \<noteq> []
      \<and> (stack_id = result_id \<or> startswith stack_id result_id \<or> startswith result_id stack_id))"

definition pop_one :: "transcript \<Rightarrow> transcript" where
  "pop_one s = s\<lparr>tb_subagent_stack := butlast (tb_subagent_stack s),
                 tb_subagent_segments := butlast (tb_subagent_segments s)\<rparr>"

text \<open>The greatest index of an element that satisfies \<open>P\<close>: the scan from the top of the stack.\<close>

fun last_index :: "('a \<Rightarrow> bool) \<Rightarrow> 'a list \<Rightarrow> nat option" where
  "last_index P [] = None"
| "last_index P (x # xs) =
     (case last_index P xs of
        Some i \<Rightarrow> Some (Suc i)
      | None \<Rightarrow> if P x then Some 0 else None)"

function pop_until :: "nat \<Rightarrow> transcript \<Rightarrow> transcript" where
  "pop_until idx s =
     (if length (tb_subagent_stack s) > idx then pop_until idx (pop_one s) else s)"
  by pat_completeness auto
termination
  by (relation "measure (\<lambda>(idx, s). length (tb_subagent_stack s))") (auto simp: pop_one_def)

declare pop_until.simps [simp del]

definition subagent_pop :: "pystr \<Rightarrow> transcript \<Rightarrow> bool \<times> transcript" where
  "subagent_pop tool_id0 s =
     (let tool_id = strip tool_id0; stack = tb_subagent_stack s
      in if stack = [] then (False, s)
         else if tool_id \<noteq> []
         then
           (if ids_roughly_match (last stack) tool_id then (True, pop_one s)
            else (case last_index (\<lambda>sid. ids_roughly_match sid tool_id) stack of
                    None \<Rightarrow> (False, s)
                  | Some idx \<Rightarrow> (True, pop_until idx s)))
         else if startswith (last stack) (u ''__task_'') then (True, pop_one s)
         else (False, s))"

section \<open>Applying events\<close>

definition ensure_thinking :: "transcript \<Rightarrow> nat \<times> transcript" where
  "ensure_thinking s = alloc_shown (ThinkingSegment []) s"

definition ensure_text :: "transcript \<Rightarrow> nat \<times> transcript" where
  "ensure_text s = alloc_shown (TextSegment []) s"

definition apply_thinking_stop :: "int \<Rightarrow> transcript \<Rightarrow> transcript" where
  "apply_thinking_stop idx s =
     (if idx \<ge> 0 then s\<lparr>tb_open_thinking := (tb_open_thinking s)(idx := None)\<rparr> else s)"

definition apply_text_stop :: "int \<Rightarrow> transcript \<Rightarrow> transcript" where
  "apply_text_stop idx s =
     (if idx \<ge> 0 then s\<lparr>tb_open_text := (tb_open_text s)(idx := None)\<rparr> else s)"

definition apply_tool_use_stop :: "int \<Rightarrow> transcript \<Rightarrow> transcript" where
  "apply_tool_use_stop idx s =
     (let s' = s\<lparr>tb_open_tools := (tb_open_tools s)(idx := None)\<rparr>
      in case tb_open_tools s idx of None \<Rightarrow> s' | Some a \<Rightarrow> upd_seg a seg_close s')"

definition apply_block_stop :: "int \<Rightarrow> transcript \<Rightarrow> transcript" where
  "apply_block_stop idx s =
     (if tb_open_tools s idx \<noteq> None then apply_tool_use_stop idx s
      else if tb_open_thinking s idx \<noteq> None then apply_thinking_stop idx s
      else if tb_open_text s idx \<noteq> None then apply_text_stop idx s
      else s)"

definition apply_thinking_start :: "int \<Rightarrow> transcript \<Rightarrow> transcript" where
  "apply_thinking_start idx s0 =
     (let s = (if idx \<ge> 0 then apply_block_stop idx s0 else s0)
      in case ensure_thinking s of
           (a, s') \<Rightarrow> if idx \<ge> 0 then s'\<lparr>tb_open_thinking := (tb_open_thinking s')(idx \<mapsto> a)\<rparr> else s')"

definition apply_text_start :: "int \<Rightarrow> transcript \<Rightarrow> transcript" where
  "apply_text_start idx s0 =
     (let s = (if idx \<ge> 0 then apply_block_stop idx s0 else s0)
      in case ensure_text s of
           (a, s') \<Rightarrow> if idx \<ge> 0 then s'\<lparr>tb_open_text := (tb_open_text s')(idx \<mapsto> a)\<rparr> else s')"

definition apply_thinking_text :: "int \<Rightarrow> pystr \<Rightarrow> transcript \<Rightarrow> transcript" where
  "apply_thinking_text idx text s =
     (case tb_open_thinking s idx of
        Some a \<Rightarrow> upd_seg a (seg_append text) s
      | None \<Rightarrow>
          (case ensure_thinking s of
             (a, s') \<Rightarrow> upd_seg a (seg_append text)
               (if idx \<ge> 0 then s'\<lparr>tb_open_thinking := (tb_open_thinking s')(idx \<mapsto> a)\<rparr> else s')))"

definition apply_text_text :: "int \<Rightarrow> pystr \<Rightarrow> transcript \<Rightarrow> transcript" where
  "apply_text_text idx text s =
     (case tb_open_text s idx of
        Some a \<Rightarrow> upd_seg a (seg_append text) s
      | None \<Rightarrow>
          (case ensure_text s of
             (a, s') \<Rightarrow> upd_seg a (seg_append text)
               (if idx \<ge> 0 then s'\<lparr>tb_open_text := (tb_open_text s')(idx \<mapsto> a)\<rparr> else s')))"

text \<open>The part that \<open>tool_use_start\<close> and \<open>tool_use\<close> share: the place of the new tool call, or
  nothing for a \<open>Task\<close>, which opens a subagent.\<close>

definition add_tool :: "(json \<Rightarrow> pystr) \<Rightarrow> pystr \<Rightarrow> pystr \<Rightarrow> json \<Rightarrow> transcript \<Rightarrow> nat option \<times> transcript" where
  "add_tool str_of_value tool_id name inp s0 =
     (let s = (if tool_id \<noteq> [] then s0\<lparr>tb_tool_name_by_id := (tb_tool_name_by_id s0)(tool_id \<mapsto> name)\<rparr> else s0)
      in if name = u ''Task''
         then (case alloc_shown (subagent_segment (task_heading_from_input str_of_value inp)) s of
                 (a, s') \<Rightarrow> (None, subagent_push tool_id a s'))
         else map_prod Some id
           (if in_subagent s
            then (case subagent_current s of
                    Some parent \<Rightarrow> set_current_tool_call parent tool_id name s
                  | None \<Rightarrow> alloc_shown (tool_call_segment tool_id name 0) s)
            else alloc_shown (tool_call_segment tool_id name 0) s))"

definition apply_tool_use_start ::
  "(json \<Rightarrow> pystr) \<Rightarrow> int \<Rightarrow> pystr \<Rightarrow> pystr \<Rightarrow> json \<Rightarrow> transcript \<Rightarrow> transcript" where
  "apply_tool_use_start str_of_value idx tool_id name inp s0 =
     (let s = (if idx \<ge> 0 then apply_block_stop idx s0 else s0)
      in case add_tool str_of_value tool_id name inp s of
           (Some a, s') \<Rightarrow> if idx \<ge> 0 then s'\<lparr>tb_open_tools := (tb_open_tools s')(idx \<mapsto> a)\<rparr> else s'
         | (None, s') \<Rightarrow> s')"

definition apply_tool_use ::
  "(json \<Rightarrow> pystr) \<Rightarrow> pystr \<Rightarrow> pystr \<Rightarrow> json \<Rightarrow> transcript \<Rightarrow> transcript" where
  "apply_tool_use str_of_value tool_id name inp s =
     (case add_tool str_of_value tool_id name inp s of
        (Some a, s') \<Rightarrow> upd_seg a seg_close s'
      | (None, s') \<Rightarrow> s')"

definition apply_tool_result ::
  "(pystr \<Rightarrow> pystr) \<Rightarrow> (json \<Rightarrow> pystr) \<Rightarrow> pystr \<Rightarrow> json \<Rightarrow> bool \<Rightarrow> transcript \<Rightarrow> transcript" where
  "apply_tool_result lower dumps tool_id content is_error s =
     (let name = tb_tool_name_by_id s tool_id;
          s2 = (if tb_subagent_stack s \<noteq> []
                then (case subagent_pop tool_id s of
                        (popped, s1) \<Rightarrow>
                          (let top = (if tb_subagent_stack s1 \<noteq> [] then last (tb_subagent_stack s1) else [])
                           in if \<not> popped \<and> tool_id \<noteq> [] \<and> startswith top (u ''__task_'')
                                 \<and> name \<in> {None, Some (u ''Task'')}
                                 \<and> contains (lower tool_id) (u ''task'')
                              then snd (subagent_pop [] s1) else s1))
                else s)
      in if \<not> tb_show_tool_results s2 then s2
         else snd (alloc_shown (tool_result_segment dumps tool_id content name is_error) s2))"

text \<open>\<open>int(ev.get("index", -1))\<close>; \<open>None\<close> when it raises.\<close>

definition ev_index :: "(json \<Rightarrow> int option) \<Rightarrow> ev \<Rightarrow> int option" where
  "ev_index int_of_value e =
     (let v = dget_or e ''index'' (JInt (- 1))
      in case int_of v of Some i \<Rightarrow> Some i | None \<Rightarrow> int_of_value v)"

record transcript_env =
  te_str_of_value :: "json \<Rightarrow> pystr"
  te_int_of_value :: "json \<Rightarrow> int option"
  te_dumps :: "json \<Rightarrow> pystr"
  te_lower :: "pystr \<Rightarrow> pystr"

definition ev_tool_id :: "transcript_env \<Rightarrow> ev \<Rightarrow> string \<Rightarrow> pystr" where
  "ev_tool_id env e key = strip (text_or (te_str_of_value env) (dget_or e key (JStr [])) [])"

definition ev_name :: "transcript_env \<Rightarrow> ev \<Rightarrow> pystr" where
  "ev_name env e = text_or (te_str_of_value env) (dget_or e ''name'' (JStr [])) (u ''tool'')"

definition hidden_in_subagent :: "json \<Rightarrow> bool" where
  "hidden_in_subagent et = list_ex (is_text et)
     [''thinking_start'', ''thinking_delta'', ''thinking_chunk'', ''text_start'', ''text_delta'', ''text_chunk'']"

text \<open>\<open>apply\<close>; the flag is \<open>False\<close> when it raises, which it does before it changes anything.\<close>

definition with_index :: "(json \<Rightarrow> int option) \<Rightarrow> ev \<Rightarrow> (int \<Rightarrow> transcript \<Rightarrow> transcript)
    \<Rightarrow> transcript \<Rightarrow> bool \<times> transcript" where
  "with_index int_of_value e f s =
     (case ev_index int_of_value e of None \<Rightarrow> (False, s) | Some idx \<Rightarrow> (True, f idx s))"

definition apply_event :: "transcript_env \<Rightarrow> ev \<Rightarrow> transcript \<Rightarrow> bool \<times> transcript" where
  "apply_event env e s =
     (let et = dget e ''type''; indexed = with_index (te_int_of_value env) e;
          text = to_text (te_str_of_value env) (dget_or e ''text'' (JStr []))
      in if in_subagent s \<and> hidden_in_subagent et then (True, s)
         else if is_text et ''thinking_start'' then indexed apply_thinking_start s
         else if is_text et ''thinking_delta'' \<or> is_text et ''thinking_chunk''
         then indexed (\<lambda>idx. apply_thinking_text idx text) s
         else if is_text et ''thinking_stop'' then indexed apply_thinking_stop s
         else if is_text et ''text_start'' then indexed apply_text_start s
         else if is_text et ''text_delta'' \<or> is_text et ''text_chunk''
         then indexed (\<lambda>idx. apply_text_text idx text) s
         else if is_text et ''text_stop'' then indexed apply_text_stop s
         else if is_text et ''tool_use_start''
         then indexed (\<lambda>idx. apply_tool_use_start (te_str_of_value env) idx (ev_tool_id env e ''id'')
                               (ev_name env e) (dget e ''input'')) s
         else if is_text et ''tool_use_delta'' then (True, s)
         else if is_text et ''tool_use_stop'' then indexed apply_tool_use_stop s
         else if is_text et ''block_stop'' then indexed apply_block_stop s
         else if is_text et ''tool_use''
         then (True, apply_tool_use (te_str_of_value env) (ev_tool_id env e ''id'') (ev_name env e)
                       (dget e ''input'') s)
         else if is_text et ''tool_result''
         then (True, apply_tool_result (te_lower env) (te_dumps env) (ev_tool_id env e ''tool_use_id'')
                       (dget e ''content'') (truthy (dget_or e ''is_error'' (JBool False))) s)
         else if is_text et ''error''
         then (True, snd (alloc_shown (error_segment
                 (to_text (te_str_of_value env) (dget_or e ''message'' (JStr [])))) s))
         else (True, s))"

section \<open>Rendering\<close>

text \<open>The render context; \<open>None\<close> stands for an exception of a platform function.\<close>

record render_ctx =
  rx_bold :: "pystr \<Rightarrow> pystr option"
  rx_code_inline :: "pystr \<Rightarrow> pystr option"
  rx_escape_code :: "pystr \<Rightarrow> pystr option"
  rx_escape_text :: "pystr \<Rightarrow> pystr"
  rx_render_markdown :: "pystr \<Rightarrow> pystr option"
  rx_thinking_tail_max :: "int option"
  rx_tool_output_tail_max :: "int option"
  rx_text_tail_max :: "int option"

text \<open>\<open>s[-k:]\<close>.\<close>

definition py_tail :: "int \<Rightarrow> 'a list \<Rightarrow> 'a list" where
  "py_tail k s = (if k > 0 then drop (length s - nat k) s else drop (nat (- k)) s)"

definition clip_tail :: "int option \<Rightarrow> pystr \<Rightarrow> pystr" where
  "clip_tail tail_max raw =
     (case tail_max of
        Some m \<Rightarrow> if int (length raw) > m then u ''...'' @ py_tail (m - 3) raw else raw
      | None \<Rightarrow> raw)"

definition fenced :: "pystr \<Rightarrow> pystr" where
  "fenced inner = [10] @ u ''```'' @ [10] @ inner @ [10] @ u ''```''"

definition render_tool_call :: "render_ctx \<Rightarrow> pystr \<Rightarrow> nat \<Rightarrow> pystr option" where
  "render_tool_call ctx name indent_level =
     Option.bind (rx_code_inline ctx name) (\<lambda>n.
     Option.bind (rx_bold ctx (u ''Tool call:'')) (\<lambda>b.
       Some (concat (replicate indent_level (u ''  '')) @ [128736] @ u '' '' @ b @ u '' '' @ n)))"

definition render_subagent ::
  "render_ctx \<Rightarrow> segment list \<Rightarrow> pystr \<Rightarrow> nat \<Rightarrow> pystr set \<Rightarrow> nat option \<Rightarrow> pystr option" where
  "render_subagent ctx store description tool_calls tools_used current_tool =
     Option.bind (rx_bold ctx (u ''Subagent:'')) (\<lambda>b.
     Option.bind (rx_code_inline ctx description) (\<lambda>d.
       (let head = [129302] @ u '' '' @ b @ u '' '' @ d;
            tool_lines = (case current_tool of
                None \<Rightarrow> []
              | Some a \<Rightarrow>
                  (case (if a < length store then store ! a else ErrorSegment []) of
                     ToolCallSegment i n c k \<Rightarrow>
                       (case render_tool_call ctx n k of
                          Some r \<Rightarrow> if r \<noteq> [] then [r] else []
                        | None \<Rightarrow> [])
                   | _ \<Rightarrow> []));
            raw = (if tools_used \<noteq> {} then u ''{'' @ join (u '', '') (sorted_list_of_set tools_used) @ u ''}''
                   else u ''{}'')
        in Option.bind (rx_bold ctx (u ''Tools used:'')) (\<lambda>b1.
           Option.bind (rx_code_inline ctx raw) (\<lambda>c1.
           Option.bind (rx_bold ctx (u ''Tool calls:'')) (\<lambda>b2.
           Option.bind (rx_code_inline ctx (nat_text tool_calls)) (\<lambda>c2.
             Some (join [10] ([head] @ tool_lines
               @ [u ''  '' @ b1 @ u '' '' @ c1, u ''  '' @ b2 @ u '' '' @ c2]))))))))) "

definition render_segment :: "render_ctx \<Rightarrow> segment list \<Rightarrow> segment \<Rightarrow> pystr option" where
  "render_segment ctx store seg =
     (case seg of
        ThinkingSegment parts \<Rightarrow>
          Option.bind (rx_escape_code ctx (clip_tail (rx_thinking_tail_max ctx) (concat parts))) (\<lambda>inner.
          Option.bind (rx_bold ctx (u ''Thinking'')) (\<lambda>b. Some ([128173] @ u '' '' @ b @ fenced inner)))
      | TextSegment parts \<Rightarrow> rx_render_markdown ctx (clip_tail (rx_text_tail_max ctx) (concat parts))
      | ToolCallSegment i n c k \<Rightarrow> render_tool_call ctx n k
      | ToolResultSegment i n text is_error \<Rightarrow>
          Option.bind (rx_escape_code ctx (clip_tail (rx_tool_output_tail_max ctx) text)) (\<lambda>inner.
          Option.bind (case n of
              Some nm \<Rightarrow> if nm = [] then Some [] else map_option (\<lambda>c. u '' '' @ c) (rx_code_inline ctx nm)
            | None \<Rightarrow> Some []) (\<lambda>maybe_name.
          Option.bind (rx_bold ctx (if is_error then u ''Tool error:'' else u ''Tool result:'')) (\<lambda>b.
            Some ([128228] @ u '' '' @ b @ maybe_name @ fenced inner))))
      | SubagentSegment d n used cur \<Rightarrow> render_subagent ctx store d n used cur
      | ErrorSegment message \<Rightarrow>
          Option.bind (rx_bold ctx (u ''Error:'')) (\<lambda>b.
          Option.bind (rx_code_inline ctx message) (\<lambda>c.
            Some ([9888, 65039] @ u '' '' @ b @ u '' '' @ c))))"

definition rendered_parts :: "render_ctx \<Rightarrow> transcript \<Rightarrow> pystr list" where
  "rendered_parts ctx s =
     filter (\<lambda>out. out \<noteq> [])
       (List.map_filter (\<lambda>a. render_segment ctx (tb_store s) (tb_store s ! a)) (tb_segments s))"

definition join_parts_with_status :: "pystr \<Rightarrow> pystr \<Rightarrow> pystr list \<Rightarrow> bool \<Rightarrow> pystr" where
  "join_parts_with_status prefix_marker status_text parts add_marker =
     (let body = join [10] parts;
          body' = (if add_marker \<and> body \<noteq> [] then prefix_marker @ body else body)
      in body' @ status_text)"

text \<open>The loop that drops the oldest parts: the candidate that fits, or the last part dropped.\<close>

fun drop_oldest :: "pystr \<Rightarrow> pystr \<Rightarrow> int \<Rightarrow> pystr list \<Rightarrow> pystr option \<Rightarrow> pystr option \<times> pystr option" where
  "drop_oldest marker status_text limit [] last_part = (None, last_part)"
| "drop_oldest marker status_text limit (p # ps) last_part =
     (let candidate = join_parts_with_status marker status_text (p # ps) True
      in if int (length candidate) \<le> limit then (Some candidate, last_part)
         else drop_oldest marker status_text limit ps (Some p))"

definition render_transcript :: "render_ctx \<Rightarrow> int \<Rightarrow> pystr option \<Rightarrow> transcript \<Rightarrow> pystr" where
  "render_transcript ctx limit_chars status s =
     (let rendered = rendered_parts ctx s;
          has_status = (status \<noteq> None \<and> status \<noteq> Some []);
          status_text = (if has_status then [10, 10] @ the status else []);
          prefix_marker = rx_escape_text ctx (u ''... (truncated)'' @ [10]);
          candidate = join_parts_with_status prefix_marker status_text rendered False;
          minimal = prefix_marker @ dropWhile (\<lambda>c. c = 10) status_text;
          fallback = (if status = None then [] else the status)
      in if int (length candidate) \<le> limit_chars then candidate
         else
           (case drop_oldest prefix_marker status_text limit_chars rendered None of
              (Some c, _) \<Rightarrow> c
            | (None, None) \<Rightarrow> fallback
            | (None, Some last_part) \<Rightarrow>
                (let budget = limit_chars - int (length prefix_marker) - int (length status_text);
                     tail = (if int (length last_part) > budget
                             then u ''...'' @ py_tail (budget - 3) last_part else last_part);
                     clipped = prefix_marker @ tail @ status_text
                 in if last_part \<noteq> [] \<and> budget > 20 \<and> int (length clipped) \<le> limit_chars then clipped
                    else if int (length minimal) \<le> limit_chars then minimal
                    else fallback)))"

section \<open>What is rendered\<close>

lemma drop_oldest_Some:
  "fst (drop_oldest marker st limit parts last_part) = Some c
   \<longleftrightarrow> (\<exists>k < length parts. c = join_parts_with_status marker st (drop k parts) True
         \<and> int (length c) \<le> limit
         \<and> (\<forall>j < k. int (length (join_parts_with_status marker st (drop j parts) True)) > limit))"
proof (induction marker st limit parts last_part rule: drop_oldest.induct)
  case (2 marker st limit p ps last_part)
  let ?c = "\<lambda>ps. join_parts_with_status marker st ps True"
  show ?case
  proof (cases "int (length (?c (p # ps))) \<le> limit")
    case True
    then show ?thesis by (auto simp: Let_def gr0_conv_Suc intro!: exI [of _ 0]) (metis drop0 not_less neq0_conv)
  next
    case False
    have "(\<exists>k < length (p # ps). c = ?c (drop k (p # ps)) \<and> int (length c) \<le> limit
         \<and> (\<forall>j < k. int (length (?c (drop j (p # ps)))) > limit))
       \<longleftrightarrow> (\<exists>k < length ps. c = ?c (drop k ps) \<and> int (length c) \<le> limit
         \<and> (\<forall>j < k. int (length (?c (drop j ps))) > limit))" (is "?L \<longleftrightarrow> ?R")
    proof
      assume ?L
      then obtain k where k: "k < length (p # ps)" "c = ?c (drop k (p # ps))" "int (length c) \<le> limit"
        "\<forall>j < k. int (length (?c (drop j (p # ps)))) > limit" by blast
      with False obtain k' where "k = Suc k'" by (cases k) auto
      with k show ?R by (intro exI [of _ k']) (auto simp: dest: spec [of _ "Suc _"])
    next
      assume ?R
      then obtain k where k: "k < length ps" "c = ?c (drop k ps)" "int (length c) \<le> limit"
        "\<forall>j < k. int (length (?c (drop j ps))) > limit" by blast
      have "int (length (?c (drop j (p # ps)))) > limit" if "j < Suc k" for j
        using that False k(4) by (cases j) auto
      with k show ?L by (intro exI [of _ "Suc k"]) auto
    qed
    with 2 [OF refl] False show ?thesis by (simp add: Let_def)
  qed
qed simp

lemma drop_oldest_fits:
  "fst (drop_oldest marker st limit parts last_part) = Some c \<Longrightarrow> int (length c) \<le> limit"
  unfolding drop_oldest_Some by blast

text \<open>Claim C32: the rendered transcript never exceeds the limit unless the status line alone does.
  When everything fits it is shown whole; otherwise the longest tail of the parts that fits, marked
  as truncated.\<close>

theorem render_keeps_newest_within_limit:
  fixes ctx s limit status
  shows "let parts = rendered_parts ctx s;
      status_text = (if status \<noteq> None \<and> status \<noteq> Some [] then [10, 10] @ the status else []);
      marker = rx_escape_text ctx (u ''... (truncated)'' @ [10]);
      shown = (\<lambda>k. join_parts_with_status marker status_text (drop k parts) True);
      whole = join_parts_with_status marker status_text parts False;
      out = render_transcript ctx limit status s
    in (int (length out) \<le> limit \<or> (\<exists>t. status = Some t \<and> out = t) \<or> out = [] \<and> limit < 0)
       \<and> (int (length whole) \<le> limit \<longrightarrow> out = whole)
       \<and> (\<forall>k < length parts. int (length whole) > limit \<and> int (length (shown k)) \<le> limit
            \<and> (\<forall>j < k. int (length (shown j)) > limit) \<longrightarrow> out = shown k)"
proof -
  define parts where "parts = rendered_parts ctx s"
  define status_text where
    "status_text = (if status \<noteq> None \<and> status \<noteq> Some [] then [10, 10] @ the status else [])"
  define marker where "marker = rx_escape_text ctx (u ''... (truncated)'' @ [10])"
  define whole where "whole = join_parts_with_status marker status_text parts False"
  let ?shown = "\<lambda>k. join_parts_with_status marker status_text (drop k parts) True"
  let ?out = "render_transcript ctx limit status s"
  have out: "?out = (if int (length whole) \<le> limit then whole
     else (case drop_oldest marker status_text limit parts None of
             (Some c, _) \<Rightarrow> c
           | (None, None) \<Rightarrow> (if status = None then [] else the status)
           | (None, Some last_part) \<Rightarrow>
               (let budget = limit - int (length marker) - int (length status_text);
                    tail = (if int (length last_part) > budget
                            then u ''...'' @ py_tail (budget - 3) last_part else last_part);
                    clipped = marker @ tail @ status_text;
                    minimal = marker @ dropWhile (\<lambda>c. c = 10) status_text
                in if last_part \<noteq> [] \<and> budget > 20 \<and> int (length clipped) \<le> limit then clipped
                   else if int (length minimal) \<le> limit then minimal
                   else (if status = None then [] else the status))))"
    unfolding render_transcript_def parts_def status_text_def marker_def whole_def Let_def by (rule refl)
  have "int (length ?out) \<le> limit \<or> (\<exists>t. status = Some t \<and> ?out = t) \<or> ?out = [] \<and> limit < 0"
    unfolding out using drop_oldest_fits [of marker status_text limit parts None]
    by (cases "drop_oldest marker status_text limit parts None")
      (auto simp: Let_def split: option.splits if_splits)
  moreover have "?out = whole" if "int (length whole) \<le> limit"
    using that unfolding out by simp
  moreover have "?out = ?shown k" if "k < length parts" "int (length whole) > limit"
    "int (length (?shown k)) \<le> limit" "\<forall>j < k. int (length (?shown j)) > limit" for k
  proof -
    have "fst (drop_oldest marker status_text limit parts None) = Some (?shown k)"
      unfolding drop_oldest_Some using that by blast
    then show ?thesis
      unfolding out using that(2) by (cases "drop_oldest marker status_text limit parts None") simp
  qed
  ultimately show ?thesis
    unfolding Let_def parts_def [symmetric] status_text_def [symmetric] marker_def [symmetric]
      whole_def [symmetric] by blast
qed

section \<open>Well-formed buffers\<close>

text \<open>Every reference points into the store, indices of open blocks are not negative, and each open
  subagent has its segment.\<close>

definition tb_wf :: "transcript \<Rightarrow> bool" where
  "tb_wf s =
     (set (tb_segments s) \<subseteq> {..<length (tb_store s)}
      \<and> set (tb_subagent_segments s) \<subseteq> {..<length (tb_store s)}
      \<and> length (tb_subagent_stack s) = length (tb_subagent_segments s)
      \<and> (\<forall>i a. tb_open_thinking s i = Some a \<or> tb_open_text s i = Some a \<or> tb_open_tools s i = Some a
            \<longrightarrow> 0 \<le> i \<and> a < length (tb_store s)))"

named_theorems wf_intros "operations that keep the buffer well-formed"

lemma wf_init: "tb_wf (transcript_init b)"
  by (simp add: tb_wf_def transcript_init_def)

lemma upd_seg_simps [simp]:
  "length (tb_store (upd_seg a f s)) = length (tb_store s)"
  "tb_segments (upd_seg a f s) = tb_segments s"
  "tb_open_thinking (upd_seg a f s) = tb_open_thinking s"
  "tb_open_text (upd_seg a f s) = tb_open_text s"
  "tb_open_tools (upd_seg a f s) = tb_open_tools s"
  "tb_tool_name_by_id (upd_seg a f s) = tb_tool_name_by_id s"
  "tb_show_tool_results (upd_seg a f s) = tb_show_tool_results s"
  "tb_subagent_stack (upd_seg a f s) = tb_subagent_stack s"
  "tb_subagent_segments (upd_seg a f s) = tb_subagent_segments s"
  by (simp_all add: upd_seg_def)

lemma wf_upd_seg [wf_intros]: "tb_wf s \<Longrightarrow> tb_wf (upd_seg a f s)"
  by (simp add: tb_wf_def)

lemma wf_names [wf_intros]: "tb_wf s \<Longrightarrow> tb_wf (s\<lparr>tb_tool_name_by_id := m\<rparr>)"
  by (simp add: tb_wf_def)

lemma wf_close [wf_intros]:
  "tb_wf s \<Longrightarrow> tb_wf (s\<lparr>tb_open_thinking := (tb_open_thinking s)(i := None)\<rparr>)"
  "tb_wf s \<Longrightarrow> tb_wf (s\<lparr>tb_open_text := (tb_open_text s)(i := None)\<rparr>)"
  "tb_wf s \<Longrightarrow> tb_wf (s\<lparr>tb_open_tools := (tb_open_tools s)(i := None)\<rparr>)"
  by (simp_all add: tb_wf_def)

lemma wf_open [wf_intros]:
  "tb_wf s \<Longrightarrow> 0 \<le> i \<Longrightarrow> a < length (tb_store s)
     \<Longrightarrow> tb_wf (s\<lparr>tb_open_thinking := (tb_open_thinking s)(i \<mapsto> a)\<rparr>)"
  "tb_wf s \<Longrightarrow> 0 \<le> i \<Longrightarrow> a < length (tb_store s)
     \<Longrightarrow> tb_wf (s\<lparr>tb_open_text := (tb_open_text s)(i \<mapsto> a)\<rparr>)"
  "tb_wf s \<Longrightarrow> 0 \<le> i \<Longrightarrow> a < length (tb_store s)
     \<Longrightarrow> tb_wf (s\<lparr>tb_open_tools := (tb_open_tools s)(i \<mapsto> a)\<rparr>)"
  by (simp_all add: tb_wf_def)

lemma wf_alloc:
  assumes "tb_wf s" "alloc seg s = (a, s')"
  shows "tb_wf s'" "a < length (tb_store s')"
  using assms by (fastforce simp: tb_wf_def alloc_def)+

lemma wf_alloc_shown:
  assumes "tb_wf s" "alloc_shown seg s = (a, s')"
  shows "tb_wf s'" "a < length (tb_store s')"
  using assms by (fastforce simp: tb_wf_def alloc_shown_def alloc_def)+

lemma wf_alloc_shown_snd [wf_intros]: "tb_wf s \<Longrightarrow> tb_wf (snd (alloc_shown seg s))"
  using wf_alloc_shown(1) [of s seg] by (metis prod.collapse)

lemma wf_pop_one [wf_intros]: "tb_wf s \<Longrightarrow> tb_wf (pop_one s)"
  by (auto simp: tb_wf_def pop_one_def dest: in_set_butlastD)

lemma wf_pop_until [wf_intros]: "tb_wf s \<Longrightarrow> tb_wf (pop_until idx s)"
proof (induction idx s rule: pop_until.induct)
  case (1 idx s)
  then show ?case by (subst pop_until.simps) (simp add: wf_pop_one)
qed

lemma wf_subagent_pop [wf_intros]: "tb_wf s \<Longrightarrow> tb_wf (snd (subagent_pop t s))"
  by (simp add: subagent_pop_def Let_def wf_pop_one wf_pop_until split: option.split)

lemma wf_subagent_push: "tb_wf s \<Longrightarrow> a < length (tb_store s) \<Longrightarrow> tb_wf (subagent_push t a s)"
  by (auto simp: tb_wf_def subagent_push_def Let_def)

lemma wf_thinking_stop [wf_intros]: "tb_wf s \<Longrightarrow> tb_wf (apply_thinking_stop i s)"
  by (simp add: apply_thinking_stop_def wf_intros)

lemma wf_text_stop [wf_intros]: "tb_wf s \<Longrightarrow> tb_wf (apply_text_stop i s)"
  by (simp add: apply_text_stop_def wf_intros)

lemma wf_tool_use_stop [wf_intros]: "tb_wf s \<Longrightarrow> tb_wf (apply_tool_use_stop i s)"
  by (simp add: apply_tool_use_stop_def Let_def wf_intros split: option.split)

lemma wf_block_stop [wf_intros]: "tb_wf s \<Longrightarrow> tb_wf (apply_block_stop i s)"
  by (simp add: apply_block_stop_def wf_intros)

lemma wf_starts [wf_intros]:
  "tb_wf s \<Longrightarrow> tb_wf (apply_thinking_start i s)" "tb_wf s \<Longrightarrow> tb_wf (apply_text_start i s)"
  by (auto simp: apply_thinking_start_def apply_text_start_def ensure_thinking_def ensure_text_def Let_def
      split: prod.split intro!: wf_intros dest: wf_alloc_shown [OF wf_block_stop] wf_alloc_shown)

lemma wf_texts [wf_intros]:
  "tb_wf s \<Longrightarrow> tb_wf (apply_thinking_text i t s)" "tb_wf s \<Longrightarrow> tb_wf (apply_text_text i t s)"
  by (auto simp: apply_thinking_text_def apply_text_text_def ensure_thinking_def ensure_text_def
      split: prod.split option.split intro!: wf_intros dest: wf_alloc_shown)

lemma wf_set_current_tool_call:
  assumes "tb_wf s" "set_current_tool_call parent tool_id name s = (a, s')"
  shows "tb_wf s'" "a < length (tb_store s')"
  using assms wf_alloc [OF assms(1)]
  by (auto simp: set_current_tool_call_def Let_def wf_upd_seg split: prod.splits)

lemma wf_add_tool:
  assumes "tb_wf s" "add_tool f tool_id name inp s = (r, s')"
  shows "tb_wf s'" "r = Some a \<Longrightarrow> a < length (tb_store s')"
proof -
  define s0 where "s0 = (if tool_id \<noteq> [] then s\<lparr>tb_tool_name_by_id := (tb_tool_name_by_id s)(tool_id \<mapsto> name)\<rparr> else s)"
  have "tb_wf s0" using assms(1) by (simp add: s0_def wf_names)
  note wf = wf_alloc_shown [OF this] wf_set_current_tool_call [OF this]
  show "tb_wf s'" "r = Some a \<Longrightarrow> a < length (tb_store s')"
    using assms(2) unfolding add_tool_def s0_def [symmetric] Let_def
    by (auto simp: map_prod_def split: if_splits prod.splits option.splits dest: wf intro: wf_subagent_push)
qed

lemma wf_tool_uses [wf_intros]:
  "tb_wf s \<Longrightarrow> tb_wf (apply_tool_use_start f i tool_id name inp s)"
  "tb_wf s \<Longrightarrow> tb_wf (apply_tool_use f tool_id name inp s)"
  by (auto simp: apply_tool_use_start_def apply_tool_use_def Let_def split: prod.split option.split
      intro!: wf_intros dest: wf_add_tool [OF wf_block_stop] wf_add_tool)

lemma wf_tool_result [wf_intros]: "tb_wf s \<Longrightarrow> tb_wf (apply_tool_result lower dumps i c e s)"
  using wf_subagent_pop [of s i] wf_subagent_pop [OF wf_subagent_pop [of s i], of "[]"]
  by (auto simp: apply_tool_result_def Let_def split: prod.split intro!: wf_alloc_shown_snd)

lemma wf_with_index: "(\<And>i. tb_wf (f i s)) \<Longrightarrow> tb_wf s \<Longrightarrow> tb_wf (snd (with_index g e f s))"
  by (simp add: with_index_def split: option.split)

lemma wf_apply_event [wf_intros]: "tb_wf s \<Longrightarrow> tb_wf (snd (apply_event env e s))"
  unfolding apply_event_def Let_def by (simp add: wf_intros wf_with_index)

section \<open>Streamed and whole messages\<close>

text \<open>What a display shows of a segment: parts are joined, and whether a tool call is closed does
  not show.\<close>

fun shown_seg :: "segment \<Rightarrow> segment" where
  "shown_seg (ThinkingSegment parts) = ThinkingSegment [concat parts]"
| "shown_seg (TextSegment parts) = TextSegment [concat parts]"
| "shown_seg (ToolCallSegment i n c k) = ToolCallSegment i n True k"
| "shown_seg seg = seg"

definition same_display :: "transcript \<Rightarrow> transcript \<Rightarrow> bool" where
  "same_display s t =
     (map shown_seg (tb_store s) = map shown_seg (tb_store t)
      \<and> tb_segments s = tb_segments t
      \<and> tb_tool_name_by_id s = tb_tool_name_by_id t
      \<and> tb_show_tool_results s = tb_show_tool_results t
      \<and> tb_subagent_stack s = tb_subagent_stack t
      \<and> tb_subagent_segments s = tb_subagent_segments t)"

lemma same_display_refl: "same_display s s"
  by (simp add: same_display_def)

lemma same_display_trans: "same_display s t \<Longrightarrow> same_display t r \<Longrightarrow> same_display s r"
  by (simp add: same_display_def)

lemma same_display_sym: "same_display s t \<Longrightarrow> same_display t s"
  by (simp add: same_display_def)

lemma render_shown:
  assumes "map shown_seg store = map shown_seg store'" "shown_seg seg = shown_seg seg'"
  shows "render_segment ctx store seg = render_segment ctx store' seg'"
proof -
  have len: "length store = length store'" using assms(1) by (rule map_eq_imp_length_eq)
  have nth: "shown_seg (store ! a) = shown_seg (store' ! a)" if "a < length store" for a
    using assms(1) that len by (metis nth_map)
  have tool: "(case (if a < length store then store ! a else ErrorSegment []) of
           ToolCallSegment i n c k \<Rightarrow> g n k | _ \<Rightarrow> [])
        = (case (if a < length store' then store' ! a else ErrorSegment []) of
           ToolCallSegment i n c k \<Rightarrow> g n k | _ \<Rightarrow> [])" for a and g :: "pystr \<Rightarrow> nat \<Rightarrow> pystr list"
    using nth [of a] len by (auto split: segment.splits dest: sym)
  have sub: "render_subagent ctx store d n used cur = render_subagent ctx store' d n used cur" for d n used cur
    unfolding render_subagent_def by (cases cur) (simp_all add: tool [where g = "\<lambda>n k.
        case render_tool_call ctx n k of Some r \<Rightarrow> if r \<noteq> [] then [r] else [] | None \<Rightarrow> []"])
  show ?thesis
    using assms(2) by (cases seg; cases seg') (simp_all add: render_segment_def sub)
qed

lemma same_display_render:
  assumes "same_display s t" "tb_wf s"
  shows "render_transcript ctx limit status s = render_transcript ctx limit status t"
proof -
  have len: "length (tb_store s) = length (tb_store t)"
    using assms(1) map_eq_imp_length_eq unfolding same_display_def by blast
  have "render_segment ctx (tb_store s) (tb_store s ! a) = render_segment ctx (tb_store t) (tb_store t ! a)"
    if "a \<in> set (tb_segments s)" for a
  proof (rule render_shown)
    have "a < length (tb_store s)" using assms(2) that by (auto simp: tb_wf_def)
    then show "shown_seg (tb_store s ! a) = shown_seg (tb_store t ! a)"
      using assms(1) len unfolding same_display_def by (metis nth_map)
  qed (use assms(1) in \<open>simp add: same_display_def\<close>)
  then have "rendered_parts ctx s = rendered_parts ctx t"
    using assms(1) unfolding rendered_parts_def same_display_def
    by (auto simp: List.map_filter_def intro!: arg_cong [where f = "filter _"] map_cong filter_cong)
  then show ?thesis by (simp add: render_transcript_def)
qed

text \<open>Closing a block does not show.\<close>

lemma shown_seg_close [simp]: "shown_seg (seg_close seg) = shown_seg seg"
  by (cases seg) (simp_all add: seg_close_def)

lemma same_upd_close: "same_display (upd_seg a seg_close s) s"
  by (simp add: same_display_def upd_seg_def map_update list_update_same_conv)

lemma same_block_stop: "same_display (apply_block_stop i s) s"
proof -
  have "same_display (upd_seg a seg_close (s\<lparr>tb_open_tools := m\<rparr>)) s" for a m
    by (rule same_display_trans [OF same_upd_close]) (simp add: same_display_def)
  then show ?thesis
    by (auto simp: apply_block_stop_def apply_tool_use_stop_def apply_thinking_stop_def
        apply_text_stop_def Let_def same_display_def split: option.split)
qed

lemma same_alloc_shown:
  assumes "same_display s t" "shown_seg seg = shown_seg seg'"
  shows "same_display (snd (alloc_shown seg s)) (snd (alloc_shown seg' t))"
    and "fst (alloc_shown seg s) = fst (alloc_shown seg' t)"
  using assms map_eq_imp_length_eq [of shown_seg "tb_store s" shown_seg "tb_store t"]
  by (auto simp: same_display_def alloc_shown_def alloc_def)

text \<open>The events of one content block: a streamed one and a whole one.\<close>

definition run_events :: "transcript_env \<Rightarrow> ev list \<Rightarrow> transcript \<Rightarrow> transcript" where
  "run_events env es s = fold (\<lambda>e s. snd (apply_event env e s)) es s"

definition run_raw :: "transcript_env \<Rightarrow> json list \<Rightarrow> transcript \<Rightarrow> transcript" where
  "run_raw env raw s = run_events env (concat (map (parse_cli_event (te_str_of_value env)) raw)) s"

lemma run_events_append: "run_events env (es @ fs) s = run_events env fs (run_events env es s)"
  by (simp add: run_events_def)

lemma run_raw_append: "run_raw env (xs @ ys) s = run_raw env ys (run_raw env xs s)"
  by (simp add: run_raw_def run_events_append)

lemma wf_run_events: "tb_wf s \<Longrightarrow> tb_wf (run_events env es s)"
  unfolding run_events_def by (induction es arbitrary: s) (simp_all add: wf_apply_event)

text \<open>A content block, with the pieces its stream delivers. A streamed tool call starts with an
  input of its own (usually empty); its real input follows in pieces that the transcript ignores.\<close>

datatype block_spec =
    TextBlock "pystr list"
  | ThinkingBlock "pystr list"
  | ToolBlock (tb_id: pystr) (tb_name: pystr) (tb_start_input: json) (tb_input: json) (tb_pieces: "pystr list")

definition obj :: "(string \<times> json) list \<Rightarrow> json" where
  "obj kvs = JObj (map (\<lambda>(k, v). (u k, v)) kvs)"

definition raw_start :: "nat \<Rightarrow> json \<Rightarrow> json" where
  "raw_start i block = obj [(''type'', JStr (u ''content_block_start'')), (''index'', JInt (int i)),
     (''content_block'', block)]"

definition raw_delta :: "nat \<Rightarrow> string \<Rightarrow> string \<Rightarrow> pystr \<Rightarrow> json" where
  "raw_delta i kind key piece = obj [(''type'', JStr (u ''content_block_delta'')), (''index'', JInt (int i)),
     (''delta'', obj [(''type'', JStr (u kind)), (key, JStr piece)])]"

definition raw_stop :: "nat \<Rightarrow> json" where
  "raw_stop i = obj [(''type'', JStr (u ''content_block_stop'')), (''index'', JInt (int i))]"

definition tool_block :: "pystr \<Rightarrow> pystr \<Rightarrow> json \<Rightarrow> json" where
  "tool_block tid name inp = obj [(''type'', JStr (u ''tool_use'')), (''id'', JStr tid),
     (''name'', JStr name), (''input'', inp)]"

fun streamed_block :: "nat \<Rightarrow> block_spec \<Rightarrow> json list" where
  "streamed_block i (TextBlock pieces) =
     raw_start i (obj [(''type'', JStr (u ''text'')), (''text'', JStr [])])
     # map (raw_delta i ''text_delta'' ''text'') pieces @ [raw_stop i]"
| "streamed_block i (ThinkingBlock pieces) =
     raw_start i (obj [(''type'', JStr (u ''thinking'')), (''thinking'', JStr [])])
     # map (raw_delta i ''thinking_delta'' ''thinking'') pieces @ [raw_stop i]"
| "streamed_block i (ToolBlock tid name start_input inp pieces) =
     raw_start i (tool_block tid name start_input)
     # map (raw_delta i ''input_json_delta'' ''partial_json'') pieces @ [raw_stop i]"

fun whole_block :: "block_spec \<Rightarrow> json" where
  "whole_block (TextBlock pieces) = obj [(''type'', JStr (u ''text'')), (''text'', JStr (concat pieces))]"
| "whole_block (ThinkingBlock pieces) =
     obj [(''type'', JStr (u ''thinking'')), (''thinking'', JStr (concat pieces))]"
| "whole_block (ToolBlock tid name start_input inp pieces) = tool_block tid name inp"

fun streamed_message :: "nat \<Rightarrow> block_spec list \<Rightarrow> json list" where
  "streamed_message i [] = []"
| "streamed_message i (b # bs) = streamed_block i b @ streamed_message (Suc i) bs"

definition whole_message :: "block_spec list \<Rightarrow> json" where
  "whole_message bs = obj [(''type'', JStr (u ''assistant'')),
     (''message'', obj [(''content'', JList (map whole_block bs))])]"

fun heading_known :: "block_spec \<Rightarrow> bool" where
  "heading_known (ToolBlock tid name start_input inp pieces) = (name = u ''Task'' \<longrightarrow> start_input = inp)"
| "heading_known _ = True"

text \<open>The parser's view of these raw events.\<close>

lemma parse_raw:
  "parse_cli_event f (raw_stop i) = [mk_ev ''block_stop'' [(''index'', JInt (int i))]]"
  "parse_cli_event f (raw_delta i ''text_delta'' ''text'' p)
     = [mk_ev ''text_delta'' [(''index'', JInt (int i)), (''text'', JStr p)]]"
  "parse_cli_event f (raw_delta i ''thinking_delta'' ''thinking'' p)
     = [mk_ev ''thinking_delta'' [(''index'', JInt (int i)), (''text'', JStr p)]]"
  "parse_cli_event f (raw_delta i ''input_json_delta'' ''partial_json'' p)
     = [mk_ev ''tool_use_delta'' [(''index'', JInt (int i)), (''partial_json'', JStr p)]]"
  "parse_cli_event f (raw_start i (obj [(''type'', JStr (u ''text'')), (''text'', JStr [])]))
     = [mk_ev ''text_start'' [(''index'', JInt (int i))]]"
  "parse_cli_event f (raw_start i (obj [(''type'', JStr (u ''thinking'')), (''thinking'', JStr [])]))
     = [mk_ev ''thinking_start'' [(''index'', JInt (int i))]]"
  "parse_cli_event f (raw_start i (tool_block tid name inp))
     = [mk_ev ''tool_use_start'' [(''index'', JInt (int i)), (''id'', JStr (strip tid)),
          (''name'', JStr name), (''input'', inp)]]"
  by (simp_all add: parse_cli_event_def raw_stop_def raw_delta_def raw_start_def tool_block_def obj_def
      message_of_def message_events_def delta_events_def start_events_def text_or_def strip_def
      rstrip_def lstrip_def Let_def)

lemma parse_whole_block:
  "parse_block f (whole_block (TextBlock ps)) = [mk_ev ''text_chunk'' [(''text'', JStr (concat ps))]]"
  "parse_block f (whole_block (ThinkingBlock ps)) = [mk_ev ''thinking_chunk'' [(''text'', JStr (concat ps))]]"
  "parse_block f (whole_block (ToolBlock tid name i0 inp ps))
     = [mk_ev ''tool_use'' [(''id'', JStr (strip tid)), (''name'', JStr name), (''input'', inp)]]"
  by (simp_all add: parse_block_def obj_def tool_block_def text_or_def Let_def strip_def rstrip_def lstrip_def)

lemma parse_whole_message:
  "parse_cli_event f (whole_message bs) = concat (map (\<lambda>b. parse_block f (whole_block b)) bs)"
proof -
  have "parse_block f (whole_block b) \<noteq> []" for b
    by (cases b) (simp_all add: parse_whole_block del: whole_block.simps)
  then show ?thesis
    by (simp add: parse_cli_event_def whole_message_def obj_def message_of_def message_events_def
        Let_def comp_def)
qed

lemma apply_mk:
  "apply_event env (mk_ev ''block_stop'' [(''index'', JInt i)]) s = (True, apply_block_stop i s)"
  "apply_event env (mk_ev ''text_start'' [(''index'', JInt i)]) s
     = (True, if in_subagent s then s else apply_text_start i s)"
  "apply_event env (mk_ev ''thinking_start'' [(''index'', JInt i)]) s
     = (True, if in_subagent s then s else apply_thinking_start i s)"
  "apply_event env (mk_ev ''text_delta'' [(''index'', JInt i), (''text'', JStr p)]) s
     = (True, if in_subagent s then s else apply_text_text i p s)"
  "apply_event env (mk_ev ''thinking_delta'' [(''index'', JInt i), (''text'', JStr p)]) s
     = (True, if in_subagent s then s else apply_thinking_text i p s)"
  "apply_event env (mk_ev ''tool_use_delta'' [(''index'', JInt i), (''partial_json'', JStr p)]) s = (True, s)"
  "apply_event env (mk_ev ''text_chunk'' [(''text'', JStr p)]) s
     = (True, if in_subagent s then s else apply_text_text (- 1) p s)"
  "apply_event env (mk_ev ''thinking_chunk'' [(''text'', JStr p)]) s
     = (True, if in_subagent s then s else apply_thinking_text (- 1) p s)"
  "apply_event env (mk_ev ''tool_use_start'' [(''index'', JInt i), (''id'', JStr t), (''name'', JStr n),
      (''input'', inp)]) s
     = (True, apply_tool_use_start (te_str_of_value env) i (strip t) (if n = [] then u ''tool'' else n) inp s)"
  "apply_event env (mk_ev ''tool_use'' [(''id'', JStr t), (''name'', JStr n), (''input'', inp)]) s
     = (True, apply_tool_use (te_str_of_value env) (strip t) (if n = [] then u ''tool'' else n) inp s)"
  by (simp_all add: apply_event_def mk_ev_def with_index_def ev_index_def hidden_in_subagent_def
      ev_tool_id_def ev_name_def text_or_def Let_def)

lemma upd_upd: "upd_seg a f (upd_seg a g s) = upd_seg a (\<lambda>seg. f (g seg)) s"
  by (simp add: upd_seg_def)

lemma upd_id: "upd_seg a (\<lambda>seg. seg) s = s"
  by (simp add: upd_seg_def)

lemma in_subagent_upd [simp]: "in_subagent (upd_seg a f s) = in_subagent s"
  by (simp add: in_subagent_def)

lemma run_deltas:
  assumes "\<not> in_subagent s"
  shows "tb_open_text s i = Some a \<Longrightarrow>
      run_events env (map (\<lambda>p. mk_ev ''text_delta'' [(''index'', JInt i), (''text'', JStr p)]) ps) s
        = upd_seg a (fold seg_append ps) s"
    and "tb_open_thinking s i = Some a \<Longrightarrow>
      run_events env (map (\<lambda>p. mk_ev ''thinking_delta'' [(''index'', JInt i), (''text'', JStr p)]) ps) s
        = upd_seg a (fold seg_append ps) s"
  using assms unfolding run_events_def
  by (induction ps arbitrary: s)
    (simp_all add: apply_mk apply_text_text_def apply_thinking_text_def upd_upd upd_id comp_def id_def)

lemma run_hidden_deltas:
  assumes "in_subagent s"
  shows "run_events env (map (\<lambda>p. mk_ev ''text_delta'' [(''index'', JInt i), (''text'', JStr p)]) ps) s = s"
    and "run_events env (map (\<lambda>p. mk_ev ''thinking_delta'' [(''index'', JInt i), (''text'', JStr p)]) ps) s = s"
  using assms unfolding run_events_def by (induction ps) (simp_all add: apply_mk)

lemma shown_append:
  "shown_seg (fold seg_append ps (TextSegment qs)) = TextSegment [concat qs @ concat ps]"
  "shown_seg (fold seg_append ps (ThinkingSegment qs)) = ThinkingSegment [concat qs @ concat ps]"
  by (induction ps arbitrary: qs) (simp_all add: seg_append_def)

lemma upd_alloc_shown: "upd_seg (length (tb_store s)) f (snd (alloc_shown seg s)) = snd (alloc_shown (f seg) s)"
  by (simp add: upd_seg_def alloc_shown_def alloc_def)

lemma same_upd_seg:
  assumes "same_display s t" "\<And>x y. shown_seg x = shown_seg y \<Longrightarrow> shown_seg (h x) = shown_seg (h y)"
  shows "same_display (upd_seg a h s) (upd_seg a h t)"
proof -
  have len: "length (tb_store s) = length (tb_store t)"
    using assms(1) map_eq_imp_length_eq unfolding same_display_def by blast
  have "shown_seg (tb_store s ! a) = shown_seg (tb_store t ! a)" if "a < length (tb_store s)"
    using assms(1) that len unfolding same_display_def by (metis nth_map)
  then have "a < length (tb_store s) \<Longrightarrow> shown_seg (h (tb_store s ! a)) = shown_seg (h (tb_store t ! a))"
    using assms(2) by blast
  moreover have "map shown_seg (tb_store s) = map shown_seg (tb_store t)"
    using assms(1) by (simp add: same_display_def)
  ultimately have "map shown_seg (tb_store (upd_seg a h s)) = map shown_seg (tb_store (upd_seg a h t))"
    using len by (simp add: upd_seg_def map_update)
  then show ?thesis using assms(1) by (simp add: same_display_def)
qed

definition count_tool :: "pystr \<Rightarrow> nat \<Rightarrow> segment \<Rightarrow> segment" where
  "count_tool m a seg = (case seg of
     SubagentSegment d n used cur \<Rightarrow> SubagentSegment d (n + 1) (insert m used) (Some a) | _ \<Rightarrow> seg)"

lemma shown_count_tool:
  "shown_seg x = shown_seg y \<Longrightarrow> shown_seg (count_tool m a x) = shown_seg (count_tool m a y)"
  by (cases x; cases y) (simp_all add: count_tool_def)

lemma set_current_eq:
  "set_current_tool_call parent i n s
     = (let n' = (if n = [] then u ''tool'' else n) in
        (length (tb_store s), upd_seg parent (count_tool n' (length (tb_store s)))
           (snd (alloc (tool_call_segment i n' 1) s))))"
  by (simp add: set_current_tool_call_def alloc_def count_tool_def [abs_def] Let_def)

lemma same_set_current:
  assumes "same_display s t"
  shows "same_display (snd (set_current_tool_call parent i n s)) (snd (set_current_tool_call parent i n t))"
    and "fst (set_current_tool_call parent i n s) = fst (set_current_tool_call parent i n t)"
proof -
  have len: "length (tb_store s) = length (tb_store t)"
    using assms(1) map_eq_imp_length_eq unfolding same_display_def by blast
  have "same_display (snd (alloc seg s)) (snd (alloc seg t))" for seg
    using assms by (simp add: same_display_def alloc_def)
  then show "same_display (snd (set_current_tool_call parent i n s)) (snd (set_current_tool_call parent i n t))"
    unfolding set_current_eq Let_def snd_conv len
    by (rule same_upd_seg) (rule shown_count_tool)
  show "fst (set_current_tool_call parent i n s) = fst (set_current_tool_call parent i n t)"
    using len by (simp add: set_current_eq Let_def)
qed

lemma same_push:
  "same_display s t \<Longrightarrow> same_display (subagent_push i a s) (subagent_push i a t)"
  by (simp add: same_display_def subagent_push_def Let_def)

definition add_named_tool :: "(json \<Rightarrow> pystr) \<Rightarrow> pystr \<Rightarrow> pystr \<Rightarrow> json \<Rightarrow> transcript \<Rightarrow> nat option \<times> transcript" where
  "add_named_tool f i n inp s =
     (if n = u ''Task''
      then (let r = alloc_shown (subagent_segment (task_heading_from_input f inp)) s
            in (None, subagent_push i (fst r) (snd r)))
      else (let r = (if in_subagent s
                then (case subagent_current s of
                        Some parent \<Rightarrow> set_current_tool_call parent i n s
                      | None \<Rightarrow> alloc_shown (tool_call_segment i n 0) s)
                else alloc_shown (tool_call_segment i n 0) s)
            in (Some (fst r), snd r)))"

lemma add_tool_eq:
  "add_tool f i n inp s = add_named_tool f i n inp
     (if i \<noteq> [] then s\<lparr>tb_tool_name_by_id := (tb_tool_name_by_id s)(i \<mapsto> n)\<rparr> else s)"
  unfolding add_tool_def add_named_tool_def Let_def
  by (simp only: case_prod_beta map_prod_def id_apply fst_conv snd_conv)

lemma same_add_named_tool:
  assumes "same_display s t"
  shows "same_display (snd (add_named_tool f i n inp s)) (snd (add_named_tool f i n inp t))"
    and "fst (add_named_tool f i n inp s) = fst (add_named_tool f i n inp t)"
proof -
  have ctx: "in_subagent s = in_subagent t" "subagent_current s = subagent_current t"
    using assms by (simp_all add: same_display_def in_subagent_def subagent_current_def)
  note eqs = same_alloc_shown [OF assms refl] same_set_current [OF assms]
  show "same_display (snd (add_named_tool f i n inp s)) (snd (add_named_tool f i n inp t))"
    "fst (add_named_tool f i n inp s) = fst (add_named_tool f i n inp t)"
    unfolding add_named_tool_def Let_def ctx by (simp_all add: eqs same_push split: option.split)
qed

lemma same_add_tool:
  assumes "same_display s t"
  shows "same_display (snd (add_tool f i n inp s)) (snd (add_tool f i n inp t))"
    and "fst (add_tool f i n inp s) = fst (add_tool f i n inp t)"
proof -
  let ?named = "\<lambda>s. if i \<noteq> [] then s\<lparr>tb_tool_name_by_id := (tb_tool_name_by_id s)(i \<mapsto> n)\<rparr> else s"
  have same: "same_display (?named s) (?named t)"
    using assms by (simp add: same_display_def)
  show "same_display (snd (add_tool f i n inp s)) (snd (add_tool f i n inp t))"
    "fst (add_tool f i n inp s) = fst (add_tool f i n inp t)"
    unfolding add_tool_eq by (rule same_add_named_tool [OF same])+
qed

lemma add_tool_place_ignores_input:
  "n \<noteq> u ''Task'' \<Longrightarrow> add_tool f i n inp s = add_tool f i n inp' s"
  by (simp add: add_tool_def)

lemma in_subagent_same: "same_display s t \<Longrightarrow> in_subagent s = in_subagent t"
  by (simp add: same_display_def in_subagent_def)

lemma same_upd_open:
  "same_display (upd_seg a h (s\<lparr>tb_open_text := m\<rparr>)) (upd_seg a h s)"
  "same_display (upd_seg a h (s\<lparr>tb_open_thinking := m\<rparr>)) (upd_seg a h s)"
  by (simp_all add: same_display_def upd_seg_def)

lemma start_then_pieces:
  fixes i :: nat
  shows "same_display (upd_seg (length (tb_store s)) (fold seg_append ps) (apply_text_start (int i) s))
      (snd (alloc_shown (fold seg_append ps (TextSegment [])) s))"
    and "same_display (upd_seg (length (tb_store s)) (fold seg_append ps) (apply_thinking_start (int i) s))
      (snd (alloc_shown (fold seg_append ps (ThinkingSegment [])) s))"
proof -
  let ?s = "apply_block_stop (int i) s"
  have same: "same_display ?s s" by (rule same_block_stop)
  have len: "length (tb_store s) = length (tb_store ?s)"
    using same map_eq_imp_length_eq unfolding same_display_def by metis
  have "apply_text_start (int i) s = (snd (alloc_shown (TextSegment []) ?s))
      \<lparr>tb_open_text := (tb_open_text (snd (alloc_shown (TextSegment []) ?s)))(int i \<mapsto> length (tb_store ?s))\<rparr>"
    "apply_thinking_start (int i) s = (snd (alloc_shown (ThinkingSegment []) ?s))
      \<lparr>tb_open_thinking := (tb_open_thinking (snd (alloc_shown (ThinkingSegment []) ?s)))(int i \<mapsto> length (tb_store ?s))\<rparr>"
    by (simp_all add: apply_text_start_def apply_thinking_start_def ensure_text_def ensure_thinking_def
        alloc_shown_def alloc_def Let_def)
  note starts = this
  show "same_display (upd_seg (length (tb_store s)) (fold seg_append ps) (apply_text_start (int i) s))
      (snd (alloc_shown (fold seg_append ps (TextSegment [])) s))"
    unfolding starts(1) len
    by (rule same_display_trans [OF same_upd_open(1)])
      (simp only: upd_alloc_shown same_alloc_shown(1) [OF same refl])
  show "same_display (upd_seg (length (tb_store s)) (fold seg_append ps) (apply_thinking_start (int i) s))
      (snd (alloc_shown (fold seg_append ps (ThinkingSegment [])) s))"
    unfolding starts(2) len
    by (rule same_display_trans [OF same_upd_open(2)])
      (simp only: upd_alloc_shown same_alloc_shown(1) [OF same refl])
qed

lemma started:
  fixes i :: nat
  shows "tb_open_text (apply_text_start (int i) s) (int i) = Some (length (tb_store s))"
    and "tb_open_thinking (apply_thinking_start (int i) s) (int i) = Some (length (tb_store s))"
    and "in_subagent (apply_text_start (int i) s) = in_subagent s"
    and "in_subagent (apply_thinking_start (int i) s) = in_subagent s"
proof -
  let ?s = "apply_block_stop (int i) s"
  have same: "same_display ?s s" by (rule same_block_stop)
  have len: "length (tb_store s) = length (tb_store ?s)"
    using same map_eq_imp_length_eq unfolding same_display_def by metis
  show "tb_open_text (apply_text_start (int i) s) (int i) = Some (length (tb_store s))"
    "tb_open_thinking (apply_thinking_start (int i) s) (int i) = Some (length (tb_store s))"
    by (simp_all add: apply_text_start_def apply_thinking_start_def ensure_text_def ensure_thinking_def
        alloc_shown_def alloc_def len Let_def)
  show "in_subagent (apply_text_start (int i) s) = in_subagent s"
    "in_subagent (apply_thinking_start (int i) s) = in_subagent s"
    using in_subagent_same [OF same]
    by (simp_all add: apply_text_start_def apply_thinking_start_def ensure_text_def ensure_thinking_def
        alloc_shown_def alloc_def in_subagent_def Let_def)
qed

lemma whole_text:
  assumes "tb_wf t"
  shows "apply_text_text (- 1) p t = snd (alloc_shown (seg_append p (TextSegment [])) t)"
    and "apply_thinking_text (- 1) p t = snd (alloc_shown (seg_append p (ThinkingSegment [])) t)"
proof -
  have "tb_open_text t (- 1) = None" "tb_open_thinking t (- 1) = None"
    by (cases "tb_open_text t (- 1)"; use assms in \<open>force simp: tb_wf_def\<close>)
      (cases "tb_open_thinking t (- 1)"; use assms in \<open>force simp: tb_wf_def\<close>)
  then show "apply_text_text (- 1) p t = snd (alloc_shown (seg_append p (TextSegment [])) t)"
    "apply_thinking_text (- 1) p t = snd (alloc_shown (seg_append p (ThinkingSegment [])) t)"
    by (simp_all add: apply_text_text_def apply_thinking_text_def ensure_text_def ensure_thinking_def
        alloc_shown_def alloc_def upd_seg_def)
qed

lemma shown_whole:
  "shown_seg (seg_append p (TextSegment [])) = TextSegment [p]"
  "shown_seg (seg_append p (ThinkingSegment [])) = ThinkingSegment [p]"
  by (simp_all add: seg_append_def)

lemma run_tool_deltas:
  "run_events env (map (\<lambda>p. mk_ev ''tool_use_delta'' [(''index'', JInt i), (''partial_json'', JStr p)]) ps) s = s"
  unfolding run_events_def by (induction ps) (simp_all add: apply_mk)

lemma run_events_Cons [simp]: "run_events env (e # es) s = run_events env es (snd (apply_event env e s))"
  and run_events_Nil [simp]: "run_events env [] s = s"
  by (simp_all add: run_events_def)

text \<open>One block: its stream and its whole form leave buffers that show the same.\<close>

lemma text_block_shows_the_same:
  assumes same: "same_display s t" and wf: "tb_wf t" and b: "b = TextBlock ps"
  shows "same_display (run_raw env (streamed_block i b) s)
    (run_events env (parse_block (te_str_of_value env) (whole_block b)) t)"
proof -
  have raw: "run_raw env (streamed_block i b) s = snd (apply_event env (mk_ev ''block_stop'' [(''index'', JInt (int i))])
     (run_events env (map (\<lambda>p. mk_ev ''text_delta'' [(''index'', JInt (int i)), (''text'', JStr p)]) ps)
       (snd (apply_event env (mk_ev ''text_start'' [(''index'', JInt (int i))]) s))))"
    by (simp add: b run_raw_def parse_raw comp_def run_events_append concat_map_singleton)
  show ?thesis
  proof (cases "in_subagent s")
    case True
    then have "run_raw env (streamed_block i b) s = apply_block_stop (int i) s"
      by (simp add: raw apply_mk run_hidden_deltas)
    moreover have "run_events env (parse_block (te_str_of_value env) (whole_block b)) t = t"
      using True in_subagent_same [OF same] by (simp add: b parse_whole_block apply_mk del: whole_block.simps)
    ultimately show ?thesis using same_display_trans [OF same_block_stop same] by simp
  next
    case False
    then have "run_raw env (streamed_block i b) s = apply_block_stop (int i)
        (upd_seg (length (tb_store s)) (fold seg_append ps) (apply_text_start (int i) s))"
      using run_deltas(1) [OF _ started(1)] started(3) by (simp add: raw apply_mk)
    moreover have "run_events env (parse_block (te_str_of_value env) (whole_block b)) t
        = snd (alloc_shown (seg_append (concat ps) (TextSegment [])) t)"
      using False in_subagent_same [OF same]
      by (simp add: b parse_whole_block apply_mk whole_text [OF wf] del: whole_block.simps)
    moreover have "same_display (snd (alloc_shown (fold seg_append ps (TextSegment [])) s))
        (snd (alloc_shown (seg_append (concat ps) (TextSegment [])) t))"
      by (rule same_alloc_shown(1) [OF same]) (simp add: shown_append shown_whole)
    ultimately show ?thesis
      using same_display_trans [OF same_block_stop same_display_trans [OF start_then_pieces(1)]] by simp
  qed
qed

lemma thinking_block_shows_the_same:
  assumes same: "same_display s t" and wf: "tb_wf t" and b: "b = ThinkingBlock ps"
  shows "same_display (run_raw env (streamed_block i b) s)
    (run_events env (parse_block (te_str_of_value env) (whole_block b)) t)"
proof -
  have raw: "run_raw env (streamed_block i b) s = snd (apply_event env (mk_ev ''block_stop'' [(''index'', JInt (int i))])
     (run_events env (map (\<lambda>p. mk_ev ''thinking_delta'' [(''index'', JInt (int i)), (''text'', JStr p)]) ps)
       (snd (apply_event env (mk_ev ''thinking_start'' [(''index'', JInt (int i))]) s))))"
    by (simp add: b run_raw_def parse_raw comp_def run_events_append concat_map_singleton)
  show ?thesis
  proof (cases "in_subagent s")
    case True
    then have "run_raw env (streamed_block i b) s = apply_block_stop (int i) s"
      by (simp add: raw apply_mk run_hidden_deltas)
    moreover have "run_events env (parse_block (te_str_of_value env) (whole_block b)) t = t"
      using True in_subagent_same [OF same] by (simp add: b parse_whole_block apply_mk del: whole_block.simps)
    ultimately show ?thesis using same_display_trans [OF same_block_stop same] by simp
  next
    case False
    then have "run_raw env (streamed_block i b) s = apply_block_stop (int i)
        (upd_seg (length (tb_store s)) (fold seg_append ps) (apply_thinking_start (int i) s))"
      using run_deltas(2) [OF _ started(2)] started(4) by (simp add: raw apply_mk)
    moreover have "run_events env (parse_block (te_str_of_value env) (whole_block b)) t
        = snd (alloc_shown (seg_append (concat ps) (ThinkingSegment [])) t)"
      using False in_subagent_same [OF same]
      by (simp add: b parse_whole_block apply_mk whole_text [OF wf] del: whole_block.simps)
    moreover have "same_display (snd (alloc_shown (fold seg_append ps (ThinkingSegment [])) s))
        (snd (alloc_shown (seg_append (concat ps) (ThinkingSegment [])) t))"
      by (rule same_alloc_shown(1) [OF same]) (simp add: shown_append shown_whole)
    ultimately show ?thesis
      using same_display_trans [OF same_block_stop same_display_trans [OF start_then_pieces(2)]] by simp
  qed
qed

lemma tool_block_shows_the_same:
  assumes same: "same_display s t" and wf: "tb_wf t" and known: "heading_known b" and b: "b = ToolBlock tid name start_input inp ps"
  shows "same_display (run_raw env (streamed_block i b) s)
    (run_events env (parse_block (te_str_of_value env) (whole_block b)) t)"
proof -
  let ?n = "if name = [] then u ''tool'' else name" and ?f = "te_str_of_value env" and ?i = "strip (strip tid)"
  have raw: "run_raw env (streamed_block i b) s = apply_block_stop (int i)
      (apply_tool_use_start ?f (int i) ?i ?n start_input s)"
    by (simp add: b run_raw_def parse_raw comp_def run_events_append concat_map_singleton apply_mk
        run_tool_deltas)
  have inputs: "add_tool ?f ?i ?n start_input x = add_tool ?f ?i ?n inp x" for x
    using known add_tool_place_ignores_input [of ?n ?f ?i start_input x inp] b by auto
  have "same_display (apply_tool_use_start ?f (int i) ?i ?n start_input s) (snd (add_tool ?f ?i ?n inp s))"
  proof -
    have "same_display (apply_tool_use_start ?f (int i) ?i ?n start_input s)
        (snd (add_tool ?f ?i ?n inp (apply_block_stop (int i) s)))"
      by (simp add: apply_tool_use_start_def inputs same_display_def split: prod.split option.split)
    then show ?thesis by (rule same_display_trans [OF _ same_add_tool(1) [OF same_block_stop]])
  qed
  moreover have "same_display (apply_tool_use ?f ?i ?n inp t) (snd (add_tool ?f ?i ?n inp t))"
    by (simp add: apply_tool_use_def same_upd_close same_display_refl split: prod.split option.split)
  moreover have "run_events env (parse_block ?f (whole_block b)) t = apply_tool_use ?f ?i ?n inp t"
    by (simp add: b parse_whole_block apply_mk del: whole_block.simps)
  ultimately show ?thesis
    unfolding raw by (simp only:)
      (rule same_display_trans [OF same_block_stop same_display_trans [OF _ same_display_trans
          [OF same_add_tool(1) [OF same] same_display_sym]]])
qed

lemma block_shows_the_same:
  assumes "same_display s t" "tb_wf t" "heading_known b"
  shows "same_display (run_raw env (streamed_block i b) s)
    (run_events env (parse_block (te_str_of_value env) (whole_block b)) t)"
  using text_block_shows_the_same [OF assms(1,2)] thinking_block_shows_the_same [OF assms(1,2)]
    tool_block_shows_the_same [OF assms]
  by (cases b) blast+

text \<open>Claim C31: an assistant message shows the same in every display context whether the command
  line streams it, block by block and in any pieces, or sends it whole, after any history; only a
  subagent must start with the input its description is taken from.\<close>

theorem streamed_message_shows_like_whole:
  assumes "\<forall>b \<in> set bs. heading_known b"
  shows "render_transcript ctx limit status
      (run_raw env (streamed_message i bs) (run_raw env history (transcript_init show_results)))
    = render_transcript ctx limit status
      (run_raw env [whole_message bs] (run_raw env history (transcript_init show_results)))"
proof -
  have "same_display (run_raw env (streamed_message i bs) s)
      (run_events env (concat (map (\<lambda>b. parse_block (te_str_of_value env) (whole_block b)) bs)) t)
    \<and> tb_wf (run_raw env (streamed_message i bs) s)"
    if "same_display s t" "tb_wf s" "tb_wf t" for s t
    using assms that
  proof (induction bs arbitrary: i s t)
    case (Cons b bs)
    let ?s = "run_raw env (streamed_block i b) s"
    let ?t = "run_events env (parse_block (te_str_of_value env) (whole_block b)) t"
    have "same_display ?s ?t" using Cons.prems by (intro block_shows_the_same) auto
    moreover have "tb_wf ?s" "tb_wf ?t" using Cons.prems by (simp_all add: run_raw_def wf_run_events)
    ultimately show ?case
      using Cons.IH [of ?s ?t "Suc i"] Cons.prems(1) by (simp add: run_raw_append run_events_append)
  qed (simp add: run_raw_def)
  moreover have "tb_wf (run_raw env history (transcript_init show_results))"
    by (simp add: run_raw_def wf_run_events wf_init)
  moreover have "run_raw env [whole_message bs] s
      = run_events env (concat (map (\<lambda>b. parse_block (te_str_of_value env) (whole_block b)) bs)) s" for s
    by (simp add: run_raw_def parse_whole_message)
  ultimately show ?thesis using same_display_refl same_display_render by metis
qed

section \<open>Concrete transcripts\<close>

definition plain_ctx :: render_ctx where
  "plain_ctx = \<lparr>rx_bold = Some, rx_code_inline = Some, rx_escape_code = Some, rx_escape_text = id,
     rx_render_markdown = Some, rx_thinking_tail_max = Some 1000, rx_tool_output_tail_max = Some 1600,
     rx_text_tail_max = Some 2000\<rparr>"

definition plain_env :: transcript_env where
  "plain_env = \<lparr>te_str_of_value = (\<lambda>_. u ''value''), te_int_of_value = (\<lambda>_. None),
     te_dumps = (\<lambda>_. u ''value''), te_lower = id\<rparr>"

definition two_texts :: transcript where
  "two_texts = run_raw plain_env
     [whole_message [TextBlock [u ''an older paragraph''], TextBlock [u ''new'']]] (transcript_init False)"

theorem render_keeps_newest_within_limit_witness:
  "render_transcript plain_ctx 25 (Some (u ''ok'')) two_texts
     = u ''... (truncated)'' @ [10] @ u ''new'' @ [10, 10] @ u ''ok''"
proof -
  have parts: "rendered_parts plain_ctx two_texts = [u ''an older paragraph'', u ''new'']"
    by code_simp
  have "rx_escape_text plain_ctx = id" by (simp add: plain_ctx_def)
  with parts render_keeps_newest_within_limit [of plain_ctx two_texts "Some (u ''ok'')" 25]
  have "\<forall>k < 2. int (length (join_parts_with_status (u ''... (truncated)'' @ [10]) ([10, 10] @ u ''ok'')
          [u ''an older paragraph'', u ''new''] False)) > 25
      \<and> int (length (join_parts_with_status (u ''... (truncated)'' @ [10]) ([10, 10] @ u ''ok'')
          (drop k [u ''an older paragraph'', u ''new'']) True)) \<le> 25
      \<and> (\<forall>j < k. int (length (join_parts_with_status (u ''... (truncated)'' @ [10]) ([10, 10] @ u ''ok'')
          (drop j [u ''an older paragraph'', u ''new'']) True)) > 25)
      \<longrightarrow> render_transcript plain_ctx 25 (Some (u ''ok'')) two_texts
          = join_parts_with_status (u ''... (truncated)'' @ [10]) ([10, 10] @ u ''ok'')
              (drop k [u ''an older paragraph'', u ''new'']) True"
    by (simp add: Let_def)
  from this [rule_format, of 1] show ?thesis
    by (simp add: join_parts_with_status_def)
qed

theorem streamed_message_shows_like_whole_witness:
  "render_transcript plain_ctx 100 None (run_raw plain_env
      (streamed_message 0 [TextBlock [u ''Hel'', u ''lo''], ToolBlock (u ''t1'') (u ''Read'') (JObj []) (JObj []) [u ''{}'']])
      (transcript_init False))
   = render_transcript plain_ctx 100 None (run_raw plain_env
      [whole_message [TextBlock [u ''Hel'', u ''lo''], ToolBlock (u ''t1'') (u ''Read'') (JObj []) (JObj []) [u ''{}'']]]
      (transcript_init False))"
  using streamed_message_shows_like_whole [of
      "[TextBlock [u ''Hel'', u ''lo''], ToolBlock (u ''t1'') (u ''Read'') (JObj []) (JObj []) [u ''{}'']]"
      plain_ctx 100 None plain_env 0 "[]" False]
  by (simp add: run_raw_def)

text \<open>A subagent whose call is streamed starts with an empty input, so its description, which
  arrives in later pieces, is never shown.\<close>

lemma streamed_subagent_loses_description:
  "map (\<lambda>a. sa_description (tb_store s ! a)) (tb_segments s) = [u ''Subagent'']
   \<and> map (\<lambda>a. sa_description (tb_store t ! a)) (tb_segments t) = [u ''find bugs'']"
  if "s = run_raw plain_env (streamed_message 0 [ToolBlock (u ''t1'') (u ''Task'') (JObj [])
        (obj [(''description'', JStr (u ''find bugs''))]) [u ''...'']]) (transcript_init False)"
    "t = run_raw plain_env [whole_message [ToolBlock (u ''t1'') (u ''Task'') (JObj [])
        (obj [(''description'', JStr (u ''find bugs''))]) [u ''...'']]] (transcript_init False)"
  unfolding that by code_simp

end
