(* ===== verification/Cli_Manager.thy ===== *)
theory Cli_Manager
  imports Prelude
begin

text \<open>
  The pool of command line sessions (\<open>cli/manager.py\<close>). Each operation runs under the manager's lock
  and so is one function of the tables. A \<open>CLISession\<close> object is its number in the order of
  creation; the objects that \<open>stop\<close> was called on are kept beside the tables. \<open>hex\<close> is the random
  part of a fresh id.
\<close>

record cli_manager =
  cm_sessions :: "(pystr, nat) dict"
  cm_pending_sessions :: "(pystr, nat) dict"
  cm_temp_to_real :: "(pystr, pystr) dict"
  cm_real_to_temp :: "(pystr, pystr) dict"
  cm_created :: nat
  cm_stopped :: "nat list"

definition manager_init :: cli_manager where
  "manager_init = \<lparr>cm_sessions = [], cm_pending_sessions = [], cm_temp_to_real = [],
     cm_real_to_temp = [], cm_created = 0, cm_stopped = []\<rparr>"

definition new_session :: "pystr \<Rightarrow> cli_manager \<Rightarrow> (nat \<times> pystr \<times> bool) \<times> cli_manager" where
  "new_session temp_id m =
     ((cm_created m, temp_id, True),
      m\<lparr>cm_pending_sessions := AList.update temp_id (cm_created m) (cm_pending_sessions m),
        cm_created := cm_created m + 1\<rparr>)"

definition get_or_create_session ::
  "pystr \<Rightarrow> pystr option \<Rightarrow> cli_manager \<Rightarrow> (nat \<times> pystr \<times> bool) \<times> cli_manager" where
  "get_or_create_session hex session_id m =
     (case session_id of
        Some sid \<Rightarrow>
          if sid \<noteq> []
          then (let lookup_id = get_or (cm_temp_to_real m) sid sid
                in case map_of (cm_sessions m) lookup_id of
                     Some session \<Rightarrow> ((session, lookup_id, False), m)
                   | None \<Rightarrow>
                       (case map_of (cm_pending_sessions m) lookup_id of
                          Some session \<Rightarrow> ((session, lookup_id, False), m)
                        | None \<Rightarrow> new_session sid m))
          else new_session (u ''pending_'' @ hex) m
      | None \<Rightarrow> new_session (u ''pending_'' @ hex) m)"

definition register_real_session_id :: "pystr \<Rightarrow> pystr \<Rightarrow> cli_manager \<Rightarrow> bool \<times> cli_manager" where
  "register_real_session_id temp_id real_session_id m =
     (case map_of (cm_pending_sessions m) temp_id of
        None \<Rightarrow> (False, m)
      | Some session \<Rightarrow>
          (True, m\<lparr>cm_pending_sessions := AList.delete temp_id (cm_pending_sessions m),
                   cm_sessions := AList.update real_session_id session (cm_sessions m),
                   cm_temp_to_real := AList.update temp_id real_session_id (cm_temp_to_real m),
                   cm_real_to_temp := AList.update real_session_id temp_id (cm_real_to_temp m)\<rparr>))"

definition remove_session :: "pystr \<Rightarrow> cli_manager \<Rightarrow> bool \<times> cli_manager" where
  "remove_session session_id m =
     (case map_of (cm_pending_sessions m) session_id of
        Some session \<Rightarrow>
          (True, m\<lparr>cm_pending_sessions := AList.delete session_id (cm_pending_sessions m),
                   cm_stopped := cm_stopped m @ [session]\<rparr>)
      | None \<Rightarrow>
          (case map_of (cm_sessions m) session_id of
             Some session \<Rightarrow>
               (True, m\<lparr>cm_sessions := AList.delete session_id (cm_sessions m),
                        cm_stopped := cm_stopped m @ [session],
                        cm_real_to_temp := AList.delete session_id (cm_real_to_temp m),
                        cm_temp_to_real := (case map_of (cm_real_to_temp m) session_id of
                            None \<Rightarrow> cm_temp_to_real m
                          | Some temp_id \<Rightarrow> AList.delete temp_id (cm_temp_to_real m))\<rparr>)
           | None \<Rightarrow> (False, m)))"

definition stop_all :: "cli_manager \<Rightarrow> cli_manager" where
  "stop_all m =
     m\<lparr>cm_stopped := cm_stopped m @ map snd (cm_sessions m) @ map snd (cm_pending_sessions m),
       cm_sessions := [], cm_pending_sessions := [], cm_temp_to_real := [], cm_real_to_temp := []\<rparr>"

definition get_stats :: "(nat \<Rightarrow> bool) \<Rightarrow> cli_manager \<Rightarrow> nat \<times> nat \<times> nat" where
  "get_stats busy m =
     (length (cm_sessions m), length (cm_pending_sessions m),
      length (filter busy (map snd (cm_sessions m))))"

section \<open>The operations as steps\<close>

datatype manager_op =
    GetOrCreate pystr "pystr option"
  | Register pystr pystr
  | Remove pystr
  | StopAll

fun manager_step :: "manager_op \<Rightarrow> cli_manager \<Rightarrow> cli_manager" where
  "manager_step (GetOrCreate hex sid) m = snd (get_or_create_session hex sid m)"
| "manager_step (Register temp_id real_id) m = snd (register_real_session_id temp_id real_id m)"
| "manager_step (Remove sid) m = snd (remove_session sid m)"
| "manager_step StopAll m = stop_all m"

definition run_manager :: "manager_op list \<Rightarrow> cli_manager" where
  "run_manager ops = fold manager_step ops manager_init"

text \<open>The objects that are in a table.\<close>

definition live :: "cli_manager \<Rightarrow> nat set" where
  "live m = snd ` set (cm_sessions m) \<union> snd ` set (cm_pending_sessions m)"

text \<open>A step that puts an object under an id another live object is known by. The manager then
  forgets that object without stopping it.\<close>

fun overwrites :: "manager_op \<Rightarrow> cli_manager \<Rightarrow> bool" where
  "overwrites (GetOrCreate hex sid) m =
     (case fst (get_or_create_session hex sid m) of
        (session, temp_id, is_new) \<Rightarrow>
          is_new \<and> (has_key (cm_pending_sessions m) temp_id \<or> has_key (cm_temp_to_real m) temp_id))"
| "overwrites (Register temp_id real_id) m =
     (has_key (cm_pending_sessions m) temp_id \<and> has_key (cm_sessions m) real_id)"
| "overwrites _ m = False"

fun careful :: "manager_op list \<Rightarrow> cli_manager \<Rightarrow> bool" where
  "careful [] m = True"
| "careful (oper # ops) m = (\<not> overwrites oper m \<and> careful ops (manager_step oper m))"

section \<open>No session is forgotten\<close>

text \<open>Maps that are inverse to each other.\<close>

definition inverse_maps :: "('a \<rightharpoonup> 'b) \<Rightarrow> ('b \<rightharpoonup> 'a) \<Rightarrow> bool" where
  "inverse_maps f g = (\<forall>t r. f t = Some r \<longleftrightarrow> g r = Some t)"

lemma inverse_update:
  assumes "inverse_maps f g" "f t = None" "g r = None"
  shows "inverse_maps (f(t \<mapsto> r)) (g(r \<mapsto> t))"
  unfolding inverse_maps_def
proof (intro allI)
  fix t' r'
  show "(f(t \<mapsto> r)) t' = Some r' \<longleftrightarrow> (g(r \<mapsto> t)) r' = Some t'"
    using assms(2,3) assms(1) [unfolded inverse_maps_def, rule_format, of t r']
      assms(1) [unfolded inverse_maps_def, rule_format, of t' r]
      assms(1) [unfolded inverse_maps_def, rule_format, of t' r']
    by auto
qed

lemma inverse_delete:
  assumes "inverse_maps f g" "g r = Some t"
  shows "inverse_maps (f(t := None)) (g(r := None))"
  unfolding inverse_maps_def
proof (intro allI)
  fix t' r'
  have "f t = Some r" using assms unfolding inverse_maps_def by blast
  then show "(f(t := None)) t' = Some r' \<longleftrightarrow> (g(r := None)) r' = Some t'"
    using assms(2) assms(1) [unfolded inverse_maps_def, rule_format, of t r']
      assms(1) [unfolded inverse_maps_def, rule_format, of t' r]
      assms(1) [unfolded inverse_maps_def, rule_format, of t' r']
    by auto
qed

definition manager_ok :: "cli_manager \<Rightarrow> bool" where
  "manager_ok m =
     (distinct (map fst (cm_sessions m)) \<and> distinct (map fst (cm_pending_sessions m))
      \<and> distinct (map snd (cm_sessions m) @ map snd (cm_pending_sessions m) @ cm_stopped m)
      \<and> live m \<union> set (cm_stopped m) = {..<cm_created m}
      \<and> inverse_maps (map_of (cm_temp_to_real m)) (map_of (cm_real_to_temp m))
      \<and> (\<forall>r. has_key (cm_real_to_temp m) r \<longleftrightarrow> has_key (cm_sessions m) r)
      \<and> (\<forall>t. has_key (cm_pending_sessions m) t \<longrightarrow> \<not> has_key (cm_temp_to_real m) t))"

lemma manager_init_ok: "manager_ok manager_init"
  by (simp add: manager_ok_def manager_init_def live_def has_key_def inverse_maps_def)

lemma update_fresh: "\<not> has_key d k \<Longrightarrow> AList.update k v d = d @ [(k, v)]"
  by (induction d) (auto simp: has_key_def split: if_splits)

lemma delete_split:
  assumes "distinct (map fst d)" "map_of d k = Some v"
  obtains xs ys where "d = xs @ (k, v) # ys" "AList.delete k d = xs @ ys"
proof -
  obtain xs ys where d: "d = xs @ (k, v) # ys"
    using map_of_SomeD [OF assms(2)] by (meson split_list)
  have "k \<notin> fst ` set xs" "k \<notin> fst ` set ys" using assms(1) unfolding d by auto
  then have "filter (\<lambda>(k', _). k \<noteq> k') xs = xs" "filter (\<lambda>(k', _). k \<noteq> k') ys = ys"
    by (force simp: filter_id_conv)+
  then have "AList.delete k d = xs @ ys" unfolding d AList.delete_eq by simp
  with d that show ?thesis by blast
qed

lemma new_session_ok:
  assumes ok: "manager_ok m" and fresh: "\<not> has_key (cm_pending_sessions m) t" "\<not> has_key (cm_temp_to_real m) t"
  shows "manager_ok (snd (new_session t m))"
proof -
  have "fst ` set (cm_pending_sessions m @ [(t, c)]) = insert t (fst ` set (cm_pending_sessions m))" for c
    by auto
  with ok fresh show ?thesis
    by (auto simp: manager_ok_def new_session_def update_fresh live_def has_key_iff lessThan_Suc)
qed

lemma get_or_create_ok:
  assumes "manager_ok m" "\<not> overwrites (GetOrCreate hex sid) m"
  shows "manager_ok (snd (get_or_create_session hex sid m))"
proof (cases "snd (snd (fst (get_or_create_session hex sid m)))")
  case True
  then obtain t where t: "get_or_create_session hex sid m = new_session t m"
    by (auto simp: get_or_create_session_def Let_def split: option.splits if_splits)
  with assms(2) have "\<not> has_key (cm_pending_sessions m) t" "\<not> has_key (cm_temp_to_real m) t"
    by (simp_all add: new_session_def)
  with assms(1) show ?thesis unfolding t by (rule new_session_ok)
next
  case False
  then have "snd (get_or_create_session hex sid m) = m"
    by (auto simp: get_or_create_session_def new_session_def Let_def split: option.splits if_splits)
  with assms(1) show ?thesis by simp
qed

lemma register_ok:
  assumes ok: "manager_ok m" and fresh: "\<not> overwrites (Register t r) m"
  shows "manager_ok (snd (register_real_session_id t r m))"
proof (cases "map_of (cm_pending_sessions m) t")
  case None
  with ok show ?thesis by (simp add: register_real_session_id_def)
next
  case (Some session)
  then have pending: "has_key (cm_pending_sessions m) t" by (simp add: has_key_def)
  with fresh have new: "\<not> has_key (cm_sessions m) r" by simp
  have "distinct (map fst (cm_pending_sessions m))" using ok by (simp add: manager_ok_def)
  from delete_split [OF this Some] obtain xs ys where
    d: "cm_pending_sessions m = xs @ (t, session) # ys" "AList.delete t (cm_pending_sessions m) = xs @ ys"
    by blast
  have "\<not> has_key (cm_temp_to_real m) t" "\<not> has_key (cm_real_to_temp m) r"
    using ok pending new by (simp_all add: manager_ok_def)
  then have no_map: "map_of (cm_temp_to_real m) t = None" "map_of (cm_real_to_temp m) r = None"
    by (simp_all add: has_key_def)
  have maps: "inverse_maps (map_of (AList.update t r (cm_temp_to_real m)))
      (map_of (AList.update r t (cm_real_to_temp m)))"
    using ok no_map by (simp add: manager_ok_def inverse_update)
  have keys: "\<forall>x. has_key (AList.update r t (cm_real_to_temp m)) x
      \<longleftrightarrow> has_key (AList.update r session (cm_sessions m)) x"
    "\<forall>x. has_key (AList.delete t (cm_pending_sessions m)) x \<longrightarrow> \<not> has_key (AList.update t r (cm_temp_to_real m)) x"
    using ok by (auto simp: manager_ok_def)
  have lists: "distinct (map fst (AList.update r session (cm_sessions m)))"
    "distinct (map fst (AList.delete t (cm_pending_sessions m)))"
    "distinct (map snd (AList.update r session (cm_sessions m))
       @ map snd (AList.delete t (cm_pending_sessions m)) @ cm_stopped m)"
    "snd ` set (AList.update r session (cm_sessions m)) \<union> snd ` set (AList.delete t (cm_pending_sessions m))
       = live m"
  proof -
    have old: "distinct (map fst (cm_sessions m))" "distinct (map fst (xs @ (t, session) # ys))"
      "distinct (map snd (cm_sessions m) @ map snd (xs @ (t, session) # ys) @ cm_stopped m)"
      "r \<notin> fst ` set (cm_sessions m)"
      using ok new unfolding manager_ok_def d(1) has_key_iff by blast+
    show "distinct (map fst (AList.update r session (cm_sessions m)))"
      using old(1,4) by (simp add: update_fresh [OF new])
    show "distinct (map fst (AList.delete t (cm_pending_sessions m)))"
      using old(2) by (simp add: d(2))
    show "distinct (map snd (AList.update r session (cm_sessions m))
       @ map snd (AList.delete t (cm_pending_sessions m)) @ cm_stopped m)"
      using old(3) by (auto simp: d(2) update_fresh [OF new])
    show "snd ` set (AList.update r session (cm_sessions m)) \<union> snd ` set (AList.delete t (cm_pending_sessions m))
       = live m"
      unfolding live_def d(2) update_fresh [OF new] unfolding d(1) by auto
  qed
  have all: "live m \<union> set (cm_stopped m) = {..<cm_created m}" using ok by (simp add: manager_ok_def)
  show ?thesis
    using maps keys lists all Some by (simp add: manager_ok_def register_real_session_id_def live_def)
qed

lemma remove_ok:
  assumes ok: "manager_ok m"
  shows "manager_ok (snd (remove_session i m))"
proof (cases "map_of (cm_pending_sessions m) i")
  case (Some session)
  have "distinct (map fst (cm_pending_sessions m))" using ok by (simp add: manager_ok_def)
  from delete_split [OF this Some] obtain xs ys where
    d: "cm_pending_sessions m = xs @ (i, session) # ys" "AList.delete i (cm_pending_sessions m) = xs @ ys"
    by blast
  have "distinct (map fst (xs @ ys))"
    "distinct (map snd (cm_sessions m) @ map snd (xs @ ys) @ cm_stopped m @ [session])"
    "snd ` set (cm_sessions m) \<union> snd ` set (xs @ ys) \<union> set (cm_stopped m @ [session]) = {..<cm_created m}"
    using ok unfolding manager_ok_def live_def d(1) by auto
  moreover have "\<forall>x. has_key (AList.delete i (cm_pending_sessions m)) x \<longrightarrow> \<not> has_key (cm_temp_to_real m) x"
    using ok by (simp add: manager_ok_def)
  ultimately show ?thesis
    using ok Some by (simp add: manager_ok_def remove_session_def live_def d(2))
next
  case not_pending: None
  show ?thesis
  proof (cases "map_of (cm_sessions m) i")
    case None
    with not_pending ok show ?thesis by (simp add: remove_session_def)
  next
    case (Some session)
    have "distinct (map fst (cm_sessions m))" using ok by (simp add: manager_ok_def)
    from delete_split [OF this Some] obtain xs ys where
      d: "cm_sessions m = xs @ (i, session) # ys" "AList.delete i (cm_sessions m) = xs @ ys"
      by blast
    have "has_key (cm_real_to_temp m) i" using ok Some by (simp add: manager_ok_def has_key_def)
    then obtain t where t: "map_of (cm_real_to_temp m) i = Some t" by (auto simp: has_key_def)
    have lists: "distinct (map fst (xs @ ys))"
      "distinct (map snd (xs @ ys) @ map snd (cm_pending_sessions m) @ cm_stopped m @ [session])"
      "snd ` set (xs @ ys) \<union> snd ` set (cm_pending_sessions m) \<union> set (cm_stopped m @ [session]) = {..<cm_created m}"
      using ok unfolding manager_ok_def live_def d(1) by auto
    have maps: "inverse_maps (map_of (AList.delete t (cm_temp_to_real m)))
        (map_of (AList.delete i (cm_real_to_temp m)))"
      using ok t by (simp add: manager_ok_def inverse_delete)
    have keys: "\<forall>r. has_key (AList.delete i (cm_real_to_temp m)) r \<longleftrightarrow> has_key (AList.delete i (cm_sessions m)) r"
      "\<forall>x. has_key (cm_pending_sessions m) x \<longrightarrow> \<not> has_key (AList.delete t (cm_temp_to_real m)) x"
      using ok by (simp_all add: manager_ok_def)
    show ?thesis
      using lists maps keys ok Some not_pending t unfolding d(2) [symmetric]
      by (simp add: manager_ok_def remove_session_def live_def)
  qed
qed

lemma stop_all_ok: "manager_ok m \<Longrightarrow> manager_ok (stop_all m)"
  by (auto simp: manager_ok_def stop_all_def live_def has_key_def inverse_maps_def)

lemma manager_step_ok: "manager_ok m \<Longrightarrow> \<not> overwrites oper m \<Longrightarrow> manager_ok (manager_step oper m)"
  by (cases oper) (simp_all only: manager_step.simps get_or_create_ok register_ok remove_ok stop_all_ok
      not_False_eq_True)

text \<open>Claim C30: whatever is asked of the pool, as long as no id is used for two live sessions, every
  session ever created is either live, in exactly one table, or was stopped, exactly once; and the
  maps between temporary and real ids are inverse to each other and cover the live sessions.\<close>

theorem no_session_is_forgotten:
  assumes "careful ops manager_init"
  shows "let m = run_manager ops in
    distinct (map snd (cm_sessions m) @ map snd (cm_pending_sessions m) @ cm_stopped m)
    \<and> snd ` set (cm_sessions m) \<union> snd ` set (cm_pending_sessions m) \<union> set (cm_stopped m) = {..<cm_created m}
    \<and> (\<forall>t r. map_of (cm_temp_to_real m) t = Some r \<longleftrightarrow> map_of (cm_real_to_temp m) r = Some t)
    \<and> (\<forall>r. has_key (cm_real_to_temp m) r \<longleftrightarrow> has_key (cm_sessions m) r)"
proof -
  have "manager_ok (fold manager_step ops m)" if "careful ops m" "manager_ok m" for m
    using that by (induction ops arbitrary: m) (simp_all add: manager_step_ok)
  from this [OF assms manager_init_ok] show ?thesis
    by (simp add: run_manager_def manager_ok_def live_def inverse_maps_def Let_def)
qed

theorem no_session_is_forgotten_witness:
  "set (cm_stopped (run_manager [GetOrCreate (u ''a'') None, GetOrCreate (u ''b'') (Some (u ''old'')),
      Register (u ''pending_a'') (u ''real''), Remove (u ''real'')])) = {0}
   \<and> distinct (map snd (cm_sessions (run_manager [GetOrCreate (u ''a'') None, GetOrCreate (u ''b'') (Some (u ''old'')),
      Register (u ''pending_a'') (u ''real''), Remove (u ''real'')])))"
proof -
  have "careful [GetOrCreate (u ''a'') None, GetOrCreate (u ''b'') (Some (u ''old'')),
      Register (u ''pending_a'') (u ''real''), Remove (u ''real'')] manager_init"
    by code_simp
  moreover have "cm_stopped (run_manager [GetOrCreate (u ''a'') None, GetOrCreate (u ''b'') (Some (u ''old'')),
      Register (u ''pending_a'') (u ''real''), Remove (u ''real'')]) = [0]"
    by code_simp
  ultimately show ?thesis
    using no_session_is_forgotten [of "[GetOrCreate (u ''a'') None, GetOrCreate (u ''b'') (Some (u ''old'')),
      Register (u ''pending_a'') (u ''real''), Remove (u ''real'')]"]
    by (auto simp: Let_def)
qed

text \<open>A real id that is already live is overwritten: the older session is forgotten and never
  stopped, and its temporary id leads to the newer one.\<close>

lemma reused_real_id_forgets_session:
  "let m = run_manager [GetOrCreate (u ''a'') None, Register (u ''pending_a'') (u ''real''),
      GetOrCreate (u ''b'') None, Register (u ''pending_b'') (u ''real''), StopAll]
   in cm_created m = 2 \<and> cm_stopped m = [1]"
  by code_simp

end
