(* ===== verification/Cli_Session.thy ===== *)
theory Cli_Session
  imports Json
begin

text \<open>
  One run of the Claude Code command line (\<open>cli/session.py\<close>): the command and environment, the
  output that arrives in chunks of bytes and leaves as events, and how the run ends. Arguments of
  the model: \<open>decode\<close> (UTF-8 with replacement), \<open>loads\<close> (\<open>json.loads\<close>, \<open>None\<close> when the text is not
  JSON), \<open>dumps\<close>, \<open>normpath\<close> and \<open>abspath\<close> of the operating system. The process is what it writes,
  its exit code and whether it could be started.
\<close>

type_synonym byte = int

record cli_env =
  ce_decode :: "byte list \<Rightarrow> pystr"
  ce_loads :: "pystr \<Rightarrow> json option"

section \<open>Command and environment\<close>

record cli_config =
  cc_workspace_path :: pystr
  cc_api_url :: pystr
  cc_allowed_dirs :: "pystr list"
  cc_plans_directory :: "pystr option"
  cc_claude_bin :: pystr

definition make_cli_config :: "(pystr \<Rightarrow> pystr) \<Rightarrow> (pystr \<Rightarrow> pystr) \<Rightarrow> pystr \<Rightarrow> pystr \<Rightarrow> pystr list option
    \<Rightarrow> pystr option \<Rightarrow> pystr \<Rightarrow> cli_config" where
  "make_cli_config normpath abspath workspace_path api_url allowed_dirs plans_directory claude_bin =
     \<lparr>cc_workspace_path = normpath (abspath workspace_path), cc_api_url = api_url,
      cc_allowed_dirs = map normpath (case allowed_dirs of None \<Rightarrow> [] | Some ds \<Rightarrow> ds),
      cc_plans_directory = plans_directory, cc_claude_bin = claude_bin\<rparr>"

definition cli_environ :: "cli_config \<Rightarrow> (pystr, pystr) dict \<Rightarrow> (pystr, pystr) dict" where
  "cli_environ c environ =
     (let env1 = (if has_key environ (u ''ANTHROPIC_API_KEY'') then environ
                  else AList.update (u ''ANTHROPIC_API_KEY'') (u ''sk-placeholder-key-for-proxy'') environ);
          env2 = AList.update (u ''ANTHROPIC_API_URL'') (cc_api_url c) env1;
          url = cc_api_url c;
          env3 = AList.update (u ''ANTHROPIC_BASE_URL'')
            (if endswith url (u ''/v1'') then take (length url - 3) url else url) env2
      in AList.update (u ''PYTHONIOENCODING'') (u ''utf-8'') (AList.update (u ''TERM'') (u ''dumb'') env3))"

definition cli_command ::
  "(json \<Rightarrow> pystr) \<Rightarrow> cli_config \<Rightarrow> pystr \<Rightarrow> pystr option \<Rightarrow> bool \<Rightarrow> pystr list" where
  "cli_command dumps c prompt session_id fork_session =
     (let run = [u ''-p'', prompt, u ''--output-format'', u ''stream-json'',
                 u ''--dangerously-skip-permissions'', u ''--verbose''];
          sid = (case session_id of None \<Rightarrow> [] | Some s \<Rightarrow> s);
          cmd = (if sid \<noteq> [] \<and> \<not> startswith sid (u ''pending_'')
                 then [cc_claude_bin c, u ''--resume'', sid]
                      @ (if fork_session then [u ''--fork-session''] else []) @ run
                 else cc_claude_bin c # run);
          dirs = concat (map (\<lambda>d. [u ''--add-dir'', d]) (cc_allowed_dirs c));
          plans = (case cc_plans_directory c of
              None \<Rightarrow> []
            | Some d \<Rightarrow> [u ''--settings'', dumps (JObj [(u ''plansDirectory'', JStr d)])])
      in cmd @ dirs @ plans)"

section \<open>Standard error\<close>

text \<open>The loop of \<open>_drain_stderr_bounded\<close> over the chunks that are read until the end of the file.\<close>

fun drain_stderr :: "nat \<Rightarrow> nat \<Rightarrow> byte list list \<Rightarrow> byte list" where
  "drain_stderr max_bytes received [] = []"
| "drain_stderr max_bytes received (chunk # chunks) =
     (if received < max_bytes
      then (let n = min (length chunk) (max_bytes - received)
            in take n chunk @ drain_stderr max_bytes (received + n) chunks)
      else drain_stderr max_bytes received chunks)"

definition max_stderr_capture_bytes :: nat where
  "max_stderr_capture_bytes = 256 * 1024"

section \<open>Lines\<close>

text \<open>The id an event carries: the value of the first of the known keys that is there, whatever it
  is; \<open>JNull\<close> when there is none.\<close>

fun nested_session_id :: "(pystr \<times> json) list \<Rightarrow> string list \<Rightarrow> json option" where
  "nested_session_id event [] = None"
| "nested_session_id event (key # keys) =
     (case dget event key of
        JObj nested \<Rightarrow>
          if has_field nested ''session_id'' then Some (dget nested ''session_id'')
          else if has_field nested ''sessionId'' then Some (dget nested ''sessionId'')
          else nested_session_id event keys
      | _ \<Rightarrow> nested_session_id event keys)"

definition extract_session_id :: "json \<Rightarrow> json" where
  "extract_session_id event_value =
     (case event_value of
        JObj event \<Rightarrow>
          if has_field event ''session_id'' then dget event ''session_id''
          else if has_field event ''sessionId'' then dget event ''sessionId''
          else (case nested_session_id event [''init'', ''system'', ''result'', ''metadata''] of
                  Some v \<Rightarrow> v
                | None \<Rightarrow>
                    (case dget event ''conversation'' of
                       JObj conv \<Rightarrow> if has_field conv ''id'' then dget conv ''id'' else JNull
                     | _ \<Rightarrow> JNull))
      | _ \<Rightarrow> JNull)"

definition session_info :: "json \<Rightarrow> json" where
  "session_info extracted_id =
     JObj [(u ''type'', JStr (u ''session_info'')), (u ''session_id'', extracted_id)]"

definition handle_line :: "cli_env \<Rightarrow> pystr \<Rightarrow> bool \<Rightarrow> json list" where
  "handle_line env line_str session_id_extracted =
     (case ce_loads env line_str of
        None \<Rightarrow> [JObj [(u ''type'', JStr (u ''raw'')), (u ''content'', JStr line_str)]]
      | Some event \<Rightarrow>
          (if \<not> session_id_extracted \<and> truthy (extract_session_id event)
           then [session_info (extract_session_id event)] else []) @ [event])"

text \<open>What a piece of the output yields: events, whether the id has been seen, and whether
  \<open>event.get\<close> raised because an event is not an object.\<close>

type_synonym scan = "json list \<times> bool \<times> bool"

fun yield_events :: "json list \<Rightarrow> bool \<Rightarrow> scan" where
  "yield_events [] extracted = ([], extracted, False)"
| "yield_events (JObj d # es) extracted =
     (case yield_events es (extracted \<or> is_text (dget d ''type'') ''session_info'') of
        (out, ex, raised) \<Rightarrow> (JObj d # out, ex, raised))"
| "yield_events (_ # es) extracted = ([], extracted, True)"

definition process_line :: "cli_env \<Rightarrow> byte list \<Rightarrow> bool \<Rightarrow> scan" where
  "process_line env line extracted =
     (let line_str = strip (ce_decode env line)
      in if line_str = [] then ([], extracted, False)
         else yield_events (handle_line env line_str extracted) extracted)"

section \<open>The buffer\<close>

lemma find_char_less: "find_sub [c] s = Some n \<Longrightarrow> length s - Suc n < length s"
  by (cases s) auto

text \<open>The inner loop: the lines that are complete are taken from the front of the buffer. The
  remaining buffer is \<open>None\<close> when the loop raised.\<close>

function take_lines :: "cli_env \<Rightarrow> byte list \<Rightarrow> bool \<Rightarrow> json list \<times> bool \<times> byte list option" where
  "take_lines env buffer extracted =
     (case find_sub [10] buffer of
        None \<Rightarrow> ([], extracted, Some buffer)
      | Some newline_pos \<Rightarrow>
          (case process_line env (take newline_pos buffer) extracted of
             (events, extracted', raised) \<Rightarrow>
               if raised then (events, extracted', None)
               else (case take_lines env (drop (newline_pos + 1) buffer) extracted' of
                       (later, extracted'', rest) \<Rightarrow> (events @ later, extracted'', rest))))"
  by pat_completeness auto
termination
  by (relation "measure (\<lambda>(env, buffer, extracted). length buffer)") (auto dest: find_char_less)

declare take_lines.simps [simp del]

text \<open>The outer loop over the chunks until the end of the file, where the last line may lack its
  newline.\<close>

fun read_stdout :: "cli_env \<Rightarrow> byte list list \<Rightarrow> byte list \<Rightarrow> bool \<Rightarrow> scan" where
  "read_stdout env [] buffer extracted =
     (if buffer \<noteq> [] then process_line env buffer extracted else ([], extracted, False))"
| "read_stdout env (chunk # chunks) buffer extracted =
     (case take_lines env (buffer @ chunk) extracted of
        (events, extracted', None) \<Rightarrow> (events, extracted', True)
      | (events, extracted', Some rest) \<Rightarrow>
          (case read_stdout env chunks rest extracted' of
             (later, extracted'', raised) \<Rightarrow> (events @ later, extracted'', raised)))"

section \<open>A run\<close>

text \<open>A process as the session sees it, and how a run ends.\<close>

datatype cli_process =
    NotStarted
  | NoPipes
  | Process (out_chunks: "byte list list") (err_chunks: "byte list list option") (exit_code: int)

datatype run_end = RunDone | RunRaised

definition exit_event :: "int \<Rightarrow> pystr option \<Rightarrow> json" where
  "exit_event return_code stderr_text =
     JObj [(u ''type'', JStr (u ''exit'')), (u ''code'', JInt return_code),
           (u ''stderr'', (case stderr_text of None \<Rightarrow> JNull | Some s \<Rightarrow> JStr s))]"

definition stderr_events :: "pystr option \<Rightarrow> json list" where
  "stderr_events stderr_text =
     (case stderr_text of
        Some s \<Rightarrow>
          if s \<noteq> []
          then [JObj [(u ''type'', JStr (u ''error'')), (u ''error'', JObj [(u ''message'', JStr s)])]]
          else []
      | None \<Rightarrow> [])"

definition start_task :: "cli_env \<Rightarrow> cli_process \<Rightarrow> json list \<times> run_end" where
  "start_task env proc =
     (case proc of
        NotStarted \<Rightarrow> ([], RunRaised)
      | NoPipes \<Rightarrow> ([JObj [(u ''type'', JStr (u ''exit'')), (u ''code'', JInt 1)]], RunDone)
      | Process out err return_code \<Rightarrow>
          (case read_stdout env out [] False of
             (events, extracted, raised) \<Rightarrow>
               if raised then (events, RunRaised)
               else
                 (let stderr_bytes = (case err of
                        None \<Rightarrow> [] | Some chunks \<Rightarrow> drain_stderr max_stderr_capture_bytes 0 chunks);
                      stderr_text = (if stderr_bytes \<noteq> [] then Some (strip (ce_decode env stderr_bytes))
                                     else None)
                  in (events @ stderr_events stderr_text @ [exit_event return_code stderr_text], RunDone))))"


section \<open>Chunks do not matter\<close>

text \<open>The reference: the whole output is cut at its newlines and the lines are processed in turn.\<close>

function output_lines :: "byte list \<Rightarrow> byte list list" where
  "output_lines bs =
     (if 10 \<in> set bs then takeWhile (\<lambda>b. b \<noteq> 10) bs # output_lines (tl (dropWhile (\<lambda>b. b \<noteq> 10) bs))
      else if bs = [] then [] else [bs])"
  by pat_completeness auto
termination
proof (relation "measure length", goal_cases)
  case 1
  show ?case by simp
next
  case (2 bs)
  then have "dropWhile (\<lambda>b. b \<noteq> 10) bs \<noteq> []" by auto
  then show ?case using length_dropWhile_le [of "\<lambda>b. b \<noteq> 10" bs]
    by (cases "dropWhile (\<lambda>b. b \<noteq> 10) bs") auto
qed

declare output_lines.simps [simp del]

fun scan_lines :: "cli_env \<Rightarrow> byte list list \<Rightarrow> bool \<Rightarrow> scan" where
  "scan_lines env [] extracted = ([], extracted, False)"
| "scan_lines env (line # lines) extracted =
     (case process_line env line extracted of
        (events, extracted', raised) \<Rightarrow>
          if raised then (events, extracted', True)
          else (case scan_lines env lines extracted' of
                  (later, extracted'', raised') \<Rightarrow> (events @ later, extracted'', raised')))"

lemma output_lines_newline:
  assumes "10 \<notin> set line"
  shows "output_lines (line @ 10 # rest) = line # output_lines rest"
proof -
  have "dropWhile (\<lambda>b. b \<noteq> 10) line = []" using assms by (auto simp: dropWhile_eq_Nil_conv)
  with assms show ?thesis
    by (subst output_lines.simps) (simp add: takeWhile_neq_append dropWhile_append)
qed

lemma output_lines_last: "10 \<notin> set line \<Longrightarrow> output_lines line = (if line = [] then [] else [line])"
  by (subst output_lines.simps) simp

lemma find_newline:
  assumes "find_sub [10] s = Some n"
  shows "s = take n s @ 10 # drop (n + 1) s" "(10::int) \<notin> set (take n s)"
proof -
  have p: "prefix [10] (drop n s)" "n \<le> length s" using find_sub_Some_prefix [OF assms] by auto
  then have "drop n s = 10 # drop (n + 1) s"
    by (cases "drop n s") (auto simp: drop_Suc drop_tl)
  then show "s = take n s @ 10 # drop (n + 1) s" by (metis append_take_drop_id)
  show "10 \<notin> set (take n s)"
  proof
    assume "10 \<in> set (take n s)"
    then obtain i where i: "i < n" "i < length s" "s ! i = 10" by (auto simp: in_set_conv_nth)
    then have "prefix [10] (drop i s)" by (metis Cons_nth_drop_Suc prefix_Cons prefix_bot.bot_least)
    with find_sub_Some_least [OF assms i(1)] show False by simp
  qed
qed

lemma take_lines_scan:
  "take_lines env buffer extracted = (events, extracted', rest) \<Longrightarrow>
   (case rest of
      None \<Rightarrow> scan_lines env (output_lines (buffer @ more_bytes)) extracted = (events, extracted', True)
    | Some r \<Rightarrow> 10 \<notin> set r
        \<and> scan_lines env (output_lines (buffer @ more_bytes)) extracted
            = (case scan_lines env (output_lines (r @ more_bytes)) extracted' of
                 (later, ex, raised) \<Rightarrow> (events @ later, ex, raised)))"
proof (induction env buffer extracted arbitrary: events extracted' rest rule: take_lines.induct)
  case (1 env buffer extracted)
  show ?case
  proof (cases "find_sub [10] buffer")
    case None
    then have "10 \<notin> set buffer" by (simp add: find_sub_char_None)
    moreover have "events = []" "extracted' = extracted" "rest = Some buffer"
      using 1(2) None by (simp_all add: take_lines.simps [of env buffer])
    ultimately show ?thesis by (simp split: prod.split)
  next
    case (Some n)
    have buf: "output_lines (buffer @ more_bytes)
        = take n buffer # output_lines (drop (n + 1) buffer @ more_bytes)"
      using find_newline [OF Some] output_lines_newline [of "take n buffer" "drop (n + 1) buffer @ more_bytes"]
      by (metis append.assoc append_Cons)
    obtain ev ex raised where line: "process_line env (take n buffer) extracted = (ev, ex, raised)"
      by (metis prod_cases3)
    show ?thesis
    proof (cases raised)
      case True
      with 1(2) Some line show ?thesis by (simp add: take_lines.simps [of env buffer] buf)
    next
      case False
      obtain ev2 ex2 rest2 where later: "take_lines env (drop (n + 1) buffer) ex = (ev2, ex2, rest2)"
        by (metis prod_cases3)
      have res: "events = ev @ ev2" "extracted' = ex2" "rest = rest2"
        using 1(2) Some line False later by (simp_all add: take_lines.simps [of env buffer])
      note IH = 1(1) [OF Some line [symmetric] refl False later]
      show ?thesis
        using IH line False unfolding buf res by (auto split: option.splits prod.splits)
    qed
  qed
qed

lemma read_stdout_scan:
  "10 \<notin> set buffer \<Longrightarrow>
   read_stdout env chunks buffer extracted = scan_lines env (output_lines (buffer @ concat chunks)) extracted"
proof (induction env chunks buffer extracted rule: read_stdout.induct)
  case (1 env buffer extracted)
  then show ?case by (auto simp: output_lines_last split: prod.split)
next
  case (2 env chunk chunks buffer extracted)
  obtain ev ex rest where t: "take_lines env (buffer @ chunk) extracted = (ev, ex, rest)"
    by (metis prod_cases3)
  note scan = take_lines_scan [OF t, of "concat chunks"]
  show ?case
  proof (cases rest)
    case None
    with scan t show ?thesis by simp
  next
    case (Some r)
    with 2(1) [OF t [symmetric] refl Some] scan t show ?thesis by (auto split: prod.splits)
  qed
qed

text \<open>Claim C29: a run's events depend only on what the process writes, not on the chunks it arrives
  in: they are those of the output's lines, one after the other, and a well-behaved run ends with the
  captured error text and the exit event.\<close>

theorem run_refines_lines:
  "start_task env (Process out err return_code) =
     (case scan_lines env (output_lines (concat out)) False of
        (events, extracted, raised) \<Rightarrow>
          if raised then (events, RunRaised)
          else
            (let stderr_bytes = take max_stderr_capture_bytes (concat (case err of None \<Rightarrow> [] | Some cs \<Rightarrow> cs));
                 stderr_text = (if stderr_bytes \<noteq> [] then Some (strip (ce_decode env stderr_bytes)) else None)
             in (events @ stderr_events stderr_text @ [exit_event return_code stderr_text], RunDone)))"
proof -
  have drain: "drain_stderr m received chunks = take (m - received) (concat chunks)" for m received chunks
    by (induction m received chunks rule: drain_stderr.induct) (auto simp: Let_def min_def)
  show ?thesis
    by (cases err) (simp_all add: start_task_def read_stdout_scan drain cong: if_cong split: prod.split)
qed


text \<open>A line of JSON that is not an object, such as a bare list, makes the session itself raise before
  the event is yielded: the rest of the output and the exit event are lost. The handler's own test
  for events that are not dictionaries is never reached.\<close>

definition list_line_env :: cli_env where
  "list_line_env = \<lparr>ce_decode = id, ce_loads = (\<lambda>s. if s = u ''[]'' then Some (JList []) else Some (JObj []))\<rparr>"

lemma non_object_line_aborts_run:
  "start_task list_line_env (Process [u ''{}'' @ [10] @ u ''[]'' @ [10] @ u ''{}''] None 0)
     = ([JObj []], RunRaised)"
  by code_simp

end
