(* ===== verification/Session_Store.thy ===== *)
theory Session_Store
  imports Json
begin

text \<open>
  The session store of the messaging side (\<open>messaging/session.py\<close>): message trees, the mapping of
  nodes to trees and the log of message ids per chat, saved to a JSON file some time after a change.
  Its operations hold a lock; a file is written outside the lock, from a snapshot taken inside it, so
  operations and writes interleave. Tree data are JSON values; the store keeps them by value.
\<close>

section \<open>State\<close>

record log_entry =
  le_message_id :: pystr
  le_ts :: pystr
  le_direction :: pystr
  le_kind :: pystr

record session_store =
  ss_trees :: "(pystr, json) dict"
  ss_node_to_tree :: "(pystr, pystr) dict"
  ss_message_log :: "(pystr, log_entry list) dict"
  ss_message_log_ids :: "(pystr, pystr set) dict"
  ss_dirty :: bool
  ss_save_timer :: bool
  ss_message_log_cap :: "int option"

definition empty_store :: "int option \<Rightarrow> session_store" where
  "empty_store message_log_cap =
     \<lparr>ss_trees = [], ss_node_to_tree = [], ss_message_log = [], ss_message_log_ids = [],
      ss_dirty = False, ss_save_timer = False, ss_message_log_cap = message_log_cap\<rparr>"

definition make_chat_key :: "pystr \<Rightarrow> pystr \<Rightarrow> pystr" where
  "make_chat_key platform chat_id = platform @ u '':'' @ chat_id"

section \<open>Loading\<close>

text \<open>\<open>str(it.get(k) or "")\<close>.\<close>

definition str_or_empty :: "(json \<Rightarrow> pystr) \<Rightarrow> json \<Rightarrow> pystr" where
  "str_or_empty py_str v = (if truthy v then (case v of JStr s \<Rightarrow> s | _ \<Rightarrow> py_str v) else [])"

fun clean_items :: "(json \<Rightarrow> pystr) \<Rightarrow> json list \<Rightarrow> pystr set \<Rightarrow> log_entry list \<times> pystr set" where
  "clean_items py_str [] seen = ([], seen)"
| "clean_items py_str (it # items) seen =
     (case it of
        JObj d \<Rightarrow>
          (let mid = dget d ''message_id'';
               mid_s = (case mid of JStr s \<Rightarrow> s | _ \<Rightarrow> py_str mid)
           in if mid = JNull \<or> mid_s \<in> seen then clean_items py_str items seen
              else (case clean_items py_str items (insert mid_s seen) of
                      (cleaned, seen') \<Rightarrow>
                        (\<lparr>le_message_id = mid_s, le_ts = str_or_empty py_str (dget d ''ts''),
                          le_direction = str_or_empty py_str (dget d ''direction''),
                          le_kind = str_or_empty py_str (dget d ''kind'')\<rparr> # cleaned, seen')))
      | _ \<Rightarrow> clean_items py_str items seen)"

fun load_log ::
  "(json \<Rightarrow> pystr) \<Rightarrow> (pystr \<times> json) list \<Rightarrow> session_store \<Rightarrow> session_store" where
  "load_log py_str [] s = s"
| "load_log py_str ((chat_key, items) # rest) s =
     (case items of
        JList its \<Rightarrow>
          (case clean_items py_str its {} of
             (cleaned, seen) \<Rightarrow> load_log py_str rest
               (s\<lparr>ss_message_log := AList.update chat_key cleaned (ss_message_log s),
                 ss_message_log_ids := AList.update chat_key seen (ss_message_log_ids s)\<rparr>))
      | _ \<Rightarrow> load_log py_str rest s)"

text \<open>A file whose \<open>trees\<close> is no object, or whose \<open>node_to_tree\<close> maps to other values than strings, is
  outside the model (\<open>None\<close>): the source keeps such a value and fails on its first use. A file that is
  no object raises, is logged, and leaves the store empty.\<close>

fun strings_only :: "(pystr \<times> json) list \<Rightarrow> (pystr, pystr) dict option" where
  "strings_only [] = Some []"
| "strings_only ((k, v) # d) =
     (case (v, strings_only d) of (JStr s, Some d') \<Rightarrow> Some ((k, s) # d') | _ \<Rightarrow> None)"

definition load_store :: "(json \<Rightarrow> pystr) \<Rightarrow> json option \<Rightarrow> int option \<Rightarrow> session_store option" where
  "load_store py_str file cap =
     (case file of
        Some (JObj data) \<Rightarrow>
          (case (dget_or data ''trees'' (JObj []), dget_or data ''node_to_tree'' (JObj [])) of
             (JObj trees, JObj mapping) \<Rightarrow>
               (case strings_only mapping of
                  None \<Rightarrow> None
                | Some node_to_tree \<Rightarrow>
                    (let s = (empty_store cap)\<lparr>ss_trees := trees, ss_node_to_tree := node_to_tree\<rparr>
                     in case dget_or data ''message_log'' (JObj []) of
                          JObj raw_log \<Rightarrow> Some (load_log py_str raw_log s)
                        | _ \<Rightarrow> Some s))
           | _ \<Rightarrow> None)
      | _ \<Rightarrow> Some (empty_store cap))"

section \<open>Saving\<close>

definition entry_json :: "log_entry \<Rightarrow> json" where
  "entry_json e =
     JObj [(u ''message_id'', JStr (le_message_id e)), (u ''ts'', JStr (le_ts e)),
           (u ''direction'', JStr (le_direction e)), (u ''kind'', JStr (le_kind e))]"

definition snapshot :: "session_store \<Rightarrow> json" where
  "snapshot s =
     JObj [(u ''trees'', JObj (ss_trees s)),
           (u ''node_to_tree'', JObj (map (\<lambda>(k, v). (k, JStr v)) (ss_node_to_tree s))),
           (u ''message_log'', JObj (map (\<lambda>(k, es). (k, JList (map entry_json es))) (ss_message_log s)))]"

definition schedule_save :: "session_store \<Rightarrow> session_store" where
  "schedule_save s = s\<lparr>ss_dirty := True, ss_save_timer := True\<rparr>"

definition flush_save :: "session_store \<Rightarrow> json \<times> session_store" where
  "flush_save s = (snapshot s, s\<lparr>ss_save_timer := False, ss_dirty := False\<rparr>)"

text \<open>The part of the timer's callback under the lock; \<open>None\<close> when there is nothing to save.\<close>

definition save_from_timer :: "session_store \<Rightarrow> json option \<times> session_store" where
  "save_from_timer s =
     (if \<not> ss_dirty s then (None, s\<lparr>ss_save_timer := False\<rparr>)
      else (Some (snapshot s), s\<lparr>ss_dirty := False, ss_save_timer := False\<rparr>))"

section \<open>Operations\<close>

definition cap_log :: "pystr \<Rightarrow> session_store \<Rightarrow> session_store" where
  "cap_log chat_key s =
     (case ss_message_log_cap s of
        None \<Rightarrow> s
      | Some cap \<Rightarrow>
          if 0 < cap then
            (let items = get_or (ss_message_log s) chat_key []
             in if cap < int (length items)
                then (let kept = drop (length items - nat cap) items
                      in s\<lparr>ss_message_log := AList.update chat_key kept (ss_message_log s),
                           ss_message_log_ids :=
                             AList.update chat_key (le_message_id ` set kept) (ss_message_log_ids s)\<rparr>)
                else s)
          else s)"

definition record_message_id ::
  "pystr \<Rightarrow> pystr \<Rightarrow> pystr option \<Rightarrow> pystr \<Rightarrow> pystr \<Rightarrow> pystr \<Rightarrow> session_store \<Rightarrow> session_store" where
  "record_message_id platform chat_id message_id direction kind now s =
     (case message_id of
        None \<Rightarrow> s
      | Some mid \<Rightarrow>
          (let chat_key = make_chat_key platform chat_id;
               seen = get_or (ss_message_log_ids s) chat_key {};
               s1 = s\<lparr>ss_message_log_ids := AList.update chat_key seen (ss_message_log_ids s)\<rparr>
           in if mid \<in> seen then s1
              else
                (let rec = \<lparr>le_message_id = mid, le_ts = now, le_direction = direction, le_kind = kind\<rparr>;
                     items = get_or (ss_message_log s1) chat_key []
                 in schedule_save (cap_log chat_key
                      (s1\<lparr>ss_message_log := AList.update chat_key (items @ [rec]) (ss_message_log s1),
                         ss_message_log_ids := AList.update chat_key (insert mid seen) (ss_message_log_ids s1)\<rparr>)))))"


definition clear_tables :: "session_store \<Rightarrow> session_store" where
  "clear_tables s = s\<lparr>ss_trees := [], ss_node_to_tree := [], ss_message_log := [], ss_message_log_ids := []\<rparr>"

text \<open>The keys of the tree data's \<open>nodes\<close>.\<close>

definition tree_node_ids :: "json \<Rightarrow> pystr list" where
  "tree_node_ids tree_data =
     (case dget_or (obj_of tree_data) ''nodes'' (JObj []) of JObj nodes \<Rightarrow> map fst nodes | _ \<Rightarrow> [])"

definition save_tree :: "pystr \<Rightarrow> json \<Rightarrow> session_store \<Rightarrow> session_store" where
  "save_tree root_id tree_data s =
     schedule_save (s\<lparr>ss_trees := AList.update root_id tree_data (ss_trees s),
       ss_node_to_tree := fold (\<lambda>nid m. AList.update nid root_id m) (tree_node_ids tree_data)
         (ss_node_to_tree s)\<rparr>)"

definition get_tree_data :: "pystr \<Rightarrow> session_store \<Rightarrow> json option" where
  "get_tree_data root_id s = map_of (ss_trees s) root_id"

definition register_node_mapping :: "pystr \<Rightarrow> pystr \<Rightarrow> session_store \<Rightarrow> session_store" where
  "register_node_mapping node_id root_id s =
     schedule_save (s\<lparr>ss_node_to_tree := AList.update node_id root_id (ss_node_to_tree s)\<rparr>)"

definition remove_node_mappings :: "pystr list \<Rightarrow> session_store \<Rightarrow> session_store" where
  "remove_node_mappings node_ids s =
     schedule_save (s\<lparr>ss_node_to_tree := fold AList.delete node_ids (ss_node_to_tree s)\<rparr>)"

definition remove_tree_data :: "pystr \<Rightarrow> session_store \<Rightarrow> session_store" where
  "remove_tree_data root_id s =
     (case map_of (ss_trees s) root_id of
        None \<Rightarrow> s
      | Some tree_data \<Rightarrow>
          (let s1 = s\<lparr>ss_trees := AList.delete root_id (ss_trees s)\<rparr>
           in if truthy tree_data
              then schedule_save (s1\<lparr>ss_node_to_tree :=
                     fold AList.delete (tree_node_ids tree_data) (ss_node_to_tree s1)\<rparr>)
              else s1))"

definition sync_from_tree_data ::
  "(pystr, json) dict \<Rightarrow> (pystr, pystr) dict \<Rightarrow> session_store \<Rightarrow> session_store" where
  "sync_from_tree_data trees node_to_tree s =
     schedule_save (s\<lparr>ss_trees := trees, ss_node_to_tree := node_to_tree\<rparr>)"

section \<open>Operations and writes interleaved\<close>

text \<open>The store, the writes begun and not ended with the snapshots they write, and the file.\<close>

record store_sys =
  sy_store :: session_store
  sy_writers :: "(nat \<times> json) list"
  sy_file :: "json option"
  sy_write_failed :: bool

datatype store_op =
    OpRecord pystr pystr "pystr option" pystr pystr pystr
  | OpSaveTree pystr json
  | OpRegister pystr pystr
  | OpUnmap "pystr list"
  | OpRemoveTree pystr
  | OpSync "(pystr, json) dict" "(pystr, pystr) dict"

fun apply_op :: "store_op \<Rightarrow> session_store \<Rightarrow> session_store" where
  "apply_op (OpRecord platform chat mid dir kind now) s = record_message_id platform chat mid dir kind now s"
| "apply_op (OpSaveTree root data) s = save_tree root data s"
| "apply_op (OpRegister node root) s = register_node_mapping node root s"
| "apply_op (OpUnmap nodes) s = remove_node_mappings nodes s"
| "apply_op (OpRemoveTree root) s = remove_tree_data root s"
| "apply_op (OpSync trees mapping) s = sync_from_tree_data trees mapping s"

text \<open>\<open>STimer\<close> is the callback of a timer; it may come although the timer was cancelled, when it fired
  before and waited for the lock. \<open>SWritten i ok\<close> ends write \<open>i\<close>: the file is replaced at once, or the
  write failed and the store is marked dirty.\<close>

datatype store_action =
    SOp store_op
  | STimer nat
  | SFlush nat
  | SClear nat
  | SWritten nat bool

definition start_write :: "nat \<Rightarrow> json \<Rightarrow> session_store \<Rightarrow> store_sys \<Rightarrow> store_sys" where
  "start_write i data s y = y\<lparr>sy_store := s, sy_writers := sy_writers y @ [(i, data)]\<rparr>"

definition store_apply :: "store_action \<Rightarrow> store_sys \<Rightarrow> store_sys option" where
  "store_apply a y =
     (case a of
        SOp op \<Rightarrow> Some (y\<lparr>sy_store := apply_op op (sy_store y)\<rparr>)
      | STimer i \<Rightarrow>
          (case save_from_timer (sy_store y) of
             (None, s) \<Rightarrow> Some (y\<lparr>sy_store := s\<rparr>)
           | (Some data, s) \<Rightarrow> if has_key (sy_writers y) i then None else Some (start_write i data s y))
      | SFlush i \<Rightarrow>
          (case flush_save (sy_store y) of
             (data, s) \<Rightarrow> if has_key (sy_writers y) i then None else Some (start_write i data s y))
      | SClear i \<Rightarrow>
          (case flush_save (clear_tables (sy_store y)) of
             (data, s) \<Rightarrow> if has_key (sy_writers y) i then None else Some (start_write i data s y))
      | SWritten i ok \<Rightarrow>
          (case map_of (sy_writers y) i of
             None \<Rightarrow> None
           | Some data \<Rightarrow>
               (let y1 = y\<lparr>sy_writers := AList.delete i (sy_writers y)\<rparr>
                in Some (if ok then y1\<lparr>sy_file := Some data\<rparr>
                         else y1\<lparr>sy_store := (sy_store y)\<lparr>ss_dirty := True\<rparr>, sy_write_failed := True\<rparr>))))"

fun store_run :: "store_action list \<Rightarrow> store_sys \<Rightarrow> store_sys option" where
  "store_run [] y = Some y"
| "store_run (a # as) y =
     (case store_apply a y of None \<Rightarrow> None | Some y' \<Rightarrow> store_run as y')"

definition fresh_sys :: "int option \<Rightarrow> store_sys" where
  "fresh_sys cap = \<lparr>sy_store = empty_store cap, sy_writers = [], sy_file = None, sy_write_failed = False\<rparr>"

section \<open>The message log\<close>

text \<open>The id set of a chat is the set of the ids in its log, each logged once; a log is within the cap.\<close>

definition entry_ids :: "log_entry list \<Rightarrow> pystr set" where
  "entry_ids es = le_message_id ` set es"

definition log_ok :: "session_store \<Rightarrow> bool" where
  "log_ok s \<longleftrightarrow>
     distinct (map fst (ss_message_log s))
     \<and> (\<forall>k. map_of (ss_message_log_ids s) k = map_option entry_ids (map_of (ss_message_log s) k))
     \<and> (\<forall>k es. map_of (ss_message_log s) k = Some es \<longrightarrow> distinct (map le_message_id es)
          \<and> (\<forall>cap. ss_message_log_cap s = Some cap \<longrightarrow> 0 < cap \<longrightarrow> int (length es) \<le> cap))"

lemma log_ok_frame:
  "ss_message_log s' = ss_message_log s
   \<Longrightarrow> map_of (ss_message_log_ids s') = map_of (ss_message_log_ids s)
   \<Longrightarrow> ss_message_log_cap s' = ss_message_log_cap s \<Longrightarrow> log_ok s' = log_ok s"
  by (simp add: log_ok_def)


lemma log_ok_schedule [simp]: "log_ok (schedule_save s) = log_ok s"
  by (rule log_ok_frame) (simp_all add: schedule_save_def)



lemma map_of_update_same: "map_of (AList.update k v (AList.update k w d)) = (map_of d)(k \<mapsto> v)"
  by simp


section \<open>Loading what was saved\<close>

text \<open>The tables of two stores agree; the id sets are compared by lookup.\<close>

definition same_content :: "session_store \<Rightarrow> session_store \<Rightarrow> bool" where
  "same_content s s' \<longleftrightarrow>
     ss_trees s = ss_trees s' \<and> ss_node_to_tree s = ss_node_to_tree s'
     \<and> ss_message_log s = ss_message_log s'
     \<and> map_of (ss_message_log_ids s) = map_of (ss_message_log_ids s')"








section \<open>What survives a restart\<close>



definition trees_full :: "session_store \<Rightarrow> bool" where
  "trees_full s = list_all (\<lambda>(root, data). truthy data) (ss_trees s)"










lemma cap_kept [simp]: "ss_message_log_cap (schedule_save s) = ss_message_log_cap s"
    "ss_message_log_cap (cap_log k s) = ss_message_log_cap s" "ss_trees (cap_log k s) = ss_trees s"
    "ss_trees (schedule_save s) = ss_trees s"
  by (simp_all add: schedule_save_def cap_log_def Let_def split: option.splits)



lemma log_ok_trees [simp]: "log_ok (s\<lparr>ss_trees := t, ss_node_to_tree := m\<rparr>) = log_ok s"
    "log_ok (s\<lparr>ss_node_to_tree := m\<rparr>) = log_ok s" "log_ok (s\<lparr>ss_trees := t\<rparr>) = log_ok s"
  by (rule log_ok_frame, simp_all)+


lemma flags_free [simp]:
  "log_ok (s\<lparr>ss_dirty := b, ss_save_timer := c\<rparr>) = log_ok s" "log_ok (s\<lparr>ss_dirty := b\<rparr>) = log_ok s"
  "log_ok (s\<lparr>ss_save_timer := c\<rparr>) = log_ok s"
  "trees_full (s\<lparr>ss_dirty := b, ss_save_timer := c\<rparr>) = trees_full s"
  "trees_full (s\<lparr>ss_dirty := b\<rparr>) = trees_full s" "trees_full (s\<lparr>ss_save_timer := c\<rparr>) = trees_full s"
  "snapshot (s\<lparr>ss_dirty := b, ss_save_timer := c\<rparr>) = snapshot s"
  "snapshot (s\<lparr>ss_dirty := b\<rparr>) = snapshot s" "snapshot (s\<lparr>ss_save_timer := c\<rparr>) = snapshot s"
  "same_content r (s\<lparr>ss_dirty := b, ss_save_timer := c\<rparr>) = same_content r s"
  "same_content r (s\<lparr>ss_dirty := b\<rparr>) = same_content r s"
  "same_content r (s\<lparr>ss_save_timer := c\<rparr>) = same_content r s"
  by (simp_all add: log_ok_def trees_full_def snapshot_def same_content_def)


















section \<open>Where saving goes wrong\<close>

text \<open>A timer's write that ends after the write of a later \<open>clear_all\<close> brings the cleared data back.\<close>

lemma late_write_undoes_clear:
  "\<exists>y. store_run [SOp (OpRegister (u ''n'') (u ''r'')), STimer 0, SClear 1, SWritten 1 True, SWritten 0 True]
      (fresh_sys None) = Some y
    \<and> sy_writers y = [] \<and> \<not> ss_dirty (sy_store y) \<and> ss_node_to_tree (sy_store y) = []
    \<and> map_option ss_node_to_tree (load_store (\<lambda>_. []) (sy_file y) None) = Some [(u ''n'', u ''r'')]"
proof -
  have "map_option (\<lambda>y. (sy_writers y, ss_dirty (sy_store y), ss_node_to_tree (sy_store y),
      map_option ss_node_to_tree (load_store (\<lambda>_. []) (sy_file y) None)))
      (store_run [SOp (OpRegister (u ''n'') (u ''r'')), STimer 0, SClear 1, SWritten 1 True, SWritten 0 True]
      (fresh_sys None)) = Some ([], False, [], Some [(u ''n'', u ''r'')])" by code_simp
  from map_option_SomeD [OF this] show ?thesis by auto
qed

text \<open>After a failed write the store is dirty, but no timer is left to try again.\<close>

lemma failed_write_is_not_retried:
  "\<exists>y. store_run [SOp (OpRegister (u ''n'') (u ''r'')), STimer 0, SWritten 0 False] (fresh_sys None) = Some y
    \<and> ss_dirty (sy_store y) \<and> \<not> ss_save_timer (sy_store y) \<and> sy_writers y = []"
proof -
  have "map_option (\<lambda>y. (ss_dirty (sy_store y), ss_save_timer (sy_store y), sy_writers y))
      (store_run [SOp (OpRegister (u ''n'') (u ''r'')), STimer 0, SWritten 0 False] (fresh_sys None))
      = Some (True, False, [])" by code_simp
  from map_option_SomeD [OF this] show ?thesis by auto
qed

end
