(* ===== verification/Node_Pipeline.thy ===== *)
theory Node_Pipeline
  imports Complex_Main Transcript Cli_Manager Cli_Session Tree_Manager Session_Store
begin

text \<open>
  What the messaging side does with one run of the command line
  (\<open>messaging/node_event_pipeline.py\<close>, \<open>messaging/ui_updates.py\<close> and \<open>_process_node_impl\<close> of
  \<open>messaging/handler.py\<close>): the node's transcript, its status message, its state in the tree, the
  saved tree and the pool of sessions. No other task touches the node meanwhile, the clocks stand
  still while one event is processed, and a cancellation arrives between two events. What the user sees
  after a cancelled or failed run is the transcript with one more error. Session ids and error messages are strings; a value of another
  type is taken as its text. Arguments of the model: the platform's text functions and limit,
  \<open>format_status\<close>, and the texts of exceptions.
\<close>

record node_env =
  ne_transcript_env :: transcript_env
  ne_format_status :: "pystr \<Rightarrow> pystr \<Rightarrow> pystr option \<Rightarrow> pystr"
  ne_render_ctx :: render_ctx
  ne_limit_chars :: int
  ne_isoformat :: "int \<Rightarrow> pystr"

section \<open>The status message\<close>

record editor =
  ed_last_ui_update :: rat
  ed_last_displayed_text :: "pystr option"
  ed_last_status :: "pystr option"
  ed_edits :: "pystr list"


definition editor_update ::
  "node_env \<Rightarrow> rat \<Rightarrow> transcript \<Rightarrow> pystr option \<Rightarrow> bool \<Rightarrow> editor \<Rightarrow> editor" where
  "editor_update env now tb status force ed =
     (if \<not> force \<and> now - ed_last_ui_update ed < 1 then ed
      else
        (let ed1 = ed\<lparr>ed_last_ui_update := now,
                      ed_last_status := (if status \<noteq> None then status else ed_last_status ed)\<rparr>;
             display = render_transcript (ne_render_ctx env) (ne_limit_chars env) status tb
         in if display \<noteq> [] \<and> Some display \<noteq> ed_last_displayed_text ed1
            then ed1\<lparr>ed_last_displayed_text := Some display, ed_edits := ed_edits ed1 @ [display]\<rparr>
            else ed1))"

section \<open>The state of a run\<close>

record node_run =
  nr_transcript :: transcript
  nr_editor :: editor
  nr_repo :: tree_repo
  nr_store :: session_store
  nr_manager :: cli_manager
  nr_last_status :: "pystr option"
  nr_had_transcript_events :: bool
  nr_captured_session_id :: "pystr option"
  nr_temp_session_id :: "pystr option"
  nr_notices :: "(pystr \<times> pystr \<times> pystr) list"


definition persist_tree :: "node_env \<Rightarrow> pystr option \<Rightarrow> node_run \<Rightarrow> node_run" where
  "persist_tree env key s =
     (case key of
        None \<Rightarrow> s
      | Some k \<Rightarrow>
          (case get_tree (nr_repo s) k of
             None \<Rightarrow> s
           | Some tp \<Rightarrow> s\<lparr>nr_store := save_tree (mt_root_id (tp_tree tp))
               (JObj (tree_to_dict (ne_isoformat env) (tp_tree tp))) (nr_store s)\<rparr>))"

definition update_ui :: "node_env \<Rightarrow> rat \<Rightarrow> pystr option \<Rightarrow> bool \<Rightarrow> node_run \<Rightarrow> node_run" where
  "update_ui env now status force s =
     s\<lparr>nr_editor := editor_update env now (nr_transcript s) status force (nr_editor s)\<rparr>"

definition given :: "pystr option \<Rightarrow> bool" where
  "given v = (v \<noteq> None \<and> v \<noteq> Some [])"

text \<open>An event that is applied to the transcript; the flag is \<open>False\<close> when that raises.\<close>

definition apply_transcript :: "node_env \<Rightarrow> ev \<Rightarrow> node_run \<Rightarrow> bool \<times> node_run" where
  "apply_transcript env e s =
     (case apply_event (ne_transcript_env env) e (nr_transcript s) of
        (ok, tb) \<Rightarrow> (ok, s\<lparr>nr_transcript := tb\<rparr>))"

section \<open>Events\<close>




text \<open>The type of a parsed event.\<close>

definition event_type :: "ev \<Rightarrow> pystr" where
  "event_type e = (case dget e ''type'' of JStr t \<Rightarrow> t | _ \<Rightarrow> [])"






section \<open>The whole run\<close>

text \<open>How the stream of events ends, and the texts the handler shows for an exception. A cancelled
  run may have been cancelled because of a reply-scoped stop.\<close>

datatype stream_end =
    StreamDone
  | StreamRaised pystr
  | StreamCancelled bool



definition free_session :: "node_run \<Rightarrow> node_run" where
  "free_session s =
     (if given (nr_captured_session_id s)
      then s\<lparr>nr_manager := snd (remove_session (the (nr_captured_session_id s)) (nr_manager s))\<rparr>
      else if given (nr_temp_session_id s)
      then s\<lparr>nr_manager := snd (remove_session (the (nr_temp_session_id s)) (nr_manager s))\<rparr>
      else s)"



section \<open>The state of the node\<close>

text \<open>What one parsed event, one event of the command line and a whole run mean for the node's state:
  the session id the run has captured decides whether \<open>complete\<close> counts.\<close>

definition parsed_state :: "pystr option \<Rightarrow> ev \<Rightarrow> message_state \<Rightarrow> message_state" where
  "parsed_state captured e st =
     (if event_type e = u ''complete'' then (if given captured then COMPLETED else st)
      else if event_type e = u ''error'' then ERROR else st)"

fun event_state ::
  "(json \<Rightarrow> pystr) \<Rightarrow> rat \<times> int \<times> json \<Rightarrow> message_state \<times> pystr option \<times> pystr option
   \<Rightarrow> message_state \<times> pystr option \<times> pystr option" where
  "event_state str_of_value (clock, now, JObj event) (st, captured, temp) =
     (if is_text (dget event ''type'') ''session_info''
      then (if truthy (dget event ''session_id'') \<and> given temp
            then (IN_PROGRESS, Some (to_text str_of_value (dget event ''session_id'')), None)
            else (st, captured, temp))
      else (fold (parsed_state captured) (parse_cli_event str_of_value (JObj event)) st, captured, temp))"
| "event_state str_of_value _ state = state"

section \<open>Every step keeps the node in its tree\<close>



lemma apply_transcript_eq:
  "apply_transcript env e s = (fst (apply_event (ne_transcript_env env) e (nr_transcript s)),
     s\<lparr>nr_transcript := snd (apply_event (ne_transcript_env env) e (nr_transcript s))\<rparr>)"
  by (simp add: apply_transcript_def split: prod.split)


lemma same_repo [simp]:
  "nr_repo (update_ui env clock status force s) = nr_repo s"
  "nr_repo (persist_tree env key s) = nr_repo s"
  "nr_repo (snd (apply_transcript env e s)) = nr_repo s"
  by (simp_all add: update_ui_def persist_tree_def apply_transcript_eq split: option.split)





section \<open>Events\<close>

lemma status_of_end [simp]:
  "get_status_for_event (u ''complete'') e f = None" "get_status_for_event (u ''error'') e f = None"
  "get_status_for_event (u ''block_stop'') e f = None"
  by (simp_all add: get_status_for_event_def event_status_map_def)





section \<open>Session ids\<close>




abbreviation str_of :: "node_env \<Rightarrow> json \<Rightarrow> pystr" where
  "str_of env \<equiv> te_str_of_value (ne_transcript_env env)"




section \<open>A run that gets a session\<close>

lemma given_iff: "given v \<longleftrightarrow> (\<exists>x. v = Some x \<and> x \<noteq> [])"
  by (auto simp: given_def)



text \<open>The state the run leaves its node in.\<close>

definition run_state ::
  "node_env \<Rightarrow> pystr option \<times> pystr option \<Rightarrow> (rat \<times> int \<times> json) list \<Rightarrow> stream_end \<Rightarrow> message_state" where
  "run_state env ids events fin =
     (case fin of
        StreamDone \<Rightarrow> fst (fold (event_state (str_of env)) events (IN_PROGRESS, ids))
      | _ \<Rightarrow> ERROR)"

lemma free_session_repo [simp]: "nr_repo (free_session s) = nr_repo s"
  by (simp add: free_session_def)








section \<open>Examples\<close>

definition example_env :: node_env where
  "example_env = \<lparr>ne_transcript_env = plain_env, ne_format_status = (\<lambda>emoji label suffix. emoji @ label),
     ne_render_ctx = plain_ctx, ne_limit_chars = 4000, ne_isoformat = example_iso\<rparr>"

text \<open>A run whose command line ends with an exit code.\<close>

definition example_run :: "int \<Rightarrow> (rat \<times> int \<times> json) list" where
  "example_run n =
     [(1, 1, JObj [(u ''type'', JStr (u ''session_info'')), (u ''session_id'', JStr (u ''real''))]),
      (2, 2, JObj [(u ''type'', JStr (u ''exit'')), (u ''code'', JInt n), (u ''stderr'', JNull)])]"





text \<open>A command line that exits with an error says so and then completes, and so the node, whose waiting
  replies have been failed, ends as completed.\<close>

lemma failed_exit_completes_node:
  "map event_type (parse_cli_event (str_of example_env) (snd (snd (example_run 1 ! 1)))) = [u ''error'', u ''complete'']"
  "run_state example_env (None, Some (u ''pending_x'')) (example_run 1) StreamDone = COMPLETED"
  by code_simp+

end
