(* ===== verification/Local_Answers.thy ===== *)
theory Local_Answers
  imports Conversion
begin

text \<open>
  The requests the proxy answers itself (\<open>api/detection.py\<close>, \<open>api/command_utils.py\<close>,
  \<open>api/optimization_handlers.py\<close>): detection, the command parser on Python's \<open>shlex\<close>, and the
  chain of handlers. Argument of the model: \<open>lower\<close>, Python's \<open>str.lower\<close>, whose tables are
  Unicode's, and the random part of a message id.
\<close>

section \<open>Standard library: shlex without POSIX rules\<close>

text \<open>\<open>shlex.split(s, posix=False)\<close>: words end at white space; a token that starts with a quote ends
  with that quote, elsewhere quotes are ordinary. \<open>None\<close> is the \<open>ValueError\<close> of a missing quote.\<close>

datatype lex_state = InBlank | InWord | InQuote int

definition lex_space :: "int \<Rightarrow> bool" where
  "lex_space c = (c \<in> {32, 9, 13, 10})"

fun shlex_run :: "lex_state \<Rightarrow> pystr \<Rightarrow> pystr \<Rightarrow> pystr list option" where
  "shlex_run InBlank token [] = Some []"
| "shlex_run InWord token [] = Some [token]"
| "shlex_run (InQuote q) token [] = None"
| "shlex_run InBlank token (c # cs) =
     (if lex_space c then shlex_run InBlank [] cs
      else if c = 34 \<or> c = 39 then shlex_run (InQuote c) [c] cs
      else shlex_run InWord [c] cs)"
| "shlex_run InWord token (c # cs) =
     (if lex_space c then map_option ((#) token) (shlex_run InBlank [] cs)
      else shlex_run InWord (token @ [c]) cs)"
| "shlex_run (InQuote q) token (c # cs) =
     (if c = q then map_option ((#) (token @ [c])) (shlex_run InBlank [] cs)
      else shlex_run (InQuote q) (token @ [c]) cs)"

definition shlex_split :: "pystr \<Rightarrow> pystr list option" where
  "shlex_split s = shlex_run InBlank [] s"

text \<open>\<open>s.split(c)[-1]\<close> and \<open>s.split(m)[0]\<close>.\<close>

definition after_last :: "int \<Rightarrow> pystr \<Rightarrow> pystr" where
  "after_last c s = rev (takeWhile (\<lambda>x. x \<noteq> c) (rev s))"

definition before_first :: "pystr \<Rightarrow> pystr \<Rightarrow> pystr" where
  "before_first m s = (case find_sub m s of None \<Rightarrow> s | Some n \<Rightarrow> take n s)"

section \<open>Commands\<close>

definition name_start :: "int \<Rightarrow> bool" where
  "name_start c = (c = 95 \<or> 65 \<le> c \<and> c \<le> 90 \<or> 97 \<le> c \<and> c \<le> 122)"

definition name_char :: "int \<Rightarrow> bool" where
  "name_char c = (name_start c \<or> 48 \<le> c \<and> c \<le> 57)"

text \<open>The regular expression: a name, an equals sign, and then no line feed but a last one.\<close>

definition is_env_assignment :: "pystr \<Rightarrow> bool" where
  "is_env_assignment part =
     (case part of
        [] \<Rightarrow> False
      | c # cs \<Rightarrow> name_start c
          \<and> (case dropWhile name_char cs of
               e # rest \<Rightarrow> e = 61 \<and> 10 \<notin> set (butlast rest)
             | [] \<Rightarrow> False))"

text \<open>The leading assignments and the rest.\<close>

definition env_prefix :: "pystr list \<Rightarrow> pystr list" where
  "env_prefix parts = takeWhile is_env_assignment parts"

definition strip_env_assignments :: "pystr list \<Rightarrow> pystr list" where
  "strip_env_assignments parts = dropWhile is_env_assignment parts"

definition two_word_commands :: "pystr set" where
  "two_word_commands = u ` {''git'', ''npm'', ''docker'', ''kubectl'', ''cargo'', ''go'', ''pip'', ''yarn''}"

definition extract_command_prefix :: "pystr \<Rightarrow> pystr" where
  "extract_command_prefix command =
     (if contains command (u ''`'') \<or> contains command (u ''$('') then u ''command_injection_detected''
      else
        (case shlex_split command of
           None \<Rightarrow>
             (case strip_env_assignments (py_split command) of [] \<Rightarrow> u ''none'' | w # _ \<Rightarrow> w)
         | Some parts \<Rightarrow>
             (case strip_env_assignments parts of
                [] \<Rightarrow> u ''none''
              | first_word # args \<Rightarrow>
                  (if first_word \<in> two_word_commands \<and> args \<noteq> []
                   then (if \<not> startswith (hd args) (u ''-'')
                         then first_word @ u '' '' @ hd args else first_word)
                   else if env_prefix parts = [] then first_word
                   else join (u '' '') (env_prefix parts) @ u '' '' @ first_word))))"

definition listing_commands :: "pystr set" where
  "listing_commands = u ` {''ls'', ''dir'', ''find'', ''tree'', ''pwd'', ''cd'', ''mkdir'', ''rmdir'', ''rm''}"

definition reading_commands :: "pystr set" where
  "reading_commands = u ` {''cat'', ''head'', ''tail'', ''less'', ''more'', ''bat'', ''type''}"

definition filepaths_text :: "pystr list \<Rightarrow> pystr" where
  "filepaths_text filepaths =
     (if filepaths \<noteq> []
      then u ''<filepaths>'' @ [10] @ join [10] filepaths @ [10] @ u ''</filepaths>''
      else u ''<filepaths>'' @ [10] @ u ''</filepaths>'')"

text \<open>The loop over the arguments of \<open>grep\<close>: whether the next argument belongs to a flag, whether the
  pattern was given by a flag, and the positional arguments.\<close>

fun grep_args :: "pystr list \<Rightarrow> bool \<Rightarrow> bool \<times> pystr list" where
  "grep_args [] skip_next = (False, [])"
| "grep_args (part # parts) skip_next =
     (if skip_next then grep_args parts False
      else if startswith part (u ''-'')
      then (case grep_args parts (part \<in> u ` {''-e'', ''-f'', ''-m'', ''-A'', ''-B'', ''-C''}) of
              (by_flag, positional) \<Rightarrow> (part \<in> u ` {''-e'', ''-f''} \<or> by_flag, positional))
      else (case grep_args parts False of (by_flag, positional) \<Rightarrow> (by_flag, part # positional)))"

definition extract_filepaths_from_command :: "(pystr \<Rightarrow> pystr) \<Rightarrow> pystr \<Rightarrow> pystr \<Rightarrow> pystr" where
  "extract_filepaths_from_command lower command output =
     (case shlex_split command of
        None \<Rightarrow> filepaths_text []
      | Some parts \<Rightarrow>
          (case strip_env_assignments parts of
             [] \<Rightarrow> filepaths_text []
           | cmd # args \<Rightarrow>
               (let base_cmd = lower (after_last 92 (after_last 47 cmd))
                in if base_cmd \<in> listing_commands then filepaths_text []
                   else if base_cmd \<in> reading_commands
                   then filepaths_text (filter (\<lambda>part. \<not> startswith part (u ''-'')) args)
                   else if base_cmd = u ''grep''
                   then (case grep_args args False of
                           (by_flag, positional) \<Rightarrow>
                             filepaths_text (if by_flag then positional else drop 1 positional))
                   else filepaths_text [])))"

section \<open>Detection\<close>

definition user_text :: "message \<Rightarrow> pystr" where
  "user_text m = extract_text_from_content (mg_content m)"

definition is_quota_check_request :: "(pystr \<Rightarrow> pystr) \<Rightarrow> request_data \<Rightarrow> bool" where
  "is_quota_check_request lower rd =
     (case rd_messages rd of
        [m] \<Rightarrow> int_of (rd_max_tokens rd) = Some 1 \<and> mg_role m = u ''user''
               \<and> contains (lower (user_text m)) (u ''quota'')
      | _ \<Rightarrow> False)"

definition is_title_generation_request :: "(pystr \<Rightarrow> pystr) \<Rightarrow> request_data \<Rightarrow> bool" where
  "is_title_generation_request lower rd =
     (if \<not> truthy (rd_system rd) \<or> rd_tools rd \<noteq> [] then False
      else
        (let system_text = lower (extract_text_from_content (rd_system rd))
         in contains system_text (u ''title'')
            \<and> (contains system_text (u ''sentence-case title'')
               \<or> contains system_text (u ''return json'') \<and> contains system_text (u ''field'')
                 \<and> (contains system_text (u ''coding session'') \<or> contains system_text (u ''this session'')))))"

definition is_prefix_detection_request :: "request_data \<Rightarrow> pystr option" where
  "is_prefix_detection_request rd =
     (case rd_messages rd of
        [m] \<Rightarrow>
          if mg_role m \<noteq> u ''user'' then None
          else
            (let content = user_text m
             in if contains content (u ''<policy_spec>'')
                then map_option (\<lambda>n. strip (drop (n + length (u ''Command:'')) content))
                       (rfind_sub (u ''Command:'') content)
                else None)
      | _ \<Rightarrow> None)"

definition is_suggestion_mode_request :: "request_data \<Rightarrow> bool" where
  "is_suggestion_mode_request rd =
     list_ex (\<lambda>m. mg_role m = u ''user'' \<and> contains (user_text m) (u ''[SUGGESTION MODE:'')) (rd_messages rd)"

definition cut_output :: "pystr \<Rightarrow> pystr \<Rightarrow> pystr" where
  "cut_output marker output = (if contains output marker then strip (before_first marker output) else output)"

definition is_filepath_extraction_request ::
  "(pystr \<Rightarrow> pystr) \<Rightarrow> request_data \<Rightarrow> (pystr \<times> pystr) option" where
  "is_filepath_extraction_request lower rd =
     (case rd_messages rd of
        [m] \<Rightarrow>
          if mg_role m \<noteq> u ''user'' \<or> rd_tools rd \<noteq> [] then None
          else
            (let content = user_text m
             in if \<not> contains content (u ''Command:'') \<or> \<not> contains content (u ''Output:'') then None
                else
                  (let user_has_filepaths = contains (lower content) (u ''filepaths'')
                         \<or> contains (lower content) (u ''<filepaths>'');
                       system_text = (if truthy (rd_system rd) then extract_text_from_content (rd_system rd) else []);
                       system_has_extract = contains (lower system_text) (u ''extract any file paths'')
                         \<or> contains (lower system_text) (u ''file paths that this command'')
                   in if \<not> user_has_filepaths \<and> \<not> system_has_extract then None
                      else
                        (case find_sub (u ''Command:'') content of
                           None \<Rightarrow> None
                         | Some n \<Rightarrow>
                             (let cmd_start = n + length (u ''Command:'')
                              in case find_sub (u ''Output:'') (drop cmd_start content) of
                                   None \<Rightarrow> None
                                 | Some k \<Rightarrow>
                                     (let command = strip (take k (drop cmd_start content));
                                          output = strip (drop (cmd_start + k + length (u ''Output:'')) content)
                                      in Some (command, cut_output [10, 10] (cut_output (u ''<'') output)))))))
      | _ \<Rightarrow> None)"

section \<open>Answers\<close>

record local_settings =
  lo_fast_prefix_detection :: bool
  lo_enable_network_probe_mock :: bool
  lo_enable_title_generation_skip :: bool
  lo_enable_suggestion_mode_skip :: bool
  lo_enable_filepath_extraction_mock :: bool

record local_answer =
  an_id :: pystr
  an_model :: json
  an_text :: pystr
  an_stop_reason :: pystr
  an_input_tokens :: nat
  an_output_tokens :: nat

definition text_response :: "pystr \<Rightarrow> request_data \<Rightarrow> pystr \<Rightarrow> nat \<Rightarrow> nat \<Rightarrow> local_answer" where
  "text_response uuid rd txt input_tokens output_tokens =
     \<lparr>an_id = u ''msg_'' @ uuid, an_model = rd_model rd, an_text = txt, an_stop_reason = u ''end_turn'',
      an_input_tokens = input_tokens, an_output_tokens = output_tokens\<rparr>"

definition try_prefix_detection :: "pystr \<Rightarrow> request_data \<Rightarrow> local_settings \<Rightarrow> local_answer option" where
  "try_prefix_detection uuid rd st =
     (if \<not> lo_fast_prefix_detection st then None
      else map_option (\<lambda>command. text_response uuid rd (extract_command_prefix command) 100 5)
             (is_prefix_detection_request rd))"

definition try_quota_mock :: "(pystr \<Rightarrow> pystr) \<Rightarrow> pystr \<Rightarrow> request_data \<Rightarrow> local_settings \<Rightarrow> local_answer option" where
  "try_quota_mock lower uuid rd st =
     (if \<not> lo_enable_network_probe_mock st then None
      else if \<not> is_quota_check_request lower rd then None
      else Some (text_response uuid rd (u ''Quota check passed.'') 10 5))"

definition try_title_skip :: "(pystr \<Rightarrow> pystr) \<Rightarrow> pystr \<Rightarrow> request_data \<Rightarrow> local_settings \<Rightarrow> local_answer option" where
  "try_title_skip lower uuid rd st =
     (if \<not> lo_enable_title_generation_skip st then None
      else if \<not> is_title_generation_request lower rd then None
      else Some (text_response uuid rd (u ''Conversation'') 100 5))"

definition try_suggestion_skip :: "pystr \<Rightarrow> request_data \<Rightarrow> local_settings \<Rightarrow> local_answer option" where
  "try_suggestion_skip uuid rd st =
     (if \<not> lo_enable_suggestion_mode_skip st then None
      else if \<not> is_suggestion_mode_request rd then None
      else Some (text_response uuid rd [] 100 1))"

definition try_filepath_mock :: "(pystr \<Rightarrow> pystr) \<Rightarrow> pystr \<Rightarrow> request_data \<Rightarrow> local_settings \<Rightarrow> local_answer option" where
  "try_filepath_mock lower uuid rd st =
     (if \<not> lo_enable_filepath_extraction_mock st then None
      else map_option (\<lambda>(command, output).
               text_response uuid rd (extract_filepaths_from_command lower command output) 100 10)
             (is_filepath_extraction_request lower rd))"

fun first_answer :: "local_answer option list \<Rightarrow> local_answer option" where
  "first_answer [] = None"
| "first_answer (None # results) = first_answer results"
| "first_answer (Some answer # results) = Some answer"

definition try_optimizations :: "(pystr \<Rightarrow> pystr) \<Rightarrow> pystr \<Rightarrow> request_data \<Rightarrow> local_settings \<Rightarrow> local_answer option" where
  "try_optimizations lower uuid rd st =
     first_answer [try_quota_mock lower uuid rd st, try_prefix_detection uuid rd st,
       try_title_skip lower uuid rd st, try_suggestion_skip uuid rd st, try_filepath_mock lower uuid rd st]"

section \<open>Words\<close>

text \<open>A word of a command line that needs no quotes.\<close>

definition plain_word :: "pystr \<Rightarrow> bool" where
  "plain_word w \<longleftrightarrow> w \<noteq> [] \<and> \<not> list_ex lex_space w \<and> hd w \<noteq> 34 \<and> hd w \<noteq> 39"

lemma shlex_word:
  "\<not> list_ex lex_space w \<Longrightarrow> shlex_run InWord token (w @ rest)
     = (case rest of
          [] \<Rightarrow> Some [token @ w]
        | c # cs \<Rightarrow> if lex_space c then map_option ((#) (token @ w)) (shlex_run InBlank [] cs)
                    else shlex_run InWord (token @ w @ [c]) cs)"
  by (induction w arbitrary: token) (auto split: list.split)

lemma shlex_plain_word:
  assumes "plain_word w"
  shows "shlex_run InBlank [] w = Some [w]"
    and "shlex_run InBlank [] (w @ 32 # rest) = map_option ((#) w) (shlex_run InBlank [] rest)"
proof -
  obtain c cs where w: "w = c # cs" using assms by (cases w) (auto simp: plain_word_def)
  have c: "\<not> lex_space c" "c \<noteq> 34" "c \<noteq> 39" "\<not> list_ex lex_space cs"
    using assms by (auto simp: plain_word_def w)
  have "lex_space 32" by (simp add: lex_space_def)
  then show "shlex_run InBlank [] w = Some [w]"
    "shlex_run InBlank [] (w @ 32 # rest) = map_option ((#) w) (shlex_run InBlank [] rest)"
    using c shlex_word [OF c(4), of "[c]" "[]"] shlex_word [OF c(4), of "[c]" "32 # rest"] by (simp_all add: w)
qed

lemma shlex_split_join:
  "list_all plain_word ws \<Longrightarrow> shlex_split (join [32] ws) = Some ws"
proof (induction ws)
  case (Cons w ws)
  then show ?case by (cases ws) (simp_all add: shlex_split_def shlex_plain_word)
qed (simp add: shlex_split_def)

text \<open>Splitting loses no character but white space between words, and no word is empty.\<close>

lemma shlex_run_keeps:
  assumes "shlex_run st token s = Some ts"
  shows "concat (map (filter (\<lambda>c. \<not> lex_space c)) ts)
      = (if st = InBlank then [] else filter (\<lambda>c. \<not> lex_space c) token) @ filter (\<lambda>c. \<not> lex_space c) s"
    and "st = InBlank \<or> token \<noteq> [] \<Longrightarrow> [] \<notin> set ts"
  using assms
  by (induction st token s arbitrary: ts rule: shlex_run.induct) (fastforce split: if_splits)+

text \<open>The prefix of a command of plain words, without a back quote or a command
  substitution, is its first word after the assignments of variables; for a tool with subcommands the
  second word is added unless it is an option; and the assignments are put in front, but not for a
  tool with subcommands that has arguments.\<close>

theorem command_prefix_of_words:
  assumes "list_all plain_word (env @ w # args)" and "list_all is_env_assignment env"
    and "\<not> is_env_assignment w"
    and "\<not> contains (join [32] (env @ w # args)) (u ''`'')" and "\<not> contains (join [32] (env @ w # args)) (u ''$('')"
  shows "extract_command_prefix (join [32] (env @ w # args)) =
    (if w \<in> two_word_commands \<and> args \<noteq> []
     then (if startswith (hd args) (u ''-'') then w else w @ [32] @ hd args)
     else join [32] (env @ [w]))"
proof -
  have env: "takeWhile is_env_assignment (env @ w # args) = env" "dropWhile is_env_assignment (env @ w # args) = w # args"
    using assms(2,3) by (auto simp: takeWhile_append dropWhile_append list_all_iff)
  have blank: "u '' '' = [32]" by (simp add: u_def)
  have "join [32] (env @ [w]) = (if env = [] then w else join [32] env @ [32] @ w)"
    by (induction env rule: induct_list012) auto
  then show ?thesis
    using assms(3-5) by (simp add: extract_command_prefix_def shlex_split_join [OF assms(1)]
        strip_env_assignments_def env_prefix_def env blank)
qed

theorem command_prefix_of_words_witness:
  "extract_command_prefix (u ''git commit -m x'') = u ''git commit''"
proof -
  have words: "join [32] ([] @ u ''git'' # [u ''commit'', u ''-m'', u ''x'']) = u ''git commit -m x''" by code_simp
  have "u ''git'' \<in> two_word_commands" "\<not> startswith (u ''commit'') (u ''-'')"
    "u ''git'' @ [32] @ u ''commit'' = u ''git commit''" by code_simp+
  moreover have "list_all plain_word ([] @ u ''git'' # [u ''commit'', u ''-m'', u ''x''])"
    "list_all is_env_assignment []" "\<not> is_env_assignment (u ''git'')"
    "\<not> contains (join [32] ([] @ u ''git'' # [u ''commit'', u ''-m'', u ''x''])) (u ''`'')"
    "\<not> contains (join [32] ([] @ u ''git'' # [u ''commit'', u ''-m'', u ''x''])) (u ''$('')"
    by code_simp+
  note command_prefix_of_words [OF this, unfolded words]
  ultimately show ?thesis by simp
qed

text \<open>Assignments are dropped in front of a tool with subcommands and kept elsewhere; the words of a
  pipeline behind a reading command are all reported as its paths; a request with any number of
  messages counts as a title request.\<close>

lemma assignments_kept_unevenly:
  "extract_command_prefix (u ''A=1 ls -l'') = u ''A=1 ls''"
  "extract_command_prefix (u ''A=1 git push'') = u ''git push''"
  by code_simp+

lemma pipeline_words_reported_as_paths:
  "extract_filepaths_from_command id (u ''cat a.txt | wc'') [] = filepaths_text [u ''a.txt'', u ''|'', u ''wc'']"
  by code_simp

lemma title_request_ignores_messages:
  "is_title_generation_request lower (rd\<lparr>rd_messages := ms\<rparr>) = is_title_generation_request lower rd"
  by (simp add: is_title_generation_request_def)

end
