(* ===== verification/Native_Request.thy ===== *)
theory Native_Request
  imports Json
begin

text \<open>
  Request bodies for upstreams that speak the Anthropic protocol
  (\<open>core/anthropic/native_messages_request.py\<close>, \<open>providers/open_router/request.py\<close>): the request as
  Pydantic dumps it, without absent fields, is an argument. A validated request is meant: the fields
  have the types of \<open>api/models/anthropic.py\<close>.
\<close>

type_synonym body = "(pystr \<times> json) list"

text \<open>\<open>d.setdefault(k, v)\<close>, \<open>d.update(e)\<close> and \<open>d.get(k) is None\<close>.\<close>

definition dsetdefault :: "body \<Rightarrow> string \<Rightarrow> json \<Rightarrow> body" where
  "dsetdefault d k v = (if has_field d k then d else dset d k v)"

definition dupdate :: "body \<Rightarrow> body \<Rightarrow> body" where
  "dupdate d e = fold (\<lambda>(k, v). AList.update k v) e d"

section \<open>Thinking of earlier turns\<close>

text \<open>Filtering the blocks of assistant messages; an emptied content becomes an empty text.\<close>

definition filter_assistant_blocks :: "(json \<Rightarrow> bool) \<Rightarrow> json \<Rightarrow> json" where
  "filter_assistant_blocks keep message =
     (case message of
        JObj m \<Rightarrow>
          if is_text (dget m ''role'') ''assistant''
          then (case dget m ''content'' of
                  JList content \<Rightarrow>
                    (let kept = filter keep content
                     in JObj (dset m ''content'' (if kept = [] then JStr [] else JList kept)))
                | _ \<Rightarrow> message)
          else message
      | _ \<Rightarrow> message)"

definition filter_messages :: "(json \<Rightarrow> bool) \<Rightarrow> json \<Rightarrow> json" where
  "filter_messages keep messages =
     (case messages of JList ms \<Rightarrow> JList (map (filter_assistant_blocks keep) ms) | _ \<Rightarrow> messages)"

definition is_thinking_block :: "json \<Rightarrow> bool" where
  "is_thinking_block block =
     (case block of JObj b \<Rightarrow> is_text (dget b ''type'') ''thinking'' | _ \<Rightarrow> False)"

definition is_redacted_block :: "json \<Rightarrow> bool" where
  "is_redacted_block block =
     (case block of JObj b \<Rightarrow> is_text (dget b ''type'') ''redacted_thinking'' | _ \<Rightarrow> False)"

definition is_signed :: "json \<Rightarrow> bool" where
  "is_signed block = (case block of JObj b \<Rightarrow> is_str (dget b ''signature'') | _ \<Rightarrow> False)"

definition sanitize_native_messages_thinking_policy :: "json \<Rightarrow> bool \<Rightarrow> json" where
  "sanitize_native_messages_thinking_policy messages thinking_enabled =
     filter_messages
       (\<lambda>block. if \<not> thinking_enabled then \<not> (is_thinking_block block \<or> is_redacted_block block)
                else \<not> (is_thinking_block block \<and> \<not> is_signed block))
       messages"

section \<open>The generic body\<close>

definition thinking_payload :: "body \<Rightarrow> json" where
  "thinking_payload thinking_cfg =
     (let budget_tokens = dget thinking_cfg ''budget_tokens''
      in JObj ((u ''type'', JStr (u ''enabled''))
               # (if int_of budget_tokens \<noteq> None then [(u ''budget_tokens'', budget_tokens)] else [])))"

definition build_base_native_anthropic_request_body :: "body \<Rightarrow> json \<Rightarrow> bool \<Rightarrow> body" where
  "build_base_native_anthropic_request_body dump default_max_tokens thinking_enabled =
     (let body = ddel dump ''extra_body'';
          body = (if has_field body ''thinking''
                  then (case dget body ''thinking'' of
                          JObj cfg \<Rightarrow> if thinking_enabled
                                      then dset (ddel body ''thinking'') ''thinking'' (thinking_payload cfg)
                                      else ddel body ''thinking''
                        | _ \<Rightarrow> ddel body ''thinking'')
                  else body);
          body = (if has_field body ''max_tokens'' then body else dset body ''max_tokens'' default_max_tokens)
      in if has_field body ''messages''
         then dset body ''messages''
                (sanitize_native_messages_thinking_policy (dget body ''messages'') thinking_enabled)
         else body)"

section \<open>OpenRouter\<close>

text \<open>In the order \<open>sorted\<close> gives.\<close>

definition openrouter_extra_body_forbidden_keys :: "string list" where
  "openrouter_extra_body_forbidden_keys =
     [''context_management'', ''max_tokens'', ''mcp_servers'', ''messages'', ''metadata'', ''model'',
      ''output_config'', ''stop_sequences'', ''stream'', ''system'', ''temperature'', ''tool_choice'',
      ''tools'', ''top_k'', ''top_p'']"

text \<open>The reserved keys found, which make the request invalid.\<close>

definition validate_openrouter_extra_body :: "body \<Rightarrow> string list" where
  "validate_openrouter_extra_body extra =
     filter (has_field extra) openrouter_extra_body_forbidden_keys"

fun system_texts :: "json list \<Rightarrow> pystr list" where
  "system_texts [] = []"
| "system_texts (JObj b # blocks) =
     (case dget b ''text'' of
        JStr t \<Rightarrow> if is_text (dget b ''type'') ''text'' then t # system_texts blocks else system_texts blocks
      | _ \<Rightarrow> system_texts blocks)"
| "system_texts (_ # blocks) = system_texts blocks"

definition normalize_system_prompt_for_openrouter :: "json \<Rightarrow> json" where
  "normalize_system_prompt_for_openrouter system =
     (case system of
        JList blocks \<Rightarrow>
          if system_texts blocks \<noteq> [] then JStr (strip (join [10, 10] (system_texts blocks))) else system
      | _ \<Rightarrow> system)"

definition apply_openrouter_reasoning_policy :: "body \<Rightarrow> json \<Rightarrow> body" where
  "apply_openrouter_reasoning_policy body thinking_cfg =
     (let body = dsetdefault body ''reasoning'' (JObj [(u ''enabled'', JBool True)])
      in case dget body ''reasoning'' of
           JObj reasoning \<Rightarrow>
             (let reasoning = dsetdefault reasoning ''enabled'' (JBool True);
                  reasoning = (case thinking_cfg of
                      JObj cfg \<Rightarrow>
                        if int_of (dget cfg ''budget_tokens'') \<noteq> None
                        then dsetdefault reasoning ''max_tokens'' (dget cfg ''budget_tokens'') else reasoning
                    | _ \<Rightarrow> reasoning)
              in dset body ''reasoning'' (JObj reasoning))
         | _ \<Rightarrow> body)"

text \<open>The reserved keys of an invalid request, or the body.\<close>

definition build_openrouter_native_request_body :: "body \<Rightarrow> bool \<Rightarrow> json \<Rightarrow> string list + body" where
  "build_openrouter_native_request_body dump thinking_enabled default_max_tokens =
     (let request_extra = dget dump ''extra_body'';
          thinking_cfg = dget dump ''thinking'';
          body = ddel (ddel dump ''extra_body'') ''thinking'';
          bad = (case request_extra of JObj extra \<Rightarrow> validate_openrouter_extra_body extra | _ \<Rightarrow> []);
          body = (case request_extra of JObj extra \<Rightarrow> dupdate body extra | _ \<Rightarrow> body);
          body = dset body ''messages''
            (sanitize_native_messages_thinking_policy (dget body ''messages'') thinking_enabled);
          body = (if has_field body ''system''
                  then dset body ''system'' (normalize_system_prompt_for_openrouter (dget body ''system''))
                  else body);
          body = dset body ''stream'' (JBool True);
          body = (if dget body ''max_tokens'' = JNull then dset body ''max_tokens'' default_max_tokens else body)
      in if bad \<noteq> [] then Inl bad
         else Inr (if thinking_enabled then apply_openrouter_reasoning_policy body thinking_cfg else body))"

definition anthropic_default_max_output_tokens :: json where
  "anthropic_default_max_output_tokens = JInt 81920"

text \<open>\<open>None\<close> with the reserved keys is the \<open>InvalidRequestError\<close>.\<close>

definition openrouter_build_request_body :: "body \<Rightarrow> bool \<Rightarrow> string list + body" where
  "openrouter_build_request_body dump thinking_enabled =
     build_openrouter_native_request_body dump thinking_enabled anthropic_default_max_output_tokens"

section \<open>What the upstream sees of earlier thinking\<close>

text \<open>The blocks of the assistant messages of a body.\<close>

definition message_blocks :: "json \<Rightarrow> json list" where
  "message_blocks message =
     (case message of
        JObj m \<Rightarrow>
          if is_text (dget m ''role'') ''assistant''
          then (case dget m ''content'' of JList content \<Rightarrow> content | _ \<Rightarrow> [])
          else []
      | _ \<Rightarrow> [])"

definition assistant_blocks :: "body \<Rightarrow> json list" where
  "assistant_blocks body =
     (case dget body ''messages'' of JList ms \<Rightarrow> concat (map message_blocks ms) | _ \<Rightarrow> [])"

lemma message_blocks_filter: "message_blocks (filter_assistant_blocks keep m) = filter keep (message_blocks m)"
proof (cases m)
  case (JObj d)
  then show ?thesis
    by (cases "dget d ''content''")
      (simp_all only: message_blocks_def filter_assistant_blocks_def Let_def json.case, simp_all)
qed (simp_all add: message_blocks_def filter_assistant_blocks_def)

lemma assistant_blocks_filter:
  "dget body ''messages'' = filter_messages keep v \<Longrightarrow>
   assistant_blocks body = (case v of JList ms \<Rightarrow> filter keep (concat (map message_blocks ms)) | _ \<Rightarrow> [])"
  by (cases v) (simp_all add: assistant_blocks_def filter_messages_def filter_concat comp_def message_blocks_filter)

lemma assistant_blocks_kept:
  "dget body ''messages'' = filter_messages keep v \<Longrightarrow> b \<in> set (assistant_blocks body) \<Longrightarrow> keep b"
  by (cases v) (auto simp: assistant_blocks_filter)

lemma sanitized_blocks:
  assumes "dget body ''messages'' = sanitize_native_messages_thinking_policy v thinking_enabled"
    and "b \<in> set (assistant_blocks body)"
  shows "if thinking_enabled then is_thinking_block b \<longrightarrow> is_signed b
    else \<not> is_thinking_block b \<and> \<not> is_redacted_block b"
  using assistant_blocks_kept [OF assms(1) [unfolded sanitize_native_messages_thinking_policy_def] assms(2)]
  by (auto split: if_splits)


lemma dset_dset [simp]: "dset (dset d k v) k w = dset d k w"
  unfolding dset_def by (induction d) auto




lemma base_body_hides_thinking:
  assumes "b \<in> set (assistant_blocks (build_base_native_anthropic_request_body dump default_max_tokens thinking_enabled))"
  shows "if thinking_enabled then is_thinking_block b \<longrightarrow> is_signed b
    else \<not> is_thinking_block b \<and> \<not> is_redacted_block b"
proof -
  let ?body = "build_base_native_anthropic_request_body dump default_max_tokens thinking_enabled"
  obtain d where d: "?body = (if has_field d ''messages''
         then dset d ''messages'' (sanitize_native_messages_thinking_policy (dget d ''messages'') thinking_enabled)
         else d)"
    unfolding build_base_native_anthropic_request_body_def Let_def by blast
  have "has_field d ''messages''"
  proof (rule ccontr)
    assume "\<not> has_field d ''messages''"
    then have "dget ?body ''messages'' = JNull" using d by (simp add: has_field_def dget_def)
    with assms show False by (simp add: assistant_blocks_def)
  qed
  with d have "dget ?body ''messages'' = sanitize_native_messages_thinking_policy (dget d ''messages'') thinking_enabled"
    by simp
  from sanitized_blocks [OF this assms] show ?thesis .
qed

section \<open>Reserved fields\<close>




definition example_dump :: "body \<Rightarrow> body" where
  "example_dump extra =
     [(u ''model'', JStr (u ''vendor/model'')),
      (u ''messages'', JList
        [JObj [(u ''role'', JStr (u ''assistant'')), (u ''content'', JList
          [JObj [(u ''type'', JStr (u ''thinking'')), (u ''thinking'', JStr (u ''secret''))],
           JObj [(u ''type'', JStr (u ''text'')), (u ''text'', JStr (u ''hello''))]])]]),
      (u ''thinking'', JObj [(u ''enabled'', JBool True), (u ''budget_tokens'', JInt 100)]),
      (u ''extra_body'', JObj extra)]"


text \<open>The reserved keys leave out \<open>thinking\<close> and \<open>reasoning\<close>: an \<open>extra_body\<close> switches thinking on although it is disabled.\<close>

lemma extra_body_restores_thinking:
  "dget (projr (openrouter_build_request_body
      (example_dump [(u ''thinking'', JObj [(u ''type'', JStr (u ''enabled''))])]) False)) ''thinking''
   = JObj [(u ''type'', JStr (u ''enabled''))]"
  by code_simp

text \<open>Nor does the policy look at the \<open>reasoning_content\<close> of a message: the reasoning of earlier turns is
  sent although thinking is disabled.\<close>

lemma reasoning_content_is_sent:
  "dget (projr (openrouter_build_request_body
      [(u ''model'', JStr (u ''m'')), (u ''messages'', JList
         [JObj [(u ''role'', JStr (u ''assistant'')), (u ''content'', JStr (u ''hello'')),
                (u ''reasoning_content'', JStr (u ''secret''))]])] False)) ''messages''
   = JList [JObj [(u ''role'', JStr (u ''assistant'')), (u ''content'', JStr (u ''hello'')),
                  (u ''reasoning_content'', JStr (u ''secret''))]]"
  by code_simp

end
