(* ===== verification/Deepseek_Request.thy ===== *)
theory Deepseek_Request
  imports Native_Request
begin

text \<open>
  Request bodies for DeepSeek (\<open>providers/deepseek/request.py\<close>): validation, the decision whether
  thinking can be kept, and the clean-up of the history. As in \<open>Native_Request\<close> the dump of a
  validated request is the argument; only inside a tool result a block may be anything.
\<close>

datatype deepseek_error =
    UnsupportedBlock pystr pystr
  | McpServers
  | ServerListedTool
  | UnhashableType

definition unsupported_message_block_types :: "pystr set" where
  "unsupported_message_block_types =
     u ` {''image'', ''document'', ''server_tool_use'', ''web_search_tool_result'', ''web_fetch_tool_result''}"

definition is_server_listed_tool :: "body \<Rightarrow> bool" where
  "is_server_listed_tool tool =
     (let name = strip (case dget tool ''name'' of JStr n \<Rightarrow> n | _ \<Rightarrow> [])
      in name \<in> u ` {''web_search'', ''web_fetch''}
         \<or> (case dget tool ''type'' of
              JStr typ \<Rightarrow> startswith typ (u ''web_search'') \<or> startswith typ (u ''web_fetch'')
            | _ \<Rightarrow> False))"

lemma dget_list_size:
  assumes "dget d k = JList xs"
  shows "size_list size xs < size_list (size_prod (\<lambda>x. 0) size) d"
proof -
  have "(u k, JList xs) \<in> set d" using assms by (auto simp: dget_def split: option.splits dest: map_of_SomeD)
  then have "size_prod (\<lambda>x. 0) size (u k, JList xs) \<le> size_list (size_prod (\<lambda>x. 0) size) d"
    by (rule size_list_estimation') simp
  then show ?thesis by simp
qed

text \<open>The walk over a list of blocks and the contents of tool results: the first error, if any. A type
  that is a list or an object cannot be looked up in a set.\<close>

function walk_block_list_for_unsupported :: "json list \<Rightarrow> pystr \<Rightarrow> deepseek_error option" where
  "walk_block_list_for_unsupported [] where_text = None"
| "walk_block_list_for_unsupported (block # blocks) where_text =
     (case block of
        JObj b \<Rightarrow>
          (case dget b ''type'' of
             JStr t \<Rightarrow>
               if t \<in> unsupported_message_block_types then Some (UnsupportedBlock t where_text)
               else
                 (case (if t = u ''tool_result''
                        then (case dget b ''content'' of
                                JList inner \<Rightarrow>
                                  walk_block_list_for_unsupported inner (where_text @ u '' (tool_result content)'')
                              | _ \<Rightarrow> None)
                        else None) of
                    Some err \<Rightarrow> Some err
                  | None \<Rightarrow> walk_block_list_for_unsupported blocks where_text)
           | JList _ \<Rightarrow> Some UnhashableType
           | JObj _ \<Rightarrow> Some UnhashableType
           | _ \<Rightarrow> walk_block_list_for_unsupported blocks where_text)
      | _ \<Rightarrow> walk_block_list_for_unsupported blocks where_text)"
  by pat_completeness auto
termination
  by (relation "measure (\<lambda>(blocks, w). size_list size blocks)") (auto dest!: dget_list_size)

fun walk_messages :: "json list \<Rightarrow> nat \<Rightarrow> deepseek_error option" where
  "walk_messages [] i = None"
| "walk_messages (message # messages) i =
     (case (case message of
              JObj m \<Rightarrow>
                (case dget m ''content'' of
                   JList c \<Rightarrow> walk_block_list_for_unsupported c
                     (u ''messages['' @ nat_text i @ u ''].content'')
                 | _ \<Rightarrow> None)
            | _ \<Rightarrow> None) of
        Some err \<Rightarrow> Some err
      | None \<Rightarrow> walk_messages messages (i + 1))"

definition items_of :: "json \<Rightarrow> json list" where
  "items_of v = (case v of JList xs \<Rightarrow> xs | _ \<Rightarrow> [])"

definition validate_deepseek_native_request_dict :: "body \<Rightarrow> deepseek_error option" where
  "validate_deepseek_native_request_dict data =
     (if truthy (dget data ''mcp_servers'') then Some McpServers
      else if list_ex (\<lambda>tool. case tool of JObj t \<Rightarrow> is_server_listed_tool t | _ \<Rightarrow> False)
                (items_of (dget data ''tools'')) then Some ServerListedTool
      else
        (case walk_messages (items_of (dget data ''messages'')) 0 of
           Some err \<Rightarrow> Some err
         | None \<Rightarrow>
             (case dget data ''system'' of
                JList blocks \<Rightarrow> walk_block_list_for_unsupported blocks (u ''system'')
              | _ \<Rightarrow> None)))"

section \<open>Tool history\<close>

definition content_blocks :: "body \<Rightarrow> body list" where
  "content_blocks message =
     (case dget message ''content'' of
        JList content \<Rightarrow> map obj_of (filter is_obj content)
      | _ \<Rightarrow> [])"

definition has_tool_history_blocks :: "body \<Rightarrow> bool" where
  "has_tool_history_blocks message =
     list_ex (\<lambda>b. is_text (dget message ''role'') ''assistant'' \<and> is_text (dget b ''type'') ''tool_use''
                \<or> is_text (dget message ''role'') ''user'' \<and> is_text (dget b ''type'') ''tool_result'')
       (content_blocks message)"

fun replayable_scan :: "body list \<Rightarrow> bool \<Rightarrow> bool" where
  "replayable_scan [] has_thinking = False"
| "replayable_scan (b # bs) has_thinking =
     (if is_text (dget b ''type'') ''thinking'' \<and> is_str (dget b ''thinking'')
      then replayable_scan bs (truthy (dget b ''thinking''))
      else if is_text (dget b ''type'') ''tool_use'' then has_thinking
      else replayable_scan bs has_thinking)"

definition has_replayable_thinking_before_tool_use :: "body \<Rightarrow> bool" where
  "has_replayable_thinking_before_tool_use message =
     (is_text (dget message ''role'') ''assistant'' \<and> replayable_scan (content_blocks message) False)"

definition message_dicts :: "body \<Rightarrow> body list" where
  "message_dicts data = map obj_of (filter is_obj (items_of (dget data ''messages'')))"

definition has_tool_history :: "body \<Rightarrow> bool" where
  "has_tool_history data = list_ex has_tool_history_blocks (message_dicts data)"

definition has_replayable_tool_thinking :: "body \<Rightarrow> bool" where
  "has_replayable_tool_thinking data = list_ex has_replayable_thinking_before_tool_use (message_dicts data)"

section \<open>The body\<close>

definition drop_effort :: "body \<Rightarrow> body" where
  "drop_effort data =
     (case dget data ''output_config'' of
        JObj output_config \<Rightarrow>
          if has_field output_config ''effort''
          then (let cleaned = ddel output_config ''effort''
                in if cleaned \<noteq> [] then dset data ''output_config'' (JObj cleaned)
                   else ddel data ''output_config'')
          else data
      | _ \<Rightarrow> data)"

definition clears_thinking :: "json \<Rightarrow> bool" where
  "clears_thinking edit =
     (case edit of
        JObj e \<Rightarrow> (case dget e ''type'' of JStr t \<Rightarrow> startswith t (u ''clear_thinking_'') | _ \<Rightarrow> False)
      | _ \<Rightarrow> False)"

definition remove_deepseek_thinking_hints :: "body \<Rightarrow> body" where
  "remove_deepseek_thinking_hints data0 =
     (let data = drop_effort data0
      in case dget data ''context_management'' of
           JObj context_management \<Rightarrow>
             (case dget context_management ''edits'' of
                JList edits \<Rightarrow>
                  (let filtered_edits = filter (\<lambda>e. \<not> clears_thinking e) edits
                   in if length filtered_edits = length edits then data
                      else if filtered_edits \<noteq> []
                      then dset data ''context_management''
                             (JObj (dset context_management ''edits'' (JList filtered_edits)))
                      else
                        (let cleaned = ddel context_management ''edits''
                         in if cleaned \<noteq> [] then dset data ''context_management'' (JObj cleaned)
                            else ddel data ''context_management''))
              | _ \<Rightarrow> data)
         | _ \<Rightarrow> data)"

definition sanitize_deepseek_messages_for_native :: "json \<Rightarrow> bool \<Rightarrow> json" where
  "sanitize_deepseek_messages_for_native messages thinking_enabled =
     filter_messages
       (\<lambda>block. if \<not> thinking_enabled then \<not> (is_thinking_block block \<or> is_redacted_block block)
                else \<not> is_redacted_block block)
       messages"

definition strip_reasoning_content_when_native :: "json \<Rightarrow> json" where
  "strip_reasoning_content_when_native messages =
     (case messages of
        JList ms \<Rightarrow> JList (map (\<lambda>m. case m of JObj d \<Rightarrow> JObj (ddel d ''reasoning_content'') | _ \<Rightarrow> m) ms)
      | _ \<Rightarrow> messages)"

definition deepseek_build_request_body :: "body \<Rightarrow> bool \<Rightarrow> deepseek_error + body" where
  "deepseek_build_request_body dump thinking_enabled =
     (case validate_deepseek_native_request_dict dump of
        Some err \<Rightarrow> Inl err
      | None \<Rightarrow>
          (let data = ddel dump ''extra_body'';
               unsafe_tool_followup = (has_tool_history data \<and> \<not> has_replayable_tool_thinking data);
               effective_thinking_enabled = (thinking_enabled \<and> \<not> unsafe_tool_followup);
               data = (if thinking_enabled \<and> unsafe_tool_followup
                       then remove_deepseek_thinking_hints data else data);
               thinking_cfg = dget data ''thinking'';
               data = ddel data ''thinking'';
               data = (case thinking_cfg of
                   JObj cfg \<Rightarrow> if effective_thinking_enabled
                               then dset data ''thinking'' (thinking_payload cfg) else data
                 | _ \<Rightarrow> data);
               data = (if has_field data ''messages''
                   then dset data ''messages'' (strip_reasoning_content_when_native
                          (sanitize_deepseek_messages_for_native (dget data ''messages'') effective_thinking_enabled))
                   else data);
               data = (if dget data ''max_tokens'' = JNull
                       then dset data ''max_tokens'' anthropic_default_max_output_tokens else data)
           in Inr (dset data ''stream'' (JBool True))))"

section \<open>What the clean-up keeps\<close>


text \<open>A message as the body carries it.\<close>

definition cleaned_message :: "(json \<Rightarrow> bool) \<Rightarrow> body \<Rightarrow> body" where
  "cleaned_message keep m = ddel (obj_of (filter_assistant_blocks keep (JObj m))) ''reasoning_content''"



lemma cleaned_role [simp]: "dget (cleaned_message keep m) ''role'' = dget m ''role''"
  by (cases "dget m ''content''") (auto simp: cleaned_message_def filter_assistant_blocks_def Let_def)










definition example_tool_dump :: "body list \<Rightarrow> body" where
  "example_tool_dump blocks =
     [(u ''model'', JStr (u ''deepseek'')),
      (u ''messages'', JList
        [JObj [(u ''role'', JStr (u ''assistant'')), (u ''reasoning_content'', JStr (u ''x'')),
               (u ''content'', JList (map JObj (blocks @ [[(u ''type'', JStr (u ''tool_use''))]])))],
         JObj [(u ''role'', JStr (u ''user'')),
               (u ''content'', JList [JObj [(u ''type'', JStr (u ''tool_result''))]])]]),
      (u ''thinking'', JObj [(u ''type'', JStr (u ''enabled''))])]"


text \<open>Without thinking to replay, thinking is switched off.\<close>

lemma tool_history_without_thinking:
  "has_field (projr (deepseek_build_request_body (example_tool_dump []) True)) ''thinking'' = False"
  by code_simp

end
