(* ===== verification/Nim_Request.thy ===== *)
theory Nim_Request
  imports Conversion Native_Request
begin

text \<open>
  Request bodies for NVIDIA NIM (\<open>providers/nvidia_nim/request.py\<close>, \<open>config/nim.py\<close>, the retry rule of
  \<open>providers/nvidia_nim/client.py\<close>): the converted conversation with NIM's limits and defaults, tool
  schemas without boolean subschemas, and the reduced bodies a rejected request is retried with.
  The client's \<open>extra_body\<close> is a dictionary of the request, and what the code changes in it is part
  of the result.
\<close>

section \<open>Tool schemas\<close>

definition schema_value_keys :: "pystr set" where
  "schema_value_keys = u ` {''additionalProperties'', ''additionalItems'', ''unevaluatedProperties'',
     ''unevaluatedItems'', ''items'', ''contains'', ''propertyNames'', ''if'', ''then'', ''else'', ''not''}"

definition schema_list_keys :: "pystr set" where
  "schema_list_keys = u ` {''allOf'', ''anyOf'', ''oneOf'', ''prefixItems''}"

definition schema_map_keys :: "pystr set" where
  "schema_map_keys = u ` {''properties'', ''patternProperties'', ''$defs'', ''definitions'', ''dependentSchemas''}"

text \<open>\<open>_sanitize_nim_schema_node\<close>, with its loops; \<open>None\<close> when the node is not kept.\<close>

fun sanitize_node :: "json \<Rightarrow> json option"
  and sanitize_items :: "json list \<Rightarrow> json list"
  and sanitize_map :: "body \<Rightarrow> body"
  and sanitize_fields :: "body \<Rightarrow> body" where
  "sanitize_node (JBool b) = None"
| "sanitize_node (JObj d) = Some (JObj (sanitize_fields d))"
| "sanitize_node (JList xs) = Some (JList (sanitize_items xs))"
| "sanitize_node v = Some v"
| "sanitize_items [] = []"
| "sanitize_items (x # xs) =
     (case sanitize_node x of None \<Rightarrow> sanitize_items xs | Some y \<Rightarrow> y # sanitize_items xs)"
| "sanitize_map [] = []"
| "sanitize_map ((map_key, x) # rest) =
     (case sanitize_node x of None \<Rightarrow> sanitize_map rest | Some y \<Rightarrow> (map_key, y) # sanitize_map rest)"
| "sanitize_fields [] = []"
| "sanitize_fields ((key, x) # rest) =
     (if key \<in> schema_value_keys
      then (case sanitize_node x of None \<Rightarrow> sanitize_fields rest | Some y \<Rightarrow> (key, y) # sanitize_fields rest)
      else
        (case x of
           JList xs \<Rightarrow>
             if key \<in> schema_list_keys
             then (let ys = sanitize_items xs
                   in if ys \<noteq> [] then (key, JList ys) # sanitize_fields rest else sanitize_fields rest)
             else (key, x) # sanitize_fields rest
         | JObj m \<Rightarrow>
             if key \<in> schema_map_keys then (key, JObj (sanitize_map m)) # sanitize_fields rest
             else (key, x) # sanitize_fields rest
         | _ \<Rightarrow> (key, x) # sanitize_fields rest))"

definition sanitize_tool :: "json \<Rightarrow> json" where
  "sanitize_tool tool =
     (case tool of
        JObj t \<Rightarrow>
          (case dget t ''function'' of
             JObj function \<Rightarrow>
               JObj (dset t ''function''
                 (JObj (case dget function ''parameters'' of
                          JObj parameters \<Rightarrow> dset function ''parameters'' (JObj (sanitize_fields parameters))
                        | _ \<Rightarrow> function)))
           | _ \<Rightarrow> tool)
      | _ \<Rightarrow> tool)"

definition sanitize_nim_tool_schemas :: "body \<Rightarrow> body" where
  "sanitize_nim_tool_schemas body =
     (case dget body ''tools'' of
        JList tools \<Rightarrow> dset body ''tools'' (JList (map sanitize_tool tools))
      | _ \<Rightarrow> body)"

section \<open>The body\<close>

record nim_settings =
  nim_temperature :: json
  nim_top_p :: json
  nim_top_k :: int
  nim_max_tokens :: int
  nim_presence_penalty :: json
  nim_frequency_penalty :: json
  nim_min_p :: json
  nim_repetition_penalty :: json
  nim_seed :: json
  nim_stop :: json
  nim_parallel_tool_calls :: bool
  nim_ignore_eos :: bool
  nim_min_tokens :: int
  nim_chat_template :: json
  nim_request_id :: json

definition default_nim_settings :: nim_settings where
  "default_nim_settings =
     \<lparr>nim_temperature = JFloat False (u ''1.0''), nim_top_p = JFloat False (u ''1.0''), nim_top_k = - 1,
      nim_max_tokens = 81920, nim_presence_penalty = JFloat True (u ''0.0''),
      nim_frequency_penalty = JFloat True (u ''0.0''), nim_min_p = JFloat True (u ''0.0''),
      nim_repetition_penalty = JFloat False (u ''1.0''), nim_seed = JNull, nim_stop = JNull,
      nim_parallel_tool_calls = True, nim_ignore_eos = False, nim_min_tokens = 0,
      nim_chat_template = JNull, nim_request_id = JNull\<rparr>"

definition nim_set_extra :: "string \<Rightarrow> json \<Rightarrow> (json \<Rightarrow> bool) \<Rightarrow> body \<Rightarrow> body" where
  "nim_set_extra key value ignored extra_body =
     (if has_field extra_body key then extra_body
      else if value = JNull then extra_body
      else if ignored value then extra_body
      else dset extra_body key value)"

definition nim_max_tokens_of :: "nim_settings \<Rightarrow> json \<Rightarrow> json \<Rightarrow> json" where
  "nim_max_tokens_of nim body_max request_max =
     (case (if truthy body_max then body_max else request_max) of
        JNull \<Rightarrow> JInt (nim_max_tokens nim)
      | JInt n \<Rightarrow> if nim_max_tokens nim \<noteq> 0 then JInt (min n (nim_max_tokens nim)) else JInt n
      | v \<Rightarrow> v)"

text \<open>The thinking switch in the extra parameters. A dictionary the client sent is changed in place.\<close>

definition nim_thinking_kwargs :: "json \<Rightarrow> body \<Rightarrow> body" where
  "nim_thinking_kwargs max_tokens extra_body =
     (let extra = dsetdefault extra_body ''chat_template_kwargs''
            (JObj [(u ''thinking'', JBool True), (u ''enable_thinking'', JBool True)])
      in case dget extra ''chat_template_kwargs'' of
           JObj kwargs \<Rightarrow> dset extra ''chat_template_kwargs'' (JObj (dsetdefault kwargs ''reasoning_budget'' max_tokens))
         | _ \<Rightarrow> extra)"

definition client_extra_after :: "json \<Rightarrow> bool \<Rightarrow> body option \<Rightarrow> body option" where
  "client_extra_after max_tokens thinking_enabled request_extra =
     map_option (\<lambda>extra.
        if thinking_enabled \<and> has_field extra ''chat_template_kwargs'' then nim_thinking_kwargs max_tokens extra
        else extra) request_extra"

definition nim_extra_body ::
  "nim_settings \<Rightarrow> json \<Rightarrow> bool \<Rightarrow> body option \<Rightarrow> json \<Rightarrow> body" where
  "nim_extra_body nim max_tokens thinking_enabled request_extra req_top_k =
     (let extra_body = (case request_extra of None \<Rightarrow> [] | Some extra \<Rightarrow> extra);
          extra_body = (if thinking_enabled then nim_thinking_kwargs max_tokens extra_body else extra_body);
          top_k = (if req_top_k \<noteq> JNull then req_top_k else JInt (nim_top_k nim))
      in nim_set_extra ''ignore_eos'' (JBool (nim_ignore_eos nim)) (\<lambda>_. False)
        (nim_set_extra ''request_id'' (nim_request_id nim) (\<lambda>_. False)
        (nim_set_extra ''chat_template'' (nim_chat_template nim) (\<lambda>_. False)
        (nim_set_extra ''min_tokens'' (JInt (nim_min_tokens nim)) (\<lambda>v. v = JInt 0)
        (nim_set_extra ''repetition_penalty'' (nim_repetition_penalty nim) (\<lambda>v. v = JFloat False (u ''1.0''))
        (nim_set_extra ''min_p'' (nim_min_p nim) (\<lambda>v. \<not> truthy v)
        (nim_set_extra ''top_k'' top_k (\<lambda>v. v = JInt (- 1)) extra_body)))))))"

definition nim_build_request_body ::
  "pylib \<Rightarrow> request_data \<Rightarrow> body option \<Rightarrow> json \<Rightarrow> nim_settings \<Rightarrow> bool \<Rightarrow> (body \<times> body option) conv" where
  "nim_build_request_body p rd request_extra req_top_k nim thinking_enabled =
     conv_bind (build_base_request_body p JNull (if thinking_enabled then REASONING_CONTENT else DISABLED) rd)
      (\<lambda>base.
        (let body = sanitize_nim_tool_schemas base;
             max_tokens = nim_max_tokens_of nim (dget body ''max_tokens'') (rd_max_tokens rd);
             body = set_if_not_none body ''max_tokens'' max_tokens;
             body = (if dget body ''temperature'' = JNull \<and> nim_temperature nim \<noteq> JNull
                     then dset body ''temperature'' (nim_temperature nim) else body);
             body = (if dget body ''top_p'' = JNull \<and> nim_top_p nim \<noteq> JNull
                     then dset body ''top_p'' (nim_top_p nim) else body);
             body = (if \<not> has_field body ''stop'' \<and> truthy (nim_stop nim)
                     then dset body ''stop'' (nim_stop nim) else body);
             body = (if truthy (nim_presence_penalty nim)
                     then dset body ''presence_penalty'' (nim_presence_penalty nim) else body);
             body = (if truthy (nim_frequency_penalty nim)
                     then dset body ''frequency_penalty'' (nim_frequency_penalty nim) else body);
             body = (if nim_seed nim \<noteq> JNull then dset body ''seed'' (nim_seed nim) else body);
             body = dset body ''parallel_tool_calls'' (JBool (nim_parallel_tool_calls nim));
             extra_body = nim_extra_body nim max_tokens thinking_enabled request_extra req_top_k
         in Inr (if extra_body \<noteq> [] then dset body ''extra_body'' (JObj extra_body) else body,
                 client_extra_after max_tokens thinking_enabled request_extra)))"

section \<open>Reduced bodies\<close>

text \<open>Removing fields of \<open>extra_body\<close>: whether something was there, and the rest.\<close>

definition strip_reasoning_budget_fields :: "body \<Rightarrow> bool \<times> body" where
  "strip_reasoning_budget_fields extra_body =
     (let removed = (dget extra_body ''reasoning_budget'' \<noteq> JNull);
          extra = ddel extra_body ''reasoning_budget''
      in case dget extra ''chat_template_kwargs'' of
           JObj kwargs \<Rightarrow> (removed \<or> dget kwargs ''reasoning_budget'' \<noteq> JNull,
                           dset extra ''chat_template_kwargs'' (JObj (ddel kwargs ''reasoning_budget'')))
         | _ \<Rightarrow> (removed, extra))"

definition strip_chat_template_field :: "body \<Rightarrow> bool \<times> body" where
  "strip_chat_template_field extra_body =
     (dget extra_body ''chat_template'' \<noteq> JNull, ddel extra_body ''chat_template'')"

definition clone_strip_extra_body :: "body \<Rightarrow> (body \<Rightarrow> bool \<times> body) \<Rightarrow> body option" where
  "clone_strip_extra_body body strip_fields =
     (case dget body ''extra_body'' of
        JObj extra_body \<Rightarrow>
          (case strip_fields extra_body of
             (removed, rest) \<Rightarrow>
               if \<not> removed then None
               else if rest = [] then Some (ddel body ''extra_body'')
               else Some (dset body ''extra_body'' (JObj rest)))
      | _ \<Rightarrow> None)"

definition clone_body_without_reasoning_budget :: "body \<Rightarrow> body option" where
  "clone_body_without_reasoning_budget body = clone_strip_extra_body body strip_reasoning_budget_fields"

definition clone_body_without_chat_template :: "body \<Rightarrow> body option" where
  "clone_body_without_chat_template body = clone_strip_extra_body body strip_chat_template_field"

definition has_reasoning_content :: "json \<Rightarrow> bool" where
  "has_reasoning_content message =
     (case message of JObj m \<Rightarrow> dget m ''reasoning_content'' \<noteq> JNull | _ \<Rightarrow> False)"

definition pop_reasoning_content :: "json \<Rightarrow> json" where
  "pop_reasoning_content message =
     (case message of JObj m \<Rightarrow> JObj (ddel m ''reasoning_content'') | _ \<Rightarrow> message)"

definition clone_body_without_reasoning_content :: "body \<Rightarrow> body option" where
  "clone_body_without_reasoning_content body =
     (case dget body ''messages'' of
        JList messages \<Rightarrow>
          if list_ex has_reasoning_content messages
          then Some (dset body ''messages'' (JList (map pop_reasoning_content messages)))
          else None
      | _ \<Rightarrow> None)"

text \<open>\<open>_get_retry_request_body\<close>, on whether the answer was a bad request and on its text in lower case.\<close>

definition get_retry_request_body :: "bool \<Rightarrow> pystr \<Rightarrow> body \<Rightarrow> body option" where
  "get_retry_request_body bad_request error_text body =
     (if \<not> bad_request then None
      else if contains error_text (u ''reasoning_budget'') then clone_body_without_reasoning_budget body
      else if contains error_text (u ''chat_template'') then clone_body_without_chat_template body
      else if contains error_text (u ''reasoning_content'') then clone_body_without_reasoning_content body
      else None)"

section \<open>Schemas without boolean subschemas\<close>

text \<open>No boolean stands where a schema is expected, and no list of alternatives is empty.\<close>

fun clean_node :: "json \<Rightarrow> bool"
  and clean_items :: "json list \<Rightarrow> bool"
  and clean_map :: "body \<Rightarrow> bool"
  and clean_fields :: "body \<Rightarrow> bool" where
  "clean_node (JBool b) = False"
| "clean_node (JObj d) = clean_fields d"
| "clean_node (JList xs) = clean_items xs"
| "clean_node v = True"
| "clean_items [] = True"
| "clean_items (x # xs) = (clean_node x \<and> clean_items xs)"
| "clean_map [] = True"
| "clean_map ((map_key, x) # rest) = (clean_node x \<and> clean_map rest)"
| "clean_fields [] = True"
| "clean_fields ((key, x) # rest) =
     ((if key \<in> schema_value_keys then clean_node x
       else (case x of
               JList xs \<Rightarrow> key \<in> schema_list_keys \<longrightarrow> xs \<noteq> [] \<and> clean_items xs
             | JObj m \<Rightarrow> key \<in> schema_map_keys \<longrightarrow> clean_map m
             | _ \<Rightarrow> True))
      \<and> clean_fields rest)"

lemma sanitized_clean:
  "sanitize_node v = Some w \<Longrightarrow> clean_node w"
  "clean_items (sanitize_items xs)"
  "clean_map (sanitize_map m)"
  "clean_fields (sanitize_fields d)"
proof (induction v and xs and m and d arbitrary: w rule: sanitize_node_sanitize_items_sanitize_map_sanitize_fields.induct, goal_cases)
  case (13 key x rest)
  then show ?case by (cases x) (auto simp: Let_def split: option.split)
qed (auto split: option.splits)

lemma clean_unchanged:
  "clean_node v \<Longrightarrow> sanitize_node v = Some v"
  "clean_items xs \<Longrightarrow> sanitize_items xs = xs"
  "clean_map m \<Longrightarrow> sanitize_map m = m"
  "clean_fields d \<Longrightarrow> sanitize_fields d = d"
proof (induction v and xs and m and d rule: clean_node_clean_items_clean_map_clean_fields.induct, goal_cases)
  case (13 key x rest)
  from 13(5) have "clean_fields rest" by simp
  with 13(4) have rest: "sanitize_fields rest = rest" .
  show ?case
  proof (cases "key \<in> schema_value_keys")
    case True
    with 13(1,5) rest show ?thesis by simp
  next
    case False
    with 13(2,3,5) rest show ?thesis by (cases x) simp_all
  qed
qed simp_all


lemma schema_sanitizing_idempotent: "sanitize_fields (sanitize_fields d) = sanitize_fields d"
  by (rule clean_unchanged(4) [OF sanitized_clean(4)])

text \<open>The parameters of a tool.\<close>

definition tool_parameters :: "json \<Rightarrow> json" where
  "tool_parameters tool = dget (obj_of (dget (obj_of tool) ''function'')) ''parameters''"

definition tools_of :: "body \<Rightarrow> json list" where
  "tools_of body = (case dget body ''tools'' of JList tools \<Rightarrow> tools | _ \<Rightarrow> [])"

lemma sanitize_tool_clean: "tool_parameters (sanitize_tool t) = JObj ps \<Longrightarrow> clean_fields ps"
proof (cases t)
  case (JObj d)
  assume a: "tool_parameters (sanitize_tool t) = JObj ps"
  show ?thesis
  proof (cases "dget d ''function''")
    case (JObj f)
    with \<open>t = JObj d\<close> a show ?thesis
      by (cases "dget f ''parameters''") (auto simp: tool_parameters_def sanitize_tool_def sanitized_clean(4))
  qed (use a \<open>t = JObj d\<close> in \<open>simp_all add: tool_parameters_def sanitize_tool_def\<close>)
qed (simp_all add: tool_parameters_def sanitize_tool_def)

lemma sanitize_tool_unchanged:
  assumes "\<And>ps. tool_parameters t = JObj ps \<Longrightarrow> clean_fields ps"
  shows "tool_parameters (sanitize_tool t) = tool_parameters t"
proof (cases t)
  case (JObj d)
  show ?thesis
  proof (cases "dget d ''function''")
    case (JObj f)
    with \<open>t = JObj d\<close> assms show ?thesis
      by (cases "dget f ''parameters''") (auto simp: tool_parameters_def sanitize_tool_def clean_unchanged(4))
  qed (use \<open>t = JObj d\<close> in \<open>simp_all add: tool_parameters_def sanitize_tool_def\<close>)
qed (simp_all add: tool_parameters_def sanitize_tool_def)

lemma dget_set_if_not_none: "dget (set_if_not_none d k v) k' = (if k' = k \<and> v \<noteq> JNull then v else dget d k')"
  by (simp add: set_if_not_none_def)

lemma dget_if_dset: "dget (if b then dset d k v else d) k' = (if b \<and> k' = k then v else dget d k')"
  by simp

lemma base_max_tokens:
  assumes "build_base_request_body p JNull replay rd = Inr base"
  shows "dget base ''max_tokens'' = (if truthy (rd_max_tokens rd) then rd_max_tokens rd else JNull)"
proof -
  obtain messages system_msg where
    "base = (let messages = (case system_msg of None \<Rightarrow> messages | Some m \<Rightarrow> m # messages);
            body = [(u ''model'', rd_model rd), (u ''messages'', JList (map JObj messages))];
            body = set_if_not_none body ''max_tokens'' (if truthy (rd_max_tokens rd) then rd_max_tokens rd else JNull);
            body = set_if_not_none body ''temperature'' (rd_temperature rd);
            body = set_if_not_none body ''top_p'' (rd_top_p rd);
            body = (if truthy (rd_stop_sequences rd) then dset body ''stop'' (rd_stop_sequences rd) else body);
            body = (if rd_tools rd \<noteq> [] then dset body ''tools'' (JList (convert_tools (rd_tools rd))) else body);
            body = (if truthy (rd_tool_choice rd)
                    then dset body ''tool_choice'' (convert_tool_choice (rd_tool_choice rd)) else body)
        in body)"
    using assms unfolding build_base_request_body_def conv_bind_Inr Let_def by auto
  then show ?thesis by (simp add: Let_def dget_set_if_not_none)
qed

text \<open>Claim C16: a body for NIM has the converted messages, tool schemas in which no boolean stands where
  a schema is expected (and which are the given ones where none stood there), and at most NIM's number
  of tokens.\<close>

theorem nim_body_is_acceptable:
  assumes "nim_build_request_body p rd request_extra req_top_k nim thinking_enabled = Inr (body, extra_after)"
    and "build_base_request_body p JNull (if thinking_enabled then REASONING_CONTENT else DISABLED) rd = Inr base"
    and "nim_max_tokens nim > 0" and "rd_max_tokens rd = JNull \<or> (\<exists>n. rd_max_tokens rd = JInt n)"
  shows "dget body ''messages'' = dget base ''messages''
    \<and> length (tools_of body) = length (tools_of base)
    \<and> (\<forall>i < length (tools_of body).
         (case tool_parameters (tools_of body ! i) of JObj ps \<Rightarrow> clean_fields ps | _ \<Rightarrow> True)
         \<and> ((case tool_parameters (tools_of base ! i) of JObj ps \<Rightarrow> clean_fields ps | _ \<Rightarrow> True)
            \<longrightarrow> tool_parameters (tools_of body ! i) = tool_parameters (tools_of base ! i)))
    \<and> (\<exists>n. dget body ''max_tokens'' = JInt n \<and> n \<le> nim_max_tokens nim)"
proof -
  define mt where "mt = nim_max_tokens_of nim (dget (sanitize_nim_tool_schemas base) ''max_tokens'') (rd_max_tokens rd)"
  define s where "s = set_if_not_none (sanitize_nim_tool_schemas base) ''max_tokens'' mt"
  have body: "dget body k = dget s k" if "k \<in> {''messages'', ''tools'', ''max_tokens''}" for k
    using assms(1) that
    unfolding nim_build_request_body_def assms(2) conv_bind_simps Let_def mt_def [symmetric] s_def [symmetric]
    by (auto simp: dget_if_dset split del: if_split)
  have sane: "dget (sanitize_nim_tool_schemas base) k = dget base k" if "k \<noteq> ''tools''" for k
    using that by (simp add: sanitize_nim_tool_schemas_def split: json.split)
  have messages: "dget body ''messages'' = dget base ''messages''"
    using body [of "''messages''"] sane [of "''messages''"] by (simp add: s_def dget_set_if_not_none)
  have tools: "tools_of body = map sanitize_tool (tools_of base)"
    using body [of "''tools''"]
    by (cases "dget base ''tools''") (simp_all add: s_def dget_set_if_not_none sanitize_nim_tool_schemas_def tools_of_def)
  have "mt = (case rd_max_tokens rd of JInt n \<Rightarrow> JInt (min n (nim_max_tokens nim)) | _ \<Rightarrow> JInt (nim_max_tokens nim))"
    using assms(3,4) sane [of "''max_tokens''"] base_max_tokens [OF assms(2)] by (auto simp: mt_def nim_max_tokens_of_def)
  then have "\<exists>n. mt = JInt n \<and> n \<le> nim_max_tokens nim" using assms(4) by auto
  moreover from this have "dget body ''max_tokens'' = mt"
    using body [of "''max_tokens''"] by (auto simp: s_def dget_set_if_not_none)
  moreover have "(case tool_parameters (tools_of body ! i) of JObj ps \<Rightarrow> clean_fields ps | _ \<Rightarrow> True)
      \<and> ((case tool_parameters (tools_of base ! i) of JObj ps \<Rightarrow> clean_fields ps | _ \<Rightarrow> True)
         \<longrightarrow> tool_parameters (tools_of body ! i) = tool_parameters (tools_of base ! i))" if "i < length (tools_of body)" for i
    using that sanitize_tool_clean [of "tools_of base ! i"] sanitize_tool_unchanged [of "tools_of base ! i"]
    by (auto simp: tools split: json.split)
  ultimately show ?thesis using messages tools by simp
qed

definition example_request :: request_data where
  "example_request =
     \<lparr>rd_model = JStr (u ''m''), rd_messages = [], rd_system = JNull, rd_max_tokens = JInt 100000,
      rd_temperature = JNull, rd_top_p = JNull, rd_stop_sequences = JNull,
      rd_tools = [\<lparr>tl_name = JStr (u ''t''), tl_description = JNull,
                   tl_input_schema = JObj [(u ''type'', JStr (u ''object'')), (u ''additionalProperties'', JBool False)]\<rparr>],
      rd_tool_choice = JNull, rd_extra = []\<rparr>"

theorem nim_body_is_acceptable_witness:
  "\<exists>body extra n. nim_build_request_body example_lib example_request None JNull default_nim_settings True = Inr (body, extra)
    \<and> length (tools_of body) = 1 \<and> dget body ''max_tokens'' = JInt n \<and> n \<le> 81920"
proof -
  let ?r = "nim_build_request_body example_lib example_request None JNull default_nim_settings True"
  have "\<not> isl ?r" "\<not> isl (build_base_request_body example_lib JNull REASONING_CONTENT example_request)" by code_simp+
  then obtain body extra base where r: "?r = Inr (body, extra)"
    and b: "build_base_request_body example_lib JNull REASONING_CONTENT example_request = Inr base"
    by (cases ?r; cases "build_base_request_body example_lib JNull REASONING_CONTENT example_request") auto
  have "length (tools_of (projr (build_base_request_body example_lib JNull REASONING_CONTENT example_request))) = 1" by code_simp
  then have one: "length (tools_of base) = 1" by (simp add: b)
  have max_tokens: "nim_max_tokens default_nim_settings = 81920" "rd_max_tokens example_request = JInt 100000"
    by (simp_all add: default_nim_settings_def example_request_def)
  from nim_body_is_acceptable [OF r, of base] b one max_tokens have
    "length (tools_of body) = 1 \<and> (\<exists>n. dget body ''max_tokens'' = JInt n \<and> n \<le> 81920)" by simp
  with r show ?thesis by blast
qed

text \<open>The budget is written into the client's own dictionary, where it stays for a later build.\<close>

lemma client_extra_is_changed:
  "client_extra_after (JInt 5) True (Some [(u ''chat_template_kwargs'', JObj [])])
     = Some [(u ''chat_template_kwargs'', JObj [(u ''reasoning_budget'', JInt 5)])]"
  by code_simp

text \<open>A retried body is a smaller one: the field the upstream complained about is gone.\<close>

lemma retry_without_reasoning_content:
  assumes "clone_body_without_reasoning_content body = Some body'"
  shows "\<exists>ms. dget body' ''messages'' = JList ms \<and> \<not> list_ex has_reasoning_content ms"
    and "k \<noteq> ''messages'' \<Longrightarrow> dget body' k = dget body k"
proof -
  have "\<not> has_reasoning_content (pop_reasoning_content m)" for m
    by (cases m) (simp_all add: has_reasoning_content_def pop_reasoning_content_def)
  with assms show "\<exists>ms. dget body' ''messages'' = JList ms \<and> \<not> list_ex has_reasoning_content ms"
    by (auto simp: clone_body_without_reasoning_content_def list_ex_iff split: json.splits if_splits)
  show "k \<noteq> ''messages'' \<Longrightarrow> dget body' k = dget body k"
    using assms by (auto simp: clone_body_without_reasoning_content_def split: json.splits if_splits)
qed

end
