(* ===== verification/Spec2Isabelle.thy ===== *)
theory Spec2Isabelle
  imports Errors Openai_Content Tree_Manager Rate_Limit Message_Limiter Conversion Native_Transport Provider_Registry Node_Pipeline Local_Answers Deepseek_Request Nim_Request
begin

text \<open>
  Verification library for \<open>fcc-proxy\<close> (\<open>src/plugins/fcc-proxy\<close>), the program of this repository: a
  proxy that answers Anthropic Messages requests from other model providers, and a messaging bot that
  runs Claude Code sessions from chat messages. All paths below are relative to that directory.

  \<^bold>\<open>How the parts work together.\<close> A request is routed to a provider. For a provider with an
  OpenAI-style interface the conversation is converted (\<open>core/anthropic/conversion.py\<close>), the call
  passes the provider's rate limiter (\<open>providers/rate_limit.py\<close>), and the reply's deltas are turned
  into Anthropic server-sent events (\<open>providers/openai_compat.py\<close>): text runs through the think tag
  parser and the heuristic tool call parser, and the SSE builder opens, continues and closes content
  blocks. For a provider with a native interface a sanitised body is sent
  (\<open>core/anthropic/native_messages_request.py\<close>, \<open>providers/deepseek/request.py\<close>), the upstream's own
  events are filtered and renumbered (\<open>core/anthropic/native_sse_block_policy.py\<close>) and a stream that
  breaks is ended well (\<open>providers/anthropic_messages.py\<close>). Which provider and model that is, the router
  decides (\<open>api/model_router.py\<close>); the registry (\<open>providers/registry.py\<close>) keeps the providers and the
  model list; a few requests are answered without any provider (\<open>api/optimization_handlers.py\<close>).
  On the messaging side every chat thread is a tree of message nodes with one queue
  (\<open>messaging/trees\<close>): replies are attached to their parent, processed one at a time, cancelled, failed
  and removed. Processing a node runs the command line in a session of the pool (\<open>cli/manager.py\<close>,
  \<open>cli/session.py\<close>), whose events change the node, the transcript (\<open>messaging/transcript.py\<close>) its
  status message shows, and the saved trees (\<open>messaging/session.py\<close>); outgoing messages pass a queue
  with compaction and a strict sliding window (\<open>messaging/limiter.py\<close>).

  \<^bold>\<open>Conventions.\<close> A string is a list of code points (\<open>pystr\<close>), a dictionary an association list in
  insertion order, an integer an \<open>int\<close> (Python's are unbounded), a time a rational. Exceptions are
  values of a sum type, and what the code leaves behind when it raises is part of the result. A
  generator procedure (\<open>Generators\<close>) gives the events it yields, how it ends and the state it leaves;
  the triple \<open>hoare\<close> runs an observer over the events. Library functions that are not modelled
  (\<open>json.loads\<close>, \<open>json.dumps\<close>, \<open>str\<close> of a structured value, lower and upper case, random ids, the
  tokenizer) are arguments of the definitions that use them; a theorem that relies on their behaviour
  says so in its assumptions. Logging has no effect on the model and is left out.

  \<^bold>\<open>Theories.\<close>
  \<^item> \<open>Prelude\<close>: strings, \<open>find\<close>, \<open>partition\<close>, \<open>strip\<close>, \<open>splitlines\<close>, dictionaries; \<open>Json\<close>: JSON values,
    \<open>core/anthropic/content.py\<close>, \<open>utils.py\<close>; \<open>Errors\<close>: \<open>providers/exceptions.py\<close>,
    \<open>error_mapping.py\<close>, \<open>core/anthropic/errors.py\<close>; \<open>Generators\<close>: Python generators and their triples.
  \<^item> \<open>Think_Tags\<close> (\<open>core/anthropic/thinking.py\<close>): the incremental parser refines a scan of the whole
    reply, whatever the pieces; it holds back at most a partial tag.
  \<^item> \<open>Tool_Heuristics\<close> (\<open>core/anthropic/tools.py\<close>): tool calls written as text; the feed loop ends,
    plain text passes through, a rendered call is read back.
  \<^item> \<open>Sse\<close>, \<open>Stream_Contract\<close> (\<open>core/anthropic/sse.py\<close>, \<open>stream_contracts.py\<close>): the block manager and
    builder, the line parser, the contract automaton and the extractors.
  \<^item> \<open>Openai_Stream\<close>, \<open>Openai_Content\<close> (\<open>providers/openai_compat.py\<close>): the streaming path with every
    error path. The invariant \<open>sse_ok\<close> links builder and automaton; it gives the contract for every
    upstream, and observers over the events give the content theorems.
  \<^item> \<open>Native_Policy\<close> (\<open>core/anthropic/native_sse_block_policy.py\<close>): the relation \<open>tracks\<close> simulates the
    contract automaton of the proxy's stream by that of the upstream's; what the policy does to text
    is what it does to parsed events.
  \<^item> \<open>Native_Transport\<close> (\<open>providers/anthropic_messages.py\<close>, \<open>core/anthropic/emitted_sse_tracker.py\<close>,
    \<open>provider_stream_error.py\<close>, \<open>providers/open_router/client.py\<close>): the tracker agrees with the contract
    automaton on what was sent, so a broken stream is closed to one that satisfies the contract.
  \<^item> \<open>Native_Request\<close>, \<open>Deepseek_Request\<close>, \<open>Nim_Request\<close> (\<open>core/anthropic/native_messages_request.py\<close>,
    \<open>providers/open_router/request.py\<close>, \<open>providers/deepseek/request.py\<close>, \<open>providers/nvidia_nim/request.py\<close>,
    \<open>config/nim.py\<close>): the bodies sent to native upstreams and to NIM, on the dump of a validated request;
    what they keep of the request, hide of earlier thinking, and cap or clean for the upstream.
  \<^item> \<open>Model_Routing\<close> (\<open>api/model_router.py\<close>, \<open>api/gateway_model_ids.py\<close>, \<open>config/provider_catalog.py\<close>,
    the model settings of \<open>config/settings.py\<close>), \<open>Provider_Registry\<close> (\<open>providers/registry.py\<close>,
    \<open>model_listing.py\<close>, the model list of \<open>api/routes.py\<close>): routing is total, advertised ids lead back
    to their model, validation reports exactly what cannot be used.
  \<^item> \<open>Local_Answers\<close> (\<open>api/detection.py\<close>, \<open>command_utils.py\<close>, \<open>optimization_handlers.py\<close>): detection
    of requests the proxy answers itself, with the command parser on Python's \<open>shlex\<close>.
  \<^item> \<open>Conversion\<close> (\<open>core/anthropic/conversion.py\<close>): the converted transcript answers every tool call in
    place, rejects exactly the unsupported blocks, and does not depend on hidden reasoning.
  \<^item> \<open>Sliding_Window\<close>, \<open>Rate_Limit\<close> (\<open>core/rate_limit.py\<close>, \<open>providers/rate_limit.py\<close>): the locale
    \<open>admission\<close> states what a client may rely on; \<open>Rate_Limit\<close> runs many requests at once.
  \<^item> \<open>Snapshot_Queue\<close>, \<open>Tree_Data\<close>, \<open>Tree_Queue\<close>, \<open>Tree_Manager\<close> (\<open>messaging/trees/data.py\<close>,
    \<open>messaging/trees/queue_manager.py\<close>): the queue (locale \<open>id_queue\<close>), the tree with its
    well-formedness invariant, tasks as steps, and the repository's index.
  \<^item> \<open>Session_Store\<close> (\<open>messaging/session.py\<close>): every operation, the save timer and the writes outside
    the lock as interleaved steps; what a restart restores and when it does not.
  \<^item> \<open>Event_Parser\<close>, \<open>Transcript\<close> (\<open>messaging/event_parser.py\<close>, \<open>cli_event_constants.py\<close>,
    \<open>transcript.py\<close>): segments in an explicit store, because the buffer and the subagents share them; a
    message shows the same streamed or whole.
  \<^item> \<open>Cli_Session\<close>, \<open>Cli_Manager\<close> (\<open>cli/session.py\<close>, \<open>cli/manager.py\<close>): a run of the command line as a
    refinement of its lines, and the pool's four tables with the invariant that no session is lost.
  \<^item> \<open>Node_Pipeline\<close> (\<open>messaging/node_event_pipeline.py\<close>, \<open>ui_updates.py\<close>, \<open>_process_node_impl\<close> of
    \<open>messaging/handler.py\<close>): one run over transcript, tree, store and pool together; it frees its session
    and leaves its node in the state the abstract \<open>run_state\<close> gives.
  \<^item> \<open>Message_Limiter\<close> (\<open>messaging/limiter.py\<close>): queue, worker, flood pause and shutdown as steps.

  \<^bold>\<open>Loops and fuel.\<close> Feed loops and flushes are total functions whose measure is the buffer. The
  traversals of \<open>Tree_Data\<close> and \<open>Tree_Manager\<close> follow child links and are partial functions into
  options; that they return on every reachable tree is a theorem. Concurrent parts are lists of
  scheduler actions, each executable, and the theorems quantify over all of them. The retry loop and
  the limiter's rounds are steps of such runs, so no fuel is needed; \<open>acquire\<close> takes a number of
  rounds, and two are proved enough.

  \<^bold>\<open>Not modelled.\<close> Bindings to libraries and services, because their behaviour is that of code
  outside the repository: FastAPI routes and application start, Telegram and Discord, starting and
  killing processes and the process registry, speech models, web fetching and HTML parsing, markdown
  rendering over a third-party token stream, the loading of Pydantic settings, the tokenizer. Of
  \<open>messaging/handler.py\<close> the entry point for incoming messages and the chat commands are left out. The
  tests, the smoke runs and the tools are no part of the program.
\<close>

end
